(* ===== verification/TC_Prelude.thy ===== *)
theory TC_Prelude
  imports Main "HOL-Library.Word" "HOL-Library.State_Monad"
begin

text \<open>
  Shared vocabulary of the development: the C types of the sources as words, the faults a C
  program can run into, a state monad that stops at the first fault, and the generic lemmas on
  lists and words that the component theories use.

  \<^item> \<open>pchar\<close> is plain \<open>char\<close>, which is signed on the platforms the project builds for
    (x86-64 and Apple); promoting it to \<open>int\<close> sign-extends, written \<open>scast\<close>.
  \<^item> A pointer into a byte buffer is the list of the bytes from that address to the end of the
    allocation, so that reading past the end is visible.
  \<^item> A C string is the list of its bytes before the terminating NUL.
\<close>

unbundle bit_operations_syntax

section \<open>C types\<close>

type_synonym pchar = "8 word"
type_synonym pint16 = "16 word"
type_synonym puint16 = "16 word"
type_synonym pint32 = "32 word"
type_synonym puint32 = "32 word"
type_synonym psize = "64 word"
type_synonym cstring = "pchar list"

text \<open>String literals of the sources, as bytes.\<close>

definition bytes_of :: "string \<Rightarrow> cstring" where
  "bytes_of s = map (\<lambda>c. of_nat (of_char c)) s"

lemma length_bytes_of [simp]: "length (bytes_of s) = length s"
  by (simp add: bytes_of_def)

text \<open>
  \<open>strncmp\<close> of the C library on strings given by their bytes before the terminator: bytes
  compare as unsigned characters, the end of a string as 0.
\<close>

fun strncmp :: "cstring \<Rightarrow> cstring \<Rightarrow> nat \<Rightarrow> int" where
  "strncmp xs ys 0 = 0"
| "strncmp [] [] (Suc n) = 0"
| "strncmp [] (y # ys) (Suc n) = - uint y"
| "strncmp (x # xs) [] (Suc n) = uint x"
| "strncmp (x # xs) (y # ys) (Suc n) = (if x = y then strncmp xs ys n else uint x - uint y)"

lemma strncmp_eq_0:
  assumes "0 \<notin> set xs" and "0 \<notin> set ys"
  shows "strncmp xs ys n = 0 \<longleftrightarrow> take n xs = take n ys"
  using assms by (induction xs ys n rule: strncmp.induct) (auto simp: word_uint_eq_iff)

text \<open>\<open>%d\<close> and \<open>%u\<close> of \<open>printf\<close>, and \<open>snprintf\<close> into a buffer of \<open>n\<close> bytes.\<close>

definition digit :: "nat \<Rightarrow> char" where
  "digit n = char_of (48 + n)"

fun decimal_nat :: "nat \<Rightarrow> string" where
  "decimal_nat n = (if n < 10 then [digit n] else decimal_nat (n div 10) @ [digit (n mod 10)])"

declare decimal_nat.simps [simp del]

definition decimal :: "int \<Rightarrow> string" where
  "decimal i = (if i < 0 then CHR ''-'' # decimal_nat (nat (- i)) else decimal_nat (nat i))"

definition snprintf :: "nat \<Rightarrow> string \<Rightarrow> string" where
  "snprintf n s = take (n - 1) s"

lemma decimal_nat_length: "n < 10 ^ Suc k \<Longrightarrow> length (decimal_nat n) \<le> Suc k"
proof (induction k arbitrary: n)
  case 0
  then show ?case by (subst decimal_nat.simps) simp
next
  case (Suc k)
  have "n div 10 < 10 ^ Suc k" using Suc.prems by (simp add: div_less_iff_less_mult mult.commute)
  from Suc.IH [OF this] show ?case by (subst decimal_nat.simps) simp
qed

section \<open>Faults and the fault monad\<close>

text \<open>
  What makes a C execution stop being meaningful: a failed \<open>assert\<close>, an access outside an
  allocation, a null dereference, locking a non-recursive mutex the thread already holds, and
  unlocking a mutex that is not held (the plibsys documentation warns against these two:
  implementation-dependent deadlock and unpredictable behaviour), using freed memory, reading
  a member of a union that is not the one stored, reading memory that was never
  written, and converting a float that is not a number or out of range to an integer.
\<close>

datatype fault =
    AssertFailure
  | OutOfBounds
  | NullDereference
  | SelfDeadlock
  | UnlockNotHeld
  | UseAfterFree
  | TypeConfusion
  | Uninitialised
  | BadConversion

type_synonym 'a outcome = "fault + 'a"
type_synonym ('s, 'a) cm = "'s \<Rightarrow> fault + 'a \<times> 's"

definition retC :: "'a \<Rightarrow> ('s, 'a) cm" where
  "retC a = (\<lambda>s. Inr (a, s))"

definition bindC :: "('s, 'a) cm \<Rightarrow> ('a \<Rightarrow> ('s, 'b) cm) \<Rightarrow> ('s, 'b) cm" where
  "bindC m k = (\<lambda>s. case m s of Inl f \<Rightarrow> Inl f | Inr (a, s') \<Rightarrow> k a s')"

definition thenC :: "('s, 'a) cm \<Rightarrow> ('s, 'b) cm \<Rightarrow> ('s, 'b) cm" where
  "thenC m k = bindC m (\<lambda>_. k)"

definition faultC :: "fault \<Rightarrow> ('s, 'a) cm" where
  "faultC f = (\<lambda>s. Inl f)"

definition getC :: "('s \<Rightarrow> 'a) \<Rightarrow> ('s, 'a) cm" where
  "getC f = (\<lambda>s. Inr (f s, s))"

definition modifyC :: "('s \<Rightarrow> 's) \<Rightarrow> ('s, unit) cm" where
  "modifyC f = (\<lambda>s. Inr ((), f s))"

text \<open>\<open>TC_ASSERT\<close> is \<open>assert\<close>: the process aborts when the condition is false.\<close>

definition tc_assert :: "('s \<Rightarrow> bool) \<Rightarrow> ('s, unit) cm" where
  "tc_assert P = (\<lambda>s. if P s then Inr ((), s) else Inl AssertFailure)"

definition liftC :: "'a outcome \<Rightarrow> ('s, 'a) cm" where
  "liftC x = (\<lambda>s. case x of Inl f \<Rightarrow> Inl f | Inr a \<Rightarrow> Inr (a, s))"

definition whenC :: "bool \<Rightarrow> ('s, unit) cm \<Rightarrow> ('s, unit) cm" where
  "whenC b m = (if b then m else retC ())"

named_theorems run_simps "execution rules of the fault monad"

lemma run_retC [run_simps]: "retC a s = Inr (a, s)"
  by (simp add: retC_def)

lemma run_bindC [run_simps]:
  "bindC m k s = (case m s of Inl f \<Rightarrow> Inl f | Inr (a, s') \<Rightarrow> k a s')"
  by (simp add: bindC_def)

lemma run_thenC [run_simps]:
  "thenC m k s = (case m s of Inl f \<Rightarrow> Inl f | Inr (a, s') \<Rightarrow> k s')"
  by (simp add: thenC_def bindC_def)

lemma run_faultC [run_simps]: "faultC f s = Inl f"
  by (simp add: faultC_def)

lemma run_getC [run_simps]: "getC f s = Inr (f s, s)"
  by (simp add: getC_def)

lemma run_modifyC [run_simps]: "modifyC f s = Inr ((), f s)"
  by (simp add: modifyC_def)

lemma run_tc_assert [run_simps]:
  "tc_assert P s = (if P s then Inr ((), s) else Inl AssertFailure)"
  by (simp add: tc_assert_def)

lemma run_liftC [run_simps]:
  "liftC x s = (case x of Inl f \<Rightarrow> Inl f | Inr a \<Rightarrow> Inr (a, s))"
  by (simp add: liftC_def)

lemma run_whenC [run_simps]: "whenC b m s = (if b then m s else Inr ((), s))"
  by (simp add: whenC_def retC_def)

lemma bindC_assoc: "bindC (bindC m f) g = bindC m (\<lambda>x. bindC (f x) g)"
  by (rule ext) (simp add: bindC_def split: sum.splits prod.splits)

lemma outcome_Inr: "\<not> isl x \<Longrightarrow> x = Inr (fst (projr x), snd (projr x))"
  by (cases x) auto

section \<open>Running an action\<close>

text \<open>
  \<open>runs F m s Q\<close>: from \<open>s\<close> the action ends in a result and state that satisfy \<open>Q\<close>, or in a fault
  that \<open>F\<close> allows; with the empty set the action never faults. The rules compute it backwards.
\<close>

definition runs :: "fault set \<Rightarrow> ('s, 'a) cm \<Rightarrow> 's \<Rightarrow> ('a \<Rightarrow> 's \<Rightarrow> bool) \<Rightarrow> bool" where
  "runs F m s Q \<longleftrightarrow> (case m s of Inl f \<Rightarrow> f \<in> F | Inr (a, s') \<Rightarrow> Q a s')"

named_theorems runs_rules "backward rules for runs"

lemma runs_retC [runs_rules]: "runs F (retC a) s Q \<longleftrightarrow> Q a s"
  by (simp add: runs_def retC_def)

lemma runs_bindC [runs_rules]: "runs F (bindC m k) s Q \<longleftrightarrow> runs F m s (\<lambda>a s'. runs F (k a) s' Q)"
  by (simp add: runs_def bindC_def split: sum.split prod.split)

lemma runs_thenC [runs_rules]: "runs F (thenC m k) s Q \<longleftrightarrow> runs F m s (\<lambda>_ s'. runs F k s' Q)"
  by (simp add: thenC_def runs_bindC)

lemma runs_faultC [runs_rules]: "runs F (faultC f) s Q \<longleftrightarrow> f \<in> F"
  by (simp add: runs_def faultC_def)

lemma runs_getC [runs_rules]: "runs F (getC f) s Q \<longleftrightarrow> Q (f s) s"
  by (simp add: runs_def getC_def)

lemma runs_modifyC [runs_rules]: "runs F (modifyC f) s Q \<longleftrightarrow> Q () (f s)"
  by (simp add: runs_def modifyC_def)

lemma runs_tc_assert [runs_rules]:
  "runs F (tc_assert P) s Q \<longleftrightarrow> (if P s then Q () s else AssertFailure \<in> F)"
  by (simp add: runs_def tc_assert_def)

lemma runs_liftC [runs_rules]:
  "runs F (liftC x) s Q \<longleftrightarrow> (case x of Inl f \<Rightarrow> f \<in> F | Inr a \<Rightarrow> Q a s)"
  by (simp add: runs_def liftC_def split: sum.split)

lemma runs_whenC [runs_rules]: "runs F (whenC b m) s Q \<longleftrightarrow> (if b then runs F m s Q else Q () s)"
  by (simp add: whenC_def runs_retC)

lemma runs_if [runs_rules]: "runs F (if b then m else k) s Q \<longleftrightarrow> (if b then runs F m s Q else runs F k s Q)"
  by simp

lemma runs_option [runs_rules]:
  "runs F (case x of None \<Rightarrow> m | Some a \<Rightarrow> k a) s Q
   \<longleftrightarrow> (case x of None \<Rightarrow> runs F m s Q | Some a \<Rightarrow> runs F (k a) s Q)"
  by (simp split: option.split)

lemma runs_prod [runs_rules]: "runs F (case p of (a, b) \<Rightarrow> k a b) s Q \<longleftrightarrow> (case p of (a, b) \<Rightarrow> runs F (k a b) s Q)"
  by (simp split: prod.split)

lemma runs_mono: "runs F m s Q \<Longrightarrow> (\<And>a s'. Q a s' \<Longrightarrow> Q' a s') \<Longrightarrow> runs F m s Q'"
  by (auto simp: runs_def split: sum.splits)

lemma runs_seq: "runs F m s R \<Longrightarrow> (\<And>a t. R a t \<Longrightarrow> runs F (k a) t Q) \<Longrightarrow> runs F (bindC m k) s Q"
  by (auto simp: runs_bindC elim: runs_mono)

lemma runs_then: "runs F m s R \<Longrightarrow> (\<And>a t. R a t \<Longrightarrow> runs F k t Q) \<Longrightarrow> runs F (thenC m k) s Q"
  by (auto simp: runs_thenC elim: runs_mono)

lemma runs_conj: "runs F m s Q \<Longrightarrow> runs F m s Q' \<Longrightarrow> runs F m s (\<lambda>a s'. Q a s' \<and> Q' a s')"
  by (auto simp: runs_def split: sum.splits)

lemma runs_faults: "runs F m s Q \<Longrightarrow> F \<subseteq> G \<Longrightarrow> runs G m s Q"
  by (auto simp: runs_def split: sum.splits)

lemma runs_total: "runs {} m s Q \<longleftrightarrow> (\<exists>a s'. m s = Inr (a, s') \<and> Q a s')"
  by (auto simp: runs_def split: sum.splits)

lemma runs_result: "runs F m s Q \<Longrightarrow> m s = Inr (a, s') \<Longrightarrow> Q a s'"
  by (simp add: runs_def)

section \<open>Lists\<close>

lemma less_4_cases: "(k::nat) < 4 \<Longrightarrow> k = 0 \<or> k = 1 \<or> k = 2 \<or> k = 3"
  by linarith

lemma take_update_drop:
  assumes "i < length xs"
  shows "xs[i := x] = take i xs @ x # drop (Suc i) xs"
  using assms by (simp add: upd_conv_take_nth_drop)

lemma nth_list_update_iff:
  "i < length xs \<Longrightarrow> xs[i := x] ! j = (if i = j then x else xs ! j)"
  by (simp add: nth_list_update)

lemma filter_list_update_length:
  assumes "i < length xs"
  shows "length (filter P (xs[i := x])) + (if P (xs ! i) then 1 else 0)
       = length (filter P xs) + (if P x then 1 else 0)"
proof -
  have a: "xs = take i xs @ xs ! i # drop (Suc i) xs"
    using assms by (rule id_take_nth_drop)
  have b: "length (filter P xs)
      = length (filter P (take i xs)) + (if P (xs ! i) then 1 else 0)
        + length (filter P (drop (Suc i) xs))"
    by (subst a) simp
  have c: "length (filter P (xs[i := x]))
      = length (filter P (take i xs)) + (if P x then 1 else 0)
        + length (filter P (drop (Suc i) xs))"
    using assms by (simp add: take_update_drop)
  show ?thesis unfolding b c by simp
qed

section \<open>Words, bit by bit\<close>

lemma word_eq_upt:
  "v = w \<longleftrightarrow> list_all (\<lambda>n. bit v n = bit w n) [0..<LENGTH('a)]" for v w :: "'a::len word"
  by (auto simp: list_all_iff bit_eq_iff)

lemma upt_bits:
  "[0..<8] = [0, 1, 2, 3, 4, 5, 6, 7]" "[0..<16] = [0, 1, 2, 3, 4, 5, 6, 7, 8, 9, 10, 11, 12, 13, 14, 15]" "[0..<32] = [0, 1, 2, 3, 4, 5, 6, 7, 8, 9, 10, 11, 12, 13, 14, 15, 16, 17, 18, 19, 20, 21, 22, 23, 24, 25, 26, 27, 28, 29, 30, 31]"
  "[0..<64] = [0, 1, 2, 3, 4, 5, 6, 7, 8, 9, 10, 11, 12, 13, 14, 15, 16, 17, 18, 19, 20, 21, 22, 23, 24,
    25, 26, 27, 28, 29, 30, 31, 32, 33, 34, 35, 36, 37, 38, 39, 40, 41, 42, 43, 44, 45, 46,
    47, 48, 49, 50, 51, 52, 53, 54, 55, 56, 57, 58, 59, 60, 61, 62, 63]"
  by code_simp+

lemma bit_beyond: "LENGTH('a) \<le> n \<Longrightarrow> \<not> bit w n" for w :: "'a::len word"
  using bit_imp_le_length by force

lemmas bit_table = word_eq_upt upt_bits bit_word_ucast_iff bit_word_scast_iff bit_push_bit_iff
  bit_or_iff bit_and_iff bit_drop_bit_eq bit_signed_drop_bit_iff possible_bit_word bit_beyond

end
