(* ===== verification/TC_Interfaces.thy ===== *)
theory TC_Interfaces
  imports TC_Prelude
begin

text \<open>
  The contracts between components, as locales: what a client relies on and a provider
  discharges by an interpretation on its model.
\<close>

section \<open>Bounded FIFO queues\<close>

text \<open>
  A queue with room for \<open>limit q\<close> elements, seen as the list of its elements in order:
  \<open>put\<close> appends while there is room and refuses otherwise, \<open>get\<close> removes the first one.
\<close>

fun put_all :: "('x \<Rightarrow> 'q \<Rightarrow> bool \<times> 'q) \<Rightarrow> 'x list \<Rightarrow> 'q \<Rightarrow> bool \<times> 'q" where
  "put_all put [] q = (True, q)"
| "put_all put (x # xs) q = (case put x q of (ok, q') \<Rightarrow> if ok then put_all put xs q' else (False, q'))"

fun get_many :: "('q \<Rightarrow> 'x \<times> 'q) \<Rightarrow> nat \<Rightarrow> 'q \<Rightarrow> 'x list \<times> 'q" where
  "get_many get 0 q = ([], q)"
| "get_many get (Suc n) q =
     (case get q of (x, q') \<Rightarrow> case get_many get n q' of (xs, q'') \<Rightarrow> (x # xs, q''))"

locale task_queue =
  fixes invar :: "'q \<Rightarrow> bool"
    and contents :: "'q \<Rightarrow> 'x list"
    and limit :: "'q \<Rightarrow> nat"
    and put :: "'x \<Rightarrow> 'q \<Rightarrow> bool \<times> 'q"
    and get :: "'q \<Rightarrow> 'x \<times> 'q"
  assumes bounded: "invar q \<Longrightarrow> length (contents q) \<le> limit q"
    and put_room: "invar q \<Longrightarrow> length (contents q) < limit q \<Longrightarrow>
      \<exists>q'. put x q = (True, q') \<and> invar q' \<and> contents q' = contents q @ [x] \<and> limit q' = limit q"
    and put_full: "invar q \<Longrightarrow> length (contents q) = limit q \<Longrightarrow> put x q = (False, q)"
    and get_first: "invar q \<Longrightarrow> contents q = x # xs \<Longrightarrow>
      \<exists>q'. get q = (x, q') \<and> invar q' \<and> contents q' = xs \<and> limit q' = limit q"
begin

lemma put_all_room:
  assumes "invar q" and "length (contents q) + length xs \<le> limit q"
  shows "\<exists>q'. put_all put xs q = (True, q') \<and> invar q' \<and> contents q' = contents q @ xs
    \<and> limit q' = limit q"
  using assms
proof (induction xs arbitrary: q)
  case Nil
  then show ?case by simp
next
  case (Cons x xs)
  then have "length (contents q) < limit q" by simp
  with Cons.prems(1) obtain q1 where q1: "put x q = (True, q1)" "invar q1"
      "contents q1 = contents q @ [x]" "limit q1 = limit q"
    using put_room by blast
  with Cons.prems have "length (contents q1) + length xs \<le> limit q1" by simp
  with Cons.IH q1(2) obtain q2 where "put_all put xs q1 = (True, q2)" "invar q2"
      "contents q2 = contents q1 @ xs" "limit q2 = limit q1"
    by blast
  with q1 show ?case by simp
qed

lemma get_many_prefix:
  assumes "invar q" and "n \<le> length (contents q)"
  shows "\<exists>q'. get_many get n q = (take n (contents q), q') \<and> invar q'
    \<and> contents q' = drop n (contents q) \<and> limit q' = limit q"
  using assms
proof (induction n arbitrary: q)
  case 0
  then show ?case by simp
next
  case (Suc n)
  then obtain x xs where x: "contents q = x # xs"
    by (cases "contents q") auto
  with Suc.prems(1) obtain q1 where q1: "get q = (x, q1)" "invar q1" "contents q1 = xs"
      "limit q1 = limit q"
    using get_first by blast
  with Suc.prems x have "n \<le> length (contents q1)" by simp
  with Suc.IH q1(2) obtain q2 where "get_many get n q1 = (take n (contents q1), q2)" "invar q2"
      "contents q2 = drop n (contents q1)" "limit q2 = limit q1"
    by blast
  with q1 x show ?case by simp
qed

text \<open>First in, first out: what is put in comes out in the same order.\<close>

lemma fifo:
  assumes "invar q" and "length (contents q) + length xs \<le> limit q"
  shows "\<exists>q1 q2. put_all put xs q = (True, q1)
    \<and> get_many get (length (contents q) + length xs) q1 = (contents q @ xs, q2)
    \<and> invar q2 \<and> contents q2 = []"
proof -
  obtain q1 where q1: "put_all put xs q = (True, q1)" "invar q1" "contents q1 = contents q @ xs"
    using put_all_room [OF assms] by blast
  have "length (contents q) + length xs \<le> length (contents q1)" using q1 by simp
  from get_many_prefix [OF q1(2) this] q1 show ?thesis by auto
qed

end

section \<open>Growable buffers\<close>

text \<open>
  A buffer without a fixed limit: \<open>push\<close> appends, or leaves the contents as they are when there
  is no memory, and never faults.
\<close>

fun push_many :: "('x \<Rightarrow> 'q \<Rightarrow> fault + bool \<times> 'q) \<Rightarrow> 'x list \<Rightarrow> 'q \<Rightarrow> fault + bool list \<times> 'q" where
  "push_many push [] q = Inr ([], q)"
| "push_many push (x # xs) q =
     (case push x q of
        Inl f \<Rightarrow> Inl f
      | Inr (ok, q1) \<Rightarrow>
          (case push_many push xs q1 of Inl f \<Rightarrow> Inl f | Inr (oks, q2) \<Rightarrow> Inr (ok # oks, q2)))"

locale growable_buffer =
  fixes invar :: "'q \<Rightarrow> bool"
    and contents :: "'q \<Rightarrow> 'x list"
    and push :: "'x \<Rightarrow> 'q \<Rightarrow> fault + bool \<times> 'q"
  assumes push_total: "invar q \<Longrightarrow> \<exists>ok q'. push x q = Inr (ok, q') \<and> invar q'
      \<and> contents q' = (if ok then contents q @ [x] else contents q)"
begin

text \<open>The buffer holds exactly the accepted elements, in the order they were pushed.\<close>

lemma push_many_accepted:
  assumes "invar q"
  shows "\<exists>oks q'. push_many push xs q = Inr (oks, q') \<and> invar q' \<and> length oks = length xs
    \<and> contents q' = contents q @ map fst (filter snd (zip xs oks))"
  using assms
proof (induction xs arbitrary: q)
  case Nil
  then show ?case by simp
next
  case (Cons x xs)
  obtain ok q1 where q1: "push x q = Inr (ok, q1)" "invar q1"
      "contents q1 = (if ok then contents q @ [x] else contents q)"
    using push_total [OF Cons.prems] by blast
  obtain oks q2 where q2: "push_many push xs q1 = Inr (oks, q2)" "invar q2" "length oks = length xs"
      "contents q2 = contents q1 @ map fst (filter snd (zip xs oks))"
    using Cons.IH [OF q1(2)] by blast
  have "push_many push (x # xs) q = Inr (ok # oks, q2)" using q1(1) q2(1) by simp
  moreover have "contents q2 = contents q @ map fst (filter snd (zip (x # xs) (ok # oks)))"
    using q1(3) q2(4) by simp
  ultimately show ?case using q2(2,3) by (intro exI [of _ "ok # oks"] exI [of _ q2]) simp
qed

end

section \<open>Block stores\<close>

text \<open>
  A store of blocks addressed by position: reading a position that was written gives what the
  store can hold of the block, the other positions keep theirs.
\<close>

fun set_all :: "('m \<Rightarrow> 'p \<Rightarrow> 'b \<Rightarrow> 'm outcome) \<Rightarrow> ('p \<times> 'b) list \<Rightarrow> 'm \<Rightarrow> 'm outcome" where
  "set_all upd [] m = Inr m"
| "set_all upd ((p, b) # es) m = (case upd m p b of Inl f \<Rightarrow> Inl f | Inr m' \<Rightarrow> set_all upd es m')"

locale block_store =
  fixes invar :: "'m \<Rightarrow> bool"
    and valid :: "'m \<Rightarrow> 'p \<Rightarrow> bool"
    and get :: "'m \<Rightarrow> 'p \<Rightarrow> 'b outcome"
    and upd :: "'m \<Rightarrow> 'p \<Rightarrow> 'b \<Rightarrow> 'm outcome"
    and trunc :: "'m \<Rightarrow> 'b \<Rightarrow> 'b"
  assumes get_total: "invar m \<Longrightarrow> valid m p \<Longrightarrow> \<exists>b. get m p = Inr b"
    and set_total: "invar m \<Longrightarrow> valid m p \<Longrightarrow> \<exists>m'. upd m p b = Inr m'"
    and set_keeps: "invar m \<Longrightarrow> valid m p \<Longrightarrow> upd m p b = Inr m' \<Longrightarrow>
      invar m' \<and> valid m' = valid m \<and> trunc m' = trunc m"
    and get_same: "invar m \<Longrightarrow> valid m p \<Longrightarrow> upd m p b = Inr m' \<Longrightarrow> get m' p = Inr (trunc m b)"
    and get_other: "invar m \<Longrightarrow> valid m p \<Longrightarrow> valid m q \<Longrightarrow> q \<noteq> p \<Longrightarrow> upd m p b = Inr m' \<Longrightarrow>
      get m' q = get m q"
begin

text \<open>After a sequence of writes every position holds the last block written to it.\<close>

lemma set_all_last:
  assumes "invar m" and "\<forall>(p, b) \<in> set es. valid m p"
  shows "\<exists>m'. set_all upd es m = Inr m' \<and> invar m' \<and> valid m' = valid m
    \<and> (\<forall>q. valid m q \<longrightarrow> get m' q =
        (case map_of (rev es) q of None \<Rightarrow> get m q | Some b \<Rightarrow> Inr (trunc m b)))"
  using assms
proof (induction es arbitrary: m)
  case Nil
  then show ?case by simp
next
  case (Cons e es)
  obtain p b where e: "e = (p, b)" by force
  with Cons.prems have v: "valid m p" "\<forall>(p, b) \<in> set es. valid m p" by auto
  obtain m1 where m1: "upd m p b = Inr m1" using set_total [OF Cons.prems(1) v(1)] by blast
  have k: "invar m1" "valid m1 = valid m" "trunc m1 = trunc m"
    using set_keeps [OF Cons.prems(1) v(1) m1] by blast+
  obtain m' where m': "set_all upd es m1 = Inr m'" "invar m'" "valid m' = valid m"
    "\<forall>q. valid m q \<longrightarrow> get m' q =
        (case map_of (rev es) q of None \<Rightarrow> get m1 q | Some b \<Rightarrow> Inr (trunc m b))"
    using Cons.IH [OF k(1), unfolded k(2,3), OF v(2)] by blast
  have "get m' q = (case map_of (rev (e # es)) q of None \<Rightarrow> get m q | Some b \<Rightarrow> Inr (trunc m b))"
    if "valid m q" for q
    using that m'(4) get_same [OF Cons.prems(1) v(1) m1] get_other [OF Cons.prems(1) v(1) that _ m1]
    by (cases "q = p") (auto simp: e map_add_def split: option.splits)
  with m' m1 show ?case by (simp add: e)
qed

end

end
