(* ===== verification/TC_Thread_Pool.thy ===== *)
theory TC_Thread_Pool
  imports TC_Interfaces
begin

text \<open>
  The worker thread pool of \<^verbatim>\<open>src/thread_pool.c\<close>: four bounded ring buffers, one per task
  priority, the round-robin dequeue, the scheduling operations and the worker loop. Every
  operation of the source runs between \<open>p_mutex_lock(pool->lock)\<close> and the matching unlock, so
  one operation is one atomic function on the pool. The worker threads are a step relation over
  the pool and the state of each worker.

  Function pointers are elements of a type \<open>'f\<close>, task arguments of a type \<open>'a\<close>; \<open>NULL\<close> is
  \<open>None\<close>.
\<close>

section \<open>Data\<close>

text \<open>\<open>TC_THREADS_STD_BUFFER_SIZE\<close>, \<open>TC_THREADS_MAX_THREADS\<close>, \<open>TC_THREAD_POOL_MAX_PRIORITY\<close>\<close>

definition TC_THREADS_STD_BUFFER_SIZE :: nat where
  "TC_THREADS_STD_BUFFER_SIZE = 128"

definition TC_THREADS_MAX_THREADS :: nat where
  "TC_THREADS_MAX_THREADS = 16"

definition TC_THREAD_POOL_MAX_PRIORITY :: nat where
  "TC_THREAD_POOL_MAX_PRIORITY = 4"

datatype tc_thread_pool_task_priority =
    PRIORITY_INVALID
  | PRIORITY_HIGH
  | PRIORITY_MEDIUM
  | PRIORITY_BLOCKING
  | PRIORITY_LOW

text \<open>The index into \<open>task_prio_buffer\<close>; \<open>PRIORITY_INVALID = -1\<close> is outside the array.\<close>

fun priority_index :: "tc_thread_pool_task_priority \<Rightarrow> nat option" where
  "priority_index PRIORITY_INVALID = None"
| "priority_index PRIORITY_HIGH = Some 0"
| "priority_index PRIORITY_MEDIUM = Some 1"
| "priority_index PRIORITY_BLOCKING = Some 2"
| "priority_index PRIORITY_LOW = Some 3"

record ('f, 'a) tc_thread_pool_context =
  priority :: tc_thread_pool_task_priority
  func :: "'f option"
  arg :: "'a option"
  session_generation :: int

record ('f, 'a) tc_thread_pool_task_buf =
  buffer :: "('f, 'a) tc_thread_pool_context list"
  head_index :: nat
  tail_index :: nat
  capacity :: nat

record ('f, 'a) tc_thread_pool =
  task_prio_buffer :: "('f, 'a) tc_thread_pool_task_buf list"
  round_robin_pattern :: string
  num_threads :: nat
  round_robin_index :: nat
  active_threads :: int
  blocking_active :: nat
  max_blocking_threads :: nat
  shutdown :: bool

section \<open>Task buffers\<close>

definition init_task_buffer ::
    "('f, 'a) tc_thread_pool_context list \<Rightarrow> nat \<Rightarrow> ('f, 'a) tc_thread_pool_task_buf" where
  "init_task_buffer buf cap = \<lparr>buffer = buf, head_index = 0, tail_index = 0, capacity = cap\<rparr>"

definition task_buffer_remaining_capacity :: "('f, 'a) tc_thread_pool_task_buf \<Rightarrow> nat" where
  "task_buffer_remaining_capacity tb =
     (let used = (head_index tb + capacity tb - tail_index tb) mod capacity tb
      in (capacity tb - 1) - used)"

definition task_buffer_is_empty :: "('f, 'a) tc_thread_pool_task_buf \<Rightarrow> bool" where
  "task_buffer_is_empty tb \<longleftrightarrow> head_index tb = tail_index tb"

definition task_buffer_enqueue ::
    "('f, 'a) tc_thread_pool \<Rightarrow> ('f, 'a) tc_thread_pool_task_buf
     \<Rightarrow> ('f, 'a) tc_thread_pool_context \<Rightarrow> bool \<Rightarrow> bool
     \<Rightarrow> bool \<times> ('f, 'a) tc_thread_pool_task_buf" where
  "task_buffer_enqueue pool tb task is_yield is_blocking =
     (let remaining_capacity = task_buffer_remaining_capacity tb;
          reserved_capacity = (if is_blocking then max_blocking_threads pool else num_threads pool)
      in if \<not> is_yield \<and> remaining_capacity \<le> reserved_capacity then (False, tb)
         else let next_head = (head_index tb + 1) mod capacity tb
              in if next_head = tail_index tb then (False, tb)
                 else (True, tb\<lparr>buffer := (buffer tb)[head_index tb := task],
                                head_index := next_head\<rparr>))"

definition invalid_task :: "('f, 'a) tc_thread_pool_context" where
  "invalid_task = \<lparr>priority = PRIORITY_LOW, func = None, arg = None, session_generation = 0\<rparr>"

definition task_buffer_dequeue ::
    "('f, 'a) tc_thread_pool_task_buf
     \<Rightarrow> ('f, 'a) tc_thread_pool_context \<times> ('f, 'a) tc_thread_pool_task_buf" where
  "task_buffer_dequeue tb =
     (if head_index tb = tail_index tb then (invalid_task, tb)
      else (buffer tb ! tail_index tb,
            tb\<lparr>tail_index := (tail_index tb + 1) mod capacity tb\<rparr>))"

section \<open>Choosing a task\<close>

definition buffer_eligible :: "('f, 'a) tc_thread_pool \<Rightarrow> nat \<Rightarrow> bool" where
  "buffer_eligible pool i =
     (if task_buffer_is_empty (task_prio_buffer pool ! i) then False
      else if priority_index PRIORITY_BLOCKING = Some i
              \<and> blocking_active pool \<ge> max_blocking_threads pool then False
      else True)"

definition thread_pool_has_tasks :: "('f, 'a) tc_thread_pool \<Rightarrow> bool" where
  "thread_pool_has_tasks pool =
     list_ex (buffer_eligible pool) [0..<TC_THREAD_POOL_MAX_PRIORITY]"

text \<open>
  The character under the round-robin index; reading the terminating NUL resets the index to 0.
  The second component is the index after the increment.
\<close>

definition round_robin_next :: "string \<Rightarrow> nat \<Rightarrow> char \<times> nat" where
  "round_robin_next pat i =
     (let current = (if i < length pat then pat ! i else CHR 0x00)
      in if current = CHR 0x00
         then ((if pat = [] then CHR 0x00 else pat ! 0), 1)
         else (current, i + 1))"

text \<open>The search from the chosen buffer over all four, wrapping around.\<close>

fun dequeue_search ::
    "nat \<Rightarrow> ('f, 'a) tc_thread_pool \<Rightarrow> nat
     \<Rightarrow> ('f, 'a) tc_thread_pool_context \<times> ('f, 'a) tc_thread_pool" where
  "dequeue_search 0 pool i = (invalid_task, pool)"
| "dequeue_search (Suc n) pool i =
     (if buffer_eligible pool i
      then (let (task, tb) = task_buffer_dequeue (task_prio_buffer pool ! i)
            in (task, pool\<lparr>task_prio_buffer := (task_prio_buffer pool)[i := tb]\<rparr>))
      else dequeue_search n pool ((i + 1) mod TC_THREAD_POOL_MAX_PRIORITY))"

text \<open>A pattern character outside \<open>A\<close>--\<open>D\<close> indexes outside \<open>task_prio_buffer\<close>.\<close>

definition task_pool_dequeue ::
    "('f, 'a) tc_thread_pool
     \<Rightarrow> (('f, 'a) tc_thread_pool_context \<times> ('f, 'a) tc_thread_pool) outcome" where
  "task_pool_dequeue pool =
     (let (current_buffer, i) = round_robin_next (round_robin_pattern pool) (round_robin_index pool);
          current_buffer_index = int (of_char current_buffer) - int (of_char CHR ''A'')
      in if current_buffer_index < 0 \<or> int TC_THREAD_POOL_MAX_PRIORITY \<le> current_buffer_index
         then Inl OutOfBounds
         else Inr (dequeue_search TC_THREAD_POOL_MAX_PRIORITY
                     (pool\<lparr>round_robin_index := i\<rparr>) (nat current_buffer_index)))"

section \<open>Initialisation and shutdown\<close>

text \<open>
  The part of \<open>tc_thread_pool_init\<close> that computes the state: \<open>ideal\<close> is
  \<open>p_uthread_ideal_count()\<close>, the flags say whether the mutex, the condition variable and each
  worker thread could be created.
\<close>

definition tc_thread_pool_init ::
    "int \<Rightarrow> bool \<Rightarrow> bool \<Rightarrow> bool list \<Rightarrow> string \<Rightarrow> nat \<Rightarrow> nat
     \<Rightarrow> ('f, 'a) tc_thread_pool option" where
  "tc_thread_pool_init ideal mutex_ok cond_ok thread_ok pattern reserved_threads max_blocking =
     (if int reserved_threads \<ge> ideal then None
      else let n = ideal - int reserved_threads;
               n' = (if n \<ge> int TC_THREADS_MAX_THREADS then int TC_THREADS_MAX_THREADS else n)
           in if \<not> mutex_ok then None
              else if \<not> cond_ok then None
              else if \<not> list_all id (take (nat n') thread_ok) then None
              else Some
                \<lparr>task_prio_buffer =
                   [init_task_buffer (replicate (TC_THREADS_STD_BUFFER_SIZE div 2) invalid_task)
                      (TC_THREADS_STD_BUFFER_SIZE div 2),
                    init_task_buffer (replicate TC_THREADS_STD_BUFFER_SIZE invalid_task)
                      TC_THREADS_STD_BUFFER_SIZE,
                    init_task_buffer (replicate TC_THREADS_STD_BUFFER_SIZE invalid_task)
                      TC_THREADS_STD_BUFFER_SIZE,
                    init_task_buffer (replicate (2 * TC_THREADS_STD_BUFFER_SIZE) invalid_task)
                      (2 * TC_THREADS_STD_BUFFER_SIZE)],
                 round_robin_pattern = pattern,
                 num_threads = nat n',
                 round_robin_index = 0,
                 active_threads = 0,
                 blocking_active = 0,
                 max_blocking_threads = max_blocking,
                 shutdown = False\<rparr>)"

definition tc_thread_pool_stop :: "('f, 'a) tc_thread_pool \<Rightarrow> ('f, 'a) tc_thread_pool" where
  "tc_thread_pool_stop pool = pool\<lparr>shutdown := True\<rparr>"

section \<open>Scheduling\<close>

text \<open>
  Enqueue into \<open>pool->task_prio_buffer[priority]\<close>; \<open>PRIORITY_INVALID\<close> is an access before
  the array.
\<close>

definition pool_enqueue ::
    "('f, 'a) tc_thread_pool \<Rightarrow> ('f, 'a) tc_thread_pool_context \<Rightarrow> bool
     \<Rightarrow> (bool \<times> ('f, 'a) tc_thread_pool) outcome" where
  "pool_enqueue pool task is_yield =
     (case priority_index (priority task) of
        None \<Rightarrow> Inl OutOfBounds
      | Some i \<Rightarrow>
          (let (ok, tb) = task_buffer_enqueue pool (task_prio_buffer pool ! i) task is_yield
                            (priority task = PRIORITY_BLOCKING)
           in Inr (ok, pool\<lparr>task_prio_buffer := (task_prio_buffer pool)[i := tb]\<rparr>)))"

definition tc_thread_schedule_new ::
    "('f, 'a) tc_thread_pool \<Rightarrow> 'f \<Rightarrow> 'a \<Rightarrow> tc_thread_pool_task_priority \<Rightarrow> int
     \<Rightarrow> (bool \<times> ('f, 'a) tc_thread_pool) outcome" where
  "tc_thread_schedule_new pool new_task a prio gen =
     (if shutdown pool then Inr (False, pool)
      else pool_enqueue pool
             \<lparr>priority = prio, func = Some new_task, arg = Some a, session_generation = gen\<rparr> False)"

definition tc_thread_schedule_next ::
    "('f, 'a) tc_thread_pool \<Rightarrow> 'f \<Rightarrow> 'f option \<Rightarrow> 'a \<Rightarrow> tc_thread_pool_task_priority \<Rightarrow> int
     \<Rightarrow> ('f, 'a) tc_thread_pool outcome" where
  "tc_thread_schedule_next pool next_task shutdown_task a prio gen =
     (let f = (if shutdown pool then shutdown_task else Some next_task)
      in if f = None then Inr pool
         else case pool_enqueue pool
                     \<lparr>priority = prio, func = f, arg = Some a, session_generation = gen\<rparr> True of
                Inl e \<Rightarrow> Inl e
              | Inr (ok, pool') \<Rightarrow> if ok then Inr pool' else Inl AssertFailure)"

definition tc_thread_schedule_next2 ::
    "('f, 'a) tc_thread_pool \<Rightarrow> 'f option \<Rightarrow> 'a \<Rightarrow> tc_thread_pool_task_priority \<Rightarrow> int
     \<Rightarrow> (bool \<times> ('f, 'a) tc_thread_pool) outcome" where
  "tc_thread_schedule_next2 pool next_task a prio gen =
     (if shutdown pool then Inr (False, pool)
      else if next_task = None then Inr (False, pool)
      else case pool_enqueue pool
                  \<lparr>priority = prio, func = next_task, arg = Some a, session_generation = gen\<rparr>
                  True of
             Inl e \<Rightarrow> Inl e
           | Inr (ok, pool') \<Rightarrow> if ok then Inr (True, pool') else Inl AssertFailure)"


section \<open>The worker loop\<close>

text \<open>
  A worker holds the lock while it waits and picks a task, releases it while the task runs and
  takes it again afterwards. \<open>worker_take\<close> is the part from the successful check of
  \<open>thread_pool_has_tasks\<close> to the unlock before the task runs, \<open>worker_finish\<close> the part after
  it; \<open>worker_exits\<close> is the condition of the \<open>return\<close> in the waiting loop.
\<close>

definition worker_take ::
    "('f, 'a) tc_thread_pool
     \<Rightarrow> (('f, 'a) tc_thread_pool_context \<times> ('f, 'a) tc_thread_pool) outcome" where
  "worker_take pool =
     (case task_pool_dequeue pool of
        Inl e \<Rightarrow> Inl e
      | Inr (task, pool') \<Rightarrow>
          Inr (task,
               pool'\<lparr>active_threads := active_threads pool' + 1,
                     blocking_active := (if priority task = PRIORITY_BLOCKING
                       then blocking_active pool' + 1 else blocking_active pool')\<rparr>))"

definition worker_finish ::
    "('f, 'a) tc_thread_pool_context \<Rightarrow> ('f, 'a) tc_thread_pool \<Rightarrow> ('f, 'a) tc_thread_pool" where
  "worker_finish task pool =
     pool\<lparr>active_threads := active_threads pool - 1,
          blocking_active := (if priority task = PRIORITY_BLOCKING
            then blocking_active pool - 1 else blocking_active pool)\<rparr>"

definition worker_exits :: "('f, 'a) tc_thread_pool \<Rightarrow> bool" where
  "worker_exits pool \<longleftrightarrow>
     \<not> thread_pool_has_tasks pool \<and> shutdown pool \<and> active_threads pool = 0"

text \<open>
  A worker is waiting, runs a task (the flag says whether the task has already scheduled its
  continuation), or has returned.
\<close>

datatype ('f, 'a) worker =
    Waiting
  | Running "('f, 'a) tc_thread_pool_context" bool
  | Exited

record ('f, 'a) pool_system =
  pool_of :: "('f, 'a) tc_thread_pool"
  workers :: "('f, 'a) worker list"

text \<open>
  The interleavings: any worker may pick a task, finish or exit; a running task may schedule one
  continuation at its own priority, as the header of \<^verbatim>\<open>thread_pool.h\<close> demands of its callers
  (\<^verbatim>\<open>NOTE: priority must be the same as the priority of the calling task!\<close>); any thread may start
  a new task chain or stop the pool.
\<close>

inductive pool_step :: "('f, 'a) pool_system \<Rightarrow> ('f, 'a) pool_system \<Rightarrow> bool" where
  take: "i < length (workers s) \<Longrightarrow> workers s ! i = Waiting \<Longrightarrow>
    thread_pool_has_tasks (pool_of s) \<Longrightarrow> worker_take (pool_of s) = Inr (t, p) \<Longrightarrow>
    pool_step s (s\<lparr>pool_of := p, workers := (workers s)[i := Running t False]\<rparr>)"
| exit: "i < length (workers s) \<Longrightarrow> workers s ! i = Waiting \<Longrightarrow> worker_exits (pool_of s) \<Longrightarrow>
    pool_step s (s\<lparr>workers := (workers s)[i := Exited]\<rparr>)"
| continue: "i < length (workers s) \<Longrightarrow> workers s ! i = Running t False \<Longrightarrow>
    tc_thread_schedule_next (pool_of s) f sf a (priority t) g = Inr p \<Longrightarrow>
    pool_step s (s\<lparr>pool_of := p, workers := (workers s)[i := Running t True]\<rparr>)"
| continue2: "i < length (workers s) \<Longrightarrow> workers s ! i = Running t False \<Longrightarrow>
    tc_thread_schedule_next2 (pool_of s) f' a (priority t) g = Inr (ok, p) \<Longrightarrow>
    pool_step s (s\<lparr>pool_of := p, workers := (workers s)[i := Running t ok]\<rparr>)"
| new: "tc_thread_schedule_new (pool_of s) f a prio g = Inr (ok, p) \<Longrightarrow>
    pool_step s (s\<lparr>pool_of := p\<rparr>)"
| finish: "i < length (workers s) \<Longrightarrow> workers s ! i = Running t c \<Longrightarrow>
    pool_step s (s\<lparr>pool_of := worker_finish t (pool_of s), workers := (workers s)[i := Waiting]\<rparr>)"
| stop: "pool_step s (s\<lparr>pool_of := tc_thread_pool_stop (pool_of s)\<rparr>)"

text \<open>The start: a pool as \<open>tc_thread_pool_init\<close> leaves it, every worker waiting.\<close>

inductive pool_reachable :: "('f, 'a) pool_system \<Rightarrow> bool" where
  start: "tc_thread_pool_init ideal True True (replicate TC_THREADS_MAX_THREADS True)
            pat reserved mb = Some p \<Longrightarrow>
    pat \<noteq> [] \<Longrightarrow> set pat \<subseteq> set ''ABCD'' \<Longrightarrow>
    pool_reachable \<lparr>pool_of = p, workers = replicate (num_threads p) Waiting\<rparr>"
| step: "pool_reachable s \<Longrightarrow> pool_step s s' \<Longrightarrow> pool_reachable s'"

section \<open>The ring buffer as a bounded queue\<close>

definition ring_wf :: "('f, 'a) tc_thread_pool_task_buf \<Rightarrow> bool" where
  "ring_wf tb \<longleftrightarrow> 0 < capacity tb \<and> length (buffer tb) = capacity tb
     \<and> head_index tb < capacity tb \<and> tail_index tb < capacity tb"

definition ring_used :: "('f, 'a) tc_thread_pool_task_buf \<Rightarrow> nat" where
  "ring_used tb = (head_index tb + capacity tb - tail_index tb) mod capacity tb"

definition ring_list ::
    "('f, 'a) tc_thread_pool_task_buf \<Rightarrow> ('f, 'a) tc_thread_pool_context list" where
  "ring_list tb =
     map (\<lambda>k. buffer tb ! ((tail_index tb + k) mod capacity tb)) [0..<ring_used tb]"

lemma length_ring_list [simp]: "length (ring_list tb) = ring_used tb"
  by (simp add: ring_list_def)

lemma nth_ring_list:
  "k < ring_used tb \<Longrightarrow> ring_list tb ! k = buffer tb ! ((tail_index tb + k) mod capacity tb)"
  by (simp add: ring_list_def)

lemma ring_used_cases:
  "ring_wf tb \<Longrightarrow> ring_used tb = (if tail_index tb \<le> head_index tb
     then head_index tb - tail_index tb else head_index tb + capacity tb - tail_index tb)"
  by (auto simp: ring_used_def ring_wf_def mod_if)

lemma ring_used_less: "ring_wf tb \<Longrightarrow> ring_used tb < capacity tb"
  by (auto simp: ring_used_def ring_wf_def)

lemma Suc_mod_cases: "i < n \<Longrightarrow> Suc i mod n = (if Suc i = n then 0 else Suc i)"
  by auto

lemma add_mod_cases: "i < n \<Longrightarrow> j < n \<Longrightarrow> (i + j) mod n = (if i + j < n then i + j else i + j - n)"
  for i j n :: nat
  by (auto simp: mod_if)

lemma remaining_capacity_eq:
  "task_buffer_remaining_capacity tb = capacity tb - 1 - ring_used tb"
  by (simp add: task_buffer_remaining_capacity_def ring_used_def)

lemma is_empty_iff: "ring_wf tb \<Longrightarrow> task_buffer_is_empty tb \<longleftrightarrow> ring_list tb = []"
  unfolding task_buffer_is_empty_def length_0_conv [symmetric] length_ring_list
  by (auto simp: ring_used_cases ring_wf_def)

lemma ring_full_iff:
  assumes "ring_wf tb"
  shows "(head_index tb + 1) mod capacity tb = tail_index tb \<longleftrightarrow> ring_used tb = capacity tb - 1"
  using assms by (auto simp: ring_used_cases ring_wf_def Suc_mod_cases split: if_splits)

lemma ring_enqueue_step:
  fixes t :: "('f, 'a) tc_thread_pool_context"
  assumes wf: "ring_wf tb" and room: "ring_used tb < capacity tb - 1"
  defines "tb' \<equiv> tb\<lparr>buffer := (buffer tb)[head_index tb := t],
                    head_index := (head_index tb + 1) mod capacity tb\<rparr>"
  shows "ring_wf tb'" and "ring_list tb' = ring_list tb @ [t]"
proof -
  show "ring_wf tb'" using wf by (auto simp: ring_wf_def tb'_def)
  then have used: "ring_used tb' = Suc (ring_used tb)"
    using wf room
    by (auto simp: ring_used_cases tb'_def Suc_mod_cases ring_wf_def split: if_splits)
  show "ring_list tb' = ring_list tb @ [t]"
  proof (rule nth_equalityI)
    fix k assume "k < length (ring_list tb')"
    then have k: "k < Suc (ring_used tb)" by (simp add: used)
    have mod: "(tail_index tb + k) mod capacity tb = head_index tb \<longleftrightarrow> k = ring_used tb"
      using wf k room
      by (auto simp: ring_used_cases ring_wf_def add_mod_cases split: if_splits)
    have b: "ring_list tb' ! k =
        (buffer tb)[head_index tb := t] ! ((tail_index tb + k) mod capacity tb)"
      using nth_ring_list [of k tb'] k unfolding used by (simp add: tb'_def)
    show "ring_list tb' ! k = (ring_list tb @ [t]) ! k"
    proof (cases "k = ring_used tb")
      case True
      with mod b wf show ?thesis by (simp add: nth_append ring_wf_def)
    next
      case False
      with mod b k show ?thesis by (simp add: nth_append nth_ring_list)
    qed
  qed (simp add: used)
qed

lemma ring_dequeue_step:
  assumes wf: "ring_wf tb" and l: "ring_list tb = x # xs"
  defines "tb' \<equiv> tb\<lparr>tail_index := (tail_index tb + 1) mod capacity tb\<rparr>"
  shows "ring_wf tb'" and "ring_list tb' = xs" and "buffer tb ! tail_index tb = x"
proof -
  have pos: "0 < ring_used tb" using l by (simp flip: length_ring_list)
  show "ring_wf tb'" using wf by (auto simp: ring_wf_def tb'_def)
  then have used: "Suc (ring_used tb') = ring_used tb"
    using wf pos
    by (auto simp: ring_used_cases tb'_def Suc_mod_cases ring_wf_def split: if_splits)
  have "ring_list tb ! 0 = buffer tb ! tail_index tb"
    using pos wf by (simp add: ring_list_def ring_wf_def)
  then show "buffer tb ! tail_index tb = x" using l by simp
  have "ring_list tb' = tl (ring_list tb)"
  proof (rule nth_equalityI)
    show "length (ring_list tb') = length (tl (ring_list tb))" using used by simp
    fix k assume "k < length (ring_list tb')"
    then have k: "k < ring_used tb'" by simp
    have "(Suc (tail_index tb) mod capacity tb + k) mod capacity tb
        = (tail_index tb + Suc k) mod capacity tb"
      by (simp add: mod_simps)
    then show "ring_list tb' ! k = tl (ring_list tb) ! k"
      using k used nth_ring_list [OF k] nth_ring_list [of "Suc k" tb]
      by (simp add: nth_tl tb'_def)
  qed
  then show "ring_list tb' = xs" using l by simp
qed

lemma enqueue_yield_eq:
  "task_buffer_enqueue pool tb t True blk =
     (if (head_index tb + 1) mod capacity tb = tail_index tb then (False, tb)
      else (True, tb\<lparr>buffer := (buffer tb)[head_index tb := t],
                     head_index := (head_index tb + 1) mod capacity tb\<rparr>))"
  by (simp add: task_buffer_enqueue_def Let_def)

lemma dequeue_nonempty_eq:
  "ring_wf tb \<Longrightarrow> ring_list tb \<noteq> [] \<Longrightarrow> task_buffer_dequeue tb =
     (buffer tb ! tail_index tb, tb\<lparr>tail_index := (tail_index tb + 1) mod capacity tb\<rparr>)"
  using is_empty_iff [of tb] by (simp add: task_buffer_dequeue_def task_buffer_is_empty_def)

interpretation ring: task_queue ring_wf ring_list "\<lambda>tb. capacity tb - 1"
    "\<lambda>t tb. task_buffer_enqueue pool tb t True blk" task_buffer_dequeue
  for pool :: "('f, 'a) tc_thread_pool" and blk :: bool
proof unfold_locales
  fix tb :: "('f, 'a) tc_thread_pool_task_buf" and t x xs
  assume wf: "ring_wf tb"
  show "length (ring_list tb) \<le> capacity tb - 1"
    using ring_used_less [OF wf] by simp
  show "\<exists>q'. task_buffer_enqueue pool tb t True blk = (True, q') \<and> ring_wf q'
      \<and> ring_list q' = ring_list tb @ [t] \<and> capacity q' - 1 = capacity tb - 1"
    if "length (ring_list tb) < capacity tb - 1"
    using that ring_enqueue_step [OF wf, of t] ring_full_iff [OF wf]
    by (simp add: enqueue_yield_eq)
  show "task_buffer_enqueue pool tb t True blk = (False, tb)"
    if "length (ring_list tb) = capacity tb - 1"
    using that ring_full_iff [OF wf] by (simp add: enqueue_yield_eq)
  show "\<exists>q'. task_buffer_dequeue tb = (x, q') \<and> ring_wf q' \<and> ring_list q' = xs
      \<and> capacity q' - 1 = capacity tb - 1"
    if "ring_list tb = x # xs"
    using that ring_dequeue_step [OF wf that] dequeue_nonempty_eq [OF wf] by simp
qed

section \<open>Effect of the pool operations\<close>

definition bufs_ok :: "('f, 'a) tc_thread_pool \<Rightarrow> bool" where
  "bufs_ok pool \<longleftrightarrow> length (task_prio_buffer pool) = 4 \<and>
     (\<forall>i < 4. ring_wf (task_prio_buffer pool ! i) \<and>
        (\<forall>t \<in> set (ring_list (task_prio_buffer pool ! i)).
           priority_index (priority t) = Some i \<and> func t \<noteq> None))"

definition pattern_ok :: "('f, 'a) tc_thread_pool \<Rightarrow> bool" where
  "pattern_ok pool \<longleftrightarrow> round_robin_pattern pool \<noteq> [] \<and> set (round_robin_pattern pool) \<subseteq> set ''ABCD''"

definition pool_dequeue_from ::
    "('f, 'a) tc_thread_pool \<Rightarrow> nat
     \<Rightarrow> ('f, 'a) tc_thread_pool_context \<times> ('f, 'a) tc_thread_pool" where
  "pool_dequeue_from pool j =
     (let (task, tb) = task_buffer_dequeue (task_prio_buffer pool ! j)
      in (task, pool\<lparr>task_prio_buffer := (task_prio_buffer pool)[j := tb]\<rparr>))"

lemmas pool_defs = TC_THREAD_POOL_MAX_PRIORITY_def TC_THREADS_STD_BUFFER_SIZE_def
  TC_THREADS_MAX_THREADS_def

lemma priority_index_less: "priority_index p = Some i \<Longrightarrow> i < 4"
  by (cases p) auto

lemma priority_index_inject: "priority_index p = Some i \<Longrightarrow> priority_index q = Some i \<Longrightarrow> p = q"
  by (cases p; cases q) auto

lemma priority_index_blocking: "priority_index p = Some 2 \<longleftrightarrow> p = PRIORITY_BLOCKING"
  by (cases p) auto

lemma has_tasks_iff: "thread_pool_has_tasks pool \<longleftrightarrow> (\<exists>i < 4. buffer_eligible pool i)"
  by (auto simp: thread_pool_has_tasks_def list_ex_iff pool_defs)

lemma eligible_iff:
  "bufs_ok pool \<Longrightarrow> i < 4 \<Longrightarrow> buffer_eligible pool i \<longleftrightarrow>
     ring_list (task_prio_buffer pool ! i) \<noteq> []
     \<and> (i = 2 \<longrightarrow> blocking_active pool < max_blocking_threads pool)"
  by (auto simp: buffer_eligible_def bufs_ok_def is_empty_iff)

lemma dequeue_search_first:
  "buffer_eligible pool i \<Longrightarrow> dequeue_search (Suc n) pool i = pool_dequeue_from pool i"
  by (simp add: pool_dequeue_from_def)

lemma dequeue_search_some:
  assumes "i < 4" and "k < n" and "buffer_eligible pool ((i + k) mod 4)"
  shows "\<exists>j < 4. buffer_eligible pool j \<and> dequeue_search n pool i = pool_dequeue_from pool j"
  using assms
proof (induction n arbitrary: i k)
  case 0
  then show ?case by simp
next
  case (Suc n)
  show ?case
  proof (cases "buffer_eligible pool i")
    case True
    with Suc.prems(1) show ?thesis by (blast intro: dequeue_search_first)
  next
    case False
    with Suc.prems(3) \<open>i < 4\<close> obtain k' where k': "k = Suc k'" by (cases k) auto
    with Suc.prems have "k' < n" and "buffer_eligible pool (((i + 1) mod 4 + k') mod 4)"
      by (simp_all add: mod_simps)
    from Suc.IH [OF _ this] False show ?thesis by (simp add: pool_defs)
  qed
qed

lemma pool_dequeue_from_effect:
  assumes ok: "bufs_ok pool" and j: "j < 4" and e: "buffer_eligible pool j"
  obtains t tb where "pool_dequeue_from pool j
      = (t, pool\<lparr>task_prio_buffer := (task_prio_buffer pool)[j := tb]\<rparr>)"
    and "ring_list (task_prio_buffer pool ! j) = t # ring_list tb"
    and "ring_wf tb" and "capacity tb = capacity (task_prio_buffer pool ! j)"
    and "priority_index (priority t) = Some j" and "func t \<noteq> None"
proof -
  let ?b = "task_prio_buffer pool ! j"
  have wf: "ring_wf ?b" using ok j by (simp add: bufs_ok_def)
  obtain t ts where l: "ring_list ?b = t # ts"
    using eligible_iff [OF ok j] e by (cases "ring_list ?b") auto
  note d = ring_dequeue_step [OF wf l] dequeue_nonempty_eq [OF wf]
  have "priority_index (priority t) = Some j \<and> func t \<noteq> None"
    using ok j l by (simp add: bufs_ok_def)
  then show ?thesis
    using d l by (intro that [of t "?b\<lparr>tail_index := (tail_index ?b + 1) mod capacity ?b\<rparr>"])
      (simp_all add: pool_dequeue_from_def)
qed

lemma round_robin_next_char: "pat \<noteq> [] \<Longrightarrow> fst (round_robin_next pat i) \<in> set pat"
  by (auto simp: round_robin_next_def Let_def)

definition rr_start :: "('f, 'a) tc_thread_pool \<Rightarrow> nat" where
  "rr_start pool = of_char (fst (round_robin_next (round_robin_pattern pool) (round_robin_index pool)))
     - of_char CHR ''A''"

lemma task_pool_dequeue_eq:
  assumes "pattern_ok pool"
  shows "rr_start pool < 4" and "task_pool_dequeue pool = Inr (dequeue_search 4
      (pool\<lparr>round_robin_index := snd (round_robin_next (round_robin_pattern pool)
         (round_robin_index pool))\<rparr>) (rr_start pool))"
proof -
  let ?c = "fst (round_robin_next (round_robin_pattern pool) (round_robin_index pool))"
  have "?c \<in> set ''ABCD''"
    using assms round_robin_next_char unfolding pattern_ok_def by blast
  then have c: "?c = CHR ''A'' \<or> ?c = CHR ''B'' \<or> ?c = CHR ''C'' \<or> ?c = CHR ''D''" by simp
  then show "rr_start pool < 4" by (auto simp: rr_start_def)
  show "task_pool_dequeue pool = Inr (dequeue_search 4
      (pool\<lparr>round_robin_index := snd (round_robin_next (round_robin_pattern pool)
         (round_robin_index pool))\<rparr>) (rr_start pool))"
    using c by (auto simp: task_pool_dequeue_def rr_start_def pool_defs split: prod.splits)
qed

lemma bufs_ok_round_robin [simp]:
  "bufs_ok (pool\<lparr>round_robin_index := i\<rparr>) = bufs_ok pool"
  "buffer_eligible (pool\<lparr>round_robin_index := i\<rparr>) j = buffer_eligible pool j"
  by (simp_all add: bufs_ok_def buffer_eligible_def)

lemma task_pool_dequeue_effect:
  assumes ok: "bufs_ok pool" and pat: "pattern_ok pool" and has: "thread_pool_has_tasks pool"
  obtains t j tb i where "task_pool_dequeue pool = Inr (t, pool\<lparr>round_robin_index := i,
        task_prio_buffer := (task_prio_buffer pool)[j := tb]\<rparr>)"
    and "j < 4" and "buffer_eligible pool j"
    and "ring_list (task_prio_buffer pool ! j) = t # ring_list tb"
    and "ring_wf tb" and "capacity tb = capacity (task_prio_buffer pool ! j)"
    and "priority_index (priority t) = Some j" and "func t \<noteq> None"
proof -
  define i where "i = snd (round_robin_next (round_robin_pattern pool) (round_robin_index pool))"
  define q where "q = pool\<lparr>round_robin_index := i\<rparr>"
  note e = task_pool_dequeue_eq [OF pat, folded i_def, folded q_def]
  obtain j0 where j0: "j0 < 4" "buffer_eligible pool j0"
    using has by (auto simp: has_tasks_iff)
  let ?k = "(j0 + 4 - rr_start pool) mod 4"
  have "(rr_start pool + ?k) mod 4 = j0"
    using e(1) j0(1) by (simp add: mod_simps)
  then have "\<exists>j < 4. buffer_eligible q j \<and> dequeue_search 4 q (rr_start pool) = pool_dequeue_from q j"
    using e(1) j0 by (intro dequeue_search_some [where k = ?k]) (simp_all add: q_def)
  then obtain j where j: "j < 4" "buffer_eligible q j"
      "dequeue_search 4 q (rr_start pool) = pool_dequeue_from q j"
    by blast
  have "bufs_ok q" using ok by (simp add: q_def)
  from this j(1,2) obtain t tb where "pool_dequeue_from q j
      = (t, q\<lparr>task_prio_buffer := (task_prio_buffer q)[j := tb]\<rparr>)"
    "ring_list (task_prio_buffer q ! j) = t # ring_list tb"
    "ring_wf tb" "capacity tb = capacity (task_prio_buffer q ! j)"
    "priority_index (priority t) = Some j" "func t \<noteq> None"
    by (rule pool_dequeue_from_effect)
  with e j show ?thesis
    by (intro that [of t j tb i]) (simp_all add: q_def)
qed

lemma pool_enqueue_total:
  "priority_index (priority t) = Some i \<Longrightarrow> \<exists>b p. pool_enqueue pool t y = Inr (b, p)"
  by (simp add: pool_enqueue_def split: prod.split)

lemma pool_enqueue_cases:
  assumes ok: "bufs_ok pool" and i: "priority_index (priority t) = Some i"
    and enq: "pool_enqueue pool t y = Inr (b, pool')"
  obtains (full) "\<not> b" "pool' = pool"
      "y \<longrightarrow> ring_used (task_prio_buffer pool ! i) = capacity (task_prio_buffer pool ! i) - 1"
  | (room) tb where "b" "pool' = pool\<lparr>task_prio_buffer := (task_prio_buffer pool)[i := tb]\<rparr>"
      "ring_wf tb" "ring_list tb = ring_list (task_prio_buffer pool ! i) @ [t]"
      "capacity tb = capacity (task_prio_buffer pool ! i)"
      "ring_used (task_prio_buffer pool ! i) < capacity (task_prio_buffer pool ! i) - 1"
      "\<not> y \<longrightarrow> (if i = 2 then max_blocking_threads pool else num_threads pool)
         < task_buffer_remaining_capacity (task_prio_buffer pool ! i)"
proof -
  let ?b = "task_prio_buffer pool ! i"
  let ?tb = "?b\<lparr>buffer := (buffer ?b)[head_index ?b := t],
               head_index := (head_index ?b + 1) mod capacity ?b\<rparr>"
  have i4: "i < 4" using i by (rule priority_index_less)
  then have wf: "ring_wf ?b" and len: "i < length (task_prio_buffer pool)"
    using ok by (simp_all add: bufs_ok_def)
  have blk: "(priority t = PRIORITY_BLOCKING) = (i = 2)"
    using i by (cases "priority t") auto
  note full = ring_full_iff [OF wf] and enq' = enq [unfolded pool_enqueue_def i, simplified]
  show ?thesis
  proof (cases b)
    case True
    then have "pool' = pool\<lparr>task_prio_buffer := (task_prio_buffer pool)[i := ?tb]\<rparr>"
      "(head_index ?b + 1) mod capacity ?b \<noteq> tail_index ?b"
      and res: "\<not> y \<longrightarrow> (if i = 2 then max_blocking_threads pool else num_threads pool)
         < task_buffer_remaining_capacity ?b"
      using enq' by (auto simp: task_buffer_enqueue_def Let_def blk split: if_splits)
    moreover from this(2) have "ring_used ?b < capacity ?b - 1"
      using full ring_used_less [OF wf] by simp
    ultimately show ?thesis
      using True ring_enqueue_step [OF wf, of t] by (intro room [of ?tb]) simp_all
  next
    case False
    then have "pool' = pool" and "y \<longrightarrow> (head_index ?b + 1) mod capacity ?b = tail_index ?b"
      using enq' len by (auto simp: task_buffer_enqueue_def Let_def split: if_splits)
    with False \<open>\<not> b\<close> full show ?thesis by (intro that(1)) simp_all
  qed
qed

section \<open>The invariant of the worker system\<close>

fun is_running :: "('f, 'a) worker \<Rightarrow> bool" where
  "is_running (Running t c) = True"
| "is_running w = False"

fun is_blocking :: "('f, 'a) worker \<Rightarrow> bool" where
  "is_blocking (Running t c) = (priority t = PRIORITY_BLOCKING)"
| "is_blocking w = False"

text \<open>A running task of priority index \<open>i\<close> that may still schedule its continuation.\<close>

fun is_pending :: "nat \<Rightarrow> ('f, 'a) worker \<Rightarrow> bool" where
  "is_pending i (Running t c) = (\<not> c \<and> priority_index (priority t) = Some i)"
| "is_pending i w = False"

fun worker_ok :: "('f, 'a) worker \<Rightarrow> bool" where
  "worker_ok (Running t c) = (priority_index (priority t) \<noteq> None \<and> func t \<noteq> None)"
| "worker_ok w = True"

definition count_of :: "('w \<Rightarrow> bool) \<Rightarrow> 'w list \<Rightarrow> nat" where
  "count_of P ws = length (filter P ws)"

text \<open>
  Every priority keeps, beyond its queued tasks, one free slot per running task that may still
  continue; the two counters of the pool agree with the workers; no worker has returned unless
  the exit condition holds.
\<close>

definition slots_ok :: "('f, 'a) tc_thread_pool \<Rightarrow> ('f, 'a) worker list \<Rightarrow> bool" where
  "slots_ok p ws \<longleftrightarrow> (\<forall>i < 4. count_of (is_pending i) ws + ring_used (task_prio_buffer p ! i)
     \<le> capacity (task_prio_buffer p ! i) - 1)"

definition pool_inv :: "('f, 'a) pool_system \<Rightarrow> bool" where
  "pool_inv s \<longleftrightarrow>
     bufs_ok (pool_of s) \<and> pattern_ok (pool_of s) \<and> list_all worker_ok (workers s)
     \<and> length (workers s) = num_threads (pool_of s)
     \<and> active_threads (pool_of s) = int (count_of is_running (workers s))
     \<and> blocking_active (pool_of s) = count_of is_blocking (workers s)
     \<and> blocking_active (pool_of s) \<le> max_blocking_threads (pool_of s)
     \<and> slots_ok (pool_of s) (workers s)
     \<and> (Exited \<in> set (workers s) \<longrightarrow> worker_exits (pool_of s))"

lemma count_of_update:
  "i < length ws \<Longrightarrow> count_of P (ws[i := w]) =
     count_of P ws + (if P w then 1 else 0) - (if P (ws ! i) then 1 else 0)"
  using filter_list_update_length [of i ws P w] by (auto simp: count_of_def)

lemma count_of_pos: "i < length ws \<Longrightarrow> P (ws ! i) \<Longrightarrow> 0 < count_of P ws"
  by (auto simp: count_of_def filter_empty_conv)

lemma count_of_mono: "(\<And>w. P w \<Longrightarrow> Q w) \<Longrightarrow> count_of P ws \<le> count_of Q ws"
  by (induction ws) (auto simp: count_of_def)

lemma count_of_le_length: "count_of P ws \<le> length ws"
  by (simp add: count_of_def)

lemma count_of_zero: "count_of P ws = 0 \<longleftrightarrow> (\<forall>w \<in> set ws. \<not> P w)"
  by (simp add: count_of_def filter_empty_conv)

lemma pending_blocking: "is_pending 2 w \<Longrightarrow> is_blocking w"
  by (cases w) (auto simp: priority_index_blocking)

lemma bufs_ok_update:
  assumes "bufs_ok p" and "i < 4" and "ring_wf tb"
    and "\<forall>t \<in> set (ring_list tb). priority_index (priority t) = Some i \<and> func t \<noteq> None"
  shows "bufs_ok (p\<lparr>task_prio_buffer := (task_prio_buffer p)[i := tb]\<rparr>)"
  using assms by (auto simp: bufs_ok_def nth_list_update split: if_splits)

lemma bufs_ok_counters [simp]:
  "bufs_ok (p\<lparr>active_threads := a, blocking_active := b\<rparr>) = bufs_ok p"
  "bufs_ok (p\<lparr>shutdown := sd\<rparr>) = bufs_ok p"
  "pattern_ok (p\<lparr>active_threads := a, blocking_active := b\<rparr>) = pattern_ok p"
  "pattern_ok (p\<lparr>shutdown := sd\<rparr>) = pattern_ok p"
  "pattern_ok (p\<lparr>round_robin_index := r\<rparr>) = pattern_ok p"
  "pattern_ok (p\<lparr>task_prio_buffer := bs\<rparr>) = pattern_ok p"
  by (simp_all add: bufs_ok_def pattern_ok_def)

lemma slots_ok_counters [simp]:
  "slots_ok (p\<lparr>active_threads := a, blocking_active := b\<rparr>) ws = slots_ok p ws"
  "slots_ok (p\<lparr>shutdown := sd\<rparr>) ws = slots_ok p ws"
  "slots_ok (p\<lparr>round_robin_index := r, task_prio_buffer := bs\<rparr>) ws
     = slots_ok (p\<lparr>task_prio_buffer := bs\<rparr>) ws"
  by (simp_all add: slots_ok_def)

lemma has_tasks_counters:
  "\<not> thread_pool_has_tasks p \<Longrightarrow> \<not> thread_pool_has_tasks (p\<lparr>shutdown := sd\<rparr>)"
  by (auto simp: has_tasks_iff buffer_eligible_def)

lemma ring_init:
  assumes "0 < n"
  shows "ring_wf (init_task_buffer (replicate n invalid_task) n)"
    and "ring_used (init_task_buffer (replicate n invalid_task) n) = 0"
    and "ring_list (init_task_buffer (replicate n invalid_task) n) = []"
  using assms by (simp_all add: ring_wf_def ring_used_def ring_list_def init_task_buffer_def)

lemma all_less_4: "(\<forall>i < 4. P i) \<longleftrightarrow> P 0 \<and> P 1 \<and> P 2 \<and> P (3::nat)"
  by (auto simp: numeral_eq_Suc less_Suc_eq)

lemma pool_inv_init:
  assumes init: "tc_thread_pool_init ideal True True (replicate TC_THREADS_MAX_THREADS True)
      pat reserved mb = Some p" and pat: "pat \<noteq> []" "set pat \<subseteq> set ''ABCD''"
  shows "pool_inv \<lparr>pool_of = p, workers = replicate (num_threads p) Waiting\<rparr>"
proof -
  have b: "task_prio_buffer p =
      [init_task_buffer (replicate 64 invalid_task) 64,
       init_task_buffer (replicate 128 invalid_task) 128,
       init_task_buffer (replicate 128 invalid_task) 128,
       init_task_buffer (replicate 256 invalid_task) 256]"
    and f: "round_robin_pattern p = pat" "active_threads p = 0" "blocking_active p = 0"
    using init unfolding tc_thread_pool_init_def pool_defs Let_def
    by (auto split: if_splits)
  have "bufs_ok p"
    unfolding bufs_ok_def b all_less_4 by (simp add: ring_init)
  moreover have "slots_ok p (replicate (num_threads p) Waiting)"
    unfolding slots_ok_def b all_less_4
    by (simp add: ring_init count_of_def)
  ultimately show ?thesis
    using pat f by (simp add: pool_inv_def pattern_ok_def count_of_def list_all_iff)
qed

lemma exited_update: "Exited \<in> set (ws[i := w]) \<Longrightarrow> w \<noteq> Exited \<Longrightarrow> Exited \<in> set ws"
  using set_update_subset_insert [of ws i w] by auto

lemma pool_invD:
  assumes "pool_inv s"
  shows "bufs_ok (pool_of s)" and "pattern_ok (pool_of s)" and "list_all worker_ok (workers s)"
    and "length (workers s) = num_threads (pool_of s)"
    and "active_threads (pool_of s) = int (count_of is_running (workers s))"
    and "blocking_active (pool_of s) = count_of is_blocking (workers s)"
    and "blocking_active (pool_of s) \<le> max_blocking_threads (pool_of s)"
    and "slots_ok (pool_of s) (workers s)"
    and "Exited \<in> set (workers s) \<Longrightarrow> worker_exits (pool_of s)"
  using assms by (simp_all add: pool_inv_def)

lemma list_all_update: "list_all P ws \<Longrightarrow> P w \<Longrightarrow> list_all P (ws[i := w])"
  using set_update_subset_insert [of ws i w] by (auto simp: list_all_iff)

lemma slots_ok_replace:
  assumes "slots_ok p ws" and "i < length ws" and "j < 4" and "length (task_prio_buffer p) = 4"
    and "capacity tb = capacity (task_prio_buffer p ! j)"
    and "\<And>k. k < 4 \<Longrightarrow> k \<noteq> j \<Longrightarrow> is_pending k w \<Longrightarrow> is_pending k (ws ! i)"
    and "ring_used tb + (if is_pending j w then 1 else 0)
       \<le> ring_used (task_prio_buffer p ! j) + (if is_pending j (ws ! i) then 1 else 0)"
  shows "slots_ok (p\<lparr>task_prio_buffer := (task_prio_buffer p)[j := tb]\<rparr>) (ws[i := w])"
  unfolding slots_ok_def
proof (intro allI impI)
  fix k :: nat assume k: "k < 4"
  have old: "count_of (is_pending k) ws + ring_used (task_prio_buffer p ! k)
      \<le> capacity (task_prio_buffer p ! k) - 1"
    using assms(1) k by (simp add: slots_ok_def)
  have pos: "is_pending k (ws ! i) \<Longrightarrow> 0 < count_of (is_pending k) ws"
    using assms(2) by (rule count_of_pos)
  show "count_of (is_pending k) (ws[i := w])
      + ring_used (task_prio_buffer (p\<lparr>task_prio_buffer := (task_prio_buffer p)[j := tb]\<rparr>) ! k)
      \<le> capacity (task_prio_buffer (p\<lparr>task_prio_buffer := (task_prio_buffer p)[j := tb]\<rparr>) ! k) - 1"
  proof (cases "k = j")
    case True
    with old pos assms(3-5,7) show ?thesis
      by (auto simp: count_of_update [OF assms(2)] split: if_splits)
  next
    case False
    with old pos assms(6) [OF k] show ?thesis
      by (auto simp: count_of_update [OF assms(2)] split: if_splits)
  qed
qed

lemma inv_take:
  assumes inv: "pool_inv s" and i: "i < length (workers s)" "workers s ! i = Waiting"
    and has: "thread_pool_has_tasks (pool_of s)" and take: "worker_take (pool_of s) = Inr (t, p)"
  shows "pool_inv (s\<lparr>pool_of := p, workers := (workers s)[i := Running t False]\<rparr>)"
proof -
  note I = pool_invD [OF inv]
  let ?q = "pool_of s"
  obtain t' j tb r where d: "task_pool_dequeue ?q = Inr (t', ?q\<lparr>round_robin_index := r,
        task_prio_buffer := (task_prio_buffer ?q)[j := tb]\<rparr>)"
    and j: "j < 4" "buffer_eligible ?q j"
    and l: "ring_list (task_prio_buffer ?q ! j) = t' # ring_list tb"
    and tb: "ring_wf tb" "capacity tb = capacity (task_prio_buffer ?q ! j)"
    and t': "priority_index (priority t') = Some j" "func t' \<noteq> None"
    using task_pool_dequeue_effect [OF I(1,2) has] by blast
  have p: "p = ?q\<lparr>round_robin_index := r, task_prio_buffer := (task_prio_buffer ?q)[j := tb],
        active_threads := active_threads ?q + 1,
        blocking_active := blocking_active ?q + (if priority t = PRIORITY_BLOCKING then 1 else 0)\<rparr>"
    and [simp]: "t' = t"
    using take by (auto simp: worker_take_def d)
  have used: "Suc (ring_used tb) = ring_used (task_prio_buffer ?q ! j)"
    using l length_ring_list [of "task_prio_buffer ?q ! j"] by simp
  have "bufs_ok (?q\<lparr>task_prio_buffer := (task_prio_buffer ?q)[j := tb]\<rparr>)"
    using I(1) j(1) tb(1) l by (intro bufs_ok_update) (auto simp: bufs_ok_def)
  then have "bufs_ok p" by (simp add: p bufs_ok_def)
  moreover have "slots_ok p ((workers s)[i := Running t False])"
    unfolding p slots_ok_counters using I(1,8) i j(1) tb(2) t' used
    by (intro slots_ok_replace) (auto simp: bufs_ok_def)
  moreover have "blocking_active p \<le> max_blocking_threads p"
    using I(7) eligible_iff [OF I(1) j(1)] j(2) t'(1) by (auto simp: p)
  moreover have "\<not> worker_exits ?q" using has by (simp add: worker_exits_def)
  then have "Exited \<notin> set ((workers s)[i := Running t False])"
    using I(9) exited_update by blast
  ultimately show ?thesis
    using I(2-6) i t' by (simp add: pool_inv_def p pattern_ok_def count_of_update list_all_update)
qed

lemma inv_exit:
  assumes inv: "pool_inv s" and i: "i < length (workers s)" "workers s ! i = Waiting"
    and ex: "worker_exits (pool_of s)"
  shows "pool_inv (s\<lparr>workers := (workers s)[i := Exited]\<rparr>)"
  using pool_invD [OF inv] i ex
  by (simp add: pool_inv_def count_of_update list_all_update slots_ok_def)

lemma inv_finish:
  assumes inv: "pool_inv s" and i: "i < length (workers s)" "workers s ! i = Running t c"
  shows "pool_inv (s\<lparr>pool_of := worker_finish t (pool_of s), workers := (workers s)[i := Waiting]\<rparr>)"
proof -
  note I = pool_invD [OF inv]
  have run: "0 < count_of is_running (workers s)"
    using count_of_pos [OF i(1), of is_running] i(2) by simp
  have blk: "priority t = PRIORITY_BLOCKING \<Longrightarrow> 0 < count_of is_blocking (workers s)"
    using count_of_pos [OF i(1), of is_blocking] i(2) by simp
  have "Exited \<notin> set (workers s)"
    using I(5,9) run by (auto simp: worker_exits_def)
  then have "Exited \<notin> set ((workers s)[i := Waiting])" using exited_update by blast
  moreover have "slots_ok (pool_of s) ((workers s)[i := Waiting])"
    using I(8) i by (fastforce simp: slots_ok_def count_of_update split: if_splits)
  ultimately show ?thesis
    using I(1-7) i run blk
    by (auto simp: pool_inv_def worker_finish_def count_of_update list_all_update)
qed

text \<open>
  What a scheduling operation does to the invariant when the worker list changes from a worker
  to \<open>w\<close>, which counts as running and blocking exactly when the old one did.
\<close>

lemma inv_enqueue:
  assumes inv: "pool_inv s" and len: "length ws = length (workers s)"
    and ok: "list_all worker_ok ws"
    and counts: "count_of is_running ws = count_of is_running (workers s)"
      "count_of is_blocking ws = count_of is_blocking (workers s)"
    and slots: "slots_ok (pool_of s\<lparr>task_prio_buffer := (task_prio_buffer (pool_of s))[i := tb]\<rparr>) ws"
    and tb: "ring_wf tb" "ring_list tb = ring_list (task_prio_buffer (pool_of s) ! i) @ [t]"
      "priority_index (priority t) = Some i" "func t \<noteq> None"
    and live: "Exited \<notin> set ws"
  shows "pool_inv (s\<lparr>pool_of := pool_of s\<lparr>task_prio_buffer :=
      (task_prio_buffer (pool_of s))[i := tb]\<rparr>, workers := ws\<rparr>)"
proof -
  note I = pool_invD [OF inv]
  have "i < 4" using tb(3) by (rule priority_index_less)
  then have "bufs_ok (pool_of s\<lparr>task_prio_buffer := (task_prio_buffer (pool_of s))[i := tb]\<rparr>)"
    using I(1) tb by (intro bufs_ok_update) (auto simp: bufs_ok_def)
  with I(2,4-7) len ok counts slots live show ?thesis
    by (simp add: pool_inv_def)
qed

lemma exited_implies_idle:
  assumes "pool_inv s" and "Exited \<in> set (workers s)"
  shows "shutdown (pool_of s)" and "count_of is_running (workers s) = 0"
  using pool_invD(5,9) [OF assms(1)] assms(2) by (simp_all add: worker_exits_def)

lemma continue_effect:
  assumes inv: "pool_inv s" and i: "i < length (workers s)" "workers s ! i = Running t False"
    and enq: "pool_enqueue (pool_of s) task True = Inr (b, p)"
    and task: "priority task = priority t" "func task \<noteq> None"
  shows "b \<and> pool_inv (s\<lparr>pool_of := p, workers := (workers s)[i := Running t True]\<rparr>)"
proof -
  note I = pool_invD [OF inv]
  have w: "worker_ok (Running t False)" using I(3) i by (metis list_all_length)
  then obtain j where j: "priority_index (priority t) = Some j" by auto
  then have j4: "j < 4" by (rule priority_index_less)
  have pend: "0 < count_of (is_pending j) (workers s)"
    using count_of_pos [OF i(1), of "is_pending j"] i(2) j by simp
  have live: "Exited \<notin> set ((workers s)[i := Running t True])"
    using exited_implies_idle(2) [OF inv] count_of_pos [OF i(1), of is_running] i(2)
      exited_update [of "workers s" i "Running t True"] by auto
  have pt: "priority_index (priority task) = Some j" using j task by simp
  from I(1) pt enq show ?thesis
  proof (cases rule: pool_enqueue_cases)
    case full
    with I(8) j4 pend show ?thesis by (auto simp: slots_ok_def)
  next
    case (room tb)
    have used: "ring_used tb = Suc (ring_used (task_prio_buffer (pool_of s) ! j))"
      using arg_cong [OF room(4), of length] by simp
    have "slots_ok (pool_of s\<lparr>task_prio_buffer := (task_prio_buffer (pool_of s))[j := tb]\<rparr>)
        ((workers s)[i := Running t True])"
      using I(1,8) i j4 room(5) j used by (intro slots_ok_replace) (auto simp: bufs_ok_def)
    from inv_enqueue [OF inv _ _ _ _ this room(3,4) pt task(2) live] room(1,2) I(3) i w
    show ?thesis by (simp add: count_of_update list_all_update)
  qed
qed

lemma inv_new:
  assumes inv: "pool_inv s" and new: "tc_thread_schedule_new (pool_of s) f a prio g = Inr (ok, p)"
  shows "pool_inv (s\<lparr>pool_of := p\<rparr>)"
proof (cases "shutdown (pool_of s)")
  case True
  with new have "p = pool_of s" by (simp add: tc_thread_schedule_new_def)
  with inv show ?thesis by simp
next
  case False
  note I = pool_invD [OF inv]
  let ?t = "\<lparr>priority = prio, func = Some f, arg = Some a, session_generation = g\<rparr>"
  have enq: "pool_enqueue (pool_of s) ?t False = Inr (ok, p)"
    using new False by (simp add: tc_thread_schedule_new_def)
  then obtain j where j: "priority_index prio = Some j"
    by (cases "priority_index prio") (simp_all add: pool_enqueue_def)
  then have j4: "j < 4" by (rule priority_index_less)
  have jt: "priority_index (priority ?t) = Some j" using j by simp
  from I(1) jt enq show ?thesis
  proof (cases rule: pool_enqueue_cases)
    case full
    with inv show ?thesis by simp
  next
    case (room tb)
    let ?b = "task_prio_buffer (pool_of s) ! j"
    have used: "ring_used tb = Suc (ring_used ?b)"
      using arg_cong [OF room(4), of length] by simp
    have "count_of (is_pending j) (workers s)
        \<le> (if j = 2 then max_blocking_threads (pool_of s) else num_threads (pool_of s))"
    proof (cases "j = 2")
      case True
      with I(6,7) count_of_mono [of "is_pending 2" is_blocking "workers s", OF pending_blocking]
      show ?thesis by simp
    next
      case False
      with I(4) count_of_le_length [of "is_pending j" "workers s"] show ?thesis by simp
    qed
    then have "count_of (is_pending j) (workers s) + ring_used tb \<le> capacity tb - 1"
      using room(5,7) used by (simp add: remaining_capacity_eq)
    then have "slots_ok (pool_of s\<lparr>task_prio_buffer := (task_prio_buffer (pool_of s))[j := tb]\<rparr>)
        (workers s)"
      using I(1,8) j4 by (auto simp: slots_ok_def bufs_ok_def nth_list_update)
    moreover have "Exited \<notin> set (workers s)"
      using exited_implies_idle(1) [OF inv] False by blast
    ultimately show ?thesis
      using inv_enqueue [OF inv refl I(3) refl refl _ room(3,4) jt] room(2) by simp
  qed
qed

lemma inv_stop:
  assumes inv: "pool_inv s"
  shows "pool_inv (s\<lparr>pool_of := tc_thread_pool_stop (pool_of s)\<rparr>)"
  using pool_invD [OF inv] has_tasks_counters [of "pool_of s" True]
  by (auto simp: pool_inv_def tc_thread_pool_stop_def worker_exits_def)

lemma mark_continued:
  assumes inv: "pool_inv s" and i: "i < length (workers s)" "workers s ! i = Running t False"
  shows "pool_inv (s\<lparr>workers := (workers s)[i := Running t True]\<rparr>)"
proof -
  note I = pool_invD [OF inv]
  have "worker_ok (Running t False)" using I(3) i by (metis list_all_length)
  moreover have "Exited \<notin> set ((workers s)[i := Running t True])"
    using exited_implies_idle(2) [OF inv] count_of_pos [OF i(1), of is_running] i(2)
      exited_update [of "workers s" i "Running t True"] by auto
  moreover have "slots_ok (pool_of s) ((workers s)[i := Running t True])"
    using I(8) i by (fastforce simp: slots_ok_def count_of_update split: if_splits)
  ultimately show ?thesis
    using I(1-7) i by (simp add: pool_inv_def count_of_update list_all_update)
qed

lemma pool_step_inv: "pool_step s s' \<Longrightarrow> pool_inv s \<Longrightarrow> pool_inv s'"
proof (induction rule: pool_step.induct)
  case (take i s t p)
  then show ?case by (blast intro: inv_take)
next
  case (exit i s)
  then show ?case by (blast intro: inv_exit)
next
  case (continue i s t f sf a g p)
  let ?f = "if shutdown (pool_of s) then sf else Some f"
  show ?case
  proof (cases "?f = None")
    case True
    with continue mark_continued [of s i t] show ?thesis
      by (auto simp: tc_thread_schedule_next_def)
  next
    case False
    let ?task = "\<lparr>priority = priority t, func = ?f, arg = Some a, session_generation = g\<rparr>"
    from False continue(3) have "pool_enqueue (pool_of s) ?task True = Inr (True, p)"
      by (auto simp: tc_thread_schedule_next_def Let_def split: sum.splits if_splits)
    from continue_effect [OF continue(4,1,2) this] False show ?thesis by simp
  qed
next
  case (continue2 i s t f' a g ok p)
  show ?case
  proof (cases ok)
    case False
    then have "p = pool_of s" using continue2(3)
      by (auto simp: tc_thread_schedule_next2_def split: sum.splits if_splits)
    moreover have "(workers s)[i := Running t False] = workers s"
      using continue2(1,2) by (metis list_update_id)
    ultimately show ?thesis using False continue2(4) by simp
  next
    case True
    let ?task = "\<lparr>priority = priority t, func = f', arg = Some a, session_generation = g\<rparr>"
    from True continue2(3) have "pool_enqueue (pool_of s) ?task True = Inr (True, p)" "f' \<noteq> None"
      by (auto simp: tc_thread_schedule_next2_def split: sum.splits if_splits)
    with continue_effect [OF continue2(4,1,2) this(1)] True show ?thesis by simp
  qed
next
  case (new s f a prio g ok p)
  then show ?case by (blast intro: inv_new)
next
  case (finish i s t c)
  then show ?case by (blast intro: inv_finish)
next
  case (stop s)
  then show ?case by (rule inv_stop)
qed

lemma pool_reachable_inv: "pool_reachable s \<Longrightarrow> pool_inv s"
  by (induction rule: pool_reachable.induct) (blast intro: pool_inv_init pool_step_inv)+

lemma continuation_total:
  assumes "pool_reachable s" and "i < length (workers s)" and "workers s ! i = Running t False"
  shows "(\<exists>p. tc_thread_schedule_next (pool_of s) f sf a (priority t) g = Inr p)
    \<and> (\<exists>ok p. tc_thread_schedule_next2 (pool_of s) f' a (priority t) g = Inr (ok, p)
          \<and> (ok \<longleftrightarrow> \<not> shutdown (pool_of s) \<and> f' \<noteq> None))"
proof -
  note inv = pool_reachable_inv [OF assms(1)]
  have "worker_ok (workers s ! i)"
    using pool_invD(3) [OF inv] assms(2) by (simp add: list_all_length)
  then obtain j where j: "priority_index (priority t) = Some j" using assms(3) by auto
  have enq: "\<exists>p. pool_enqueue (pool_of s) task True = Inr (True, p)"
    if "priority task = priority t" "func task \<noteq> None" for task
  proof -
    have "priority_index (priority task) = Some j" using j that(1) by simp
    then obtain b p where "pool_enqueue (pool_of s) task True = Inr (b, p)"
      using pool_enqueue_total by blast
    then show ?thesis
      using continue_effect [OF inv assms(2,3) _ that, of b p] by auto
  qed
  let ?f = "if shutdown (pool_of s) then sf else Some f"
  let ?task = "\<lambda>h. \<lparr>priority = priority t, func = h, arg = Some a, session_generation = g\<rparr>"
  have "\<exists>p. tc_thread_schedule_next (pool_of s) f sf a (priority t) g = Inr p"
    using enq [of "?task ?f"] by (cases "?f = None") (auto simp: tc_thread_schedule_next_def)
  moreover have "\<exists>ok p. tc_thread_schedule_next2 (pool_of s) f' a (priority t) g = Inr (ok, p)
      \<and> (ok \<longleftrightarrow> \<not> shutdown (pool_of s) \<and> f' \<noteq> None)"
    using enq [of "?task f'"] by (auto simp: tc_thread_schedule_next2_def)
  ultimately show ?thesis by blast
qed

text \<open>A successful enqueue appends the task to the buffer of its priority, and to no other.\<close>

definition queues ::
    "('f, 'a) tc_thread_pool \<Rightarrow> ('f, 'a) tc_thread_pool_context \<Rightarrow> bool \<Rightarrow> ('f, 'a) tc_thread_pool \<Rightarrow> bool"
where
  "queues pool t ok pool' \<longleftrightarrow>
     (if ok then bufs_ok pool' \<and> (\<forall>k < 4. ring_list (task_prio_buffer pool' ! k)
        = ring_list (task_prio_buffer pool ! k) @ (if priority_index (priority t) = Some k then [t] else []))
      else pool' = pool)"

lemma pool_enqueue_queues:
  assumes ok: "bufs_ok pool" and f: "func t \<noteq> None" and enq: "pool_enqueue pool t y = Inr (b, pool')"
  shows "queues pool t b pool'"
proof -
  obtain i where i: "priority_index (priority t) = Some i"
    using enq by (auto simp: pool_enqueue_def split: option.splits)
  then have "i < 4" by (rule priority_index_less)
  then have len: "i < length (task_prio_buffer pool)" using ok by (simp add: bufs_ok_def)
  from ok i enq show ?thesis
  proof (cases rule: pool_enqueue_cases)
    case full
    then show ?thesis by (simp add: queues_def)
  next
    case (room tb)
    have "bufs_ok pool'"
      unfolding room(2) using ok \<open>i < 4\<close> room(3,4) i f
      by (intro bufs_ok_update) (auto simp: bufs_ok_def)
    with room len i show ?thesis by (simp add: queues_def nth_list_update)
  qed
qed

lemma schedule_new_queues:
  assumes "bufs_ok pool" and "tc_thread_schedule_new pool f a prio g = Inr (b, pool')"
  shows "queues pool \<lparr>priority = prio, func = Some f, arg = Some a, session_generation = g\<rparr> b pool'"
proof (cases "shutdown pool")
  case True
  with assms show ?thesis by (auto simp: tc_thread_schedule_new_def queues_def)
next
  case False
  with assms show ?thesis by (auto simp: tc_thread_schedule_new_def intro!: pool_enqueue_queues)
qed

lemma schedule_next2_queues:
  assumes "bufs_ok pool" and "tc_thread_schedule_next2 pool (Some f) a prio g = Inr (b, pool')"
  shows "queues pool \<lparr>priority = prio, func = Some f, arg = Some a, session_generation = g\<rparr> b pool'"
proof (cases "shutdown pool")
  case True
  with assms show ?thesis by (auto simp: tc_thread_schedule_next2_def queues_def)
next
  case False
  with assms show ?thesis
    by (auto simp: tc_thread_schedule_next2_def intro!: pool_enqueue_queues split: sum.splits if_splits)
qed

lemma schedule_new_total:
  "prio \<noteq> PRIORITY_INVALID \<Longrightarrow> \<exists>b p. tc_thread_schedule_new pool f a prio g = Inr (b, p)"
  by (cases prio) (auto simp: tc_thread_schedule_new_def intro!: pool_enqueue_total)

section \<open>Round-robin order\<close>

text \<open>The pattern \<open>tc_server_init\<close> passes, and the index after \<open>k\<close> dequeues.\<close>

definition server_pattern :: string where
  "server_pattern = ''AABCAABCD''"

definition rr_after :: "string \<Rightarrow> nat \<Rightarrow> nat \<Rightarrow> nat" where
  "rr_after pat k i = ((\<lambda>i. snd (round_robin_next pat i)) ^^ k) i"

definition rr_codes :: "nat list" where
  "rr_codes = [0, 0, 1, 2, 0, 0, 1, 2, 3]"

definition rr_step :: "nat \<Rightarrow> nat" where
  "rr_step i = (if i < 9 then Suc i else 1)"

definition rr_code :: "nat \<Rightarrow> nat" where
  "rr_code i = (if i < 9 then rr_codes ! i else 0)"

lemma server_pattern_nth:
  "i < 9 \<Longrightarrow> of_char (server_pattern ! i) - of_char CHR ''A'' = rr_codes ! i
     \<and> server_pattern ! i \<noteq> CHR 0x00"
  by (auto simp: server_pattern_def rr_codes_def less_Suc_eq numeral_eq_Suc)

lemma rr_next_code:
  "snd (round_robin_next server_pattern i) = rr_step i"
  "of_char (fst (round_robin_next server_pattern i)) - of_char CHR ''A'' = rr_code i"
proof -
  have "length server_pattern = 9" "server_pattern \<noteq> []" by (simp_all add: server_pattern_def)
  then show "snd (round_robin_next server_pattern i) = rr_step i"
    "of_char (fst (round_robin_next server_pattern i)) - of_char CHR ''A'' = rr_code i"
    using server_pattern_nth [of i] server_pattern_nth [of 0]
    by (auto simp: round_robin_next_def rr_step_def rr_code_def rr_codes_def Let_def)
qed

lemma rr_after_steps: "rr_after server_pattern k i = (rr_step ^^ k) i"
  by (simp add: rr_after_def rr_next_code)

lemma rr_visits_small:
  "list_all (\<lambda>i. list_all (\<lambda>j. list_ex (\<lambda>k. rr_code ((rr_step ^^ k) i) = j) [0..<9]) [0..<4]) [0..<10]"
  by code_simp

lemma rr_visits_all:
  assumes "j < 4"
  shows "\<exists>k < 9. of_char (fst (round_robin_next server_pattern (rr_after server_pattern k i)))
    - of_char CHR ''A'' = (j::nat)"
proof -
  have small: "\<exists>k < 9. rr_code ((rr_step ^^ k) i') = j" if "i' < 10" for i'
  proof -
    have "i' \<in> set [0..<10]" "j \<in> set [0..<4]" using that assms by simp_all
    then obtain k where "k \<in> set [0..<9]" "rr_code ((rr_step ^^ k) i') = j"
      using rr_visits_small unfolding list_all_iff list_ex_iff by blast
    then show ?thesis by auto
  qed
  have "rr_code ((rr_step ^^ k) i) = rr_code ((rr_step ^^ k) 9)" if "10 \<le> i" for k
  proof (cases k)
    case 0
    with that show ?thesis by (simp add: rr_code_def)
  next
    case (Suc k')
    have "rr_step i = rr_step 9" using that by (simp add: rr_step_def)
    then show ?thesis unfolding Suc funpow_Suc_right by simp
  qed
  with small [of i] small [of 9] have "\<exists>k < 9. rr_code ((rr_step ^^ k) i) = j"
    by (cases "i < 10") auto
  then show ?thesis unfolding rr_next_code rr_after_steps .
qed

lemma dequeue_search_index [simp]:
  "round_robin_index (snd (dequeue_search n pool i)) = round_robin_index pool"
  by (induction n pool i rule: dequeue_search.induct) (auto split: prod.splits)

lemma server_pattern_ok: "round_robin_pattern p = server_pattern \<Longrightarrow> pattern_ok p"
  by (simp add: pattern_ok_def server_pattern_def)

section \<open>A sample run\<close>

text \<open>
  A pool of two workers that gets one task, runs it, and one that is stopped: the states at which
  the properties below are applied. \<open>f\<close> is the function and \<open>x\<close> the
  argument of the task.
\<close>

definition demo_start :: "('f, 'a) pool_system" where
  "demo_start = (let p = the (tc_thread_pool_init 4 True True (replicate TC_THREADS_MAX_THREADS True)
       server_pattern 2 2) in \<lparr>pool_of = p, workers = replicate (num_threads p) Waiting\<rparr>)"

definition demo_task :: "'f \<Rightarrow> 'a \<Rightarrow> ('f, 'a) tc_thread_pool_context" where
  "demo_task f x = \<lparr>priority = PRIORITY_HIGH, func = Some f, arg = Some x, session_generation = 9\<rparr>"

definition demo_queued :: "'f \<Rightarrow> 'a \<Rightarrow> ('f, 'a) pool_system" where
  "demo_queued f x = demo_start\<lparr>pool_of :=
     snd (projr (tc_thread_schedule_new (pool_of demo_start) f x PRIORITY_HIGH 9))\<rparr>"

definition demo_running :: "'f \<Rightarrow> 'a \<Rightarrow> ('f, 'a) pool_system" where
  "demo_running f x = demo_queued f x\<lparr>pool_of := snd (projr (worker_take (pool_of (demo_queued f x)))),
     workers := (workers (demo_queued f x))[0 := Running (demo_task f x) False]\<rparr>"

definition demo_exited :: "('f, 'a) pool_system" where
  "demo_exited = demo_start\<lparr>pool_of := tc_thread_pool_stop (pool_of demo_start),
     workers := (workers demo_start)[0 := Exited]\<rparr>"

lemma demo_start_reachable: "pool_reachable (demo_start :: ('f, 'a) pool_system)"
proof -
  obtain p :: "('f, 'a) tc_thread_pool" where
    "tc_thread_pool_init 4 True True (replicate TC_THREADS_MAX_THREADS True) server_pattern 2 2 = Some p"
    by (simp add: tc_thread_pool_init_def TC_THREADS_MAX_THREADS_def list_all_iff)
  with pool_reachable.start [OF this] show ?thesis
    by (auto simp: demo_start_def server_pattern_def)
qed

lemma demo_queued_reachable: "pool_reachable (demo_queued f x)"
proof -
  have "\<not> isl (tc_thread_schedule_new (pool_of demo_start) f x PRIORITY_HIGH 9)"
    by code_simp
  from pool_reachable.step [OF demo_start_reachable pool_step.new [OF outcome_Inr [OF this]]]
  show ?thesis unfolding demo_queued_def .
qed

lemma demo_queued_has_tasks: "thread_pool_has_tasks (pool_of (demo_queued f x))"
  by code_simp

lemma demo_running_reachable: "pool_reachable (demo_running f x)" for f :: "'f::equal" and x :: "'a::equal"
proof -
  have "\<not> isl (worker_take (pool_of (demo_queued f x)))" "fst (projr (worker_take (pool_of (demo_queued f x)))) = demo_task f x"
    by code_simp+
  then have p: "worker_take (pool_of (demo_queued f x))
      = Inr (demo_task f x, snd (projr (worker_take (pool_of (demo_queued f x)))))"
    using outcome_Inr by metis
  have "0 < length (workers (demo_queued f x))" "workers (demo_queued f x) ! 0 = Waiting"
    by code_simp+
  from pool_reachable.step [OF demo_queued_reachable pool_step.take [OF this demo_queued_has_tasks p]]
  show ?thesis unfolding demo_running_def .
qed

lemma demo_exited_reachable: "pool_reachable (demo_exited :: ('f::equal, 'a::equal) pool_system)"
proof -
  define s :: "('f, 'a) pool_system"
    where "s = demo_start\<lparr>pool_of := tc_thread_pool_stop (pool_of demo_start)\<rparr>"
  have r: "pool_reachable s"
    using pool_reachable.step [OF demo_start_reachable pool_step.stop] by (simp add: s_def)
  have "0 < length (workers s)" "workers s ! 0 = Waiting" "worker_exits (pool_of s)"
    unfolding s_def by code_simp+
  from pool_reachable.step [OF r pool_step.exit [OF this]] show ?thesis
    by (simp add: demo_exited_def s_def)
qed

lemmas demo_reachable =
  demo_start_reachable demo_queued_reachable demo_running_reachable demo_exited_reachable

text \<open>
  A pool whose medium buffer always holds a task, with the round-robin index of the \<open>k\<close>th
  dequeue.
\<close>

definition demo_medium_pool :: "(nat, nat) tc_thread_pool" where
  "demo_medium_pool =
     snd (projr (tc_thread_schedule_new (pool_of demo_start) 7 8 PRIORITY_MEDIUM 9))"

definition demo_pools :: "nat \<Rightarrow> (nat, nat) tc_thread_pool" where
  "demo_pools k = demo_medium_pool\<lparr>round_robin_index := rr_after server_pattern k 0\<rparr>"

lemma demo_medium:
  "bufs_ok demo_medium_pool" "round_robin_pattern demo_medium_pool = server_pattern"
  "buffer_eligible demo_medium_pool 1"
proof -
  have "\<not> isl (tc_thread_schedule_new (pool_of demo_start) (7::nat) (8::nat) PRIORITY_MEDIUM 9)"
    by code_simp
  from pool_reachable.step [OF demo_start_reachable
      pool_step.new [OF outcome_Inr [OF this, folded demo_medium_pool_def]]]
  have "pool_reachable (demo_start\<lparr>pool_of := demo_medium_pool\<rparr>)" .
  from pool_invD(1) [OF pool_reachable_inv [OF this]] show "bufs_ok demo_medium_pool" by simp
  show "round_robin_pattern demo_medium_pool = server_pattern" by code_simp
  show "buffer_eligible demo_medium_pool 1" by code_simp
qed

section \<open>Properties\<close>

text \<open>
  [C1] The continuation of a task chain is never lost: in every reachable state of the pool and
  its workers, a running task that has not yet continued can schedule its next task, with
  \<open>tc_thread_schedule_next\<close> and with \<open>tc_thread_schedule_next2\<close>; the
  \<open>TC_ASSERT(enqueue_success)\<close> in both never fails, because new chains leave one slot free per
  worker (per blocking slot in the blocking buffer).
\<close>

theorem continuation_never_fails:
  assumes "pool_reachable s" and "i < length (workers s)" and "workers s ! i = Running t False"
  shows "(\<exists>p. tc_thread_schedule_next (pool_of s) f sf a (priority t) g = Inr p)
    \<and> (\<exists>ok p. tc_thread_schedule_next2 (pool_of s) f' a (priority t) g = Inr (ok, p)
          \<and> (ok \<longleftrightarrow> \<not> shutdown (pool_of s) \<and> f' \<noteq> None))"
  by (rule continuation_total [OF assms])

theorem continuation_never_fails_witness:
  "(\<exists>p. tc_thread_schedule_next (pool_of (demo_running (7::nat) (8::nat))) 5 None 6 PRIORITY_HIGH 1 = Inr p)
    \<and> (\<exists>ok p. tc_thread_schedule_next2 (pool_of (demo_running (7::nat) (8::nat))) (Some 5) 6 PRIORITY_HIGH 1 = Inr (ok, p)
          \<and> (ok \<longleftrightarrow> \<not> shutdown (pool_of (demo_running (7::nat) (8::nat))) \<and> Some (5::nat) \<noteq> None))"
proof -
  have "0 < length (workers (demo_running (7::nat) (8::nat)))" "workers (demo_running (7::nat) (8::nat)) ! 0 = Running (demo_task (7::nat) (8::nat)) False"
    "priority (demo_task (7::nat) (8::nat)) = PRIORITY_HIGH"
    by code_simp+
  with continuation_never_fails [OF demo_running_reachable [of "7::nat" "8::nat"], of 0 "demo_task 7 8" 5 None 6 1 "Some 5"]
  show ?thesis by simp
qed



text \<open>
  [C4] In every reachable state the counter \<open>blocking_active\<close> is the number of workers that
  run a blocking task, and it never exceeds \<open>max_blocking_threads\<close>; \<open>active_threads\<close> is the
  number of workers that run any task.
\<close>

theorem blocking_tasks_capped:
  assumes "pool_reachable s"
  shows "count_of is_blocking (workers s) \<le> max_blocking_threads (pool_of s)
    \<and> blocking_active (pool_of s) = count_of is_blocking (workers s)
    \<and> active_threads (pool_of s) = int (count_of is_running (workers s))"
  using pool_invD(5-7) [OF pool_reachable_inv [OF assms]] by simp

theorem blocking_tasks_capped_witness:
  "active_threads (pool_of (demo_running (7::nat) (8::nat))) = int (count_of is_running (workers (demo_running (7::nat) (8::nat))))
    \<and> blocking_active (pool_of (demo_running (7::nat) (8::nat))) = count_of is_blocking (workers (demo_running (7::nat) (8::nat)))
    \<and> active_threads (pool_of (demo_running (7::nat) (8::nat))) = 1"
proof -
  have "active_threads (pool_of (demo_running (7::nat) (8::nat))) = 1" by code_simp
  with blocking_tasks_capped [OF demo_running_reachable [of "7::nat" "8::nat"]] show ?thesis by simp
qed

text \<open>
  A worker that saw work gets work: in every reachable state where
  \<open>thread_pool_has_tasks\<close> holds, the round-robin dequeue returns a task with a function to
  call, taken from the front of an eligible buffer of the task's own priority; the fallback
  marked \<^verbatim>\<open>should never happen\<close> is not reached.
\<close>

theorem worker_gets_a_task:
  assumes "pool_reachable s" and "thread_pool_has_tasks (pool_of s)"
  shows "\<exists>t p j. worker_take (pool_of s) = Inr (t, p) \<and> func t \<noteq> None \<and> j < 4
    \<and> buffer_eligible (pool_of s) j \<and> priority_index (priority t) = Some j
    \<and> ring_list (task_prio_buffer (pool_of s) ! j)
        = t # ring_list (task_prio_buffer p ! j)"
proof -
  note I = pool_invD [OF pool_reachable_inv [OF assms(1)]]
  obtain t j tb i where d: "task_pool_dequeue (pool_of s) = Inr (t, (pool_of s)\<lparr>round_robin_index := i,
        task_prio_buffer := (task_prio_buffer (pool_of s))[j := tb]\<rparr>)"
    and e: "j < 4" "buffer_eligible (pool_of s) j"
    and l: "ring_list (task_prio_buffer (pool_of s) ! j) = t # ring_list tb"
    and t: "priority_index (priority t) = Some j" "func t \<noteq> None"
    by (rule task_pool_dequeue_effect [OF I(1,2) assms(2)])
  have "j < length (task_prio_buffer (pool_of s))" using I(1) e(1) by (simp add: bufs_ok_def)
  then obtain p where p: "worker_take (pool_of s) = Inr (t, p)" "task_prio_buffer p ! j = tb"
    unfolding worker_take_def d sum.case prod.case by (simp del: sum.simps prod.simps)
  have "worker_take (pool_of s) = Inr (t, p) \<and> func t \<noteq> None \<and> j < 4
    \<and> buffer_eligible (pool_of s) j \<and> priority_index (priority t) = Some j
    \<and> ring_list (task_prio_buffer (pool_of s) ! j) = t # ring_list (task_prio_buffer p ! j)"
    unfolding p(2) by (intro conjI p(1) t e l)
  then show ?thesis by blast
qed

theorem worker_gets_a_task_witness:
  "\<exists>t p j. worker_take (pool_of (demo_queued (7::nat) (8::nat))) = Inr (t, p) \<and> func t \<noteq> None \<and> j < 4
    \<and> buffer_eligible (pool_of (demo_queued (7::nat) (8::nat))) j \<and> priority_index (priority t) = Some j
    \<and> ring_list (task_prio_buffer (pool_of (demo_queued (7::nat) (8::nat))) ! j)
        = t # ring_list (task_prio_buffer p ! j)"
  by (rule worker_gets_a_task [OF demo_queued_reachable demo_queued_has_tasks])

text \<open>
  The ring buffers are FIFO queues of \<open>capacity - 1\<close> tasks: tasks enqueued while they
  fit are all accepted, and dequeuing returns the old contents followed by the new tasks, in
  order, with none lost or duplicated.
\<close>

theorem task_buffer_fifo:
  assumes "ring_wf tb" and "length (ring_list tb) + length ts \<le> capacity tb - 1"
  shows "\<exists>tb1 tb2. put_all (\<lambda>t b. task_buffer_enqueue pool b t True blk) ts tb = (True, tb1)
    \<and> get_many task_buffer_dequeue (length (ring_list tb) + length ts) tb1
        = (ring_list tb @ ts, tb2)
    \<and> ring_wf tb2 \<and> ring_list tb2 = []"
  using ring.fifo [OF assms] .

theorem task_buffer_fifo_witness:
  "\<exists>tb1 tb2. put_all (\<lambda>t b. task_buffer_enqueue (pool_of demo_start) b t True True)
        [(demo_task (7::nat) (8::nat)), (demo_task (7::nat) (8::nat))] (init_task_buffer (replicate 8 (demo_task (7::nat) (8::nat))) 8) = (True, tb1)
    \<and> get_many task_buffer_dequeue 2 tb1 = ([(demo_task (7::nat) (8::nat)), (demo_task (7::nat) (8::nat))], tb2)
    \<and> ring_wf tb2 \<and> ring_list tb2 = []"
proof -
  let ?b = "init_task_buffer (replicate 8 (demo_task (7::nat) (8::nat))) 8"
  have wf: "ring_wf ?b" and e: "ring_list ?b = []" and c: "capacity ?b = 8"
    by (simp_all add: ring_wf_def init_task_buffer_def ring_list_def ring_used_def)
  have "length (ring_list ?b) + length [(demo_task (7::nat) (8::nat)), (demo_task (7::nat) (8::nat))] \<le> capacity ?b - 1"
    unfolding e c by simp
  moreover have "length (ring_list ?b) + length [(demo_task (7::nat) (8::nat)), (demo_task (7::nat) (8::nat))] = 2"
    unfolding e by simp
  ultimately show ?thesis
    using task_buffer_fifo [OF wf, of "[(demo_task (7::nat) (8::nat)), (demo_task (7::nat) (8::nat))]" "pool_of demo_start" True]
    unfolding e append_Nil by (simp only:)
qed

text \<open>
  [C3] No priority starves: with the pattern \<open>AABCAABCD\<close> of the server, whatever happens to
  the pool between dequeues, a buffer that is eligible at each of nine consecutive dequeues is
  served by at least one of them. \<open>ps k\<close> is the pool at the \<open>k\<close>th dequeue; only dequeues
  change the round-robin index.
\<close>

theorem round_robin_no_starvation:
  assumes "j < 4"
    and "\<And>k. k < 9 \<Longrightarrow> bufs_ok (ps k) \<and> round_robin_pattern (ps k) = server_pattern
      \<and> buffer_eligible (ps k) j"
    and "\<And>k. k < 8 \<Longrightarrow> round_robin_index (ps (Suc k))
      = round_robin_index (snd (projr (task_pool_dequeue (ps k))))"
  shows "\<exists>k < 9. \<exists>q. task_pool_dequeue (ps k) = Inr (hd (ring_list (task_prio_buffer (ps k) ! j)), q)"
proof -
  have idx: "k < 9 \<Longrightarrow> round_robin_index (ps k) = rr_after server_pattern k (round_robin_index (ps 0))" for k
  proof (induction k)
    case 0
    then show ?case by (simp add: rr_after_def)
  next
    case (Suc k)
    then have "pattern_ok (ps k)" and p: "round_robin_pattern (ps k) = server_pattern"
      using assms(2) by (auto intro: server_pattern_ok)
    with Suc assms(3) [of k] show ?case
      by (simp add: task_pool_dequeue_eq(2)) (simp add: rr_after_def)
  qed
  obtain k where k: "k < 9" "of_char (fst (round_robin_next server_pattern
      (rr_after server_pattern k (round_robin_index (ps 0))))) - of_char CHR ''A'' = j"
    using rr_visits_all [OF assms(1)] by blast
  note A = assms(2) [OF k(1)]
  have start: "rr_start (ps k) = j"
    using k idx [OF k(1)] A by (simp add: rr_start_def)
  define q where "q = (ps k)\<lparr>round_robin_index := snd (round_robin_next (round_robin_pattern (ps k))
    (round_robin_index (ps k)))\<rparr>"
  have "bufs_ok q" "buffer_eligible q j" using A by (simp_all add: q_def)
  then obtain t tb where d: "pool_dequeue_from q j
      = (t, q\<lparr>task_prio_buffer := (task_prio_buffer q)[j := tb]\<rparr>)"
    "ring_list (task_prio_buffer q ! j) = t # ring_list tb"
    using pool_dequeue_from_effect [of q j] assms(1) by metis
  have "task_pool_dequeue (ps k) = Inr (dequeue_search 4 q j)"
    using task_pool_dequeue_eq(2) [OF server_pattern_ok, of "ps k"] A unfolding start q_def by blast
  also have "dequeue_search 4 q j = pool_dequeue_from q j"
    using \<open>buffer_eligible q j\<close> dequeue_search_first [of q j 3] by (simp add: numeral_eq_Suc)
  finally show ?thesis using d k(1) by (auto simp: q_def)
qed

theorem round_robin_no_starvation_witness:
  "\<exists>k < 9. \<exists>q. task_pool_dequeue (demo_pools k)
     = Inr (hd (ring_list (task_prio_buffer (demo_pools k) ! 1)), q)"
proof (rule round_robin_no_starvation)
  show "(1::nat) < 4" by simp
next
  fix k :: nat
  show "bufs_ok (demo_pools k) \<and> round_robin_pattern (demo_pools k) = server_pattern
    \<and> buffer_eligible (demo_pools k) 1"
    using demo_medium by (simp add: demo_pools_def)
next
  fix k :: nat
  have "pattern_ok (demo_pools k)" "round_robin_pattern (demo_pools k) = server_pattern"
    using demo_medium by (simp_all add: demo_pools_def server_pattern_ok)
  then show "round_robin_index (demo_pools (Suc k))
      = round_robin_index (snd (projr (task_pool_dequeue (demo_pools k))))"
    by (simp add: task_pool_dequeue_eq(2)) (simp add: demo_pools_def rr_after_def)
qed

end
