(* ===== verification/TC_Task_Backlog.thy ===== *)
theory TC_Task_Backlog
  imports TC_Thread_Pool
begin

text \<open>
  The task backlog of \<^verbatim>\<open>src/task_backlog.c\<close>: a linked list of blocks of 32 entries that wait for
  the result of a blocking task, and the two operations that hand the entries to the thread pool.

  The blocks live in an explicit heap, a map from addresses to blocks, so that the tail pointer,
  the links and the frees are visible. Success handlers are task codes of the pool (type \<open>'f\<close>);
  failure, acquire and release handlers are functions on the rest of the program's state (type
  \<open>'w\<close>). Results and contexts are of types \<open>'r\<close> and \<open>'c\<close>.
\<close>

section \<open>Data\<close>

definition TC_TASK_BACKLOG_BUFFER_SIZE :: nat where
  "TC_TASK_BACKLOG_BUFFER_SIZE = 32"

record ('r, 'c) tc_task_backlog_args =
  args_result :: 'r
  args_context :: 'c

record ('f, 'w, 'c) tc_task_backlog_entry =
  success_handler :: 'f
  failure_handler :: "'c \<Rightarrow> int \<Rightarrow> 'w \<Rightarrow> 'w"
  entry_context :: 'c
  entry_priority :: tc_thread_pool_task_priority
  entry_generation :: int

text \<open>\<open>entries\<close> holds the slots of the array that have been written.\<close>

record 'e tc_task_backlog_block =
  entries :: "'e list"
  count :: nat
  next_block :: "nat option"

record tc_task_backlog =
  head_block :: "nat option"
  tail_block :: "nat option"

text \<open>
  The heap of blocks. \<open>malloc_script\<close> says which of the next calls of \<open>p_malloc\<close> succeed; an
  exhausted script succeeds.
\<close>

record 'e block_heap =
  block_at :: "nat \<Rightarrow> 'e tc_task_backlog_block option"
  next_address :: nat
  malloc_script :: "bool list"

section \<open>The backlog\<close>

definition tc_task_backlog_initialize :: tc_task_backlog where
  "tc_task_backlog_initialize = \<lparr>head_block = None, tail_block = None\<rparr>"

definition load_block :: "nat option \<Rightarrow> ('e block_heap, 'e tc_task_backlog_block) cm" where
  "load_block p = (\<lambda>h.
     case p of None \<Rightarrow> Inl NullDereference
     | Some a \<Rightarrow> (case block_at h a of None \<Rightarrow> Inl UseAfterFree | Some b \<Rightarrow> Inr (b, h)))"

definition store_block :: "nat option \<Rightarrow> 'e tc_task_backlog_block \<Rightarrow> ('e block_heap, unit) cm" where
  "store_block p b = (\<lambda>h.
     case p of None \<Rightarrow> Inl NullDereference
     | Some a \<Rightarrow> (case block_at h a of None \<Rightarrow> Inl UseAfterFree
                | Some _ \<Rightarrow> Inr ((), h\<lparr>block_at := (block_at h)(a \<mapsto> b)\<rparr>)))"

definition free_block :: "nat \<Rightarrow> ('e block_heap, unit) cm" where
  "free_block a = (\<lambda>h. case block_at h a of None \<Rightarrow> Inl UseAfterFree
     | Some _ \<Rightarrow> Inr ((), h\<lparr>block_at := (block_at h)(a := None)\<rparr>))"

definition tc_task_backlog_block_new :: "('e block_heap, nat option) cm" where
  "tc_task_backlog_block_new = (\<lambda>h.
     case malloc_script h of
       False # rest \<Rightarrow> Inr (None, h\<lparr>malloc_script := rest\<rparr>)
     | ms \<Rightarrow> Inr (Some (next_address h),
         h\<lparr>block_at := (block_at h)(next_address h \<mapsto>
              \<lparr>entries = [], count = 0, next_block = None\<rparr>),
            next_address := next_address h + 1,
            malloc_script := drop 1 ms\<rparr>))"

partial_function (option) free_blocks ::
    "nat option \<Rightarrow> 'e block_heap \<Rightarrow> (fault + unit \<times> 'e block_heap) option" where
  "free_blocks block h =
     (case block of None \<Rightarrow> Some (Inr ((), h))
      | Some a \<Rightarrow>
          (case load_block (Some a) h of
             Inl f \<Rightarrow> Some (Inl f)
           | Inr (b, _) \<Rightarrow>
               (case free_block a h of
                  Inl f \<Rightarrow> Some (Inl f)
                | Inr (_, h') \<Rightarrow> free_blocks (next_block b) h')))"

definition tc_task_backlog_finalize ::
    "tc_task_backlog \<Rightarrow> 'e block_heap \<Rightarrow> (fault + unit \<times> 'e block_heap) option" where
  "tc_task_backlog_finalize backlog = free_blocks (head_block backlog)"

text \<open>The write of the entry into the tail block, after both guards of \<open>tc_task_backlog_push\<close>.\<close>

definition backlog_write :: "nat option \<Rightarrow> 'e \<Rightarrow> ('e block_heap, unit) cm" where
  "backlog_write tail entry =
     bindC (load_block tail) (\<lambda>b.
       if count b \<ge> TC_TASK_BACKLOG_BUFFER_SIZE then faultC OutOfBounds
       else store_block tail (b\<lparr>entries := take (count b) (entries b) @ [entry],
                               count := count b + 1\<rparr>))"

text \<open>The first guard: an empty backlog gets its first block.\<close>

definition backlog_first_block :: "tc_task_backlog \<Rightarrow> ('e block_heap, tc_task_backlog option) cm" where
  "backlog_first_block backlog =
     (if head_block backlog = None then
        thenC (tc_assert (\<lambda>_. tail_block backlog = None))
        (bindC tc_task_backlog_block_new (\<lambda>new_block.
           if new_block = None then retC None
           else retC (Some (backlog\<lparr>head_block := new_block, tail_block := new_block\<rparr>))))
      else retC (Some backlog))"

text \<open>The second guard: a full tail block gets a successor.\<close>

definition backlog_grow :: "tc_task_backlog \<Rightarrow> ('e block_heap, tc_task_backlog option) cm" where
  "backlog_grow backlog =
     bindC (load_block (tail_block backlog)) (\<lambda>tail.
       if count tail = TC_TASK_BACKLOG_BUFFER_SIZE then
         bindC tc_task_backlog_block_new (\<lambda>new_block.
           if new_block = None then retC None
           else thenC (store_block (tail_block backlog) (tail\<lparr>next_block := new_block\<rparr>))
                (retC (Some (backlog\<lparr>tail_block := new_block\<rparr>))))
       else retC (Some backlog))"

text \<open>
  The result carries the backlog, whose two pointers the call may have changed; a failure in the
  second guard leaves what the first did.
\<close>

definition tc_task_backlog_push ::
    "tc_task_backlog \<Rightarrow> 'e \<Rightarrow> ('e block_heap, bool \<times> tc_task_backlog) cm" where
  "tc_task_backlog_push backlog entry =
     bindC (backlog_first_block backlog) (\<lambda>r1.
       case r1 of
         None \<Rightarrow> retC (False, backlog)
       | Some backlog1 \<Rightarrow>
           bindC (backlog_grow backlog1) (\<lambda>r2.
             case r2 of
               None \<Rightarrow> retC (False, backlog1)
             | Some backlog2 \<Rightarrow>
                 thenC (backlog_write (tail_block backlog2) entry) (retC (True, backlog2))))"

section \<open>Handing entries to the pool\<close>

text \<open>
  The state the two scheduling operations work on: the pool, the rest of the program, the script
  of \<open>p_malloc\<close>, and the number of argument records allocated and not freed here.
\<close>

record ('f, 'r, 'c, 'w) sched_state =
  sched_pool :: "('f, ('r, 'c) tc_task_backlog_args) tc_thread_pool"
  sched_world :: 'w
  sched_mallocs :: "bool list"
  live_args :: nat

definition alloc_args :: "('f, 'r, 'c, 'w) sched_state \<Rightarrow> fault + bool \<times> ('f, 'r, 'c, 'w) sched_state" where
  "alloc_args s =
     (case sched_mallocs s of
        False # rest \<Rightarrow> Inr (False, s\<lparr>sched_mallocs := rest\<rparr>)
      | ms \<Rightarrow> Inr (True, s\<lparr>sched_mallocs := drop 1 ms, live_args := live_args s + 1\<rparr>))"

definition free_args :: "(('f, 'r, 'c, 'w) sched_state, unit) cm" where
  "free_args = modifyC (\<lambda>s. s\<lparr>live_args := live_args s - 1\<rparr>)"

definition on_world :: "('w \<Rightarrow> 'w) \<Rightarrow> (('f, 'r, 'c, 'w) sched_state, unit) cm" where
  "on_world g = modifyC (\<lambda>s. s\<lparr>sched_world := g (sched_world s)\<rparr>)"

definition call_handler :: "('r \<Rightarrow> 'w \<Rightarrow> 'w) option \<Rightarrow> 'r \<Rightarrow> (('f, 'r, 'c, 'w) sched_state, unit) cm" where
  "call_handler handler result = (case handler of None \<Rightarrow> retC () | Some g \<Rightarrow> on_world (g result))"

definition call_failure ::
    "('f, 'w, 'c) tc_task_backlog_entry \<Rightarrow> (('f, 'r, 'c, 'w) sched_state, unit) cm" where
  "call_failure entry =
     on_world (failure_handler entry (entry_context entry) (entry_generation entry))"

definition on_pool ::
    "(('f, ('r, 'c) tc_task_backlog_args) tc_thread_pool
        \<Rightarrow> (bool \<times> ('f, ('r, 'c) tc_task_backlog_args) tc_thread_pool) outcome)
     \<Rightarrow> (('f, 'r, 'c, 'w) sched_state, bool) cm" where
  "on_pool op = (\<lambda>s. case op (sched_pool s) of
     Inl f \<Rightarrow> Inl f | Inr (ok, p) \<Rightarrow> Inr (ok, s\<lparr>sched_pool := p\<rparr>))"

definition schedule_continuation ::
    "('f, 'w, 'c) tc_task_backlog_entry \<Rightarrow> 'r \<Rightarrow> (('f, 'r, 'c, 'w) sched_state, bool) cm" where
  "schedule_continuation entry r = on_pool (\<lambda>p. tc_thread_schedule_next2 p
     (Some (success_handler entry)) \<lparr>args_result = r, args_context = entry_context entry\<rparr>
     (entry_priority entry) (entry_generation entry))"

definition schedule_chain ::
    "('f, 'w, 'c) tc_task_backlog_entry \<Rightarrow> 'r \<Rightarrow> (('f, 'r, 'c, 'w) sched_state, bool) cm" where
  "schedule_chain entry r = on_pool (\<lambda>p. tc_thread_schedule_new p
     (success_handler entry) \<lparr>args_result = r, args_context = entry_context entry\<rparr>
     (entry_priority entry) (entry_generation entry))"

text \<open>What both operations do when the pool refuses the success handler.\<close>

definition give_up ::
    "('f, 'w, 'c) tc_task_backlog_entry \<Rightarrow> ('r \<Rightarrow> 'w \<Rightarrow> 'w) option \<Rightarrow> 'r
     \<Rightarrow> (('f, 'r, 'c, 'w) sched_state, unit) cm" where
  "give_up entry release r =
     thenC (call_failure entry) (thenC (call_handler release r) free_args)"

text \<open>
  One iteration of the inner loop of \<open>tc_task_schedule_backlog\<close>; the result is the new value of
  \<open>task_chain_continued\<close>.
\<close>

definition schedule_entry ::
    "('r \<Rightarrow> 'w \<Rightarrow> 'w) option \<Rightarrow> ('r \<Rightarrow> 'w \<Rightarrow> 'w) option \<Rightarrow> 'r option
     \<Rightarrow> tc_thread_pool_task_priority \<Rightarrow> ('f, 'w, 'c) tc_task_backlog_entry \<Rightarrow> bool
     \<Rightarrow> (('f, 'r, 'c, 'w) sched_state, bool) cm" where
  "schedule_entry aquire release result current_priority entry continued =
     (case result of
        None \<Rightarrow> thenC (call_failure entry) (retC continued)
      | Some r \<Rightarrow>
          bindC alloc_args (\<lambda>ok.
            if \<not> ok then thenC (call_failure entry) (retC continued)
            else thenC (call_handler aquire r)
              (if entry_priority entry = current_priority \<and> \<not> continued then
                 bindC (schedule_continuation entry r) (\<lambda>continue_success.
                   if \<not> continue_success then thenC (give_up entry release r) (retC continued)
                   else retC True)
               else
                 bindC (schedule_chain entry r) (\<lambda>scheduled.
                   if \<not> scheduled then thenC (give_up entry release r) (retC continued)
                   else retC continued))))"

primrec schedule_entries ::
    "('r \<Rightarrow> 'w \<Rightarrow> 'w) option \<Rightarrow> ('r \<Rightarrow> 'w \<Rightarrow> 'w) option \<Rightarrow> 'r option
     \<Rightarrow> tc_thread_pool_task_priority \<Rightarrow> ('f, 'w, 'c) tc_task_backlog_entry list \<Rightarrow> bool
     \<Rightarrow> (('f, 'r, 'c, 'w) sched_state, bool) cm" where
  "schedule_entries aquire release result prio [] continued = retC continued"
| "schedule_entries aquire release result prio (e # es) continued =
     bindC (schedule_entry aquire release result prio e continued) (\<lambda>c.
       schedule_entries aquire release result prio es c)"

text \<open>The outer loop along \<open>next_block\<close>; it only reads the blocks.\<close>

partial_function (option) schedule_blocks ::
    "('r \<Rightarrow> 'w \<Rightarrow> 'w) option \<Rightarrow> ('r \<Rightarrow> 'w \<Rightarrow> 'w) option \<Rightarrow> 'r option
     \<Rightarrow> tc_thread_pool_task_priority \<Rightarrow> ('f, 'w, 'c) tc_task_backlog_entry block_heap \<Rightarrow> nat option
     \<Rightarrow> bool \<Rightarrow> ('f, 'r, 'c, 'w) sched_state
     \<Rightarrow> (fault + bool \<times> ('f, 'r, 'c, 'w) sched_state) option" where
  "schedule_blocks aquire release result prio h block continued s =
     (case block of None \<Rightarrow> Some (Inr (continued, s))
      | Some a \<Rightarrow>
          (case load_block (Some a) h of
             Inl f \<Rightarrow> Some (Inl f)
           | Inr (b, _) \<Rightarrow>
               (case schedule_entries aquire release result prio (take (count b) (entries b))
                       continued s of
                  Inl f \<Rightarrow> Some (Inl f)
                | Inr (c, s') \<Rightarrow>
                    schedule_blocks aquire release result prio h (next_block b) c s')))"

definition tc_task_schedule_backlog ::
    "('f, 'w, 'c) tc_task_backlog_entry block_heap \<Rightarrow> tc_task_backlog
     \<Rightarrow> ('r \<Rightarrow> 'w \<Rightarrow> 'w) option \<Rightarrow> ('r \<Rightarrow> 'w \<Rightarrow> 'w) option \<Rightarrow> 'r option
     \<Rightarrow> tc_thread_pool_task_priority \<Rightarrow> ('f, 'r, 'c, 'w) sched_state
     \<Rightarrow> (fault + bool \<times> ('f, 'r, 'c, 'w) sched_state) option" where
  "tc_task_schedule_backlog h backlog aquire release result prio s =
     schedule_blocks aquire release result prio h (head_block backlog) False s"

definition tc_task_backlog_invoke_handler ::
    "('f, 'w, 'c) tc_task_backlog_entry \<Rightarrow> ('r \<Rightarrow> 'w \<Rightarrow> 'w) option \<Rightarrow> ('r \<Rightarrow> 'w \<Rightarrow> 'w) option
     \<Rightarrow> 'r option \<Rightarrow> tc_thread_pool_task_priority \<Rightarrow> (('f, 'r, 'c, 'w) sched_state, unit) cm" where
  "tc_task_backlog_invoke_handler entry aquire release result current_priority =
     (case result of
        None \<Rightarrow> call_failure entry
      | Some r \<Rightarrow>
          bindC alloc_args (\<lambda>ok.
            if \<not> ok then call_failure entry
            else thenC (call_handler aquire r)
              (if current_priority \<noteq> PRIORITY_INVALID \<and> current_priority = entry_priority entry then
                 bindC (schedule_continuation entry r) (\<lambda>scheduled.
                   if \<not> scheduled then give_up entry release r else retC ())
               else
                 bindC (schedule_chain entry r) (\<lambda>scheduled.
                   if \<not> scheduled then give_up entry release r else retC ()))))"

section \<open>The list of entries in a heap\<close>

primrec chain ::
    "(nat \<Rightarrow> 'e tc_task_backlog_block option) \<Rightarrow> nat option \<Rightarrow> nat list \<Rightarrow> nat option \<Rightarrow> bool" where
  "chain h p [] q \<longleftrightarrow> p = q"
| "chain h p (a # as) q \<longleftrightarrow> p = Some a \<and> (\<exists>b. h a = Some b \<and> chain h (next_block b) as q)"

definition chain_entries :: "(nat \<Rightarrow> 'e tc_task_backlog_block option) \<Rightarrow> nat list \<Rightarrow> 'e list" where
  "chain_entries h as = concat (map (\<lambda>a. entries (the (h a))) as)"

text \<open>
  The blocks of a backlog: linked from \<open>head_block\<close> to \<open>tail_block\<close>, at addresses that were
  handed out, none with more than 32 entries.
\<close>

definition backlog_wf :: "'e block_heap \<Rightarrow> tc_task_backlog \<Rightarrow> nat list \<Rightarrow> bool" where
  "backlog_wf h backlog as \<longleftrightarrow>
     chain (block_at h) (head_block backlog) as None \<and> distinct as
     \<and> tail_block backlog = (if as = [] then None else Some (last as))
     \<and> (\<forall>a \<in> set as. \<forall>b. block_at h a = Some b \<longrightarrow> count b = length (entries b) \<and> count b \<le> 32)
     \<and> (\<forall>a. next_address h \<le> a \<longrightarrow> block_at h a = None)"

lemma chain_append: "chain h p (as @ bs) q \<longleftrightarrow> (\<exists>r. chain h p as r \<and> chain h r bs q)"
  by (induction as arbitrary: p) auto

lemma chain_cong: "(\<And>a. a \<in> set as \<Longrightarrow> h a = h' a) \<Longrightarrow> chain h p as q \<longleftrightarrow> chain h' p as q"
  by (induction as arbitrary: p) auto

lemma chain_upd_other [simp]: "a \<notin> set as \<Longrightarrow> chain (h(a := b)) p as q \<longleftrightarrow> chain h p as q"
  by (rule chain_cong) auto

lemma chain_allocated: "chain h p as q \<Longrightarrow> a \<in> set as \<Longrightarrow> \<exists>b. h a = Some b"
  by (induction as arbitrary: p) auto

lemma chain_entries_simps [simp]:
  "chain_entries h [] = []"
  "chain_entries h (a # as) = entries (the (h a)) @ chain_entries h as"
  "chain_entries h (as @ bs) = chain_entries h as @ chain_entries h bs"
  by (simp_all add: chain_entries_def)

lemma chain_entries_upd_other [simp]:
  "a \<notin> set as \<Longrightarrow> chain_entries (h(a := b)) as = chain_entries h as"
  unfolding chain_entries_def by (intro arg_cong [of _ _ concat] map_cong) auto

lemma backlog_wf_malloc [simp]: "backlog_wf (h\<lparr>malloc_script := m\<rparr>) backlog as = backlog_wf h backlog as"
  by (simp add: backlog_wf_def)

lemma backlog_wfD:
  assumes "backlog_wf h backlog as"
  shows "chain (block_at h) (head_block backlog) as None" and "distinct as"
    and "tail_block backlog = (if as = [] then None else Some (last as))"
    and "a \<in> set as \<Longrightarrow> block_at h a = Some b \<Longrightarrow> count b = length (entries b) \<and> count b \<le> 32"
    and "next_address h \<le> a \<Longrightarrow> block_at h a = None"
  using assms by (auto simp: backlog_wf_def)

lemma fresh_not_in_chain:
  assumes "backlog_wf h backlog as"
  shows "next_address h \<notin> set as"
  using chain_allocated [OF backlog_wfD(1) [OF assms], of "next_address h"]
    backlog_wfD(5) [OF assms, of "next_address h"] by auto

lemma block_new_cases:
  obtains rest where "malloc_script h = False # rest"
      "tc_task_backlog_block_new h = Inr (None, h\<lparr>malloc_script := rest\<rparr>)"
  | "\<nexists>rest. malloc_script h = False # rest"
      "tc_task_backlog_block_new h = Inr (Some (next_address h),
         h\<lparr>block_at := (block_at h)(next_address h \<mapsto>
              \<lparr>entries = [], count = 0, next_block = None\<rparr>),
            next_address := next_address h + 1,
            malloc_script := drop 1 (malloc_script h)\<rparr>)"
proof (cases "malloc_script h")
  case Nil
  then show thesis by (intro that(2)) (auto simp: tc_task_backlog_block_new_def)
next
  case (Cons m rest)
  show thesis
  proof (cases m)
    case True
    with Cons show thesis by (intro that(2)) (auto simp: tc_task_backlog_block_new_def)
  next
    case False
    with Cons show thesis by (intro that(1) [of rest]) (auto simp: tc_task_backlog_block_new_def)
  qed
qed

lemmas push_simps = tc_task_backlog_push_def backlog_first_block_def backlog_grow_def backlog_write_def
  load_block_def store_block_def TC_TASK_BACKLOG_BUFFER_SIZE_def run_simps

text \<open>The three ways a push can go: into an empty backlog, into the tail block, into a new block.\<close>

lemma push_empty:
  assumes wf: "backlog_wf h backlog []"
  shows "\<exists>ok backlog' h' as'. tc_task_backlog_push backlog e h = Inr ((ok, backlog'), h')
    \<and> backlog_wf h' backlog' as'
    \<and> chain_entries (block_at h') as' = (if ok then [e] else [])
    \<and> (\<not> ok \<longrightarrow> (\<exists>rest. malloc_script h = False # rest))"
proof (cases rule: block_new_cases [of h])
  case (1 rest)
  have "head_block backlog = None" "tail_block backlog = None"
    using backlog_wfD(1,3) [OF wf] by auto
  with 1 have "tc_task_backlog_push backlog e h = Inr ((False, backlog), h\<lparr>malloc_script := rest\<rparr>)"
    by (simp add: push_simps)
  moreover have "backlog_wf (h\<lparr>malloc_script := rest\<rparr>) backlog []" using wf by simp
  ultimately show ?thesis using 1(1)
    by (intro exI [of _ False] exI [of _ backlog] exI [of _ "h\<lparr>malloc_script := rest\<rparr>"] exI [of _ "[]"]) simp
next
  case 2
  let ?n = "next_address h" and ?bl = "backlog\<lparr>head_block := Some (next_address h), tail_block := Some (next_address h)\<rparr>"
  let ?h = "h\<lparr>block_at := (block_at h)(?n \<mapsto> \<lparr>entries = [e], count = 1, next_block = None\<rparr>),
            next_address := ?n + 1, malloc_script := drop 1 (malloc_script h)\<rparr>"
  have "head_block backlog = None" "tail_block backlog = None"
    using backlog_wfD(1,3) [OF wf] by auto
  with 2 have "tc_task_backlog_push backlog e h = Inr ((True, ?bl), ?h)"
    by (simp add: push_simps)
  moreover have "backlog_wf ?h ?bl [?n]" using backlog_wfD(5) [OF wf] by (simp add: backlog_wf_def)
  ultimately show ?thesis by (intro exI [of _ True] exI [of _ ?bl] exI [of _ ?h] exI [of _ "[?n]"]) simp
qed

lemma push_tail:
  assumes wf: "backlog_wf h backlog (as @ [l])" and b: "block_at h l = Some b" and "count b < 32"
  shows "\<exists>h'. tc_task_backlog_push backlog e h = Inr ((True, backlog), h')
    \<and> backlog_wf h' backlog (as @ [l])
    \<and> chain_entries (block_at h') (as @ [l]) = chain_entries (block_at h) (as @ [l]) @ [e]"
proof -
  note W = backlog_wfD [OF wf]
  let ?b = "b\<lparr>entries := entries b @ [e], count := count b + 1\<rparr>"
  let ?h = "h\<lparr>block_at := (block_at h)(l \<mapsto> ?b)\<rparr>"
  have tail: "tail_block backlog = Some l" using W(3) by simp
  have head: "head_block backlog \<noteq> None" using W(1) by (cases as) auto
  have cnt: "count b = length (entries b)" using W(4) [of l b] b by simp
  have "tc_task_backlog_push backlog e h = Inr ((True, backlog), ?h)"
    using head tail b assms(3) cnt by (auto simp: push_simps)
  moreover have "backlog_wf ?h backlog (as @ [l])"
    unfolding backlog_wf_def
  proof (intro conjI)
    show "chain (block_at ?h) (head_block backlog) (as @ [l]) None"
      using W(1,2) b by (simp add: chain_append)
    show "\<forall>a. next_address ?h \<le> a \<longrightarrow> block_at ?h a = None" using W(5) b by auto
    show "\<forall>a \<in> set (as @ [l]). \<forall>c. block_at ?h a = Some c \<longrightarrow> count c = length (entries c) \<and> count c \<le> 32"
      using W(4) cnt assms(3) by auto
  qed (use W(2,3) in auto)
  moreover have "chain_entries (block_at ?h) (as @ [l]) = chain_entries (block_at h) (as @ [l]) @ [e]"
    using b W(2) by simp
  ultimately show ?thesis by blast
qed

lemma push_grow:
  assumes wf: "backlog_wf h backlog (as @ [l])" and b: "block_at h l = Some b" and full: "count b = 32"
  shows "\<exists>ok backlog' h' as'. tc_task_backlog_push backlog e h = Inr ((ok, backlog'), h')
    \<and> backlog_wf h' backlog' as'
    \<and> chain_entries (block_at h') as'
        = (if ok then chain_entries (block_at h) (as @ [l]) @ [e] else chain_entries (block_at h) (as @ [l]))
    \<and> (\<not> ok \<longrightarrow> (\<exists>rest. malloc_script h = False # rest))"
proof (cases rule: block_new_cases [of h])
  case (1 rest)
  note W = backlog_wfD [OF wf]
  have tail: "tail_block backlog = Some l" using W(3) by simp
  have head: "head_block backlog \<noteq> None" using W(1) by (cases as) auto
  from 1 head tail b full
  have "tc_task_backlog_push backlog e h = Inr ((False, backlog), h\<lparr>malloc_script := rest\<rparr>)"
    by (auto simp: push_simps)
  moreover have "backlog_wf (h\<lparr>malloc_script := rest\<rparr>) backlog (as @ [l])" using wf by simp
  ultimately show ?thesis using 1(1)
    by (intro exI [of _ False] exI [of _ backlog] exI [of _ "h\<lparr>malloc_script := rest\<rparr>"]
        exI [of _ "as @ [l]"]) simp
next
  case 2
  note W = backlog_wfD [OF wf]
  let ?n = "next_address h" and ?bl = "backlog\<lparr>tail_block := Some (next_address h)\<rparr>"
  let ?h = "h\<lparr>block_at := (block_at h)(l \<mapsto> b\<lparr>next_block := Some ?n\<rparr>,
              ?n \<mapsto> \<lparr>entries = [e], count = 1, next_block = None\<rparr>),
            next_address := ?n + 1, malloc_script := drop 1 (malloc_script h)\<rparr>"
  have tail: "tail_block backlog = Some l" using W(3) by simp
  have head: "head_block backlog \<noteq> None" using W(1) by (cases as) auto
  have fresh: "?n \<notin> set as" "?n \<noteq> l" using fresh_not_in_chain [OF wf] by auto
  have "tc_task_backlog_push backlog e h = Inr ((True, ?bl), ?h)"
    using 2 head tail b full fresh by (auto simp: push_simps fun_upd_twist)
  moreover have "backlog_wf ?h ?bl (as @ [l, ?n])"
    unfolding backlog_wf_def
  proof (intro conjI)
    show "chain (block_at ?h) (head_block ?bl) (as @ [l, ?n]) None"
      using W(1,2) b fresh by (simp add: chain_append)
    show "\<forall>a. next_address ?h \<le> a \<longrightarrow> block_at ?h a = None" using W(5) b by auto
    show "\<forall>a \<in> set (as @ [l, ?n]). \<forall>c. block_at ?h a = Some c \<longrightarrow> count c = length (entries c) \<and> count c \<le> 32"
      using W(4) b fresh by auto
  qed (use W(2) fresh in auto)
  moreover have "chain_entries (block_at ?h) (as @ [l, ?n]) = chain_entries (block_at h) (as @ [l]) @ [e]"
    using b W(2) fresh by simp
  ultimately show ?thesis by (intro exI [of _ True] exI [of _ ?bl] exI [of _ ?h] exI [of _ "as @ [l, ?n]"]) simp
qed

lemma backlog_push_list:
  assumes "backlog_wf h backlog as"
  shows "\<exists>ok backlog' h' as'. tc_task_backlog_push backlog e h = Inr ((ok, backlog'), h')
    \<and> backlog_wf h' backlog' as'
    \<and> chain_entries (block_at h') as'
        = (if ok then chain_entries (block_at h) as @ [e] else chain_entries (block_at h) as)
    \<and> (\<not> ok \<longrightarrow> (\<exists>rest. malloc_script h = False # rest))"
proof (cases as rule: rev_cases)
  case Nil
  show ?thesis unfolding Nil chain_entries_simps append_Nil
    by (rule push_empty [OF assms [unfolded Nil]])
next
  case (snoc as' l)
  with assms obtain b where b: "block_at h l = Some b"
    using chain_allocated [OF backlog_wfD(1) [OF assms], of l] by auto
  have "count b \<le> 32" using backlog_wfD(4) [OF assms _ b] snoc by simp
  then consider "count b < 32" | "count b = 32" by linarith
  then show ?thesis
  proof cases
    case 1
    from push_tail [OF assms [unfolded snoc] b this, of e] obtain h' where h':
      "tc_task_backlog_push backlog e h = Inr ((True, backlog), h')" "backlog_wf h' backlog as"
      "chain_entries (block_at h') as = chain_entries (block_at h) as @ [e]"
      unfolding snoc [symmetric] by blast
    then show ?thesis by (intro exI [of _ True] exI [of _ backlog] exI [of _ h'] exI [of _ as]) simp
  next
    case 2
    from push_grow [OF assms [unfolded snoc] b this, of e] show ?thesis unfolding snoc [symmetric] .
  qed
qed

lemma free_blocks_chain:
  assumes "chain (block_at h) p as None" and "distinct as"
  shows "free_blocks p h = Some (Inr ((), h\<lparr>block_at := (block_at h) |` (- set as)\<rparr>))"
  using assms
proof (induction as arbitrary: p h)
  case Nil
  then show ?case by (subst free_blocks.simps) (simp add: restrict_map_def)
next
  case (Cons a as)
  then obtain b where b: "p = Some a" "block_at h a = Some b" "chain (block_at h) (next_block b) as None"
    by auto
  let ?h = "h\<lparr>block_at := (block_at h)(a := None)\<rparr>"
  have "free_blocks (next_block b) ?h = Some (Inr ((), ?h\<lparr>block_at := (block_at ?h) |` (- set as)\<rparr>))"
  proof (rule Cons.IH)
    show "chain (block_at ?h) (next_block b) as None"
      using Cons.prems b(3) chain_upd_other [of a as "block_at h" None] by simp
  qed (use Cons.prems in simp)
  moreover have "(block_at ?h) |` (- set as) = (block_at h) |` (- set (a # as))"
    by (auto simp: restrict_map_def)
  ultimately show ?case
    using b by (subst free_blocks.simps) (simp add: load_block_def free_block_def)
qed

section \<open>Scheduling a list of entries\<close>

lemma schedule_entries_append:
  "schedule_entries aq rel res prio (xs @ ys) c =
     bindC (schedule_entries aq rel res prio xs c) (schedule_entries aq rel res prio ys)"
  by (induction xs arbitrary: c) (rule ext, simp add: run_simps bindC_assoc)+

lemma schedule_blocks_chain:
  assumes "chain (block_at h) p as None"
    and "\<forall>a \<in> set as. \<forall>b. block_at h a = Some b \<longrightarrow> count b = length (entries b)"
  shows "schedule_blocks aq rel res prio h p c s
    = Some (schedule_entries aq rel res prio (chain_entries (block_at h) as) c s)"
  using assms
proof (induction as arbitrary: p c s)
  case Nil
  then show ?case by (subst schedule_blocks.simps) (simp add: run_simps)
next
  case (Cons a as)
  then obtain b where b: "p = Some a" "block_at h a = Some b" "chain (block_at h) (next_block b) as None"
    "count b = length (entries b)"
    by auto
  show ?case
    using b Cons by (subst schedule_blocks.simps)
      (auto simp: load_block_def schedule_entries_append run_simps split: sum.splits)
qed

lemma schedule_backlog_entries:
  assumes "backlog_wf h backlog as"
  shows "tc_task_schedule_backlog h backlog aq rel res prio s
    = Some (schedule_entries aq rel res prio (chain_entries (block_at h) as) False s)"
  unfolding tc_task_schedule_backlog_def
  using backlog_wfD(1,4) [OF assms] by (intro schedule_blocks_chain) auto

text \<open>The world after the failure handlers of a list of entries.\<close>

definition fail_all :: "('f, 'w, 'c) tc_task_backlog_entry list \<Rightarrow> 'w \<Rightarrow> 'w" where
  "fail_all es = fold (\<lambda>e. failure_handler e (entry_context e) (entry_generation e)) es"

lemma schedule_entries_failed:
  "schedule_entries aq rel None prio es c s = Inr (c, s\<lparr>sched_world := fail_all es (sched_world s)\<rparr>)"
  by (induction es arbitrary: s)
    (simp_all add: schedule_entry_def call_failure_def on_world_def fail_all_def run_simps)

text \<open>What becomes of an entry once the result is there.\<close>

datatype fate = Queued | NoMemory | Refused

definition call_opt :: "('r \<Rightarrow> 'w \<Rightarrow> 'w) option \<Rightarrow> 'r \<Rightarrow> 'w \<Rightarrow> 'w" where
  "call_opt g r = (case g of None \<Rightarrow> id | Some f \<Rightarrow> f r)"

fun fate_world ::
    "('r \<Rightarrow> 'w \<Rightarrow> 'w) option \<Rightarrow> ('r \<Rightarrow> 'w \<Rightarrow> 'w) option \<Rightarrow> 'r
     \<Rightarrow> ('f, 'w, 'c) tc_task_backlog_entry \<times> fate \<Rightarrow> 'w \<Rightarrow> 'w" where
  "fate_world aq rel r (e, Queued) = call_opt aq r"
| "fate_world aq rel r (e, NoMemory) = failure_handler e (entry_context e) (entry_generation e)"
| "fate_world aq rel r (e, Refused) = call_opt rel r
     \<circ> failure_handler e (entry_context e) (entry_generation e) \<circ> call_opt aq r"

definition success_task ::
    "'r \<Rightarrow> ('f, 'w, 'c) tc_task_backlog_entry \<Rightarrow> ('f, ('r, 'c) tc_task_backlog_args) tc_thread_pool_context"
where
  "success_task r e = \<lparr>priority = entry_priority e, func = Some (success_handler e),
     arg = Some \<lparr>args_result = r, args_context = entry_context e\<rparr>,
     session_generation = entry_generation e\<rparr>"

text \<open>The success tasks of the queued entries of one priority, in order.\<close>

definition queued_tasks ::
    "'r \<Rightarrow> nat \<Rightarrow> (('f, 'w, 'c) tc_task_backlog_entry \<times> fate) list
     \<Rightarrow> ('f, ('r, 'c) tc_task_backlog_args) tc_thread_pool_context list" where
  "queued_tasks r k efs = map (success_task r \<circ> fst)
     (filter (\<lambda>(e, f). f = Queued \<and> priority_index (entry_priority e) = Some k) efs)"

definition accounts ::
    "('r \<Rightarrow> 'w \<Rightarrow> 'w) option \<Rightarrow> ('r \<Rightarrow> 'w \<Rightarrow> 'w) option \<Rightarrow> 'r
     \<Rightarrow> (('f, 'w, 'c) tc_task_backlog_entry \<times> fate) list
     \<Rightarrow> ('f, 'r, 'c, 'w) sched_state \<Rightarrow> ('f, 'r, 'c, 'w) sched_state \<Rightarrow> bool" where
  "accounts aq rel r efs s s' \<longleftrightarrow>
     sched_world s' = fold (fate_world aq rel r) efs (sched_world s)
     \<and> live_args s' = live_args s + length (filter (\<lambda>(e, f). f = Queued) efs)
     \<and> bufs_ok (sched_pool s')
     \<and> (\<forall>k < 4. ring_list (task_prio_buffer (sched_pool s') ! k)
          = ring_list (task_prio_buffer (sched_pool s) ! k) @ queued_tasks r k efs)"

lemma accounts_trans:
  "accounts aq rel r xs s t \<Longrightarrow> accounts aq rel r ys t u \<Longrightarrow> accounts aq rel r (xs @ ys) s u"
  by (simp add: accounts_def queued_tasks_def)

lemma alloc_args_cases:
  obtains (failed) rest where "alloc_args s = Inr (False, s\<lparr>sched_mallocs := rest\<rparr>)"
  | (allocated) rest where "alloc_args s = Inr (True, s\<lparr>sched_mallocs := rest, live_args := live_args s + 1\<rparr>)"
proof (cases "\<exists>rest. sched_mallocs s = False # rest")
  case True
  then obtain rest where "sched_mallocs s = False # rest" by blast
  then show thesis by (intro failed) (simp add: alloc_args_def)
next
  case False
  then show thesis
    by (intro allocated [of "drop 1 (sched_mallocs s)"])
      (auto simp: alloc_args_def split: list.splits bool.splits)
qed

lemmas sched_simps = call_failure_def call_handler_def give_up_def on_world_def free_args_def
  on_pool_def call_opt_def run_simps

text \<open>Both ways of queueing a success handler: taken, or refused with the reference given back.\<close>

lemma offer_accounts:
  assumes "queues (sched_pool s) (success_task r e) ok p" and "bufs_ok (sched_pool s)"
  shows "accounts aq rel r [(e, if ok then Queued else Refused)] s
    (if ok then s\<lparr>sched_mallocs := ms, live_args := live_args s + 1,
                sched_world := call_opt aq r (sched_world s), sched_pool := p\<rparr>
     else s\<lparr>sched_mallocs := ms, live_args := live_args s,
            sched_world := fate_world aq rel r (e, Refused) (sched_world s), sched_pool := p\<rparr>)"
  using assms by (auto simp: accounts_def queues_def queued_tasks_def success_task_def)

lemma schedule_entry_accounts:
  assumes ok: "bufs_ok (sched_pool s)"
    and run: "schedule_entry aq rel (Some r) prio e c s = Inr (c', s')"
  shows "\<exists>f. accounts aq rel r [(e, f)] s s'"
proof (cases rule: alloc_args_cases [of s])
  case (failed rest)
  then have "accounts aq rel r [(e, NoMemory)] s s'"
    using run ok by (auto simp: schedule_entry_def sched_simps accounts_def queued_tasks_def)
  then show ?thesis by blast
next
  case (allocated rest)
  let ?op = "\<lambda>p. if entry_priority e = prio \<and> \<not> c
    then tc_thread_schedule_next2 p (Some (success_handler e))
      \<lparr>args_result = r, args_context = entry_context e\<rparr> (entry_priority e) (entry_generation e)
    else tc_thread_schedule_new p (success_handler e)
      \<lparr>args_result = r, args_context = entry_context e\<rparr> (entry_priority e) (entry_generation e)"
  obtain b p where op: "?op (sched_pool s) = Inr (b, p)"
    using run allocated
    by (cases "?op (sched_pool s)")
      (auto simp: schedule_entry_def schedule_continuation_def schedule_chain_def sched_simps
         split: if_splits option.splits)
  have "queues (sched_pool s) (success_task r e) b p"
    using op schedule_next2_queues [OF ok] schedule_new_queues [OF ok]
    by (auto simp: success_task_def split: if_splits)
  note acc = offer_accounts [OF this ok, of aq rel rest]
  have "s' = (if b then s\<lparr>sched_mallocs := rest, live_args := live_args s + 1,
                sched_world := call_opt aq r (sched_world s), sched_pool := p\<rparr>
     else s\<lparr>sched_mallocs := rest, live_args := live_args s,
            sched_world := fate_world aq rel r (e, Refused) (sched_world s), sched_pool := p\<rparr>)"
    using run allocated op
    by (auto simp: schedule_entry_def schedule_continuation_def schedule_chain_def sched_simps
         split: if_splits option.splits)
  with acc show ?thesis by (auto simp only:)
qed

lemma schedule_entries_accounts:
  assumes "bufs_ok (sched_pool s)"
    and "schedule_entries aq rel (Some r) prio es c s = Inr (c', s')"
  shows "\<exists>fs. length fs = length es \<and> accounts aq rel r (zip es fs) s s'"
  using assms
proof (induction es arbitrary: c s)
  case Nil
  then have "accounts aq rel r [] s s'" by (auto simp: accounts_def queued_tasks_def run_simps)
  then show ?case by simp
next
  case (Cons e es)
  then obtain c1 s1 where s1: "schedule_entry aq rel (Some r) prio e c s = Inr (c1, s1)"
    "schedule_entries aq rel (Some r) prio es c1 s1 = Inr (c', s')"
    by (auto simp: run_simps split: sum.splits)
  obtain f where f: "accounts aq rel r [(e, f)] s s1"
    using schedule_entry_accounts [OF Cons.prems(1) s1(1)] by blast
  then have "bufs_ok (sched_pool s1)" by (simp add: accounts_def)
  with Cons.IH s1(2) obtain fs where fs: "length fs = length es" "accounts aq rel r (zip es fs) s1 s'"
    by blast
  from accounts_trans [OF f fs(2)] have "accounts aq rel r (zip (e # es) (f # fs)) s s'" by simp
  with fs(1) show ?case by (intro exI [of _ "f # fs"]) simp
qed

section \<open>The backlog inside the worker system\<close>

text \<open>
  \<open>in_worker i t c sys s\<close>: worker \<open>i\<close> of \<open>sys\<close> is running the task \<open>t\<close> that calls into the
  backlog with state \<open>s\<close>; \<open>c\<close> tells whether \<open>t\<close> has scheduled its continuation.
\<close>

definition in_worker ::
    "nat \<Rightarrow> ('f, ('r, 'c) tc_task_backlog_args) tc_thread_pool_context \<Rightarrow> bool
     \<Rightarrow> ('f, ('r, 'c) tc_task_backlog_args) pool_system \<Rightarrow> ('f, 'r, 'c, 'w) sched_state \<Rightarrow> bool" where
  "in_worker i t c sys s \<longleftrightarrow> pool_reachable sys \<and> i < length (workers sys)
     \<and> workers sys ! i = Running t c \<and> pool_of sys = sched_pool s"

lemma in_worker_continue:
  assumes w: "in_worker i t False sys s"
    and run: "tc_thread_schedule_next2 (sched_pool s) f a (priority t) g = Inr (ok, p)"
    and "sched_pool s' = p"
  shows "\<exists>sys'. in_worker i t ok sys' s'"
proof -
  from w have "pool_step sys (sys\<lparr>pool_of := p, workers := (workers sys)[i := Running t ok]\<rparr>)"
    using run by (intro pool_step.continue2) (auto simp: in_worker_def)
  with w have "pool_reachable (sys\<lparr>pool_of := p, workers := (workers sys)[i := Running t ok]\<rparr>)"
    unfolding in_worker_def by (blast intro: pool_reachable.step)
  with w assms(3) show ?thesis unfolding in_worker_def by force
qed

lemma in_worker_new:
  assumes w: "in_worker i t c sys s"
    and run: "tc_thread_schedule_new (sched_pool s) f a prio g = Inr (ok, p)"
    and "sched_pool s' = p"
  shows "\<exists>sys'. in_worker i t c sys' s'"
proof -
  from w have "pool_step sys (sys\<lparr>pool_of := p\<rparr>)"
    using run by (intro pool_step.new) (auto simp: in_worker_def)
  with w have "pool_reachable (sys\<lparr>pool_of := p\<rparr>)"
    unfolding in_worker_def by (blast intro: pool_reachable.step)
  with w assms(3) show ?thesis unfolding in_worker_def by force
qed

lemma schedule_entry_in_worker:
  assumes w: "in_worker i t c sys s" and prio: "priority t = prio"
    and "entry_priority e \<noteq> PRIORITY_INVALID"
  shows "\<exists>c' s' sys'. schedule_entry aq rel (Some r) prio e c s = Inr (c', s') \<and> in_worker i t c' sys' s'"
proof (cases rule: alloc_args_cases [of s])
  case (failed rest)
  with w show ?thesis by (auto simp: schedule_entry_def sched_simps in_worker_def)
next
  case (allocated rest)
  let ?a = "\<lparr>args_result = r, args_context = entry_context e\<rparr>"
  show ?thesis
  proof (cases "entry_priority e = prio \<and> \<not> c")
    case True
    with w have "pool_reachable sys" "i < length (workers sys)" "workers sys ! i = Running t False"
      and pool: "pool_of sys = sched_pool s"
      by (simp_all add: in_worker_def)
    from continuation_total [OF this(1-3), THEN conjunct2, of "Some (success_handler e)" ?a "entry_generation e"]
    obtain ok p where p: "tc_thread_schedule_next2 (sched_pool s) (Some (success_handler e)) ?a
        (priority t) (entry_generation e) = Inr (ok, p)"
      unfolding pool by blast
    have "\<exists>s'. schedule_entry aq rel (Some r) prio e c s = Inr (ok, s') \<and> sched_pool s' = p"
      using p True allocated prio
      by (auto simp: schedule_entry_def schedule_continuation_def sched_simps split: option.splits)
    then obtain s' where s': "schedule_entry aq rel (Some r) prio e c s = Inr (ok, s')" "sched_pool s' = p"
      by blast
    have "in_worker i t False sys s" using w True by simp
    from in_worker_continue [OF this p s'(2)] s'(1) show ?thesis by blast
  next
    case False
    obtain ok p where p: "tc_thread_schedule_new (sched_pool s) (success_handler e) ?a
        (entry_priority e) (entry_generation e) = Inr (ok, p)"
      using schedule_new_total [OF assms(3), of "sched_pool s" "success_handler e" ?a
          "entry_generation e"] by blast
    have "\<exists>s'. schedule_entry aq rel (Some r) prio e c s = Inr (c, s') \<and> sched_pool s' = p"
      using p False allocated
      by (auto simp: schedule_entry_def schedule_chain_def sched_simps split: option.splits)
    then obtain s' where s': "schedule_entry aq rel (Some r) prio e c s = Inr (c, s')" "sched_pool s' = p"
      by blast
    from in_worker_new [OF w p s'(2)] s'(1) show ?thesis by blast
  qed
qed

lemma schedule_entries_in_worker:
  assumes "in_worker i t c sys s" and "priority t = prio"
    and "\<forall>e \<in> set es. entry_priority e \<noteq> PRIORITY_INVALID"
  shows "\<exists>c' s' sys'. schedule_entries aq rel (Some r) prio es c s = Inr (c', s') \<and> in_worker i t c' sys' s'"
  using assms
proof (induction es arbitrary: c s sys)
  case Nil
  then show ?case by (auto simp: run_simps)
next
  case (Cons e es)
  then obtain c1 s1 sys1 where s1: "schedule_entry aq rel (Some r) prio e c s = Inr (c1, s1)"
    "in_worker i t c1 sys1 s1"
    using schedule_entry_in_worker [of i t c sys s prio e aq rel r] by auto
  from Cons.IH [OF s1(2) Cons.prems(2)] Cons.prems(3) s1(1) show ?case by (auto simp: run_simps)
qed

section \<open>The backlog as a growable buffer\<close>

definition backlog_ok :: "tc_task_backlog \<times> 'e block_heap \<Rightarrow> bool" where
  "backlog_ok q \<longleftrightarrow> (\<exists>as. backlog_wf (snd q) (fst q) as)"

definition backlog_contents :: "tc_task_backlog \<times> 'e block_heap \<Rightarrow> 'e list" where
  "backlog_contents q = chain_entries (block_at (snd q)) (THE as. backlog_wf (snd q) (fst q) as)"

definition backlog_push :: "'e \<Rightarrow> tc_task_backlog \<times> 'e block_heap
    \<Rightarrow> fault + bool \<times> tc_task_backlog \<times> 'e block_heap" where
  "backlog_push e q = (case tc_task_backlog_push (fst q) e (snd q) of
     Inl f \<Rightarrow> Inl f | Inr ((ok, backlog), h) \<Rightarrow> Inr (ok, backlog, h))"

lemma chain_unique: "chain h p as None \<Longrightarrow> chain h p bs None \<Longrightarrow> as = bs"
proof (induction as arbitrary: p bs)
  case Nil
  then show ?case by (cases bs) auto
next
  case (Cons a as)
  then show ?case by (cases bs) auto
qed

lemma backlog_contents_eq:
  assumes "backlog_wf h backlog as"
  shows "backlog_contents (backlog, h) = chain_entries (block_at h) as"
proof -
  have "(THE as. backlog_wf h backlog as) = as"
    using assms backlog_wfD(1) chain_unique by (intro the_equality) blast+
  then show ?thesis by (simp add: backlog_contents_def)
qed

interpretation backlog: growable_buffer backlog_ok backlog_contents backlog_push
proof unfold_locales
  fix q :: "tc_task_backlog \<times> 'e block_heap" and x
  assume "backlog_ok q"
  then obtain as where as: "backlog_wf (snd q) (fst q) as" by (auto simp: backlog_ok_def)
  from backlog_push_list [OF as, of x] obtain ok backlog' h' as' where
    r: "tc_task_backlog_push (fst q) x (snd q) = Inr ((ok, backlog'), h')" "backlog_wf h' backlog' as'"
      "chain_entries (block_at h') as' = (if ok then chain_entries (block_at (snd q)) as @ [x]
         else chain_entries (block_at (snd q)) as)"
    by blast
  have "backlog_contents q = chain_entries (block_at (snd q)) as"
    using backlog_contents_eq [OF as] by simp
  with r backlog_contents_eq [OF r(2)]
  show "\<exists>ok q'. backlog_push x q = Inr (ok, q') \<and> backlog_ok q'
      \<and> backlog_contents q' = (if ok then backlog_contents q @ [x] else backlog_contents q)"
    by (intro exI [of _ ok] exI [of _ "(backlog', h')"]) (auto simp: backlog_push_def backlog_ok_def)
qed

lemma backlog_okE:
  assumes "backlog_ok q"
  obtains as where "backlog_wf (snd q) (fst q) as"
    "backlog_contents q = chain_entries (block_at (snd q)) as"
  using assms backlog_contents_eq [of "snd q" "fst q"] by (auto simp: backlog_ok_def)

text \<open>An initialised backlog over any heap whose unused addresses are free.\<close>

lemma backlog_initialize_ok:
  assumes "\<forall>a. next_address h \<le> a \<longrightarrow> block_at h a = None"
  shows "backlog_wf h tc_task_backlog_initialize []"
  using assms by (simp add: backlog_wf_def tc_task_backlog_initialize_def)

section \<open>A sample backlog\<close>

text \<open>Contexts, results and codes are numbers; the world is the list of handler calls.\<close>

definition demo_entry :: "nat \<Rightarrow> tc_thread_pool_task_priority \<Rightarrow> (nat, (nat \<times> int) list, nat) tc_task_backlog_entry"
where
  "demo_entry n prio = \<lparr>success_handler = n, failure_handler = (\<lambda>c g w. w @ [(c, g)]),
     entry_context = n, entry_priority = prio, entry_generation = 1\<rparr>"

definition demo_heap :: "(nat, (nat \<times> int) list, nat) tc_task_backlog_entry block_heap" where
  "demo_heap = \<lparr>block_at = [0 \<mapsto> \<lparr>entries = [demo_entry 1 PRIORITY_HIGH, demo_entry 2 PRIORITY_HIGH],
     count = 2, next_block = None\<rparr>], next_address = 1, malloc_script = []\<rparr>"

definition demo_backlog :: tc_task_backlog where
  "demo_backlog = \<lparr>head_block = Some 0, tail_block = Some 0\<rparr>"

definition demo_sched :: "(nat, nat, nat, (nat \<times> int) list) sched_state" where
  "demo_sched = \<lparr>sched_pool = pool_of (demo_running 7 \<lparr>args_result = 0, args_context = 0\<rparr>),
     sched_world = [], sched_mallocs = [], live_args = 0\<rparr>"

lemma demo_backlog_wf: "backlog_wf demo_heap demo_backlog [0]"
  by (auto simp: backlog_wf_def demo_heap_def demo_backlog_def)

lemma demo_contents:
  "backlog_ok (demo_backlog, demo_heap)"
  "backlog_contents (demo_backlog, demo_heap) = [demo_entry 1 PRIORITY_HIGH, demo_entry 2 PRIORITY_HIGH]"
  using demo_backlog_wf backlog_contents_eq [OF demo_backlog_wf]
  by (auto simp: backlog_ok_def demo_heap_def)

lemma demo_in_worker:
  "in_worker 0 (demo_task 7 \<lparr>args_result = 0, args_context = 0\<rparr>) False
     (demo_running 7 \<lparr>args_result = 0, args_context = 0\<rparr>) demo_sched"
proof -
  let ?x = "\<lparr>args_result = 0 :: nat, args_context = 0 :: nat\<rparr>"
  have "0 < length (workers (demo_running (7::nat) ?x))"
    "workers (demo_running (7::nat) ?x) ! 0 = Running (demo_task 7 ?x) False"
    by code_simp+
  then show ?thesis using demo_running_reachable [of "7::nat" ?x] by (simp add: in_worker_def demo_sched_def)
qed

section \<open>Properties\<close>



text \<open>
  \<open>tc_task_backlog_finalize\<close> terminates, frees every block of the backlog exactly once and
  touches no other block.
\<close>

theorem backlog_finalize_frees_all:
  assumes "backlog_wf h backlog as"
  shows "tc_task_backlog_finalize backlog h
    = Some (Inr ((), h\<lparr>block_at := (block_at h) |` (- set as)\<rparr>))"
  unfolding tc_task_backlog_finalize_def
  using backlog_wfD(1,2) [OF assms] by (rule free_blocks_chain)

theorem backlog_finalize_frees_all_witness:
  "tc_task_backlog_finalize demo_backlog demo_heap
    = Some (Inr ((), demo_heap\<lparr>block_at := (block_at demo_heap) |` (- {0})\<rparr>))"
  using backlog_finalize_frees_all [OF demo_backlog_wf] by simp

text \<open>
  Without a result every waiting entry fails: the loop returns after calling the failure
  handler of each entry once, in the order the entries were pushed, and the pool and the
  references are untouched.
\<close>

theorem backlog_failure_reaches_all:
  assumes "backlog_ok (backlog, h)"
  shows "tc_task_schedule_backlog h backlog aq rel None prio s
    = Some (Inr (False, s\<lparr>sched_world := fail_all (backlog_contents (backlog, h)) (sched_world s)\<rparr>))"
proof -
  obtain as where "backlog_wf h backlog as"
    "backlog_contents (backlog, h) = chain_entries (block_at h) as"
    using backlog_okE [OF assms] by auto
  then show ?thesis by (simp add: schedule_backlog_entries schedule_entries_failed)
qed

theorem backlog_failure_reaches_all_witness:
  "tc_task_schedule_backlog demo_heap demo_backlog None None None PRIORITY_HIGH demo_sched
    = Some (Inr (False, demo_sched\<lparr>sched_world := [(1, 1), (2, 1)]\<rparr>))"
  using backlog_failure_reaches_all [OF demo_contents(1), of None None PRIORITY_HIGH demo_sched]
  by (simp add: demo_contents(2) fail_all_def demo_entry_def demo_sched_def)

text \<open>
  [C8] With a result every waiting entry gets exactly one answer: run inside a worker of the pool
  at the worker's priority, the scheduling loop returns without a fault, however many entries
  wait, and the pool stays in a reachable state. Each entry is either queued, with the acquire
  handler called once and its success task at the end of the buffer of its priority in backlog
  order, or failed, with the failure handler called once and every acquired reference released;
  argument records are kept exactly for the queued entries.
\<close>

theorem backlog_answers_every_entry:
  assumes "backlog_ok (backlog, h)" and "in_worker i t False sys s"
    and "\<forall>e \<in> set (backlog_contents (backlog, h)). entry_priority e \<noteq> PRIORITY_INVALID"
  shows "\<exists>c s' sys' fs. tc_task_schedule_backlog h backlog aq rel (Some r) (priority t) s = Some (Inr (c, s'))
    \<and> in_worker i t c sys' s'
    \<and> length fs = length (backlog_contents (backlog, h))
    \<and> accounts aq rel r (zip (backlog_contents (backlog, h)) fs) s s'"
proof -
  obtain as where as: "backlog_wf h backlog as"
    "backlog_contents (backlog, h) = chain_entries (block_at h) as"
    using backlog_okE [OF assms(1)] by auto
  let ?es = "backlog_contents (backlog, h)"
  obtain c s' sys' where r: "schedule_entries aq rel (Some r) (priority t) ?es False s = Inr (c, s')"
    "in_worker i t c sys' s'"
    using schedule_entries_in_worker [OF assms(2) refl assms(3)] by blast
  have "bufs_ok (sched_pool s)"
    using assms(2) pool_invD(1) [OF pool_reachable_inv, of sys] by (simp add: in_worker_def)
  from schedule_entries_accounts [OF this r(1)] r show ?thesis
    unfolding schedule_backlog_entries [OF as(1)] as(2) [symmetric] by auto
qed

theorem backlog_answers_every_entry_witness:
  "\<exists>c s' sys' fs. tc_task_schedule_backlog demo_heap demo_backlog None None (Some 5) PRIORITY_HIGH demo_sched
        = Some (Inr (c, s'))
    \<and> in_worker 0 (demo_task 7 \<lparr>args_result = 0, args_context = 0\<rparr>) c sys' s'
    \<and> length fs = 2
    \<and> accounts None None 5 (zip [demo_entry 1 PRIORITY_HIGH, demo_entry 2 PRIORITY_HIGH] fs) demo_sched s'"
proof -
  have "\<forall>e \<in> set (backlog_contents (demo_backlog, demo_heap)). entry_priority e \<noteq> PRIORITY_INVALID"
    by (simp add: demo_contents(2) demo_entry_def)
  from backlog_answers_every_entry [OF demo_contents(1) demo_in_worker this, of None None 5]
  show ?thesis by (simp add: demo_contents(2) demo_task_def numeral_2_eq_2)
qed

end
