(* ===== verification/TC_Protocol.thy ===== *)
theory TC_Protocol
  imports TC_Prelude
begin

text \<open>
  The wire protocol of \<^verbatim>\<open>src/protocol.c\<close>: the primitive sends and decodes, one function per
  packet the server sends, and the table of supported CPE extensions.

  A socket is the bytes handed to the network so far and the script of what the next calls of
  \<open>p_socket_send\<close> will do: accept at most \<open>n\<close> bytes (0 for a closed connection), report that
  the call would block, or fail. An exhausted script accepts everything. A send function is an
  action of the fault monad on the socket that returns the C result.
\<close>

section \<open>Sockets\<close>

datatype send_result =
    SendOk nat
  | SendWouldBlock
  | SendFailed

record psocket =
  wire :: cstring
  send_script :: "send_result list"

text \<open>The return value of \<open>p_socket_send\<close>, and whether the error code is \<open>WOULD_BLOCK\<close>.\<close>

definition p_socket_send :: "cstring \<Rightarrow> (psocket, int \<times> bool) cm" where
  "p_socket_send buf = (\<lambda>s.
     case send_script s of
       [] \<Rightarrow> Inr ((int (length buf), False), s\<lparr>wire := wire s @ buf\<rparr>)
     | SendOk n # rest \<Rightarrow>
         Inr ((int (min n (length buf)), False),
              s\<lparr>wire := wire s @ take n buf, send_script := rest\<rparr>)
     | SendWouldBlock # rest \<Rightarrow> Inr ((-1, True), s\<lparr>send_script := rest\<rparr>)
     | SendFailed # rest \<Rightarrow> Inr ((-1, False), s\<lparr>send_script := rest\<rparr>))"

section \<open>Primitive sends\<close>

definition TC_PROTOCOL_MAX_STR_LEN :: nat where
  "TC_PROTOCOL_MAX_STR_LEN = 64"

definition tc_protocol_send_byte :: "pchar \<Rightarrow> (psocket, bool) cm" where
  "tc_protocol_send_byte opcode =
     bindC (p_socket_send [opcode]) (\<lambda>(sent, would_block).
       if sent > 0 then retC True
       else if sent = 0 then retC False
       else retC would_block)"

definition tc_protocol_send_datachunk :: "cstring \<Rightarrow> (psocket, bool) cm" where
  "tc_protocol_send_datachunk data =
     bindC (p_socket_send data) (\<lambda>(sent, would_block).
       if sent > 0 then retC True
       else if sent = 0 then retC False
       else retC would_block)"

text \<open>
  The chain \<open>if (!send(...)) { return FALSE; } ... return TRUE;\<close> every packet function is made of.
\<close>

primrec send_all :: "('s, bool) cm list \<Rightarrow> ('s, bool) cm" where
  "send_all [] = retC True"
| "send_all (m # ms) = bindC m (\<lambda>ok. if \<not> ok then retC False else send_all ms)"

text \<open>\<open>data >> 8\<close> on a \<open>pint16\<close> is arithmetic; the conversion to \<open>pchar\<close> keeps the low byte.\<close>

definition tc_protocol_send_short :: "pint16 \<Rightarrow> (psocket, bool) cm" where
  "tc_protocol_send_short data =
     (let high = ucast (signed_drop_bit 8 data) :: pchar;
          low = ucast (data AND 0xFF) :: pchar
      in send_all [tc_protocol_send_byte high, tc_protocol_send_byte low])"

definition tc_protocol_send_int :: "pint32 \<Rightarrow> (psocket, bool) cm" where
  "tc_protocol_send_int data =
     (let ha = ucast (signed_drop_bit 24 data) :: pchar;
          hb = ucast (signed_drop_bit 16 data AND 0xFF) :: pchar;
          la = ucast (signed_drop_bit 8 data AND 0xFF) :: pchar;
          lb = ucast (data AND 0xFF) :: pchar
      in send_all [tc_protocol_send_byte ha, tc_protocol_send_byte hb,
                   tc_protocol_send_byte la, tc_protocol_send_byte lb])"

text \<open>
  The two loops of \<open>tc_protocol_send_string\<close>: copy the characters before the terminator, at
  most 64, then fill with spaces. The result of the first is the buffer and \<open>current - str\<close>.
\<close>

function string_copy_loop :: "cstring \<Rightarrow> nat \<Rightarrow> cstring \<Rightarrow> cstring \<times> nat" where
  "string_copy_loop str i buf =
     (if i < length str \<and> str ! i \<noteq> 0 \<and> i < TC_PROTOCOL_MAX_STR_LEN
      then string_copy_loop str (i + 1) (buf[i := str ! i])
      else (buf, i))"
  by pat_completeness auto
termination
  by (relation "measure (\<lambda>(str, i, buf). TC_PROTOCOL_MAX_STR_LEN - i)") auto

function string_fill_loop :: "nat \<Rightarrow> cstring \<Rightarrow> cstring" where
  "string_fill_loop i buf =
     (if i < TC_PROTOCOL_MAX_STR_LEN then string_fill_loop (i + 1) (buf[i := 0x20]) else buf)"
  by pat_completeness auto
termination
  by (relation "measure (\<lambda>(i, buf). TC_PROTOCOL_MAX_STR_LEN - i)") auto

declare string_copy_loop.simps [simp del] string_fill_loop.simps [simp del]

definition string_buffer :: "cstring \<Rightarrow> cstring" where
  "string_buffer str =
     (let (buf, i) = string_copy_loop str 0 (replicate TC_PROTOCOL_MAX_STR_LEN 0)
      in string_fill_loop i buf)"

text \<open>
  The error argument of \<open>p_socket_send\<close> is \<open>NULL\<close> here, so \<open>error\<close> stays \<open>NULL\<close> and
  \<open>is_waiting\<close> is false whatever the cause of the failure.
\<close>

definition tc_protocol_send_string :: "cstring \<Rightarrow> (psocket, bool) cm" where
  "tc_protocol_send_string str =
     bindC (p_socket_send (string_buffer str)) (\<lambda>(sent, would_block).
       if sent > 0 then retC True
       else if sent = 0 then retC False
       else retC False)"

section \<open>Decoding\<close>

text \<open>
  \<open>pchar\<close> operands are promoted to \<open>int\<close> with their sign; the result is converted to the
  return type. Left shifts of negative values are taken as two's complement shifts.
\<close>

definition tc_protocol_decode_short :: "cstring \<Rightarrow> pint16 outcome" where
  "tc_protocol_decode_short packet_buffer =
     (if length packet_buffer < 2 then Inl OutOfBounds
      else Inr (ucast (push_bit 8 (scast (packet_buffer ! 0) :: pint32)
                       OR scast (packet_buffer ! 1))))"

definition tc_protocol_decode_int :: "cstring \<Rightarrow> pint32 outcome" where
  "tc_protocol_decode_int packet_buffer =
     (if length packet_buffer < 4 then Inl OutOfBounds
      else Inr (push_bit 24 (scast (packet_buffer ! 0)) OR push_bit 16 (scast (packet_buffer ! 1))
                OR push_bit 8 (scast (packet_buffer ! 2)) OR scast (packet_buffer ! 3)))"

text \<open>The loop over the trailing spaces, from \<open>i = 64\<close> down; \<open>len\<close> is \<open>length\<close>.\<close>

fun decode_string_loop :: "nat \<Rightarrow> nat \<Rightarrow> cstring \<Rightarrow> nat \<times> cstring" where
  "decode_string_loop 0 len dest = (len, dest)"
| "decode_string_loop (Suc i) len dest =
     (if dest ! i \<noteq> 0x20 then (len, dest)
      else decode_string_loop i i (dest[i := 0]))"

definition tc_protocol_decode_string :: "cstring \<Rightarrow> cstring \<Rightarrow> (nat \<times> cstring) outcome" where
  "tc_protocol_decode_string dest_buffer packet_buffer =
     (if length packet_buffer < TC_PROTOCOL_MAX_STR_LEN
         \<or> length dest_buffer < TC_PROTOCOL_MAX_STR_LEN then Inl OutOfBounds
      else let dest = take TC_PROTOCOL_MAX_STR_LEN packet_buffer
                      @ drop TC_PROTOCOL_MAX_STR_LEN dest_buffer
           in Inr (decode_string_loop TC_PROTOCOL_MAX_STR_LEN TC_PROTOCOL_MAX_STR_LEN dest))"

section \<open>Packets\<close>

definition TC_PROTOCOL_VERSION :: pchar where "TC_PROTOCOL_VERSION = 0x07"
definition TC_PROTOCOL_USER_TYPE_OPERATOR :: pchar where "TC_PROTOCOL_USER_TYPE_OPERATOR = 0x64"
definition TC_PROTOCOL_USER_TYPE_STANDARD :: pchar where "TC_PROTOCOL_USER_TYPE_STANDARD = 0x00"
definition TC_CPE_EXTENSION_MAX_SUPPORTED :: nat where "TC_CPE_EXTENSION_MAX_SUPPORTED = 10"

definition TC_PACKET_CPE_EXTINFO :: pchar where "TC_PACKET_CPE_EXTINFO = 0x10"
definition TC_PACKET_CPE_EXTENTRY :: pchar where "TC_PACKET_CPE_EXTENTRY = 0x11"
definition TC_PACKET_CPE_CUSTOM_BLOCK_SUPPORT_LEVEL :: pchar where
  "TC_PACKET_CPE_CUSTOM_BLOCK_SUPPORT_LEVEL = 0x13"

definition tc_protocol_server_identification ::
    "cstring \<Rightarrow> cstring \<Rightarrow> pchar \<Rightarrow> (psocket, bool) cm" where
  "tc_protocol_server_identification server_name motd user_type = send_all
     [tc_protocol_send_byte 0x00,
      tc_protocol_send_byte TC_PROTOCOL_VERSION,
      tc_protocol_send_string server_name,
      tc_protocol_send_string motd,
      tc_protocol_send_byte user_type]"

definition tc_protocol_ping :: "(psocket, bool) cm" where
  "tc_protocol_ping = send_all [tc_protocol_send_byte 0x01]"

definition tc_protocol_kick :: "cstring \<Rightarrow> (psocket, bool) cm" where
  "tc_protocol_kick msg = send_all [tc_protocol_send_byte 0x0e, tc_protocol_send_string msg]"

definition tc_cpe_send_extinfo :: "cstring \<Rightarrow> (psocket, bool) cm" where
  "tc_cpe_send_extinfo appname = send_all
     [tc_protocol_send_byte TC_PACKET_CPE_EXTINFO,
      tc_protocol_send_string appname,
      tc_protocol_send_short (of_nat TC_CPE_EXTENSION_MAX_SUPPORTED)]"

text \<open>The \<open>pchar\<close> version is converted to \<open>pint32\<close> with its sign.\<close>

definition tc_cpe_send_extentry :: "cstring \<Rightarrow> pchar \<Rightarrow> (psocket, bool) cm" where
  "tc_cpe_send_extentry extension_name extension_version = send_all
     [tc_protocol_send_byte TC_PACKET_CPE_EXTENTRY,
      tc_protocol_send_string extension_name,
      tc_protocol_send_int (scast extension_version)]"

definition tc_cpe_send_custom_block_support_level :: "pchar \<Rightarrow> (psocket, bool) cm" where
  "tc_cpe_send_custom_block_support_level support_level = send_all
     [tc_protocol_send_byte TC_PACKET_CPE_CUSTOM_BLOCK_SUPPORT_LEVEL,
      tc_protocol_send_byte support_level]"

definition tc_cpe_send_set_texture_url :: "cstring \<Rightarrow> (psocket, bool) cm" where
  "tc_cpe_send_set_texture_url texture_url = send_all
     [tc_protocol_send_byte 0x28, tc_protocol_send_string texture_url]"

definition tc_cpe_send_set_map_env_property :: "pchar \<Rightarrow> pint32 \<Rightarrow> (psocket, bool) cm" where
  "tc_cpe_send_set_map_env_property property value = send_all
     [tc_protocol_send_byte 0x29, tc_protocol_send_byte property, tc_protocol_send_int value]"

definition tc_cpe_send_env_map_appearance1 ::
    "cstring \<Rightarrow> pchar \<Rightarrow> pchar \<Rightarrow> pint16 \<Rightarrow> (psocket, bool) cm" where
  "tc_cpe_send_env_map_appearance1 texture_url side_block edge_block side_level = send_all
     [tc_protocol_send_byte 0x2a,
      tc_protocol_send_string texture_url,
      tc_protocol_send_byte side_block,
      tc_protocol_send_byte edge_block,
      tc_protocol_send_short side_level]"

definition tc_cpe_send_env_map_appearance2 ::
    "cstring \<Rightarrow> pchar \<Rightarrow> pchar \<Rightarrow> pint16 \<Rightarrow> pint16 \<Rightarrow> pint16 \<Rightarrow> (psocket, bool) cm" where
  "tc_cpe_send_env_map_appearance2 texture_url side_block edge_block side_level cloud_level
       maximum_view_distance = send_all
     [tc_protocol_send_byte 0x1e,
      tc_protocol_send_string texture_url,
      tc_protocol_send_byte side_block,
      tc_protocol_send_byte edge_block,
      tc_protocol_send_short side_level,
      tc_protocol_send_short cloud_level,
      tc_protocol_send_short maximum_view_distance]"

definition tc_cpe_send_env_set_weather_type :: "pchar \<Rightarrow> (psocket, bool) cm" where
  "tc_cpe_send_env_set_weather_type weather_type = send_all
     [tc_protocol_send_byte 0x1f, tc_protocol_send_byte weather_type]"

text \<open>The scalar arguments of \<open>tc_cpe_send_set_block_definition\<close>, in the order it sends them.\<close>

record block_definition =
  bd_block_id :: puint16
  bd_block_name :: cstring
  bd_solidity :: pchar
  bd_movement_speed :: pchar
  bd_top_texture_id :: puint16
  bd_bottom_texture_id :: puint16
  bd_side_texture_id :: puint16
  bd_transmits_light :: pchar
  bd_walk_sound :: pchar
  bd_full_bright :: pchar
  bd_shape :: pchar
  bd_block_draw :: pchar
  bd_fog_density :: pchar
  bd_fog_color_red :: pchar
  bd_fog_color_green :: pchar
  bd_fog_color_blue :: pchar

definition tc_cpe_send_set_block_definition ::
    "block_definition \<Rightarrow> bool \<Rightarrow> bool \<Rightarrow> (psocket, bool) cm" where
  "tc_cpe_send_set_block_definition d use_extended_blocks use_extended_textures = send_all
     ([tc_protocol_send_byte 0x23,
       (if use_extended_blocks then tc_protocol_send_short (bd_block_id d)
        else tc_protocol_send_byte (ucast (bd_block_id d AND 0xFF))),
       tc_protocol_send_string (bd_block_name d),
       tc_protocol_send_byte (bd_solidity d),
       tc_protocol_send_byte (bd_movement_speed d)]
      @ (if use_extended_textures then
           [tc_protocol_send_short (bd_top_texture_id d),
            tc_protocol_send_short (bd_bottom_texture_id d),
            tc_protocol_send_short (bd_side_texture_id d)]
         else
           [tc_protocol_send_byte (ucast (bd_top_texture_id d AND 0xFF)),
            tc_protocol_send_byte (ucast (bd_bottom_texture_id d AND 0xFF)),
            tc_protocol_send_byte (ucast (bd_side_texture_id d AND 0xFF))])
      @ [tc_protocol_send_byte (bd_transmits_light d),
         tc_protocol_send_byte (bd_walk_sound d),
         tc_protocol_send_byte (bd_full_bright d),
         tc_protocol_send_byte (bd_shape d),
         tc_protocol_send_byte (bd_block_draw d),
         tc_protocol_send_byte (bd_fog_density d),
         tc_protocol_send_byte (bd_fog_color_red d),
         tc_protocol_send_byte (bd_fog_color_green d),
         tc_protocol_send_byte (bd_fog_color_blue d)])"

definition color_component_ok :: "pint16 \<Rightarrow> bool" where
  "color_component_ok c \<longleftrightarrow> 0 \<le> sint c \<and> sint c \<le> 255"

definition tc_cpe_send_set_env_color ::
    "pchar \<Rightarrow> pint16 \<Rightarrow> pint16 \<Rightarrow> pint16 \<Rightarrow> (psocket, bool) cm" where
  "tc_cpe_send_set_env_color color_field red green blue =
     thenC (tc_assert (\<lambda>_. color_component_ok red))
     (thenC (tc_assert (\<lambda>_. color_component_ok green))
     (thenC (tc_assert (\<lambda>_. color_component_ok blue))
     (send_all
       [tc_protocol_send_byte 0x19,
        tc_protocol_send_byte color_field,
        tc_protocol_send_short red,
        tc_protocol_send_short green,
        tc_protocol_send_short blue])))"

text \<open>\<open>pint8\<close> and \<open>pchar\<close> are the same bits, so \<open>player_id\<close> is an 8-bit word here.\<close>

definition tc_protocol_send_message :: "pchar \<Rightarrow> cstring \<Rightarrow> (psocket, bool) cm" where
  "tc_protocol_send_message player_id message = send_all
     [tc_protocol_send_byte 0x0d, tc_protocol_send_byte player_id, tc_protocol_send_string message]"

definition tc_protocol_send_level_initialize :: "(psocket, bool) cm" where
  "tc_protocol_send_level_initialize = send_all [tc_protocol_send_byte 0x02]"

definition tc_protocol_send_level_initialize2 :: "pint32 \<Rightarrow> (psocket, bool) cm" where
  "tc_protocol_send_level_initialize2 block_count = send_all
     [tc_protocol_send_byte 0x02, tc_protocol_send_int block_count]"

text \<open>\<open>chunk_data\<close> is an array of 1024 bytes; all of it is sent whatever \<open>chunk_length\<close> says.\<close>

definition tc_protocol_send_level_data_chunk ::
    "puint16 \<Rightarrow> cstring \<Rightarrow> pchar \<Rightarrow> (psocket, bool) cm" where
  "tc_protocol_send_level_data_chunk chunk_length chunk_data percent_complete = send_all
     [tc_protocol_send_byte 0x03,
      tc_protocol_send_short chunk_length,
      (if length chunk_data < 1024 then faultC OutOfBounds
       else tc_protocol_send_datachunk (take 1024 chunk_data)),
      tc_protocol_send_byte percent_complete]"

definition tc_protocol_send_level_finalize ::
    "pint16 \<Rightarrow> pint16 \<Rightarrow> pint16 \<Rightarrow> (psocket, bool) cm" where
  "tc_protocol_send_level_finalize x_size y_size z_size = send_all
     [tc_protocol_send_byte 0x04,
      tc_protocol_send_short x_size,
      tc_protocol_send_short y_size,
      tc_protocol_send_short z_size]"

definition tc_protocol_send_set_block ::
    "pint16 \<Rightarrow> pint16 \<Rightarrow> pint16 \<Rightarrow> puint16 \<Rightarrow> bool \<Rightarrow> (psocket, bool) cm" where
  "tc_protocol_send_set_block x y z block use_extended_blocks = send_all
     [tc_protocol_send_byte 0x06,
      tc_protocol_send_short x,
      tc_protocol_send_short y,
      tc_protocol_send_short z,
      (if use_extended_blocks then tc_protocol_send_short block
       else tc_protocol_send_byte (ucast (block AND 0xFF)))]"

definition send_position :: "pint32 \<Rightarrow> bool \<Rightarrow> (psocket, bool) cm" where
  "send_position position use_extended_positions = send_all
     [tc_protocol_send_short (ucast (signed_drop_bit 16 position)),
      (if use_extended_positions then tc_protocol_send_int position
       else tc_protocol_send_short (ucast (position AND 0xFFFF)))]"

definition tc_protocol_send_spawn_player ::
    "pchar \<Rightarrow> cstring \<Rightarrow> pint32 \<Rightarrow> pint32 \<Rightarrow> pint32 \<Rightarrow> pchar \<Rightarrow> pchar \<Rightarrow> bool \<Rightarrow> (psocket, bool) cm"
where
  "tc_protocol_send_spawn_player player_id player_name x y z heading pitch use_extended_positions =
     send_all
     [tc_protocol_send_byte 0x07,
      tc_protocol_send_byte player_id,
      tc_protocol_send_string player_name,
      send_position x use_extended_positions,
      send_position y use_extended_positions,
      send_position z use_extended_positions,
      tc_protocol_send_byte heading,
      tc_protocol_send_byte pitch]"

definition tc_protocol_send_set_player_position_and_orientation ::
    "pchar \<Rightarrow> pint32 \<Rightarrow> pint32 \<Rightarrow> pint32 \<Rightarrow> pchar \<Rightarrow> pchar \<Rightarrow> bool \<Rightarrow> (psocket, bool) cm" where
  "tc_protocol_send_set_player_position_and_orientation player_id x y z heading pitch
       use_extended_positions = send_all
     [tc_protocol_send_byte 0x08,
      tc_protocol_send_byte player_id,
      send_position x use_extended_positions,
      send_position y use_extended_positions,
      send_position z use_extended_positions,
      tc_protocol_send_byte heading,
      tc_protocol_send_byte pitch]"

definition tc_protocol_send_update_player_position_and_orientation_delta ::
    "pchar \<Rightarrow> pint32 \<Rightarrow> pint32 \<Rightarrow> pint32 \<Rightarrow> pchar \<Rightarrow> pchar \<Rightarrow> bool \<Rightarrow> (psocket, bool) cm" where
  "tc_protocol_send_update_player_position_and_orientation_delta player_id delta_x delta_y delta_z
       heading pitch use_extended_positions = send_all
     [tc_protocol_send_byte 0x09,
      tc_protocol_send_byte player_id,
      send_position delta_x use_extended_positions,
      send_position delta_y use_extended_positions,
      send_position delta_z use_extended_positions,
      tc_protocol_send_byte heading,
      tc_protocol_send_byte pitch]"

definition tc_protocol_update_player_position_delta ::
    "pchar \<Rightarrow> pint32 \<Rightarrow> pint32 \<Rightarrow> pint32 \<Rightarrow> bool \<Rightarrow> (psocket, bool) cm" where
  "tc_protocol_update_player_position_delta player_id delta_x delta_y delta_z
       use_extended_positions = send_all
     [tc_protocol_send_byte 0x0a,
      tc_protocol_send_byte player_id,
      send_position delta_x use_extended_positions,
      send_position delta_y use_extended_positions,
      send_position delta_z use_extended_positions]"

definition tc_protocol_update_player_heading_and_pitch ::
    "pchar \<Rightarrow> pchar \<Rightarrow> pchar \<Rightarrow> (psocket, bool) cm" where
  "tc_protocol_update_player_heading_and_pitch player_id heading pitch = send_all
     [tc_protocol_send_byte 0x0b,
      tc_protocol_send_byte player_id,
      tc_protocol_send_byte heading,
      tc_protocol_send_byte pitch]"

definition tc_protocol_despawn_player :: "pchar \<Rightarrow> (psocket, bool) cm" where
  "tc_protocol_despawn_player player_id = send_all
     [tc_protocol_send_byte 0x0c, tc_protocol_send_byte player_id]"

section \<open>Supported extensions\<close>

record tc_cpe_extension =
  ext_name :: cstring
  ext_version :: pchar

definition tc_supported_extensions :: "tc_cpe_extension list" where
  "tc_supported_extensions = map (\<lambda>(n, v). \<lparr>ext_name = bytes_of n, ext_version = v\<rparr>)
     [(''CustomBlocks'', 1),
      (''BlockDefinitions'', 1),
      (''ExtendedBlocks'', 1),
      (''ExtendedTextures'', 1),
      (''MessageTypes'', 1),
      (''FastMap'', 1),
      (''EnvMapAppearance'', 2),
      (''EnvWeatherType'', 1),
      (''EnvColors'', 1),
      (''EnvMapAspect'', 1)]"

text \<open>The loop of \<open>tc_cpe_get_extension_index\<close> from index \<open>i\<close>, with \<open>n\<close> iterations left.\<close>

fun extension_index_loop :: "cstring \<Rightarrow> nat \<Rightarrow> nat \<Rightarrow> int" where
  "extension_index_loop extension_name 0 i = -1"
| "extension_index_loop extension_name (Suc n) i =
     (if strncmp extension_name (ext_name (tc_supported_extensions ! i)) TC_PROTOCOL_MAX_STR_LEN = 0
      then int i
      else extension_index_loop extension_name n (i + 1))"

definition tc_cpe_get_extension_index :: "cstring \<Rightarrow> int" where
  "tc_cpe_get_extension_index extension_name =
     extension_index_loop extension_name TC_CPE_EXTENSION_MAX_SUPPORTED 0"

section \<open>Fields on the wire\<close>

text \<open>Big-endian integers and space-padded strings, as the protocol defines them.\<close>

definition short_bytes :: "pint16 \<Rightarrow> cstring" where
  "short_bytes d = [ucast (drop_bit 8 d), ucast d]"

definition int_bytes :: "pint32 \<Rightarrow> cstring" where
  "int_bytes d = [ucast (drop_bit 24 d), ucast (drop_bit 16 d), ucast (drop_bit 8 d), ucast d]"

definition string_bytes :: "cstring \<Rightarrow> cstring" where
  "string_bytes str = take 64 str @ replicate (64 - length str) 0x20"

definition position_bytes :: "pint32 \<Rightarrow> bool \<Rightarrow> cstring" where
  "position_bytes p ext = short_bytes (ucast (drop_bit 16 p))
     @ (if ext then int_bytes p else short_bytes (ucast p))"

lemma short_bytes_code: "[ucast (signed_drop_bit 8 d), ucast (d AND 0xFF)] = short_bytes d" for d :: pint16
  by (simp add: short_bytes_def bit_table)
lemma int_bytes_code: "[ucast (signed_drop_bit 24 d), ucast (signed_drop_bit 16 d AND 0xFF),
  ucast (signed_drop_bit 8 d AND 0xFF), ucast (d AND 0xFF)] = int_bytes d" for d :: pint32
  by (simp add: int_bytes_def bit_table)
lemma decode_short_exact:
  "tc_protocol_decode_short (h # l # rest) =
     Inr (if bit l 7 then scast l else push_bit 8 (ucast h) OR ucast l)"
proof -
  have "(ucast (push_bit 8 (scast h :: pint32) OR scast l) :: pint16) = (if bit l 7 then scast l else push_bit 8 (ucast h) OR ucast l)"
    by (simp add: bit_table)
  then show ?thesis by (simp add: tc_protocol_decode_short_def)
qed

lemma decode_short_bytes:
  "tc_protocol_decode_short (short_bytes d) = Inr d \<longleftrightarrow> (bit d 7 \<longrightarrow> drop_bit 8 d = 0xFF)"
proof -
  have "(ucast (push_bit 8 (scast (ucast (drop_bit 8 d) :: pchar) :: pint32) OR scast (ucast d :: pchar)) :: pint16) = d
    \<longleftrightarrow> (bit d 7 \<longrightarrow> drop_bit 8 d = 0xFF)" (is "?L \<longleftrightarrow> ?R")
    apply (simp add: bit_table)
    by argo
  then show ?thesis by (simp add: tc_protocol_decode_short_def short_bytes_def)
qed
lemma decode_int_bytes:
  "tc_protocol_decode_int (int_bytes d) = Inr d \<longleftrightarrow>
     (bit d 7 \<longrightarrow> drop_bit 8 d = 0xFFFFFF) \<and> (bit d 15 \<longrightarrow> drop_bit 16 d = 0xFFFF)
     \<and> (bit d 23 \<longrightarrow> drop_bit 24 d = 0xFF)"
proof -
  have "push_bit 24 (scast (ucast (drop_bit 24 d) :: pchar)) OR push_bit 16 (scast (ucast (drop_bit 16 d) :: pchar))
                OR push_bit 8 (scast (ucast (drop_bit 8 d) :: pchar)) OR scast (ucast d :: pchar) = d
    \<longleftrightarrow>  (bit d 7 \<longrightarrow> drop_bit 8 d = 0xFFFFFF) \<and> (bit d 15 \<longrightarrow> drop_bit 16 d = 0xFFFF)
     \<and> (bit d 23 \<longrightarrow> drop_bit 24 d = 0xFF)" (is "?L \<longleftrightarrow> ?R")
    apply (simp add: bit_table)
    by argo
  then show ?thesis by (simp add: tc_protocol_decode_int_def int_bytes_def)
qed

lemma string_copy_loop_eq:
  assumes "0 \<notin> set str" and "i \<le> length str" and "i \<le> 64" and "length buf = 64"
  shows "string_copy_loop str i buf =
    (take i buf @ drop i (take 64 str) @ drop (min 64 (length str)) buf, min 64 (length str))"
  using assms
proof (induction "64 - i" arbitrary: i buf)
  case 0
  then have "i = 64" by simp
  with 0 show ?case by (simp add: string_copy_loop.simps TC_PROTOCOL_MAX_STR_LEN_def)
next
  case (Suc n)
  show ?case
  proof (cases "i < length str")
    case True
    with Suc.prems have nz: "str ! i \<noteq> 0" by (metis nth_mem)
    have IH: "string_copy_loop str (i + 1) (buf[i := str ! i]) =
      (take (i+1) (buf[i := str ! i]) @ drop (i+1) (take 64 str) @ drop (min 64 (length str)) (buf[i := str ! i]), min 64 (length str))"
      using Suc True by (intro Suc.hyps(1)) auto
    have d: "drop i (take 64 str) = str ! i # drop (i+1) (take 64 str)"
      using True Suc(2) by (simp add: Cons_nth_drop_Suc [symmetric])
    have "i < 64" "i < min 64 (length str)" using Suc(2) True by auto
    then have t: "take (i+1) (buf[i := str ! i]) = take i buf @ [str ! i]" and u: "drop (min 64 (length str)) (buf[i := str ! i]) = drop (min 64 (length str)) buf"
      using Suc.prems(4) by (simp_all add: take_Suc_conv_app_nth)
    show ?thesis
      by (subst string_copy_loop.simps)
        (use True nz \<open>i < 64\<close> in \<open>simp add: IH [simplified] t [simplified] u d TC_PROTOCOL_MAX_STR_LEN_def\<close>)
  next
    case False
    with Suc.prems have "i = length str" "min 64 (length str) = i" by auto
    with Suc.prems show ?thesis by (simp add: string_copy_loop.simps)
  qed
qed

lemma string_fill_loop_eq:
  assumes "i \<le> 64" and "length buf = 64"
  shows "string_fill_loop i buf = take i buf @ replicate (64 - i) 0x20"
  using assms
proof (induction "64 - i" arbitrary: i buf)
  case 0
  then show ?case by (simp add: string_fill_loop.simps TC_PROTOCOL_MAX_STR_LEN_def)
next
  case (Suc n)
  have "string_fill_loop (i + 1) (buf[i := 0x20]) = take (i + 1) (buf[i := 0x20]) @ replicate (64 - (i + 1)) 0x20"
    using Suc by (intro Suc.hyps(1)) auto
  moreover have "take (i + 1) (buf[i := 0x20]) = take i buf @ [0x20]" "64 - i = Suc (64 - (i + 1))"
    using Suc by (simp_all add: take_Suc_conv_app_nth)
  ultimately show ?case
    using Suc(2) by (subst string_fill_loop.simps) (simp add: TC_PROTOCOL_MAX_STR_LEN_def)
qed

lemma string_buffer_eq: "0 \<notin> set str \<Longrightarrow> string_buffer str = string_bytes str"
  unfolding string_buffer_def
  by (simp add: string_copy_loop_eq string_fill_loop_eq TC_PROTOCOL_MAX_STR_LEN_def string_bytes_def min_def)

lemma length_string_bytes [simp]: "length (string_bytes s) = 64"
  by (simp add: string_bytes_def)

lemma decode_string_loop_eq:
  assumes "i \<le> length dest" 
  shows "decode_string_loop i len dest =
    (let k = length (takeWhile (\<lambda>c. c = 0x20) (rev (take i dest)))
     in (if k = 0 then len else i - k, take (i - k) dest @ replicate k 0 @ drop i dest))"
  using assms
proof (induction i arbitrary: len dest)
  case 0
  then show ?case by simp
next
  case (Suc i)
  then have t: "take (Suc i) dest = take i dest @ [dest ! i]" by (simp add: take_Suc_conv_app_nth)
  show ?case
  proof (cases "dest ! i = 0x20")
    case True
    let ?k = "length (takeWhile (\<lambda>c. c = 0x20) (rev (take i dest)))"
    have "?k \<le> i" by (metis length_rev length_take length_takeWhile_le min.bounded_iff)
    then have "drop i (dest[i := 0]) = 0 # drop (Suc i) dest"
      using Suc.prems by (simp add: drop_update_swap Cons_nth_drop_Suc [symmetric])
    with True t Suc \<open>?k \<le> i\<close> show ?thesis
      by (simp add: Let_def replicate_append_same [symmetric])
  next
    case False
    with Suc.prems t show ?thesis by (simp add: Let_def) (metis append.assoc append_Cons append_Nil append_take_drop_id Cons_nth_drop_Suc Suc_le_lessD)
  qed
qed
section \<open>Packets as data\<close>

datatype packet =
    ServerIdentification cstring cstring pchar
  | Ping
  | Kick cstring
  | ExtInfo cstring
  | ExtEntry cstring pchar
  | CustomBlockSupportLevel pchar
  | SetTextureUrl cstring
  | SetMapEnvProperty pchar pint32
  | EnvMapAppearance1 cstring pchar pchar pint16
  | EnvMapAppearance2 cstring pchar pchar pint16 pint16 pint16
  | EnvSetWeatherType pchar
  | SetBlockDefinition block_definition bool bool
  | SetEnvColor pchar pint16 pint16 pint16
  | Message pchar cstring
  | LevelInitialize
  | LevelInitialize2 pint32
  | LevelDataChunk puint16 cstring pchar
  | LevelFinalize pint16 pint16 pint16
  | SetBlock pint16 pint16 pint16 puint16 bool
  | SpawnPlayer pchar cstring pint32 pint32 pint32 pchar pchar bool
  | SetPositionOrientation pchar pint32 pint32 pint32 pchar pchar bool
  | PositionOrientationDelta pchar pint32 pint32 pint32 pchar pchar bool
  | PositionDelta pchar pint32 pint32 pint32 bool
  | HeadingPitch pchar pchar pchar
  | DespawnPlayer pchar

text \<open>The function of \<^verbatim>\<open>protocol.c\<close> that sends each packet.\<close>

fun send_packet :: "packet \<Rightarrow> (psocket, bool) cm" where
  "send_packet (ServerIdentification n m u) = tc_protocol_server_identification n m u"
| "send_packet Ping = tc_protocol_ping"
| "send_packet (Kick m) = tc_protocol_kick m"
| "send_packet (ExtInfo a) = tc_cpe_send_extinfo a"
| "send_packet (ExtEntry n v) = tc_cpe_send_extentry n v"
| "send_packet (CustomBlockSupportLevel l) = tc_cpe_send_custom_block_support_level l"
| "send_packet (SetTextureUrl u) = tc_cpe_send_set_texture_url u"
| "send_packet (SetMapEnvProperty p v) = tc_cpe_send_set_map_env_property p v"
| "send_packet (EnvMapAppearance1 u s e l) = tc_cpe_send_env_map_appearance1 u s e l"
| "send_packet (EnvMapAppearance2 u s e l c d) = tc_cpe_send_env_map_appearance2 u s e l c d"
| "send_packet (EnvSetWeatherType w) = tc_cpe_send_env_set_weather_type w"
| "send_packet (SetBlockDefinition d b t) = tc_cpe_send_set_block_definition d b t"
| "send_packet (SetEnvColor f r g b) = tc_cpe_send_set_env_color f r g b"
| "send_packet (Message i m) = tc_protocol_send_message i m"
| "send_packet LevelInitialize = tc_protocol_send_level_initialize"
| "send_packet (LevelInitialize2 n) = tc_protocol_send_level_initialize2 n"
| "send_packet (LevelDataChunk l d p) = tc_protocol_send_level_data_chunk l d p"
| "send_packet (LevelFinalize x y z) = tc_protocol_send_level_finalize x y z"
| "send_packet (SetBlock x y z b e) = tc_protocol_send_set_block x y z b e"
| "send_packet (SpawnPlayer i n x y z h p e) = tc_protocol_send_spawn_player i n x y z h p e"
| "send_packet (SetPositionOrientation i x y z h p e) =
     tc_protocol_send_set_player_position_and_orientation i x y z h p e"
| "send_packet (PositionOrientationDelta i x y z h p e) =
     tc_protocol_send_update_player_position_and_orientation_delta i x y z h p e"
| "send_packet (PositionDelta i x y z e) = tc_protocol_update_player_position_delta i x y z e"
| "send_packet (HeadingPitch i h p) = tc_protocol_update_player_heading_and_pitch i h p"
| "send_packet (DespawnPlayer i) = tc_protocol_despawn_player i"

text \<open>
  The layout of each packet: the fields that go out, a byte string per call of
  \<open>p_socket_send\<close>. A multi-byte integer goes out byte by byte.
\<close>

definition by_byte :: "cstring \<Rightarrow> cstring list" where
  "by_byte bs = map (\<lambda>b. [b]) bs"

definition id_bytes :: "puint16 \<Rightarrow> bool \<Rightarrow> cstring" where
  "id_bytes i ext = (if ext then short_bytes i else [ucast i])"

fun packet_pieces :: "packet \<Rightarrow> cstring list" where
  "packet_pieces (ServerIdentification n m u) =
     by_byte [0x00, 0x07] @ [string_bytes n, string_bytes m] @ by_byte [u]"
| "packet_pieces Ping = by_byte [0x01]"
| "packet_pieces (Kick m) = by_byte [0x0e] @ [string_bytes m]"
| "packet_pieces (ExtInfo a) = by_byte [0x10] @ [string_bytes a] @ by_byte [0, 10]"
| "packet_pieces (ExtEntry n v) =
     by_byte [0x11] @ [string_bytes n] @ by_byte (int_bytes (scast v))"
| "packet_pieces (CustomBlockSupportLevel l) = by_byte [0x13, l]"
| "packet_pieces (SetTextureUrl u) = by_byte [0x28] @ [string_bytes u]"
| "packet_pieces (SetMapEnvProperty p v) = by_byte ([0x29, p] @ int_bytes v)"
| "packet_pieces (EnvMapAppearance1 u s e l) =
     by_byte [0x2a] @ [string_bytes u] @ by_byte ([s, e] @ short_bytes l)"
| "packet_pieces (EnvMapAppearance2 u s e l c d) =
     by_byte [0x1e] @ [string_bytes u]
     @ by_byte ([s, e] @ short_bytes l @ short_bytes c @ short_bytes d)"
| "packet_pieces (EnvSetWeatherType w) = by_byte [0x1f, w]"
| "packet_pieces (SetBlockDefinition d b t) =
     by_byte ([0x23] @ id_bytes (bd_block_id d) b) @ [string_bytes (bd_block_name d)]
     @ by_byte ([bd_solidity d, bd_movement_speed d]
         @ id_bytes (bd_top_texture_id d) t @ id_bytes (bd_bottom_texture_id d) t
         @ id_bytes (bd_side_texture_id d) t
         @ [bd_transmits_light d, bd_walk_sound d, bd_full_bright d, bd_shape d, bd_block_draw d,
            bd_fog_density d, bd_fog_color_red d, bd_fog_color_green d, bd_fog_color_blue d])"
| "packet_pieces (SetEnvColor f r g b) =
     by_byte ([0x19, f] @ short_bytes r @ short_bytes g @ short_bytes b)"
| "packet_pieces (Message i m) = by_byte [0x0d, i] @ [string_bytes m]"
| "packet_pieces LevelInitialize = by_byte [0x02]"
| "packet_pieces (LevelInitialize2 n) = by_byte ([0x02] @ int_bytes n)"
| "packet_pieces (LevelDataChunk l d p) =
     by_byte ([0x03] @ short_bytes l) @ [take 1024 d] @ by_byte [p]"
| "packet_pieces (LevelFinalize x y z) =
     by_byte ([0x04] @ short_bytes x @ short_bytes y @ short_bytes z)"
| "packet_pieces (SetBlock x y z b e) =
     by_byte ([0x06] @ short_bytes x @ short_bytes y @ short_bytes z @ id_bytes b e)"
| "packet_pieces (SpawnPlayer i n x y z h p e) =
     by_byte [0x07, i] @ [string_bytes n]
     @ by_byte (position_bytes x e @ position_bytes y e @ position_bytes z e @ [h, p])"
| "packet_pieces (SetPositionOrientation i x y z h p e) =
     by_byte ([0x08, i] @ position_bytes x e @ position_bytes y e @ position_bytes z e @ [h, p])"
| "packet_pieces (PositionOrientationDelta i x y z h p e) =
     by_byte ([0x09, i] @ position_bytes x e @ position_bytes y e @ position_bytes z e @ [h, p])"
| "packet_pieces (PositionDelta i x y z e) =
     by_byte ([0x0a, i] @ position_bytes x e @ position_bytes y e @ position_bytes z e)"
| "packet_pieces (HeadingPitch i h p) = by_byte [0x0b, i, h, p]"
| "packet_pieces (DespawnPlayer i) = by_byte [0x0c, i]"

text \<open>The arguments the functions are meant for: NUL-free strings, 1024 bytes of level data, colours in range.\<close>

fun packet_ok :: "packet \<Rightarrow> bool" where
  "packet_ok (ServerIdentification n m u) \<longleftrightarrow> 0 \<notin> set n \<and> 0 \<notin> set m"
| "packet_ok (Kick m) \<longleftrightarrow> 0 \<notin> set m"
| "packet_ok (ExtInfo a) \<longleftrightarrow> 0 \<notin> set a"
| "packet_ok (ExtEntry n v) \<longleftrightarrow> 0 \<notin> set n"
| "packet_ok (SetTextureUrl u) \<longleftrightarrow> 0 \<notin> set u"
| "packet_ok (EnvMapAppearance1 u s e l) \<longleftrightarrow> 0 \<notin> set u"
| "packet_ok (EnvMapAppearance2 u s e l c d) \<longleftrightarrow> 0 \<notin> set u"
| "packet_ok (SetBlockDefinition d b t) \<longleftrightarrow> 0 \<notin> set (bd_block_name d)"
| "packet_ok (SetEnvColor f r g b) \<longleftrightarrow>
     color_component_ok r \<and> color_component_ok g \<and> color_component_ok b"
| "packet_ok (Message i m) \<longleftrightarrow> 0 \<notin> set m"
| "packet_ok (LevelDataChunk l d p) \<longleftrightarrow> length d \<ge> 1024"
| "packet_ok (SpawnPlayer i n x y z h p e) \<longleftrightarrow> 0 \<notin> set n"
| "packet_ok _ \<longleftrightarrow> True"

definition packet_bytes :: "packet \<Rightarrow> cstring" where
  "packet_bytes p = concat (packet_pieces p)"

section \<open>What a send function puts on the wire\<close>

text \<open>
  \<open>sends bs m\<close>: \<open>m\<close> makes one call of \<open>p_socket_send\<close> per element of \<open>bs\<close>. While the
  calls accept everything it goes on and returns true; at the first call that fails it returns
  false, and exactly the pieces before it are on the wire.
\<close>

definition sends :: "cstring list \<Rightarrow> (psocket, bool) cm \<Rightarrow> bool" where
  "sends bs m \<longleftrightarrow>
     (\<forall>s rest. send_script s = replicate (length bs) (SendOk 1024) @ rest \<longrightarrow>
        m s = Inr (True, s\<lparr>wire := wire s @ concat bs, send_script := rest\<rparr>)) \<and>
     (\<forall>s rest k. k < length bs \<longrightarrow> send_script s = replicate k (SendOk 1024) @ SendFailed # rest \<longrightarrow>
        m s = Inr (False, s\<lparr>wire := wire s @ concat (take k bs), send_script := rest\<rparr>))"

lemma sendsD_ok:
  "sends bs m \<Longrightarrow> send_script s = replicate (length bs) (SendOk 1024) @ rest \<Longrightarrow>
     m s = Inr (True, s\<lparr>wire := wire s @ concat bs, send_script := rest\<rparr>)"
  unfolding sends_def by blast

lemma sendsD_failed:
  "sends bs m \<Longrightarrow> k < length bs \<Longrightarrow> send_script s = replicate k (SendOk 1024) @ SendFailed # rest \<Longrightarrow>
     m s = Inr (False, s\<lparr>wire := wire s @ concat (take k bs), send_script := rest\<rparr>)"
  unfolding sends_def by blast

lemma sendsI:
  assumes "\<And>s rest. send_script s = replicate (length bs) (SendOk 1024) @ rest \<Longrightarrow>
      m s = Inr (True, s\<lparr>wire := wire s @ concat bs, send_script := rest\<rparr>)"
    and "\<And>s rest k. k < length bs \<Longrightarrow> send_script s = replicate k (SendOk 1024) @ SendFailed # rest \<Longrightarrow>
      m s = Inr (False, s\<lparr>wire := wire s @ concat (take k bs), send_script := rest\<rparr>)"
  shows "sends bs m"
  using assms unfolding sends_def by blast

lemma sends_Nil: "sends [] (send_all [])"
  by (rule sendsI) (simp_all add: run_simps)

lemma sends_Cons:
  assumes m: "sends bs m" and ms: "sends cs (send_all ms)"
  shows "sends (bs @ cs) (send_all (m # ms))"
proof (rule sendsI)
  fix s :: psocket and rest
  assume s: "send_script s = replicate (length (bs @ cs)) (SendOk 1024) @ rest"
  let ?t = "s\<lparr>wire := wire s @ concat bs, send_script := replicate (length cs) (SendOk 1024) @ rest\<rparr>"
  from s have "m s = Inr (True, ?t)" by (intro sendsD_ok [OF m]) (simp add: replicate_add)
  moreover have "send_all ms ?t = Inr (True, ?t\<lparr>wire := wire ?t @ concat cs, send_script := rest\<rparr>)"
    by (rule sendsD_ok [OF ms]) simp
  ultimately show "send_all (m # ms) s
      = Inr (True, s\<lparr>wire := wire s @ concat (bs @ cs), send_script := rest\<rparr>)"
    by (simp add: run_simps)
next
  fix s :: psocket and rest k
  assume k: "k < length (bs @ cs)" and s: "send_script s = replicate k (SendOk 1024) @ SendFailed # rest"
  show "send_all (m # ms) s
      = Inr (False, s\<lparr>wire := wire s @ concat (take k (bs @ cs)), send_script := rest\<rparr>)"
  proof (cases "k < length bs")
    case True
    from sendsD_failed [OF m this s] show ?thesis using True by (simp add: run_simps)
  next
    case False
    let ?k = "k - length bs"
    let ?t = "s\<lparr>wire := wire s @ concat bs, send_script := replicate ?k (SendOk 1024) @ SendFailed # rest\<rparr>"
    have "replicate k (SendOk 1024) = replicate (length bs) (SendOk 1024) @ replicate ?k (SendOk 1024)"
      using False by (simp flip: replicate_add)
    with s have "m s = Inr (True, ?t)" by (intro sendsD_ok [OF m]) simp
    moreover have "send_all ms ?t = Inr (False, ?t\<lparr>wire := wire ?t @ concat (take ?k cs), send_script := rest\<rparr>)"
      using k False by (intro sendsD_failed [OF ms]) auto
    ultimately show ?thesis using False by (simp add: run_simps)
  qed
qed

lemma sends_byte: "sends (by_byte [b]) (tc_protocol_send_byte b)"
  by (rule sendsI) (simp_all add: by_byte_def tc_protocol_send_byte_def p_socket_send_def run_simps)

lemma sends_datachunk:
  "0 < length d \<Longrightarrow> length d \<le> 1024 \<Longrightarrow> sends [d] (tc_protocol_send_datachunk d)"
  by (rule sendsI) (simp_all add: tc_protocol_send_datachunk_def p_socket_send_def run_simps)

lemma sends_string: "0 \<notin> set str \<Longrightarrow> sends [string_bytes str] (tc_protocol_send_string str)"
  by (rule sendsI)
    (simp_all add: tc_protocol_send_string_def p_socket_send_def string_buffer_eq run_simps)

lemma by_byte_simps [simp]:
  "by_byte [] = []" "by_byte (b # bs) = [b] # by_byte bs" "by_byte (bs @ cs) = by_byte bs @ by_byte cs"
  "concat (by_byte bs) = bs" "length (by_byte bs) = length bs"
  by (simp_all add: by_byte_def)

lemma sends_eq: "sends bs m \<Longrightarrow> bs = cs \<Longrightarrow> sends cs m"
  by simp

lemma sends_short: "sends (by_byte (short_bytes d)) (tc_protocol_send_short d)"
  unfolding short_bytes_code [symmetric] tc_protocol_send_short_def Let_def
  by (rule sends_eq, (rule sends_Cons sends_Nil sends_byte)+) simp

lemma sends_int: "sends (by_byte (int_bytes d)) (tc_protocol_send_int d)"
  unfolding int_bytes_code [symmetric] tc_protocol_send_int_def Let_def
  by (rule sends_eq, (rule sends_Cons sends_Nil sends_byte)+) simp

lemma id_bytes_code: "ucast (i AND 0xFF) = (ucast i :: pchar)" for i :: puint16
  by (simp add: bit_table)

lemma sends_id:
  "sends (by_byte (id_bytes i e))
     (if e then tc_protocol_send_short i else tc_protocol_send_byte (ucast (i AND 0xFF)))"
  using sends_short sends_byte [of "ucast i"] by (simp add: id_bytes_def id_bytes_code)

lemma position_code:
  "(ucast (signed_drop_bit 16 p) :: pint16) = ucast (drop_bit 16 p)"
  "(ucast (p AND 0xFFFF) :: pint16) = ucast p" for p :: pint32
  by (simp_all add: bit_table)

lemma sends_position: "sends (by_byte (position_bytes p e)) (send_position p e)"
proof (cases e)
  case True
  have "sends (by_byte (short_bytes (ucast (drop_bit 16 p))) @ by_byte (int_bytes p) @ [])
    (send_all [tc_protocol_send_short (ucast (drop_bit 16 p)), tc_protocol_send_int p])"
    by (intro sends_Cons sends_Nil sends_short sends_int)
  with True show ?thesis by (simp add: send_position_def position_code position_bytes_def)
next
  case False
  have "sends (by_byte (short_bytes (ucast (drop_bit 16 p))) @ by_byte (short_bytes (ucast p)) @ [])
    (send_all [tc_protocol_send_short (ucast (drop_bit 16 p)), tc_protocol_send_short (ucast p)])"
    by (intro sends_Cons sends_Nil sends_short)
  with False show ?thesis by (simp add: send_position_def position_code position_bytes_def)
qed

lemmas sends_rules = sends_Cons sends_Nil sends_byte sends_string sends_short sends_int sends_id
  sends_position sends_datachunk


lemmas packet_defs = tc_protocol_server_identification_def tc_protocol_ping_def tc_protocol_kick_def
  tc_cpe_send_extinfo_def tc_cpe_send_extentry_def tc_cpe_send_custom_block_support_level_def
  tc_cpe_send_set_texture_url_def tc_cpe_send_set_map_env_property_def
  tc_cpe_send_env_map_appearance1_def tc_cpe_send_env_map_appearance2_def
  tc_cpe_send_env_set_weather_type_def tc_protocol_send_message_def
  tc_protocol_send_level_initialize_def tc_protocol_send_level_initialize2_def
  tc_protocol_send_level_finalize_def tc_protocol_send_set_block_def
  tc_protocol_send_spawn_player_def tc_protocol_send_set_player_position_and_orientation_def
  tc_protocol_send_update_player_position_and_orientation_delta_def
  tc_protocol_update_player_position_delta_def tc_protocol_update_player_heading_and_pitch_def
  tc_protocol_despawn_player_def

lemma extension_count_bytes: "short_bytes (of_nat TC_CPE_EXTENSION_MAX_SUPPORTED) = [0, 10]"
  by (simp add: short_bytes_def TC_CPE_EXTENSION_MAX_SUPPORTED_def)

lemmas packet_consts = TC_PROTOCOL_VERSION_def TC_PACKET_CPE_EXTINFO_def TC_PACKET_CPE_EXTENTRY_def
  TC_PACKET_CPE_CUSTOM_BLOCK_SUPPORT_LEVEL_def extension_count_bytes

lemma sends_env_color:
  assumes "packet_ok (SetEnvColor f r g b)"
  shows "sends (packet_pieces (SetEnvColor f r g b)) (tc_cpe_send_set_env_color f r g b)"
proof -
  have "sends (packet_pieces (SetEnvColor f r g b)) (send_all
       [tc_protocol_send_byte 0x19, tc_protocol_send_byte f,
        tc_protocol_send_short r, tc_protocol_send_short g, tc_protocol_send_short b])"
    by (rule sends_eq, (rule sends_rules)+) simp
  with assms show ?thesis
    by (simp add: sends_def tc_cpe_send_set_env_color_def run_simps del: send_all.simps packet_pieces.simps)
qed

lemma sends_block_definition:
  assumes "packet_ok (SetBlockDefinition d b t)"
  shows "sends (packet_pieces (SetBlockDefinition d b t)) (tc_cpe_send_set_block_definition d b t)"
proof -
  have "tc_cpe_send_set_block_definition d b t = send_all
     ([tc_protocol_send_byte 0x23,
       (if b then tc_protocol_send_short (bd_block_id d)
        else tc_protocol_send_byte (ucast (bd_block_id d AND 0xFF))),
       tc_protocol_send_string (bd_block_name d),
       tc_protocol_send_byte (bd_solidity d),
       tc_protocol_send_byte (bd_movement_speed d),
       (if t then tc_protocol_send_short (bd_top_texture_id d)
        else tc_protocol_send_byte (ucast (bd_top_texture_id d AND 0xFF))),
       (if t then tc_protocol_send_short (bd_bottom_texture_id d)
        else tc_protocol_send_byte (ucast (bd_bottom_texture_id d AND 0xFF))),
       (if t then tc_protocol_send_short (bd_side_texture_id d)
        else tc_protocol_send_byte (ucast (bd_side_texture_id d AND 0xFF))),
       tc_protocol_send_byte (bd_transmits_light d),
       tc_protocol_send_byte (bd_walk_sound d),
       tc_protocol_send_byte (bd_full_bright d),
       tc_protocol_send_byte (bd_shape d),
       tc_protocol_send_byte (bd_block_draw d),
       tc_protocol_send_byte (bd_fog_density d),
       tc_protocol_send_byte (bd_fog_color_red d),
       tc_protocol_send_byte (bd_fog_color_green d),
       tc_protocol_send_byte (bd_fog_color_blue d)])"
    by (cases t) (simp_all only: tc_cpe_send_set_block_definition_def if_True if_False append_Cons append_Nil)
  moreover have "sends (packet_pieces (SetBlockDefinition d b t)) \<dots>"
    by (rule sends_eq, (rule sends_rules | use assms in \<open>simp\<close>)+)
  ultimately show ?thesis by simp
qed

lemma sends_level_data_chunk:
  assumes "packet_ok (LevelDataChunk l d c)"
  shows "sends (packet_pieces (LevelDataChunk l d c)) (tc_protocol_send_level_data_chunk l d c)"
proof -
  have l: "0 < length (take 1024 d)" "length (take 1024 d) \<le> 1024" using assms by auto
  have "sends (packet_pieces (LevelDataChunk l d c)) (send_all
     [tc_protocol_send_byte 0x03, tc_protocol_send_short l,
      tc_protocol_send_datachunk (take 1024 d), tc_protocol_send_byte c])"
    by (rule sends_eq, (rule sends_rules l)+) simp
  with assms show ?thesis by (simp add: tc_protocol_send_level_data_chunk_def not_less)
qed

lemma sends_packet:
  assumes "packet_ok p"
  shows "sends (packet_pieces p) (send_packet p)"
  using assms
proof (cases p)
  case (SetEnvColor f r g b)
  with assms show ?thesis using sends_env_color by simp
next
  case (SetBlockDefinition d b t)
  with assms show ?thesis using sends_block_definition by simp
next
  case (LevelDataChunk l d c)
  with assms show ?thesis using sends_level_data_chunk by simp
qed (simp_all only: send_packet.simps packet_defs packet_ok.simps,
     (rule sends_eq, (rule sends_rules | assumption | (erule conjE, assumption))+, simp add: packet_consts)+)

section \<open>Framing\<close>

text \<open>What a client and the server have agreed on, and the packets the server sends then.\<close>

record negotiated =
  extended_blocks :: bool
  extended_textures :: bool
  fast_map :: bool
  extended_positions :: bool

fun packet_fits :: "negotiated \<Rightarrow> packet \<Rightarrow> bool" where
  "packet_fits n (SetBlockDefinition d b t) \<longleftrightarrow> b = extended_blocks n \<and> t = extended_textures n"
| "packet_fits n LevelInitialize \<longleftrightarrow> \<not> fast_map n"
| "packet_fits n (LevelInitialize2 c) \<longleftrightarrow> fast_map n"
| "packet_fits n (SetBlock x y z b e) \<longleftrightarrow> e = extended_blocks n"
| "packet_fits n (SpawnPlayer i nm x y z h p e) \<longleftrightarrow> e = extended_positions n"
| "packet_fits n (SetPositionOrientation i x y z h p e) \<longleftrightarrow> e = extended_positions n"
| "packet_fits n (PositionOrientationDelta i x y z h p e) \<longleftrightarrow> e = extended_positions n"
| "packet_fits n (PositionDelta i x y z e) \<longleftrightarrow> e = extended_positions n"
| "packet_fits n _ \<longleftrightarrow> True"

text \<open>The length of the packet that starts with an opcode, as a client has to compute it.\<close>

definition opcode_length :: "negotiated \<Rightarrow> pchar \<Rightarrow> nat" where
  "opcode_length n opcode =
     (let id = (if extended_blocks n then 2 else 1); tex = (if extended_textures n then 2 else 1);
          pos = (if extended_positions n then 6 else 4)
      in if opcode = 0x00 then 131
         else if opcode = 0x01 then 1
         else if opcode = 0x02 then (if fast_map n then 5 else 1)
         else if opcode = 0x03 then 1028
         else if opcode = 0x04 then 7
         else if opcode = 0x06 then 7 + id
         else if opcode = 0x07 then 68 + 3 * pos
         else if opcode = 0x08 then 4 + 3 * pos
         else if opcode = 0x09 then 4 + 3 * pos
         else if opcode = 0x0a then 2 + 3 * pos
         else if opcode = 0x0b then 4
         else if opcode = 0x0c then 2
         else if opcode = 0x0d then 66
         else if opcode = 0x0e then 65
         else if opcode = 0x10 then 67
         else if opcode = 0x11 then 69
         else if opcode = 0x13 then 2
         else if opcode = 0x19 then 8
         else if opcode = 0x1e then 73
         else if opcode = 0x1f then 2
         else if opcode = 0x23 then 76 + id + 3 * tex
         else if opcode = 0x28 then 65
         else if opcode = 0x29 then 6
         else if opcode = 0x2a then 69
         else 0)"

lemma field_lengths [simp]:
  "length (short_bytes d) = 2" "length (int_bytes i) = 4"
  "length (id_bytes b e) = (if e then 2 else 1)"
  "length (position_bytes p e) = (if e then 6 else 4)"
  by (simp_all add: short_bytes_def int_bytes_def id_bytes_def position_bytes_def)

lemma extension_index_loop_eq:
  assumes "0 \<notin> set nm" and "length nm \<le> 64" and "i + n \<le> 10"
  shows "extension_index_loop nm n i =
    (case find (\<lambda>j. ext_name (tc_supported_extensions ! j) = nm) [i..<i + n] of
       None \<Rightarrow> -1 | Some j \<Rightarrow> int j)"
  using assms
proof (induction n arbitrary: i)
  case (Suc n)
  have e: "j < 10 \<Longrightarrow> 0 \<notin> set (ext_name (tc_supported_extensions ! j)) \<and> length (ext_name (tc_supported_extensions ! j)) \<le> 64" for j
    by (simp add: tc_supported_extensions_def bytes_of_def less_Suc_eq numeral_eq_Suc) auto
  have "strncmp nm (ext_name (tc_supported_extensions ! i)) TC_PROTOCOL_MAX_STR_LEN = 0
      \<longleftrightarrow> ext_name (tc_supported_extensions ! i) = nm"
    using Suc.prems e [of i] by (auto simp: strncmp_eq_0 TC_PROTOCOL_MAX_STR_LEN_def)
  with Suc show ?case by (simp add: upt_conv_Cons del: upt_Suc)
qed simp

lemma length_supported_extensions [simp]: "length tc_supported_extensions = 10"
  by (simp add: tc_supported_extensions_def)

section \<open>Properties\<close>



text \<open>
  A packet function stops at the first send that fails: it returns false, and the wire
  holds exactly the pieces sent before, a prefix of the packet.
\<close>

theorem packet_stops_at_failure:
  assumes "packet_ok p" and "k < length (packet_pieces p)"
    and "send_script s = replicate k (SendOk 1024) @ SendFailed # rest"
  shows "send_packet p s = Inr (False, s\<lparr>wire := wire s @ concat (take k (packet_pieces p)),
    send_script := rest\<rparr>)"
  by (rule sendsD_failed [OF sends_packet [OF assms(1)] assms(2,3)])

theorem packet_stops_at_failure_witness:
  "send_packet (HeadingPitch 1 2 3) \<lparr>wire = [], send_script = [SendOk 1024, SendOk 1024, SendFailed]\<rparr>
   = Inr (False, \<lparr>wire = [0x0b, 1], send_script = []\<rparr>)"
  using packet_stops_at_failure [of "HeadingPitch 1 2 3" 2
      "\<lparr>wire = [], send_script = [SendOk 1024, SendOk 1024, SendFailed]\<rparr>" "[]"]
  by (simp add: numeral_2_eq_2 del: send_packet.simps)

text \<open>
  The packet stream is self-delimiting: with the extensions both sides agreed on, the first
  byte of a packet determines its length.
\<close>

theorem opcode_determines_length:
  assumes "packet_ok p" and "packet_fits n p"
  shows "length (packet_bytes p) = opcode_length n (hd (packet_bytes p))"
  using assms by (cases p) (simp_all add: packet_bytes_def opcode_length_def)

theorem opcode_determines_length_witness:
  "length (packet_bytes (Kick (bytes_of ''bye'')))
    = opcode_length \<lparr>extended_blocks = True, extended_textures = True, fast_map = True,
        extended_positions = True\<rparr> (hd (packet_bytes (Kick (bytes_of ''bye''))))"
  by (rule opcode_determines_length) (simp_all add: bytes_of_def)

text \<open>
  A string field survives the trip: decoding the field a string of at most 64 characters is
  sent as gives back its length and its characters, followed by NULs, and leaves the bytes of
  the destination beyond the field alone. Trailing spaces are padding and are not part of the
  string.
\<close>

theorem string_roundtrip:
  assumes "length str \<le> 64" and "str = [] \<or> last str \<noteq> 0x20" and "64 \<le> length dest"
  shows "tc_protocol_decode_string dest (string_bytes str @ rest)
    = Inr (length str, str @ replicate (64 - length str) 0 @ drop 64 dest)"
proof -
  let ?d = "string_bytes str @ drop 64 dest"
  have "takeWhile (\<lambda>c. c = 0x20) (rev (string_bytes str)) = replicate (64 - length str) 0x20"
    using assms(1,2) by (cases str rule: rev_cases)
      (auto simp: string_bytes_def takeWhile_append takeWhile_replicate)
  then have "decode_string_loop 64 64 ?d = (length str, str @ replicate (64 - length str) 0 @ drop 64 dest)"
    using assms(1) by (subst decode_string_loop_eq) (auto simp: Let_def string_bytes_def)
  then show ?thesis
    using assms(3) by (simp add: tc_protocol_decode_string_def TC_PROTOCOL_MAX_STR_LEN_def)
qed

theorem string_roundtrip_witness:
  "tc_protocol_decode_string (replicate 65 1) (string_bytes (bytes_of ''Notch'') @ [7])
    = Inr (5, bytes_of ''Notch'' @ replicate 59 0 @ [1])"
  using string_roundtrip [of "bytes_of ''Notch''" "replicate 65 1" "[7]"]
  by (simp add: bytes_of_def)

text \<open>
  [C6] When the integers decoded from the network are right: \<open>pchar\<close> is signed, so a low byte of
  at least \<open>0x80\<close> is sign-extended over the bytes above it. \<open>tc_protocol_decode_short\<close> and
  \<open>tc_protocol_decode_int\<close> return the integer that was sent exactly when every byte with its top
  bit set has only \<open>0xFF\<close> above it.
\<close>

theorem decode_integer_roundtrip:
  "(tc_protocol_decode_short (short_bytes d) = Inr d \<longleftrightarrow> (bit d 7 \<longrightarrow> drop_bit 8 d = 0xFF))
   \<and> (tc_protocol_decode_int (int_bytes i) = Inr i \<longleftrightarrow>
        (bit i 7 \<longrightarrow> drop_bit 8 i = 0xFFFFFF) \<and> (bit i 15 \<longrightarrow> drop_bit 16 i = 0xFFFF)
        \<and> (bit i 23 \<longrightarrow> drop_bit 24 i = 0xFF))"
  by (simp add: decode_short_bytes decode_int_bytes)

theorem decode_integer_roundtrip_witness:
  "tc_protocol_decode_short (short_bytes 300) = Inr 300
   \<and> tc_protocol_decode_short (short_bytes 200) \<noteq> Inr 200
   \<and> tc_protocol_decode_int (int_bytes 0x01020304) = Inr 0x01020304"
  using decode_integer_roundtrip [of 300 "0x01020304"] decode_integer_roundtrip [of 200 0]
  by (simp add: bit_table)

text \<open>
  A send that would block loses its byte silently: \<open>tc_protocol_send_byte\<close> reports success
  when the socket is not ready, so a whole packet can be reported as sent although its opcode
  never reached the wire, and the client reads the string field as packets.
\<close>

theorem would_block_drops_bytes:
  "\<exists>s s'. tc_protocol_kick (bytes_of ''bye'') s = Inr (True, s') \<and> wire s = []
     \<and> wire s' = string_bytes (bytes_of ''bye'')
     \<and> packet_bytes (Kick (bytes_of ''bye'')) = 0x0e # wire s'"
proof -
  let ?s = "\<lparr>wire = [], send_script = [SendWouldBlock]\<rparr>"
  have "0 \<notin> set (bytes_of ''bye'')" by (simp add: bytes_of_def)
  then have "tc_protocol_kick (bytes_of ''bye'') ?s
      = Inr (True, \<lparr>wire = string_bytes (bytes_of ''bye''), send_script = []\<rparr>)"
    by (simp add: tc_protocol_kick_def tc_protocol_send_byte_def tc_protocol_send_string_def
        p_socket_send_def string_buffer_eq run_simps)
  then show ?thesis by (intro exI) (auto simp: packet_bytes_def)
qed

text \<open>
  The extension lookup: the index of a name of the table is its position, and a name that is
  not in the table has index \<open>-1\<close>.
\<close>

theorem extension_index_correct:
  assumes "0 \<notin> set nm" and "length nm \<le> 64"
  shows "(tc_cpe_get_extension_index nm = int i \<longleftrightarrow>
      i < length tc_supported_extensions \<and> ext_name (tc_supported_extensions ! i) = nm)
    \<and> (tc_cpe_get_extension_index nm = -1 \<longleftrightarrow> nm \<notin> ext_name ` set tc_supported_extensions)"
proof -
  have "distinct (map ext_name tc_supported_extensions)" by code_simp
  then have uniq: "i = j" if "i < 10" "j < 10"
    "ext_name (tc_supported_extensions ! i) = ext_name (tc_supported_extensions ! j)" for i j
    using that nth_eq_iff_index_eq [of "map ext_name tc_supported_extensions" i j] by simp
  have idx: "tc_cpe_get_extension_index nm =
      (case find (\<lambda>j. ext_name (tc_supported_extensions ! j) = nm) [0..<10] of
         None \<Rightarrow> -1 | Some j \<Rightarrow> int j)"
    using extension_index_loop_eq [OF assms, of 0 10]
    by (simp add: tc_cpe_get_extension_index_def TC_CPE_EXTENSION_MAX_SUPPORTED_def)
  show ?thesis
  proof (cases "find (\<lambda>j. ext_name (tc_supported_extensions ! j) = nm) [0..<10]")
    case None
    then have "\<forall>j < 10. ext_name (tc_supported_extensions ! j) \<noteq> nm" by (auto simp: find_None_iff)
    then show ?thesis unfolding idx None by (auto simp: in_set_conv_nth)
  next
    case (Some j)
    then have j: "j < 10" "ext_name (tc_supported_extensions ! j) = nm" by (auto simp: find_Some_iff)
    then have "nm \<in> ext_name ` set tc_supported_extensions" by force
    with j uniq show ?thesis unfolding idx Some by auto
  qed
qed

theorem extension_index_correct_witness:
  "tc_cpe_get_extension_index (bytes_of ''EnvColors'') = 8
   \<and> tc_cpe_get_extension_index (bytes_of ''HackControl'') = -1"
proof -
  have "0 \<notin> set (bytes_of ''EnvColors'')" "length (bytes_of ''EnvColors'') \<le> 64"
    "0 \<notin> set (bytes_of ''HackControl'')" "length (bytes_of ''HackControl'') \<le> 64"
    "8 < length tc_supported_extensions"
    "ext_name (tc_supported_extensions ! 8) = bytes_of ''EnvColors''"
    "bytes_of ''HackControl'' \<notin> ext_name ` set tc_supported_extensions"
    by code_simp+
  with extension_index_correct [of "bytes_of ''EnvColors''" 8]
    extension_index_correct [of "bytes_of ''HackControl''" 0]
  show ?thesis by simp
qed

end
