(* ===== verification/TC_Map.thy ===== *)
theory TC_Map
  imports TC_Interfaces
begin

text \<open>
  The map of \<^verbatim>\<open>gameplay/map.h\<close> and \<^verbatim>\<open>gameplay/positions.h\<close>: the data a map holds, block
  access and memory accounting. Block access takes the map's lock for its whole body, so it is
  one atomic function on the map. A pointer that may be \<open>NULL\<close> is an option; an array is the list
  of its bytes.
\<close>

section \<open>Data\<close>

record block_position =
  bp_x :: pint16
  bp_y :: pint16
  bp_z :: pint16

record spawn_position =
  sp_block :: block_position
  sp_heading :: pchar
  sp_pitch :: pchar

record player_position =
  pp_x :: pint32
  pp_y :: pint32
  pp_z :: pint32
  pp_heading :: pchar
  pp_pitch :: pchar

record tc_map_custom_blocks_extension =
  cb_fallback_blocks :: "cstring option"
  cb_extension_version :: pint32
  cb_support_level :: pint16

record tc_map_color_config =
  cc_red :: pint16
  cc_green :: pint16
  cc_blue :: pint16

record tc_map_env_colors_extension =
  ec_sky :: tc_map_color_config
  ec_cloud :: tc_map_color_config
  ec_fog :: tc_map_color_config
  ec_ambient :: tc_map_color_config
  ec_sunlight :: tc_map_color_config
  ec_extension_version :: pint32

text \<open>Floats are carried around by their bits.\<close>

type_synonym pfloat = "32 word"

record tc_map_env_aspect_extension =
  as_side_block :: pchar
  as_edge_block :: pchar
  as_clouds_height :: pint32
  as_clouds_speed :: pfloat
  as_edge_height :: pint32
  as_use_exponential_fog :: pchar
  as_side_offset :: pint32
  as_weather_fade :: pfloat
  as_weather_speed :: pfloat
  as_extension_version :: pint32

record tc_map_env_appearance_extension =
  ap_texture_url :: "cstring option"
  ap_side_block :: pchar
  ap_edge_block :: pchar
  ap_side_level :: pint16
  ap_cloud_level :: pint16
  ap_maximum_view_distance :: pint16
  ap_extension_version :: pint32

record tc_map_env_weather_extension =
  we_extension_version :: pint32
  we_weather_type :: pchar

record tc_map_block_definition =
  def_textures :: cstring
  def_coords :: cstring
  def_fog :: cstring
  def_block_name :: "cstring option"
  def_speed :: pfloat
  def_allow_placement :: bool
  def_allow_deletion :: bool
  def_transmits_light :: pchar
  def_walk_sound :: pchar
  def_shape :: pchar
  def_block_draw :: pchar
  def_block_id :: pchar

record tc_map_block_definition_extension =
  bx_extension_version :: pint32
  bx_block_definitions :: "tc_map_block_definition list"

record tc_map =
  uuid :: cstring
  time_created :: "64 word"
  last_accessed :: "64 word"
  last_modified :: "64 word"
  map_name :: "cstring option"
  created_by_service :: "cstring option"
  created_by_username :: "cstring option"
  map_gen_software :: "cstring option"
  map_gen_name :: "cstring option"
  block_array :: "cstring option"
  block_array2 :: "cstring option"
  block_array_count :: nat
  block_array2_count :: nat
  custom_blocks_extension :: "tc_map_custom_blocks_extension option"
  env_colors_extension :: "tc_map_env_colors_extension option"
  env_appearance_extension :: "tc_map_env_appearance_extension option"
  env_weather_extension :: "tc_map_env_weather_extension option"
  env_aspect_extension :: "tc_map_env_aspect_extension option"
  block_definition_extensions :: "tc_map_block_definition_extension option"
  x_size :: pint16
  y_size :: pint16
  z_size :: pint16
  spawn :: spawn_position
  format_version :: pchar
  is_dirty :: bool

section \<open>Positions\<close>

text \<open>A block coordinate is promoted to \<open>int\<close> before the shift.\<close>

definition tc_spawn_position_to_player_position :: "spawn_position \<Rightarrow> player_position" where
  "tc_spawn_position_to_player_position s =
     \<lparr>pp_x = push_bit 5 (scast (bp_x (sp_block s))) + 16,
      pp_y = push_bit 5 (scast (bp_y (sp_block s))) + 51,
      pp_z = push_bit 5 (scast (bp_z (sp_block s))) + 16,
      pp_heading = sp_heading s,
      pp_pitch = sp_pitch s\<rparr>"

section \<open>Block access\<close>

text \<open>
  \<open>TELECLASSIC26_MAP_BLOCK_INDEX\<close>: \<open>int\<close> arithmetic on promoted shorts, converted to \<open>psize\<close>.
\<close>

definition map_block_index :: "tc_map \<Rightarrow> pint16 \<Rightarrow> pint16 \<Rightarrow> pint16 \<Rightarrow> nat" where
  "map_block_index m x y z =
     (let i = (scast y * scast (z_size m) + scast z) * scast (x_size m) + scast x :: pint32
      in unat (scast i :: psize))"

definition tc_map_get_block_index ::
    "tc_map \<Rightarrow> pint16 \<Rightarrow> pint16 \<Rightarrow> pint16 \<Rightarrow> puint16 outcome" where
  "tc_map_get_block_index m x y z =
     (let index = map_block_index m x y z
      in case block_array m of
           None \<Rightarrow> Inl NullDereference
         | Some a \<Rightarrow>
             if index \<ge> length a then Inl OutOfBounds
             else let block = ucast (scast (a ! index) AND (0xFF :: pint32)) :: puint16
                  in case block_array2 m of
                       None \<Rightarrow> Inr block
                     | Some a2 \<Rightarrow>
                         if index div 4 \<ge> length a2 then Inl OutOfBounds
                         else let shift = (index mod 4) * 2
                              in Inr (block OR ucast (push_bit 8
                                   (signed_drop_bit shift (scast (a2 ! (index div 4)) :: pint32)
                                    AND 0x3))))"

definition block_array2_byte :: "pchar \<Rightarrow> nat \<Rightarrow> puint16 \<Rightarrow> pchar" where
  "block_array2_byte b shift block =
     ucast ((scast b AND NOT (push_bit shift 0x3))
            OR push_bit shift (drop_bit 8 (ucast block) AND 0x3) :: pint32)"

definition tc_map_set_block_index ::
    "tc_map \<Rightarrow> pint16 \<Rightarrow> pint16 \<Rightarrow> pint16 \<Rightarrow> puint16 \<Rightarrow> tc_map outcome" where
  "tc_map_set_block_index m x y z block =
     (let index = map_block_index m x y z;
          m1 = m\<lparr>is_dirty := True\<rparr>;
          r = (case block_array2 m1 of
                 None \<Rightarrow> Inr m1
               | Some a2 \<Rightarrow>
                   if index div 4 \<ge> length a2 then Inl OutOfBounds
                   else Inr (m1\<lparr>block_array2 := Some (a2[index div 4 :=
                          block_array2_byte (a2 ! (index div 4)) ((index mod 4) * 2) block])\<rparr>))
      in case r of
           Inl f \<Rightarrow> Inl f
         | Inr m2 \<Rightarrow>
             (case block_array m2 of
                None \<Rightarrow> Inl NullDereference
              | Some a \<Rightarrow>
                  if index \<ge> length a then Inl OutOfBounds
                  else Inr (m2\<lparr>block_array := Some (a[index := ucast (block AND 0xFF)])\<rparr>)))"

text \<open>
  The memory a map is charged for; the sizes of the C structures are those of the platform.
\<close>

record struct_sizes =
  sizeof_map :: psize
  sizeof_custom_blocks :: psize
  sizeof_env_colors :: psize
  sizeof_env_appearance :: psize
  sizeof_env_weather :: psize
  sizeof_block_definitions :: psize

definition opt_size :: "'a option \<Rightarrow> psize \<Rightarrow> psize" where
  "opt_size p n = (case p of None \<Rightarrow> 0 | Some _ \<Rightarrow> n)"

definition str_size :: "cstring option \<Rightarrow> psize" where
  "str_size p = (case p of None \<Rightarrow> 0 | Some s \<Rightarrow> of_nat (length s))"

definition map_volume :: "tc_map \<Rightarrow> psize" where
  "map_volume m = scast (scast (x_size m) * scast (y_size m) * scast (z_size m) :: pint32)"

definition tc_map_get_memory_usage :: "struct_sizes \<Rightarrow> tc_map \<Rightarrow> psize" where
  "tc_map_get_memory_usage sz m =
     (let block_array_size = map_volume m
      in sizeof_map sz
         + (if block_array2 m \<noteq> None then (block_array_size * 10) div 8 else block_array_size)
         + opt_size (custom_blocks_extension m) (sizeof_custom_blocks sz)
         + opt_size (env_colors_extension m) (sizeof_env_colors sz)
         + opt_size (env_appearance_extension m) (sizeof_env_appearance sz)
         + opt_size (env_weather_extension m) (sizeof_env_weather sz)
         + opt_size (block_definition_extensions m) (sizeof_block_definitions sz)
         + str_size (map_name m)
         + str_size (created_by_service m)
         + str_size (created_by_username m))"

section \<open>Well-formed maps\<close>

definition map_sizes :: "tc_map \<Rightarrow> nat \<times> nat \<times> nat" where
  "map_sizes m = (unat (x_size m), unat (y_size m), unat (z_size m))"

text \<open>
  Positive dimensions whose product fits an \<open>int\<close>, one byte per block, and two bits per block in
  the second array when there is one.
\<close>

definition map_wf :: "tc_map \<Rightarrow> bool" where
  "map_wf m \<longleftrightarrow>
     0 < sint (x_size m) \<and> 0 < sint (y_size m) \<and> 0 < sint (z_size m)
     \<and> sint (x_size m) * sint (y_size m) * sint (z_size m) < 2 ^ 31
     \<and> (\<exists>a. block_array m = Some a \<and>
          int (length a) = sint (x_size m) * sint (y_size m) * sint (z_size m))
     \<and> (\<forall>a2. block_array2 m = Some a2 \<longrightarrow>
          sint (x_size m) * sint (y_size m) * sint (z_size m) \<le> 4 * int (length a2))"

definition in_map :: "tc_map \<Rightarrow> pint16 \<times> pint16 \<times> pint16 \<Rightarrow> bool" where
  "in_map m = (\<lambda>(x, y, z). 0 \<le> sint x \<and> sint x < sint (x_size m)
     \<and> 0 \<le> sint y \<and> sint y < sint (y_size m) \<and> 0 \<le> sint z \<and> sint z < sint (z_size m))"

text \<open>What the arrays can hold of a block id: 10 bits, or 8 without the second array.\<close>

definition block_trunc :: "tc_map \<Rightarrow> puint16 \<Rightarrow> puint16" where
  "block_trunc m b = (if block_array2 m = None then b AND 0xFF else b AND 0x3FF)"

lemma sint_word_of_int_32: "0 \<le> I \<Longrightarrow> I < 2^31 \<Longrightarrow> sint (word_of_int I :: pint32) = I"
  by (simp add: signed_of_int signed_take_bit_int_eq_self)

lemma unat_word_of_int_64: "0 \<le> I \<Longrightarrow> I < 2^31 \<Longrightarrow> unat (word_of_int I :: psize) = nat I"
  by (simp add: unat_eq_nat_uint uint_word_of_int)

section \<open>Block indices\<close>

text \<open>Row-major numbering of a box: below the volume, and injective.\<close>

definition box_index :: "int \<Rightarrow> int \<Rightarrow> int \<Rightarrow> int \<Rightarrow> int \<Rightarrow> int" where
  "box_index X Z x y z = (y * Z + z) * X + x"

lemma box_index_bounds:
  assumes "0 \<le> x" "x < X" "0 \<le> y" "y < Y" "0 \<le> z" "z < Z"
  shows "0 \<le> box_index X Z x y z" "box_index X Z x y z < X * Y * Z"
proof -
  have "y * Z + z + 1 \<le> Y * Z"
  proof -
    have "(y + 1) * Z \<le> Y * Z" using assms by (intro mult_right_mono) auto
    then show ?thesis using assms by (simp add: algebra_simps)
  qed
  then have "(y * Z + z + 1) * X \<le> Y * Z * X" using assms by (intro mult_right_mono) auto
  then show "box_index X Z x y z < X * Y * Z" using assms by (simp add: box_index_def algebra_simps)
  show "0 \<le> box_index X Z x y z" using assms by (simp add: box_index_def)
qed

lemma box_index_inject:
  assumes "0 \<le> x" "x < X" "0 \<le> z" "z < Z" "0 \<le> x'" "x' < X" "0 \<le> z'" "z' < Z"
    and "box_index X Z x y z = box_index X Z x' y' z'"
  shows "x = x' \<and> y = y' \<and> z = z'"
proof -
  have m: "box_index X Z x y z mod X = x" if "0 \<le> x" "x < X" for x y z
    using that by (simp add: box_index_def)
  have x: "x = x'" using m [OF assms(1,2), of y z] m [OF assms(5,6), of y' z'] assms(9) by simp
  with assms have e: "y * Z + z = y' * Z + z'" by (simp add: box_index_def)
  have "z = (y * Z + z) mod Z" "z' = (y' * Z + z') mod Z" using assms by simp_all
  then have "z = z'" using e by simp
  with e x assms show ?thesis by simp
qed

lemma map_block_index_eq:
  assumes "map_wf m" and "in_map m (x, y, z)"
  shows "int (map_block_index m x y z)
      = box_index (sint (x_size m)) (sint (z_size m)) (sint x) (sint y) (sint z)" (is "_ = ?i")
    and "int (map_block_index m x y z) < sint (x_size m) * sint (y_size m) * sint (z_size m)"
proof -
  have b: "0 \<le> ?i" "?i < sint (x_size m) * sint (y_size m) * sint (z_size m)"
    using assms(2) box_index_bounds [of "sint x" "sint (x_size m)" "sint y" "sint (y_size m)" "sint z"
        "sint (z_size m)"] by (simp_all add: in_map_def)
  then have lim: "?i < 2 ^ 31" using assms(1) by (simp add: map_wf_def)
  have w: "(scast y * scast (z_size m) + scast z) * scast (x_size m) + scast x = (word_of_int ?i :: pint32)"
    unfolding box_index_def by simp
  have s64: "scast (word_of_int ?i :: pint32) = (word_of_int ?i :: psize)"
    unfolding scast_eq sint_word_of_int_32 [OF b(1) lim] by (rule refl)
  have "map_block_index m x y z = nat ?i"
    unfolding map_block_index_def Let_def w s64 by (rule unat_word_of_int_64 [OF b(1) lim])
  then show e: "int (map_block_index m x y z) = ?i" using b(1) by simp
  show "int (map_block_index m x y z) < sint (x_size m) * sint (y_size m) * sint (z_size m)"
    unfolding e by (rule b(2))
qed

lemma map_block_index_bounds:
  assumes "map_wf m" and "in_map m (x, y, z)"
  shows "block_array m = Some a \<Longrightarrow> map_block_index m x y z < length a"
    and "block_array2 m = Some a2 \<Longrightarrow> map_block_index m x y z div 4 < length a2"
  using map_block_index_eq(2) [OF assms] assms(1) by (auto simp: map_wf_def)

lemma map_block_index_inject:
  assumes "map_wf m" and "in_map m (x, y, z)" and "in_map m (x', y', z')"
    and "map_block_index m x y z = map_block_index m x' y' z'"
  shows "(x, y, z) = (x', y', z')"
proof -
  have "sint x = sint x' \<and> sint y = sint y' \<and> sint z = sint z'"
    using assms map_block_index_eq(1) [OF assms(1,2)] map_block_index_eq(1) [OF assms(1,3)]
    by (intro box_index_inject [of _ "sint (x_size m)" _ "sint (z_size m)"]) (auto simp: in_map_def)
  then show ?thesis by (auto intro: signed_word_eqI)
qed

text \<open>The two bits of a block in a byte of the second array.\<close>

definition high_bits :: "pchar \<Rightarrow> nat \<Rightarrow> puint16" where
  "high_bits b k = ucast (push_bit 8 (signed_drop_bit (k * 2) (scast b :: pint32) AND 0x3))"


lemma high_bits_same:
  "k < 4 \<Longrightarrow> high_bits (block_array2_byte b (k * 2) block) k = block AND 0x300"
  by (drule less_4_cases, elim disjE)
    (simp_all add: high_bits_def block_array2_byte_def bit_table bit_not_iff)

lemma high_bits_other:
  "k < 4 \<Longrightarrow> j < 4 \<Longrightarrow> j \<noteq> k \<Longrightarrow>
     high_bits (block_array2_byte b (k * 2) block) j = high_bits b j"
  by (drule less_4_cases, drule less_4_cases, elim disjE)
    (simp_all add: high_bits_def block_array2_byte_def bit_table bit_not_iff)

lemma low_bits: "ucast (scast (c :: pchar) AND (0xFF :: pint32)) = (ucast c :: puint16)"
  "ucast (ucast (block AND 0xFF) :: pchar) = (block AND 0xFF)" for block :: puint16
  by (simp_all add: bit_table)

lemma low_high: "(block AND 0xFF) OR (block AND 0x300) = block AND 0x3FF" for block :: puint16
  by (simp add: bit_table)

section \<open>Reading and writing blocks\<close>

lemma get_block_eq:
  assumes "map_wf m" and "in_map m (x, y, z)"
  shows "\<exists>a. block_array m = Some a \<and> tc_map_get_block_index m x y z =
    Inr (ucast (a ! map_block_index m x y z) OR (case block_array2 m of None \<Rightarrow> 0
      | Some a2 \<Rightarrow> high_bits (a2 ! (map_block_index m x y z div 4)) (map_block_index m x y z mod 4)))"
proof -
  obtain a where a: "block_array m = Some a" using assms(1) by (auto simp: map_wf_def)
  then show ?thesis
    using map_block_index_bounds [OF assms] 
    by (auto simp: tc_map_get_block_index_def Let_def low_bits high_bits_def not_le split: option.splits)
qed

lemma set_block_eq:
  assumes "map_wf m" and "in_map m (x, y, z)"
  shows "\<exists>a. block_array m = Some a \<and> tc_map_set_block_index m x y z block =
    Inr (m\<lparr>is_dirty := True,
      block_array := Some (a[map_block_index m x y z := ucast (block AND 0xFF)]),
      block_array2 := map_option (\<lambda>a2. a2[map_block_index m x y z div 4 :=
        block_array2_byte (a2 ! (map_block_index m x y z div 4)) ((map_block_index m x y z mod 4) * 2) block])
        (block_array2 m)\<rparr>)"
proof -
  obtain a where a: "block_array m = Some a" using assms(1) by (auto simp: map_wf_def)
  then show ?thesis
    using map_block_index_bounds [OF assms]
    by (auto simp: tc_map_set_block_index_def Let_def not_le split: option.splits)
qed


lemma set_block_facts:
  assumes wf: "map_wf m" and p: "in_map m (x, y, z)"
    and set: "tc_map_set_block_index m x y z block = Inr m'"
  shows "map_wf m'" and "in_map m' = in_map m" and "block_trunc m' = block_trunc m"
    and "is_dirty m'"
    and "map_block_index m' = map_block_index m"
  using set_block_eq [OF wf p, of block] set wf
  by (auto simp: map_wf_def in_map_def block_trunc_def map_block_index_def fun_eq_iff)

lemma get_set_same:
  assumes wf: "map_wf m" and p: "in_map m (x, y, z)"
    and set: "tc_map_set_block_index m x y z block = Inr m'"
  shows "tc_map_get_block_index m' x y z = Inr (block_trunc m block)"
proof -
  note F = set_block_facts [OF wf p set]
  obtain a where a: "block_array m = Some a" and m': "m' = m\<lparr>is_dirty := True,
      block_array := Some (a[map_block_index m x y z := ucast (block AND 0xFF)]),
      block_array2 := map_option (\<lambda>a2. a2[map_block_index m x y z div 4 :=
        block_array2_byte (a2 ! (map_block_index m x y z div 4)) ((map_block_index m x y z mod 4) * 2) block])
        (block_array2 m)\<rparr>"
    using set_block_eq [OF wf p, of block] set by auto
  obtain a' where g: "block_array m' = Some a'" "tc_map_get_block_index m' x y z =
    Inr (ucast (a' ! map_block_index m x y z) OR (case block_array2 m' of None \<Rightarrow> 0
      | Some a2 \<Rightarrow> high_bits (a2 ! (map_block_index m x y z div 4)) (map_block_index m x y z mod 4)))"
    using get_block_eq [OF F(1), of x y z] p unfolding F(2,5) by blast
  have "a' = a[map_block_index m x y z := ucast (block AND 0xFF)]" using g(1) unfolding m' by simp
  then have "a' ! map_block_index m x y z = ucast (block AND 0xFF)"
    using map_block_index_bounds(1) [OF wf p a] by simp
  with g(2) show ?thesis
    using map_block_index_bounds(2) [OF wf p]
    by (cases "block_array2 m") (simp_all add: m' low_bits low_high block_trunc_def high_bits_same)
qed

lemma get_set_other:
  assumes wf: "map_wf m" and p: "in_map m (x, y, z)" and q: "in_map m (x', y', z')"
    and ne: "(x', y', z') \<noteq> (x, y, z)"
    and set: "tc_map_set_block_index m x y z block = Inr m'"
  shows "tc_map_get_block_index m' x' y' z' = tc_map_get_block_index m x' y' z'"
proof -
  note F = set_block_facts [OF wf p set]
  let ?i = "map_block_index m x y z" and ?j = "map_block_index m x' y' z'"
  have ij: "?i \<noteq> ?j" using map_block_index_inject [OF wf p q] ne by auto
  obtain a where a: "block_array m = Some a" and m': "m' = m\<lparr>is_dirty := True,
      block_array := Some (a[?i := ucast (block AND 0xFF)]),
      block_array2 := map_option (\<lambda>a2. a2[?i div 4 :=
        block_array2_byte (a2 ! (?i div 4)) ((?i mod 4) * 2) block]) (block_array2 m)\<rparr>"
    using set_block_eq [OF wf p, of block] set by auto
  have q': "in_map m' (x', y', z')" using q F(2) by simp
  have high: "high_bits (a2[?i div 4 := block_array2_byte (a2 ! (?i div 4)) ((?i mod 4) * 2) block] ! (?j div 4))
      (?j mod 4) = high_bits (a2 ! (?j div 4)) (?j mod 4)" if "block_array2 m = Some a2" for a2
  proof (cases "?i div 4 = ?j div 4")
    case True
    with ij have "?j mod 4 \<noteq> ?i mod 4" by (metis div_mult_mod_eq)
    with True show ?thesis
      using map_block_index_bounds(2) [OF wf p that] by (simp add: high_bits_other)
  qed simp
  from get_block_eq [OF F(1) q'] get_block_eq [OF wf q] ij high show ?thesis
    unfolding F(5) by (cases "block_array2 m") (auto simp: m' a)
qed

section \<open>The map as a block store\<close>

definition map_get :: "tc_map \<Rightarrow> pint16 \<times> pint16 \<times> pint16 \<Rightarrow> puint16 outcome" where
  "map_get m = (\<lambda>(x, y, z). tc_map_get_block_index m x y z)"

definition map_set :: "tc_map \<Rightarrow> pint16 \<times> pint16 \<times> pint16 \<Rightarrow> puint16 \<Rightarrow> tc_map outcome" where
  "map_set m = (\<lambda>(x, y, z) block. tc_map_set_block_index m x y z block)"

interpretation map_blocks: block_store map_wf in_map map_get map_set block_trunc
proof
  fix m p
  assume m: "map_wf m" "in_map m p"
  obtain x y z where p: "p = (x, y, z)" by (cases p)
  show "\<exists>b. map_get m p = Inr b"
    using get_block_eq [of m x y z] m p by (auto simp: map_get_def)
  fix b
  show "\<exists>m'. map_set m p b = Inr m'"
    using set_block_eq [of m x y z b] m p by (auto simp: map_set_def)
  fix m'
  assume set: "map_set m p b = Inr m'"
  then show "map_wf m' \<and> in_map m' = in_map m \<and> block_trunc m' = block_trunc m"
    using set_block_facts(1-3) [of m x y z b m'] m p by (auto simp: map_set_def)
  show "map_get m' p = Inr (block_trunc m b)"
    using get_set_same [of m x y z b m'] set m p by (auto simp: map_set_def map_get_def)
  fix q
  assume q: "in_map m q" "q \<noteq> p"
  obtain x' y' z' where "q = (x', y', z')" by (cases q)
  with q show "map_get m' q = map_get m q"
    using get_set_other [of m x y z x' y' z' b m'] set m p by (auto simp: map_set_def map_get_def)
qed

section \<open>A sample map\<close>

definition empty_map :: tc_map where
  "empty_map = \<lparr>uuid = [], time_created = 0, last_accessed = 0, last_modified = 0, map_name = None,
     created_by_service = None, created_by_username = None, map_gen_software = None,
     map_gen_name = None, block_array = None, block_array2 = None, block_array_count = 0,
     block_array2_count = 0, custom_blocks_extension = None, env_colors_extension = None,
     env_appearance_extension = None, env_weather_extension = None, env_aspect_extension = None,
     block_definition_extensions = None, x_size = 0, y_size = 0, z_size = 0,
     spawn = \<lparr>sp_block = \<lparr>bp_x = 0, bp_y = 0, bp_z = 0\<rparr>, sp_heading = 0, sp_pitch = 0\<rparr>,
     format_version = 0, is_dirty = False\<rparr>"

definition demo_map :: tc_map where
  "demo_map = empty_map\<lparr>block_array := Some (replicate 24 7), block_array2 := Some (replicate 6 0),
     block_array_count := 24, block_array2_count := 6, x_size := 2, y_size := 3, z_size := 4\<rparr>"

lemma demo_map_wf: "map_wf demo_map" "in_map demo_map (1, 2, 3)" "in_map demo_map (0, 2, 3)"
  by (simp_all add: map_wf_def in_map_def demo_map_def empty_map_def)

section \<open>Properties\<close>

text \<open>
  [C9] Block edits: on a well-formed map a sequence of \<open>tc_map_set_block_index\<close> calls at positions
  of the map never leaves the arrays, keeps the map well-formed, and afterwards
  \<open>tc_map_get_block_index\<close> returns at every position the last block written there, cut to the 10
  bits (8 without the second array) the arrays hold, or what was there before.
\<close>

theorem map_edits_last_write_wins:
  assumes "map_wf m" and "\<forall>(p, b) \<in> set es. in_map m p"
  shows "\<exists>m'. set_all map_set es m = Inr m' \<and> map_wf m' \<and> in_map m' = in_map m
    \<and> (\<forall>q. in_map m q \<longrightarrow> map_get m' q =
        (case map_of (rev es) q of None \<Rightarrow> map_get m q | Some b \<Rightarrow> Inr (block_trunc m b)))"
  by (rule map_blocks.set_all_last [OF assms])

theorem map_edits_last_write_wins_witness:
  "\<exists>m'. set_all map_set [((1, 2, 3), 0x201), ((0, 2, 3), 5)] demo_map = Inr m' \<and> map_wf m'
    \<and> map_get m' (1, 2, 3) = Inr (block_trunc demo_map 0x201)
    \<and> map_get m' (0, 2, 3) = Inr (block_trunc demo_map 5)"
proof -
  have "\<forall>(p, b) \<in> set [((1, 2, 3), 0x201), ((0, 2, 3), 5)]. in_map demo_map p"
    using demo_map_wf by simp
  from map_edits_last_write_wins [OF demo_map_wf(1) this] demo_map_wf(2,3) show ?thesis by fastforce
qed

text \<open>
  [C10] Block indices: on a well-formed map the \<open>int\<close> arithmetic of the index does not overflow,
  every position of the map has an index inside the block array (and its two high bits inside the
  second array), and different positions have different indices.
\<close>

theorem map_block_index_exact:
  assumes "map_wf m" and "in_map m (x, y, z)" and "in_map m (x', y', z')"
  shows "int (map_block_index m x y z) = (sint y * sint (z_size m) + sint z) * sint (x_size m) + sint x
    \<and> (\<forall>a. block_array m = Some a \<longrightarrow> map_block_index m x y z < length a)
    \<and> (\<forall>a2. block_array2 m = Some a2 \<longrightarrow> map_block_index m x y z div 4 < length a2)
    \<and> (map_block_index m x y z = map_block_index m x' y' z' \<longrightarrow> (x, y, z) = (x', y', z'))"
  using map_block_index_eq(1) [OF assms(1,2)] map_block_index_bounds [OF assms(1,2)]
    map_block_index_inject [OF assms]
  by (auto simp: box_index_def)

theorem map_block_index_exact_witness:
  "int (map_block_index demo_map 1 2 3) = 23 \<and> map_block_index demo_map 1 2 3 div 4 < 6"
  using map_block_index_exact [OF demo_map_wf(1,2,2)] by (simp add: demo_map_def)

text \<open>
  Spawning: a player spawns in the middle of the block of the spawn position, 51 units up,
  in units of 1/32 block, for every block position (no overflow), facing the same way.
\<close>

theorem spawn_in_middle_of_block:
  "sint (pp_x (tc_spawn_position_to_player_position s)) = 32 * sint (bp_x (sp_block s)) + 16
   \<and> sint (pp_y (tc_spawn_position_to_player_position s)) = 32 * sint (bp_y (sp_block s)) + 51
   \<and> sint (pp_z (tc_spawn_position_to_player_position s)) = 32 * sint (bp_z (sp_block s)) + 16
   \<and> pp_heading (tc_spawn_position_to_player_position s) = sp_heading s
   \<and> pp_pitch (tc_spawn_position_to_player_position s) = sp_pitch s"
proof -
  have e: "sint (push_bit 5 (scast w :: pint32) + of_int k) = 32 * sint w + k"
    if "0 \<le> k" "k < 64" for w :: pint16 and k
  proof -
    have r: "- (2 ^ 15) \<le> sint w" "sint w < 2 ^ 15"
      using sint_greater_eq [of w] sint_less [of w] by simp_all
    have "push_bit 5 (scast w :: pint32) + of_int k = word_of_int (32 * sint w + k)"
      by (simp add: push_bit_eq_mult)
    moreover have "sint (word_of_int (32 * sint w + k) :: pint32) = 32 * sint w + k"
      unfolding signed_of_int using r that by (simp add: signed_take_bit_int_eq_self)
    ultimately show ?thesis by simp
  qed
  from e [of 16] e [of 51] show ?thesis by (simp add: tc_spawn_position_to_player_position_def)
qed

end
