(* ===== verification/TC_NBT.thy ===== *)
theory TC_NBT
  imports TC_Prelude
begin

text \<open>
  The part of cNBT (\<^verbatim>\<open>cNBT/nbt_parsing.c\<close>, \<^verbatim>\<open>cNBT/nbt_treeops.c\<close>, \<^verbatim>\<open>cNBT/nbt_loading.c\<close>)
  that the map files rest on: the tree of named tags, searching it, and its binary format.

  Allocations are taken to succeed. Memory that is parsed is the list of the bytes left; numbers
  are stored big endian, on a little-endian machine. The recursive parser has fuel: \<open>None\<close> is
  running out of it, \<open>Some None\<close> a parse error.
\<close>

section \<open>Trees\<close>

datatype nbt_status = NBT_OK | NBT_ERR | NBT_EMEM | NBT_EIO | NBT_EZ

text \<open>A list keeps the type code of its sentinel; strings are the bytes before the terminator.\<close>

datatype nbt_node = NbtNode (nbt_name: "cstring option") (nbt_payload: nbt_payload)
  and nbt_payload =
    TagByte "8 word"
  | TagShort "16 word"
  | TagInt "32 word"
  | TagLong "64 word"
  | TagFloat "32 word"
  | TagDouble "64 word"
  | TagByteArray cstring
  | TagString cstring
  | TagList "8 word" "nbt_node list"
  | TagCompound "nbt_node list"
  | TagIntArray "32 word list"
  | TagLongArray "64 word list"

text \<open>The codes of \<open>nbt_type\<close>.\<close>

fun nbt_type :: "nbt_payload \<Rightarrow> 8 word" where
  "nbt_type (TagByte _) = 1"
| "nbt_type (TagShort _) = 2"
| "nbt_type (TagInt _) = 3"
| "nbt_type (TagLong _) = 4"
| "nbt_type (TagFloat _) = 5"
| "nbt_type (TagDouble _) = 6"
| "nbt_type (TagByteArray _) = 7"
| "nbt_type (TagString _) = 8"
| "nbt_type (TagList _ _) = 9"
| "nbt_type (TagCompound _) = 10"
| "nbt_type (TagIntArray _) = 11"
| "nbt_type (TagLongArray _) = 12"

abbreviation node_type :: "nbt_node \<Rightarrow> 8 word" where
  "node_type n \<equiv> nbt_type (nbt_payload n)"

text \<open>The nodes of a list or compound; the other tags have none.\<close>

fun nbt_children :: "nbt_payload \<Rightarrow> nbt_node list" where
  "nbt_children (TagList _ ns) = ns"
| "nbt_children (TagCompound ns) = ns"
| "nbt_children _ = []"

lemma size_child: "n \<in> set (nbt_children p) \<Longrightarrow> size n < size p"
  by (cases p) (auto simp: size_list_estimation' less_Suc_eq_le)

section \<open>Searching\<close>

fun first_some :: "('a \<Rightarrow> 'b option) \<Rightarrow> 'a list \<Rightarrow> 'b option" where
  "first_some f [] = None"
| "first_some f (x # xs) = (case f x of Some y \<Rightarrow> Some y | None \<Rightarrow> first_some f xs)"

lemma first_some_cong [fundef_cong]:
  "xs = ys \<Longrightarrow> (\<And>x. x \<in> set ys \<Longrightarrow> f x = g x) \<Longrightarrow> first_some f xs = first_some g ys"
  by (induction xs arbitrary: ys) (auto split: option.split)

text \<open>\<open>nbt_find\<close>: the first node in preorder that satisfies the predicate.\<close>

function nbt_find :: "nbt_node \<Rightarrow> (nbt_node \<Rightarrow> bool) \<Rightarrow> nbt_node option" where
  "nbt_find tree predicate =
     (if predicate tree then Some tree
      else first_some (\<lambda>n. nbt_find n predicate) (nbt_children (nbt_payload tree)))"
  by pat_completeness auto
termination
proof (relation "measure (\<lambda>(tree, _). size tree)")
  fix tree :: nbt_node and predicate x
  assume "x \<in> set (nbt_children (nbt_payload tree))"
  from size_child [OF this] show "((x, predicate), (tree, predicate)) \<in> measure (\<lambda>(tree, _). size tree)"
    by (cases tree) simp
qed simp

declare nbt_find.simps [simp del]

definition names_are_equal :: "cstring \<Rightarrow> nbt_node \<Rightarrow> bool" where
  "names_are_equal name node \<longleftrightarrow> nbt_name node = Some name"

definition nbt_find_by_name :: "nbt_node \<Rightarrow> cstring \<Rightarrow> nbt_node option" where
  "nbt_find_by_name tree name = nbt_find tree (names_are_equal name)"

text \<open>\<open>partial_strcmp\<close> of the piece of the path up to the next dot with the name of a node.\<close>

definition piece_matches :: "cstring \<Rightarrow> cstring option \<Rightarrow> bool" where
  "piece_matches piece name \<longleftrightarrow> (case name of None \<Rightarrow> piece = [] | Some s \<Rightarrow> s = piece)"

definition dot :: pchar where "dot = 0x2E"

function nbt_find_by_path :: "nbt_node \<Rightarrow> cstring \<Rightarrow> nbt_node option" where
  "nbt_find_by_path tree path =
     (let piece = takeWhile (\<lambda>c. c \<noteq> dot) path; rest = drop (length piece) path
      in if \<not> piece_matches piece (nbt_name tree) then None
         else if rest = [] then Some tree
         else first_some (\<lambda>n. nbt_find_by_path n (tl rest)) (nbt_children (nbt_payload tree)))"
  by pat_completeness auto
termination
proof (relation "measure (\<lambda>(tree, _). size tree)")
  fix tree :: nbt_node and path piece rest :: cstring and n
  assume "n \<in> set (nbt_children (nbt_payload tree))"
  from size_child [OF this] show "((n, tl rest), (tree, path)) \<in> measure (\<lambda>(tree, _). size tree)"
    by (cases tree) simp
qed simp

declare nbt_find_by_path.simps [simp del]

section \<open>Big-endian numbers\<close>

definition be_bytes :: "'a::len word \<Rightarrow> cstring" where
  "be_bytes w = map (\<lambda>i. ucast (drop_bit (8 * i) w)) (rev [0..<LENGTH('a) div 8])"

definition be_word :: "cstring \<Rightarrow> 'a::len word" where
  "be_word bs = foldl (\<lambda>w b. push_bit 8 w OR ucast b) 0 bs"

section \<open>Parsing\<close>

text \<open>\<open>READ_GENERIC\<close>: the bytes read and the memory left, unless too little is left.\<close>

definition read_generic :: "nat \<Rightarrow> cstring \<Rightarrow> (cstring \<times> cstring) option" where
  "read_generic n memory = (if length memory < n then None else Some (take n memory, drop n memory))"

definition read_string :: "cstring \<Rightarrow> (cstring \<times> cstring) option" where
  "read_string memory =
     (case read_generic 2 memory of
        None \<Rightarrow> None
      | Some (l, m1) \<Rightarrow>
          let string_length = sint (be_word l :: 16 word)
          in if string_length < 0 then None
             else case read_generic (nat string_length) m1 of
                    None \<Rightarrow> None
                  | Some (s, m2) \<Rightarrow> Some (takeWhile (\<lambda>c. c \<noteq> 0) s, m2))"

text \<open>A length-prefixed array of elements of \<open>k\<close> bytes, as raw bytes.\<close>

definition read_array :: "nat \<Rightarrow> cstring \<Rightarrow> (cstring \<times> cstring) option" where
  "read_array k memory =
     (case read_generic 4 memory of
        None \<Rightarrow> None
      | Some (l, m1) \<Rightarrow>
          let len = sint (be_word l :: 32 word)
          in if len < 0 then None else read_generic (nat len * k) m1)"

fun chunks :: "nat \<Rightarrow> nat \<Rightarrow> 'a list \<Rightarrow> 'a list list" where
  "chunks 0 k xs = []"
| "chunks (Suc n) k xs = take k xs # chunks n k (drop k xs)"

definition read_byte_array :: "cstring \<Rightarrow> (cstring \<times> cstring) option" where
  "read_byte_array memory = read_array 1 memory"

definition read_int_array :: "cstring \<Rightarrow> (32 word list \<times> cstring) option" where
  "read_int_array memory =
     map_option (\<lambda>(bs, m). (map be_word (chunks (length bs div 4) 4 bs), m)) (read_array 4 memory)"

definition read_long_array :: "cstring \<Rightarrow> (64 word list \<times> cstring) option" where
  "read_long_array memory =
     map_option (\<lambda>(bs, m). (map be_word (chunks (length bs div 8) 8 bs), m)) (read_array 8 memory)"

definition read_num :: "('a::len word \<Rightarrow> nbt_payload) \<Rightarrow> cstring \<Rightarrow> (nbt_payload \<times> cstring) option" where
  "read_num tag memory =
     map_option (\<lambda>(bs, m). (tag (be_word bs), m)) (read_generic (LENGTH('a) div 8) memory)"

text \<open>
  \<open>parse_unnamed_tag\<close> fills in a payload; \<open>read_list\<close> and \<open>read_compound\<close> are the loops of the
  functions of the same name.
\<close>

fun parse_unnamed_tag :: "nat \<Rightarrow> 8 word \<Rightarrow> cstring \<Rightarrow> (nbt_payload \<times> cstring) option option"
  and read_list :: "nat \<Rightarrow> nat \<Rightarrow> 8 word \<Rightarrow> cstring \<Rightarrow> (nbt_node list \<times> cstring) option option"
  and read_compound :: "nat \<Rightarrow> cstring \<Rightarrow> (nbt_node list \<times> cstring) option option" where
  "parse_unnamed_tag 0 type memory = None"
| "parse_unnamed_tag (Suc fuel) type memory =
     (if type = 1 then Some (read_num TagByte memory)
      else if type = 2 then Some (read_num TagShort memory)
      else if type = 3 then Some (read_num TagInt memory)
      else if type = 4 then Some (read_num TagLong memory)
      else if type = 5 then Some (read_num TagFloat memory)
      else if type = 6 then Some (read_num TagDouble memory)
      else if type = 7 then Some (map_option (map_prod TagByteArray id) (read_byte_array memory))
      else if type = 11 then Some (map_option (map_prod TagIntArray id) (read_int_array memory))
      else if type = 12 then Some (map_option (map_prod TagLongArray id) (read_long_array memory))
      else if type = 8 then Some (map_option (map_prod TagString id) (read_string memory))
      else if type = 9 then
        (case read_generic 1 memory of
           None \<Rightarrow> Some None
         | Some (t, m1) \<Rightarrow>
             (case read_generic 4 m1 of
                None \<Rightarrow> Some None
              | Some (e, m2) \<Rightarrow>
                  map_option (map_option (map_prod
                      (TagList (if be_word t = (0 :: 8 word) then 10 else be_word t)) id))
                    (read_list fuel (nat (sint (be_word e :: 32 word))) (be_word t) m2)))
      else if type = 10 then map_option (map_option (map_prod TagCompound id)) (read_compound fuel memory)
      else Some None)"
| "read_list 0 elems type memory = None"
| "read_list (Suc fuel) elems type memory =
     (if elems = 0 then Some (Some ([], memory))
      else case parse_unnamed_tag fuel type memory of
             None \<Rightarrow> None
           | Some None \<Rightarrow> Some None
           | Some (Some (p, m1)) \<Rightarrow>
               map_option (map_option (map_prod (Cons (NbtNode None p)) id))
                 (read_list fuel (elems - 1) type m1))"
| "read_compound 0 memory = None"
| "read_compound (Suc fuel) memory =
     (case read_generic 1 memory of
        None \<Rightarrow> Some None
      | Some (t, m1) \<Rightarrow>
          if be_word t = (0 :: 8 word) then Some (Some ([], m1))
          else case read_string m1 of
                 None \<Rightarrow> Some None
               | Some (name, m2) \<Rightarrow>
                   (case parse_unnamed_tag fuel (be_word t) m2 of
                      None \<Rightarrow> None
                    | Some None \<Rightarrow> Some None
                    | Some (Some (p, m3)) \<Rightarrow>
                        map_option (map_option (map_prod (Cons (NbtNode (Some name) p)) id))
                          (read_compound fuel m3)))"

text \<open>A failed name leaves \<open>errno\<close> set, which makes the parse of the payload fail.\<close>

definition parse_named_tag :: "nat \<Rightarrow> cstring \<Rightarrow> nbt_node option option" where
  "parse_named_tag fuel memory =
     (case read_generic 1 memory of
        None \<Rightarrow> Some None
      | Some (t, m1) \<Rightarrow>
          (case read_string m1 of
             None \<Rightarrow> Some None
           | Some (name, m2) \<Rightarrow>
               map_option (map_option (\<lambda>(p, _). NbtNode (Some name) p))
                 (parse_unnamed_tag fuel (be_word t) m2)))"

text \<open>The fuel is enough for any memory, see \<open>parse_terminates\<close>.\<close>

definition nbt_fuel :: "cstring \<Rightarrow> nat" where
  "nbt_fuel memory = 2 * length memory + 2"

definition nbt_parse :: "cstring \<Rightarrow> nbt_node option option" where
  "nbt_parse memory = parse_named_tag (nbt_fuel memory) memory"

section \<open>Dumping\<close>

text \<open>
  The functions append to the buffer \<open>b\<close>; on an error the buffer keeps what was appended before
  it.
\<close>

definition dump_string_binary :: "cstring \<Rightarrow> cstring \<Rightarrow> nbt_status \<times> cstring" where
  "dump_string_binary name b =
     (if length name > 32767 then (NBT_ERR, b)
      else (NBT_OK, b @ be_bytes (of_nat (length name) :: 16 word) @ name))"

definition dump_array_binary :: "nat \<Rightarrow> cstring \<Rightarrow> cstring \<Rightarrow> nbt_status \<times> cstring" where
  "dump_array_binary len data b = (NBT_OK, b @ be_bytes (of_nat len :: 32 word) @ data)"

text \<open>The loop of \<open>list_is_homogenous\<close>: the common type, 0 when the types differ.\<close>

fun common_type :: "8 word \<Rightarrow> 8 word list \<Rightarrow> 8 word option" where
  "common_type type [] = Some type"
| "common_type type (t # ts) =
     (let type' = (if type = 0 then t else type)
      in if type' \<noteq> t then None else common_type type' ts)"

definition list_is_homogenous :: "8 word \<Rightarrow> nbt_node list \<Rightarrow> 8 word" where
  "list_is_homogenous sentinel ns =
     (case common_type 0 (map node_type ns) of
        None \<Rightarrow> 0
      | Some type \<Rightarrow> if type = 0 then sentinel else type)"

fun dump_node :: "nbt_node \<Rightarrow> bool \<Rightarrow> cstring \<Rightarrow> (nbt_status \<times> cstring) outcome"
  and dump_payload :: "nbt_payload \<Rightarrow> cstring \<Rightarrow> (nbt_status \<times> cstring) outcome"
  and dump_nodes :: "nbt_node list \<Rightarrow> bool \<Rightarrow> cstring \<Rightarrow> (nbt_status \<times> cstring) outcome" where
  "dump_node (NbtNode name p) dump_type b =
     (let b1 = (if dump_type then b @ [nbt_type p] else b)
      in case name of
           None \<Rightarrow> dump_payload p b1
         | Some s \<Rightarrow>
             (case dump_string_binary s b1 of
                (err, b2) \<Rightarrow> if err \<noteq> NBT_OK then Inr (err, b2) else dump_payload p b2))"
| "dump_payload (TagByte w) b = Inr (NBT_OK, b @ be_bytes w)"
| "dump_payload (TagShort w) b = Inr (NBT_OK, b @ be_bytes w)"
| "dump_payload (TagInt w) b = Inr (NBT_OK, b @ be_bytes w)"
| "dump_payload (TagLong w) b = Inr (NBT_OK, b @ be_bytes w)"
| "dump_payload (TagFloat w) b = Inr (NBT_OK, b @ be_bytes w)"
| "dump_payload (TagDouble w) b = Inr (NBT_OK, b @ be_bytes w)"
| "dump_payload (TagByteArray bs) b = Inr (dump_array_binary (length bs) bs b)"
| "dump_payload (TagIntArray ws) b = Inr (dump_array_binary (length ws) (concat (map be_bytes ws)) b)"
| "dump_payload (TagLongArray ws) b = Inr (dump_array_binary (length ws) (concat (map be_bytes ws)) b)"
| "dump_payload (TagString s) b = Inr (dump_string_binary s b)"
| "dump_payload (TagList sentinel ns) b =
     (let type = list_is_homogenous sentinel ns
      in if length ns > 2147483647 then Inr (NBT_ERR, b)
         else if type = 0 then Inl AssertFailure
         else dump_nodes ns False (b @ [type] @ be_bytes (of_nat (length ns) :: 32 word)))"
| "dump_payload (TagCompound ns) b =
     (case dump_nodes ns True b of
        Inl f \<Rightarrow> Inl f
      | Inr (err, b') \<Rightarrow> if err \<noteq> NBT_OK then Inr (err, b') else Inr (NBT_OK, b' @ [0]))"
| "dump_nodes [] dump_type b = Inr (NBT_OK, b)"
| "dump_nodes (n # ns) dump_type b =
     (case dump_node n dump_type b of
        Inl f \<Rightarrow> Inl f
      | Inr (err, b') \<Rightarrow> if err \<noteq> NBT_OK then Inr (err, b') else dump_nodes ns dump_type b')"

text \<open>The status is left in \<open>errno\<close>; the buffer is returned either way.\<close>

definition nbt_dump_binary :: "nbt_node \<Rightarrow> (nbt_status \<times> cstring) outcome" where
  "nbt_dump_binary tree = dump_node tree True []"

section \<open>Numbers survive\<close>

lemma be_bytes_8: "be_bytes (w :: 8 word) = [w]"
  by (simp add: be_bytes_def)

lemma be_bytes_16: "be_bytes (w :: 16 word) = [ucast (drop_bit 8 w), ucast w]"
  by (simp add: be_bytes_def upt_rec)

lemma be_bytes_32: "be_bytes (w :: 32 word)
    = [ucast (drop_bit 24 w), ucast (drop_bit 16 w), ucast (drop_bit 8 w), ucast w]"
  by (simp add: be_bytes_def upt_rec)

lemma be_bytes_64: "be_bytes (w :: 64 word)
    = [ucast (drop_bit 56 w), ucast (drop_bit 48 w), ucast (drop_bit 40 w), ucast (drop_bit 32 w),
       ucast (drop_bit 24 w), ucast (drop_bit 16 w), ucast (drop_bit 8 w), ucast w]"
  by (simp add: be_bytes_def upt_bits(1))

lemma length_be_bytes [simp]: "length (be_bytes (w :: 'a::len word)) = LENGTH('a) div 8"
  by (simp add: be_bytes_def)

lemma be_word_8 [simp]: "be_word [w] = (w :: 8 word)"
  by (simp add: be_word_def)

lemma be_word_bytes [simp]:
  "be_word (be_bytes (w8 :: 8 word)) = w8"
  "be_word (be_bytes (w16 :: 16 word)) = w16"
  "be_word (be_bytes (w32 :: 32 word)) = w32"
  "be_word (be_bytes (w64 :: 64 word)) = w64"
  by (simp add: be_bytes_8,
      simp add: be_bytes_16 be_word_def bit_table,
      simp add: be_bytes_32 be_word_def bit_table,
      simp add: be_bytes_64 be_word_def bit_table)

lemma read_generic_append [simp]:
  "length xs = n \<Longrightarrow> read_generic n (xs @ ys) = Some (xs, ys)"
  by (simp add: read_generic_def)

lemma read_generic_Cons [simp]:
  "read_generic 1 (x # xs) = Some ([x], xs)" "read_generic (Suc 0) (x # xs) = Some ([x], xs)"
  by (simp_all add: read_generic_def)

lemma read_num_bytes [simp]:
  "read_num tag8 (be_bytes (w8 :: 8 word) @ m) = Some (tag8 w8, m)"
  "read_num tag16 (be_bytes (w16 :: 16 word) @ m) = Some (tag16 w16, m)"
  "read_num tag32 (be_bytes (w32 :: 32 word) @ m) = Some (tag32 w32, m)"
  "read_num tag64 (be_bytes (w64 :: 64 word) @ m) = Some (tag64 w64, m)"
  by (simp_all add: read_num_def)

lemma sint_of_nat_16: "n \<le> 32767 \<Longrightarrow> sint (of_nat n :: 16 word) = int n"
  by (simp add: signed_of_nat signed_take_bit_int_eq_self)

lemma sint_of_nat_32: "n \<le> 2147483647 \<Longrightarrow> sint (of_nat n :: 32 word) = int n"
  by (simp add: signed_of_nat signed_take_bit_int_eq_self)

lemma read_string_bytes:
  assumes "length s \<le> 32767" and "0 \<notin> set s"
  shows "read_string (be_bytes (of_nat (length s) :: 16 word) @ s @ m) = Some (s, m)"
  using assms by (auto simp: read_string_def sint_of_nat_16 Let_def takeWhile_eq_all_conv)

lemma read_array_bytes:
  assumes "n \<le> 2147483647" and "length bs = n * k"
  shows "read_array k (be_bytes (of_nat n :: 32 word) @ bs @ m) = Some (bs, m)"
  using assms by (simp add: read_array_def sint_of_nat_32 Let_def)

lemma chunks_concat:
  "(\<forall>x \<in> set xs. length x = k) \<Longrightarrow> chunks (length xs) k (concat xs) = xs"
  by (induction xs) auto

lemma length_concat_bytes: "length (concat (map (be_bytes :: 'a::len word \<Rightarrow> cstring) ws)) = length ws * (LENGTH('a) div 8)"
  by (induction ws) auto

lemma chunks_bytes [simp]:
  "map be_word (chunks (length ws32) 4 (concat (map be_bytes (ws32 :: 32 word list)))) = ws32"
  "map be_word (chunks (length ws64) 8 (concat (map be_bytes (ws64 :: 64 word list)))) = ws64"
  using chunks_concat [of "map be_bytes ws32" 4] chunks_concat [of "map be_bytes ws64" 8]
  by (simp_all add: comp_def)

lemma read_int_array_bytes:
  assumes "length ws \<le> 2147483647"
  shows "read_int_array (be_bytes (of_nat (length ws) :: 32 word) @ concat (map be_bytes ws) @ m) = Some (ws, m)"
  using read_array_bytes [OF assms, of "concat (map be_bytes ws)" 4 m]
  by (simp add: read_int_array_def length_concat_bytes)

lemma read_long_array_bytes:
  assumes "length ws \<le> 2147483647"
  shows "read_long_array (be_bytes (of_nat (length ws) :: 32 word) @ concat (map be_bytes ws) @ m) = Some (ws, m)"
  using read_array_bytes [OF assms, of "concat (map be_bytes ws)" 8 m]
  by (simp add: read_long_array_def length_concat_bytes)

section \<open>Well-formed trees\<close>

definition nbt_string_ok :: "cstring \<Rightarrow> bool" where
  "nbt_string_ok s \<longleftrightarrow> length s \<le> 32767 \<and> 0 \<notin> set s"

fun node_ok :: "bool \<Rightarrow> nbt_node \<Rightarrow> bool"
  and payload_ok :: "nbt_payload \<Rightarrow> bool" where
  "node_ok named (NbtNode name p) \<longleftrightarrow>
     (if named then (\<exists>s. name = Some s \<and> nbt_string_ok s) else name = None) \<and> payload_ok p"
| "payload_ok (TagByteArray bs) \<longleftrightarrow> length bs \<le> 2147483647"
| "payload_ok (TagIntArray ws) \<longleftrightarrow> length ws \<le> 2147483647"
| "payload_ok (TagLongArray ws) \<longleftrightarrow> length ws \<le> 2147483647"
| "payload_ok (TagString s) \<longleftrightarrow> nbt_string_ok s"
| "payload_ok (TagList t ns) \<longleftrightarrow> length ns \<le> 2147483647 \<and> t \<noteq> 0 \<and> (\<forall>n \<in> set ns. node_type n = t \<and> node_ok False n)"
| "payload_ok (TagCompound ns) \<longleftrightarrow> (\<forall>n \<in> set ns. node_ok True n)"
| "payload_ok p \<longleftrightarrow> True"

lemma nbt_type_nonzero [simp]: "nbt_type p \<noteq> 0"
  by (cases p) auto

lemma common_type_same: "t \<noteq> 0 \<Longrightarrow> \<forall>n \<in> set ns. node_type n = t \<Longrightarrow>
   common_type t (map node_type ns) = Some t"
  by (induction ns) auto

lemma list_is_homogenous_same:
  "t \<noteq> 0 \<Longrightarrow> \<forall>n \<in> set ns. node_type n = t \<Longrightarrow> list_is_homogenous t ns = t"
  by (cases ns) (auto simp: list_is_homogenous_def common_type_same)

text \<open>The bytes a well-formed tree is dumped to.\<close>

fun node_bytes :: "nbt_node \<Rightarrow> cstring" and payload_bytes :: "nbt_payload \<Rightarrow> cstring" where
  "node_bytes (NbtNode name p) = (case name of None \<Rightarrow> []
     | Some s \<Rightarrow> [nbt_type p] @ be_bytes (of_nat (length s) :: 16 word) @ s) @ payload_bytes p"
| "payload_bytes (TagByte w) = be_bytes w"
| "payload_bytes (TagShort w) = be_bytes w"
| "payload_bytes (TagInt w) = be_bytes w"
| "payload_bytes (TagLong w) = be_bytes w"
| "payload_bytes (TagFloat w) = be_bytes w"
| "payload_bytes (TagDouble w) = be_bytes w"
| "payload_bytes (TagByteArray bs) = be_bytes (of_nat (length bs) :: 32 word) @ bs"
| "payload_bytes (TagIntArray ws) = be_bytes (of_nat (length ws) :: 32 word) @ concat (map be_bytes ws)"
| "payload_bytes (TagLongArray ws) = be_bytes (of_nat (length ws) :: 32 word) @ concat (map be_bytes ws)"
| "payload_bytes (TagString s) = be_bytes (of_nat (length s) :: 16 word) @ s"
| "payload_bytes (TagList t ns) = t # be_bytes (of_nat (length ns) :: 32 word) @ concat (map node_bytes ns)"
| "payload_bytes (TagCompound ns) = concat (map node_bytes ns) @ [0]"

lemma dump_ok:
  "node_ok dump_type n \<Longrightarrow> dump_node n dump_type b = Inr (NBT_OK, b @ node_bytes n)"
  "payload_ok p \<Longrightarrow> dump_payload p b = Inr (NBT_OK, b @ payload_bytes p)"
  "\<forall>n \<in> set ns. node_ok dump_type n \<Longrightarrow> dump_nodes ns dump_type b = Inr (NBT_OK, b @ concat (map node_bytes ns))"
proof (induction n dump_type b and p b and ns dump_type b rule: dump_node_dump_payload_dump_nodes.induct)
  case (1 name p dump_type b)
  then show ?case
    by (auto simp: dump_string_binary_def nbt_string_ok_def Let_def split: if_splits)
next
  case (12 t ns b)
  then have "list_is_homogenous t ns = t" by (intro list_is_homogenous_same) auto
  with 12 show ?case by (auto simp: Let_def)
qed (auto simp: dump_array_binary_def dump_string_binary_def nbt_string_ok_def)
section \<open>Parsing what was dumped\<close>

lemma payload_bytes_pos: "0 < length (payload_bytes p)"
  by (cases p) auto

definition parses_back :: "nbt_payload \<Rightarrow> bool" where
  "parses_back p \<longleftrightarrow> (\<forall>m fuel. 2 * length (payload_bytes p) + 2 \<le> fuel \<longrightarrow>
     parse_unnamed_tag fuel (nbt_type p) (payload_bytes p @ m) = Some (Some (p, m)))"

lemma read_list_back:
  assumes "\<forall>n \<in> set ns. node_type n = t \<and> node_ok False n \<and> parses_back (nbt_payload n)"
    and "2 * length (concat (map node_bytes ns)) + 3 \<le> fuel"
  shows "read_list fuel (length ns) t (concat (map node_bytes ns) @ m) = Some (Some (ns, m))"
  using assms
proof (induction ns arbitrary: fuel)
  case Nil
  then show ?case by (cases fuel) auto
next
  case (Cons n ns)
  then obtain f where f: "fuel = Suc f" by (cases fuel) auto
  obtain p where n: "n = NbtNode None p" using Cons.prems(1) by (cases n) auto
  have "parse_unnamed_tag f t (payload_bytes p @ concat (map node_bytes ns) @ m)
      = Some (Some (p, concat (map node_bytes ns) @ m))"
    using Cons.prems unfolding f n by (auto simp: parses_back_def)
  moreover have "read_list f (length ns) t (concat (map node_bytes ns) @ m) = Some (Some (ns, m))"
  proof (rule Cons.IH)
    have "1 \<le> length (payload_bytes p)" using payload_bytes_pos [of p] by linarith
    then show "2 * length (concat (map node_bytes ns)) + 3 \<le> f"
      using Cons.prems(2) unfolding f n by simp
  qed (use Cons.prems(1) in simp)
  ultimately show ?case by (simp add: f n)
qed

lemma read_compound_back:
  assumes "\<forall>n \<in> set ns. node_ok True n \<and> parses_back (nbt_payload n)"
    and "2 * length (concat (map node_bytes ns)) + 1 \<le> fuel"
  shows "read_compound fuel (concat (map node_bytes ns) @ [0] @ m) = Some (Some (ns, m))"
  using assms
proof (induction ns arbitrary: fuel)
  case Nil
  then show ?case by (cases fuel) auto
next
  case (Cons n ns)
  then obtain f where f: "fuel = Suc f" by (cases fuel) auto
  obtain s p where n: "n = NbtNode (Some s) p" "nbt_string_ok s"
    using Cons.prems(1) by (cases n) auto
  let ?r = "concat (map node_bytes ns) @ [0] @ m"
  have "parse_unnamed_tag f (nbt_type p) (payload_bytes p @ ?r) = Some (Some (p, ?r))"
    using Cons.prems unfolding f n(1) by (auto simp: parses_back_def)
  moreover have "read_compound f ?r = Some (Some (ns, m))"
    using Cons.prems unfolding f n by (intro Cons.IH) auto
  ultimately show ?case
    using n(2) read_string_bytes [of s "payload_bytes p @ ?r"]
    by (simp add: f n(1) nbt_string_ok_def)
qed

lemma parses_backI:
  assumes "\<And>m f. 2 * length (payload_bytes p) + 1 \<le> f \<Longrightarrow>
    parse_unnamed_tag (Suc f) (nbt_type p) (payload_bytes p @ m) = Some (Some (p, m))"
  shows "parses_back p"
  unfolding parses_back_def
proof (intro allI impI)
  fix m fuel
  assume "2 * length (payload_bytes p) + 2 \<le> fuel"
  then obtain f where "fuel = Suc f" "2 * length (payload_bytes p) + 1 \<le> f" by (cases fuel) auto
  with assms show "parse_unnamed_tag fuel (nbt_type p) (payload_bytes p @ m) = Some (Some (p, m))" by simp
qed

lemma parses_back_list:
  assumes "payload_ok (TagList t ns)" and "\<forall>n \<in> set ns. parses_back (nbt_payload n)"
  shows "parses_back (TagList t ns)"
proof (rule parses_backI)
  fix m f
  assume f: "2 * length (payload_bytes (TagList t ns)) + 1 \<le> f"
  have "read_list f (length ns) t (concat (map node_bytes ns) @ m) = Some (Some (ns, m))"
    using assms f by (intro read_list_back) auto
  then show "parse_unnamed_tag (Suc f) (nbt_type (TagList t ns)) (payload_bytes (TagList t ns) @ m)
      = Some (Some (TagList t ns, m))"
    using assms(1) by (simp add: sint_of_nat_32)
qed

lemma parses_back_compound:
  assumes "payload_ok (TagCompound ns)" and "\<forall>n \<in> set ns. parses_back (nbt_payload n)"
  shows "parses_back (TagCompound ns)"
proof (rule parses_backI)
  fix m f
  assume f: "2 * length (payload_bytes (TagCompound ns)) + 1 \<le> f"
  have "read_compound f (concat (map node_bytes ns) @ [0] @ m) = Some (Some (ns, m))"
    using assms f by (intro read_compound_back) auto
  then show "parse_unnamed_tag (Suc f) (nbt_type (TagCompound ns)) (payload_bytes (TagCompound ns) @ m)
      = Some (Some (TagCompound ns, m))"
    by simp
qed

lemma node_ok_payload: "node_ok named n \<Longrightarrow> payload_ok (nbt_payload n)"
  by (cases n) auto

lemma parses_back_leaf:
  "parses_back (TagByte w8)" "parses_back (TagShort w16)" "parses_back (TagInt w32)"
  "parses_back (TagLong w64)" "parses_back (TagFloat w32)" "parses_back (TagDouble w64)"
  by (rule parses_backI, simp)+

lemma parses_back_array:
  "payload_ok (TagByteArray bs) \<Longrightarrow> parses_back (TagByteArray bs)"
  "payload_ok (TagIntArray is) \<Longrightarrow> parses_back (TagIntArray is)"
  "payload_ok (TagLongArray ls) \<Longrightarrow> parses_back (TagLongArray ls)"
  "payload_ok (TagString s) \<Longrightarrow> parses_back (TagString s)"
  by (rule parses_backI, simp add: read_byte_array_def nbt_string_ok_def read_string_bytes
      read_array_bytes read_int_array_bytes read_long_array_bytes)+

lemma parse_payload_back: "payload_ok p \<Longrightarrow> parses_back p"
proof (induction p rule: measure_induct_rule [where f = size])
  case (less p)
  have IH: "parses_back (nbt_payload n)" if "n \<in> set (nbt_children p)" "payload_ok (nbt_payload n)" for n
    using size_child [OF that(1)] by (intro less.IH that(2)) (cases n; simp)
  show ?case
  proof (cases p)
    case (TagList t ns)
    with less.prems IH have "\<forall>n \<in> set ns. parses_back (nbt_payload n)"
      by (auto intro: node_ok_payload)
    with less.prems TagList show ?thesis by (simp only: parses_back_list)
  next
    case (TagCompound ns)
    with less.prems IH have "\<forall>n \<in> set ns. parses_back (nbt_payload n)"
      by (auto intro: node_ok_payload)
    with less.prems TagCompound show ?thesis by (simp only: parses_back_compound)
  qed (use less.prems parses_back_leaf parses_back_array in \<open>simp_all only:\<close>)
qed

section \<open>The parser terminates\<close>

lemma read_generic_shrinks: "read_generic n m = Some (x, m') \<Longrightarrow> length m = length m' + n"
  by (auto simp: read_generic_def split: if_splits)

lemma read_string_shrinks: "read_string m = Some (s, m') \<Longrightarrow> length m' + 2 \<le> length m"
  by (auto simp: read_string_def Let_def split: option.splits if_splits dest!: read_generic_shrinks)

lemma read_array_shrinks: "read_array k m = Some (s, m') \<Longrightarrow> length m' + 4 \<le> length m"
  by (auto simp: read_array_def Let_def split: option.splits if_splits dest!: read_generic_shrinks)

lemma read_num_shrinks:
  "read_num (tag :: 'a::len word \<Rightarrow> nbt_payload) m = Some (s, m') \<Longrightarrow> length m = length m' + LENGTH('a) div 8"
  by (auto simp: read_num_def dest!: read_generic_shrinks)

lemmas shrinks = read_num_shrinks read_array_shrinks read_string_shrinks read_generic_shrinks

lemma parse_shrinks:
  "parse_unnamed_tag fuel type m = Some (Some (p, m')) \<Longrightarrow> length m' < length m"
  "read_list fuel k type m = Some (Some (ns, m')) \<Longrightarrow> length m' \<le> length m"
  "read_compound fuel m = Some (Some (ns, m')) \<Longrightarrow> length m' < length m"
proof (induction fuel type m and fuel k type m and fuel m arbitrary: p m' and ns m' and ns m'
    rule: parse_unnamed_tag_read_list_read_compound.induct)
  case (2 fuel type memory)
  then show ?case
    by (auto simp: read_byte_array_def read_int_array_def read_long_array_def
        split: if_splits option.splits dest!: shrinks) (fastforce intro: le_less_trans)+
next
  case (4 fuel elems type memory)
  then show ?case
    by (fastforce split: if_splits option.splits)
next
  case (6 fuel memory)
  then show ?case
    by (fastforce split: if_splits option.splits dest!: shrinks)
qed simp_all

lemma terminates_tag:
  assumes l: "\<And>k t m2. length m2 + 5 \<le> length memory \<Longrightarrow> read_list fuel k t m2 \<noteq> None"
    and c: "read_compound fuel memory \<noteq> None"
  shows "parse_unnamed_tag (Suc fuel) type memory \<noteq> None"
proof (cases "type = 9")
  case True
  have "read_list fuel k t m2 \<noteq> None"
    if "read_generic (Suc 0) memory = Some (t', m1)" "read_generic 4 m1 = Some (e, m2)" for k t t' m1 e m2
    using that by (intro l) (auto dest!: shrinks)
  with True show ?thesis by (simp split: option.split)
next
  case False
  with c show ?thesis by simp
qed

lemma terminates_list:
  assumes p: "\<And>m. length m \<le> length memory \<Longrightarrow> parse_unnamed_tag fuel type m \<noteq> None"
    and l: "\<And>k m2. length m2 < length memory \<Longrightarrow> read_list fuel k type m2 \<noteq> None"
  shows "read_list (Suc fuel) k type memory \<noteq> None"
proof -
  have "read_list fuel (k - 1) type m1 \<noteq> None"
    if "parse_unnamed_tag fuel type memory = Some (Some (q, m1))" for q m1
    using parse_shrinks(1) [OF that] by (rule l)
  with p [of memory] show ?thesis by (auto split: option.split)
qed

lemma terminates_compound:
  assumes p: "\<And>t m. length m < length memory \<Longrightarrow> parse_unnamed_tag fuel t m \<noteq> None"
    and c: "\<And>m2. length m2 < length memory \<Longrightarrow> read_compound fuel m2 \<noteq> None"
  shows "read_compound (Suc fuel) memory \<noteq> None"
proof (cases "read_generic 1 memory")
  case (Some tm)
  obtain t m1 where t: "read_generic 1 memory = Some (t, m1)" using Some by (cases tm) auto
  show ?thesis
  proof (cases "read_string m1")
    case (Some nm)
    obtain name m2 where n: "read_string m1 = Some (name, m2)" using Some by (cases nm) auto
    have m2: "length m2 < length memory" using t n by (auto dest!: shrinks)
    have "read_compound fuel m3 \<noteq> None"
      if "parse_unnamed_tag fuel (be_word t) m2 = Some (Some (q, m3))" for q m3
      using parse_shrinks(1) [OF that] m2 by (intro c) simp
    with p [OF m2, of "be_word t"] t n show ?thesis by (auto split: option.split)
  qed (use t in simp)
qed simp

lemma parse_terminates:
  "(\<forall>type m. 2 * length m + 2 \<le> fuel \<longrightarrow> parse_unnamed_tag fuel type m \<noteq> None)
   \<and> (\<forall>k type m. 2 * length m + 3 \<le> fuel \<longrightarrow> read_list fuel k type m \<noteq> None)
   \<and> (\<forall>m. 2 * length m + 1 \<le> fuel \<longrightarrow> read_compound fuel m \<noteq> None)"
proof (induction fuel)
  case (Suc fuel)
  show ?case
  proof (intro conjI allI impI)
    fix type and m :: cstring
    assume "2 * length m + 2 \<le> Suc fuel"
    with Suc show "parse_unnamed_tag (Suc fuel) type m \<noteq> None" by (intro terminates_tag) auto
  next
    fix k type and m :: cstring
    assume "2 * length m + 3 \<le> Suc fuel"
    with Suc show "read_list (Suc fuel) k type m \<noteq> None" by (intro terminates_list) auto
  next
    fix m :: cstring
    assume "2 * length m + 1 \<le> Suc fuel"
    with Suc show "read_compound (Suc fuel) m \<noteq> None" by (intro terminates_compound) auto
  qed
qed simp

lemma dump_parse:
  assumes "node_ok True n"
  shows "\<exists>bs. nbt_dump_binary n = Inr (NBT_OK, bs) \<and> nbt_parse (bs @ rest) = Some (Some n)"
proof -
  obtain s p where n: "n = NbtNode (Some s) p" "nbt_string_ok s" "payload_ok p"
    using assms by (cases n) auto
  have d: "nbt_dump_binary n = Inr (NBT_OK, node_bytes n)"
    using dump_ok(1) [OF assms] by (simp add: nbt_dump_binary_def)
  have "parse_unnamed_tag (nbt_fuel (node_bytes n @ rest)) (nbt_type p) (payload_bytes p @ rest)
      = Some (Some (p, rest))"
  proof -
    have "2 * length (payload_bytes p) + 2 \<le> nbt_fuel (node_bytes n @ rest)"
      by (simp add: nbt_fuel_def n(1))
    then show ?thesis using parse_payload_back [OF n(3)] unfolding parses_back_def by blast
  qed
  then have "nbt_parse (node_bytes n @ rest) = Some (Some n)"
    using read_string_bytes [of s "payload_bytes p @ rest"] n(2)
    by (simp add: nbt_parse_def parse_named_tag_def n(1) nbt_string_ok_def)
  with d show ?thesis by blast
qed

section \<open>Properties\<close>

text \<open>
  [C15] The NBT parser terminates on every input: the fuel of \<open>nbt_parse\<close> never runs out, so the
  recursion is at most linear in the length of the memory and the parser answers, with a tree or
  an error, whatever bytes a map file holds.
\<close>

theorem nbt_parse_terminates: "nbt_parse memory \<noteq> None"
proof -
  have "parse_unnamed_tag (nbt_fuel memory) t m2 \<noteq> None"
    if "read_generic 1 memory = Some (t', m1)" "read_string m1 = Some (nm, m2)" for t t' m1 nm m2
  proof -
    have "length m2 \<le> length memory" using that by (auto dest!: shrinks)
    then show ?thesis using parse_terminates [of "nbt_fuel memory"] by (simp add: nbt_fuel_def)
  qed
  then show ?thesis by (auto simp: nbt_parse_def parse_named_tag_def split: option.split)
qed

text \<open>
  [C13] NBT round trip: a named tree with NUL-free names and strings of at most 32767 bytes, arrays
  and lists of less than \<open>2^31\<close> elements and lists of one type is dumped without an error, and
  parsing the dump, whatever follows it in memory, gives the tree back.
\<close>

theorem nbt_roundtrip:
  assumes "node_ok True n"
  shows "\<exists>bs. nbt_dump_binary n = Inr (NBT_OK, bs) \<and> nbt_parse (bs @ rest) = Some (Some n)"
  using assms by (rule dump_parse)

theorem nbt_roundtrip_witness:
  "\<exists>bs. nbt_dump_binary (NbtNode (Some (bytes_of ''W'')) (TagCompound
        [NbtNode (Some (bytes_of ''X'')) (TagShort 5), NbtNode (Some []) (TagList 1 [])])) = Inr (NBT_OK, bs)
    \<and> nbt_parse (bs @ [1, 2, 3]) = Some (Some (NbtNode (Some (bytes_of ''W'')) (TagCompound
        [NbtNode (Some (bytes_of ''X'')) (TagShort 5), NbtNode (Some []) (TagList 1 [])])))"
  by (rule nbt_roundtrip) (simp add: nbt_string_ok_def bytes_of_def)
end
