(* ===== verification/TC_Map_File.thy ===== *)
theory TC_Map_File
  imports TC_Map TC_NBT
begin

text \<open>
  Map files, \<^verbatim>\<open>src/map.c\<close>: \<open>tc_map_load\<close> reads a map out of an NBT tree, \<open>tc_map_save\<close>
  builds the tree and dumps it. Allocations are taken to succeed, so every \<open>goto fail\<close> that is
  left is a check of the file; it is \<open>None\<close> below. Using a payload as a member of the union that
  was not stored is the fault \<open>TypeConfusion\<close>.
\<close>

section \<open>Building nodes\<close>

definition nbt_make :: "string \<Rightarrow> nbt_payload \<Rightarrow> nbt_node" where
  "nbt_make name p = NbtNode (Some (bytes_of name)) p"

definition nbt_make_compound :: "string \<Rightarrow> nbt_node list \<Rightarrow> nbt_node" where
  "nbt_make_compound name children = nbt_make name (TagCompound children)"

definition nbt_make_byte :: "string \<Rightarrow> pchar \<Rightarrow> nbt_node" where
  "nbt_make_byte name v = nbt_make name (TagByte v)"

definition nbt_make_short :: "string \<Rightarrow> pint16 \<Rightarrow> nbt_node" where
  "nbt_make_short name v = nbt_make name (TagShort v)"

definition nbt_make_int :: "string \<Rightarrow> pint32 \<Rightarrow> nbt_node" where
  "nbt_make_int name v = nbt_make name (TagInt v)"

definition nbt_make_long :: "string \<Rightarrow> 64 word \<Rightarrow> nbt_node" where
  "nbt_make_long name v = nbt_make name (TagLong v)"

definition nbt_make_float :: "string \<Rightarrow> pfloat \<Rightarrow> nbt_node" where
  "nbt_make_float name v = nbt_make name (TagFloat v)"

text \<open>\<open>strdup(v ? v : "")\<close>\<close>

definition nbt_make_string :: "string \<Rightarrow> cstring option \<Rightarrow> nbt_node" where
  "nbt_make_string name v = nbt_make name (TagString (case v of None \<Rightarrow> [] | Some s \<Rightarrow> s))"

text \<open>
  Copies \<open>len\<close> bytes; a source that is shorter, or \<open>NULL\<close>, leaves bytes that were never written.
\<close>

definition nbt_make_byte_array :: "string \<Rightarrow> cstring option \<Rightarrow> nat \<Rightarrow> nbt_node outcome" where
  "nbt_make_byte_array name data len =
     (let bs = (case data of None \<Rightarrow> [] | Some d \<Rightarrow> d)
      in if length bs < len then Inl OutOfBounds
         else Inr (nbt_make name (TagByteArray (take len bs))))"

section \<open>Looking up nodes\<close>

text \<open>A name with a dot is a path from the node itself, one without is searched in the whole subtree.\<close>

definition nbt_expect :: "nbt_node \<Rightarrow> string \<Rightarrow> 8 word \<Rightarrow> nbt_node option" where
  "nbt_expect parent name type =
     (let n = (if CHR ''.'' \<in> set name then nbt_find_by_path parent (bytes_of name)
               else nbt_find_by_name parent (bytes_of name))
      in case n of None \<Rightarrow> None | Some node \<Rightarrow> if node_type node \<noteq> type then None else Some node)"

fun byte_of :: "nbt_payload \<Rightarrow> pchar option" where
  "byte_of (TagByte w) = Some w" | "byte_of _ = None"

fun short_of :: "nbt_payload \<Rightarrow> pint16 option" where
  "short_of (TagShort w) = Some w" | "short_of _ = None"

fun int_of :: "nbt_payload \<Rightarrow> pint32 option" where
  "int_of (TagInt w) = Some w" | "int_of _ = None"

fun long_of :: "nbt_payload \<Rightarrow> 64 word option" where
  "long_of (TagLong w) = Some w" | "long_of _ = None"

fun float_of :: "nbt_payload \<Rightarrow> pfloat option" where
  "float_of (TagFloat w) = Some w" | "float_of _ = None"

fun bytes_payload :: "nbt_payload \<Rightarrow> cstring option" where
  "bytes_payload (TagByteArray bs) = Some bs" | "bytes_payload _ = None"

fun string_of :: "nbt_payload \<Rightarrow> cstring option" where
  "string_of (TagString s) = Some s" | "string_of _ = None"

text \<open>
  \<open>n = nbt_expect(...); if (!n) goto fail; x = n->payload...;\<close> for each payload type: with the type
  checked, the union member is the stored one.
\<close>

definition expect_byte :: "nbt_node \<Rightarrow> string \<Rightarrow> pchar option" where
  "expect_byte parent name = Option.bind (nbt_expect parent name 1) (byte_of \<circ> nbt_payload)"

definition expect_short :: "nbt_node \<Rightarrow> string \<Rightarrow> pint16 option" where
  "expect_short parent name = Option.bind (nbt_expect parent name 2) (short_of \<circ> nbt_payload)"

definition expect_int :: "nbt_node \<Rightarrow> string \<Rightarrow> pint32 option" where
  "expect_int parent name = Option.bind (nbt_expect parent name 3) (int_of \<circ> nbt_payload)"

definition expect_float :: "nbt_node \<Rightarrow> string \<Rightarrow> pfloat option" where
  "expect_float parent name = Option.bind (nbt_expect parent name 5) (float_of \<circ> nbt_payload)"

definition expect_bytes :: "nbt_node \<Rightarrow> string \<Rightarrow> cstring option" where
  "expect_bytes parent name = Option.bind (nbt_expect parent name 7) (bytes_payload \<circ> nbt_payload)"

definition expect_string :: "nbt_node \<Rightarrow> string \<Rightarrow> cstring option" where
  "expect_string parent name = Option.bind (nbt_expect parent name 8) (string_of \<circ> nbt_payload)"

section \<open>Loading\<close>

text \<open>The steps of \<open>tc_map_load\<close>; the first that fails ends it.\<close>

type_synonym 'a load = "'a option outcome"

definition bindL :: "'a load \<Rightarrow> ('a \<Rightarrow> 'b load) \<Rightarrow> 'b load" where
  "bindL m k = (case m of Inl f \<Rightarrow> Inl f | Inr None \<Rightarrow> Inr None | Inr (Some a) \<Rightarrow> k a)"

definition need :: "'a option \<Rightarrow> ('a \<Rightarrow> 'b load) \<Rightarrow> 'b load" where
  "need v k = (case v of None \<Rightarrow> Inr None | Some a \<Rightarrow> k a)"

definition guardL :: "bool \<Rightarrow> 'b load \<Rightarrow> 'b load" where
  "guardL b k = (if b then k else Inr None)"

definition load_color :: "nbt_node \<Rightarrow> string \<Rightarrow> tc_map_color_config \<Rightarrow> tc_map_color_config option" where
  "load_color parent tag c =
     (case nbt_find_by_name parent (bytes_of tag) of
        None \<Rightarrow> Some c
      | Some compound \<Rightarrow>
          if node_type compound \<noteq> 10 then None
          else case (expect_short compound ''R'', expect_short compound ''G'', expect_short compound ''B'') of
                 (Some r, Some g, Some b) \<Rightarrow> Some \<lparr>cc_red = r, cc_green = g, cc_blue = b\<rparr>
               | _ \<Rightarrow> None)"

text \<open>The name of a map whose file does not give one: the stem of the file name.\<close>

definition slash :: pchar where "slash = 0x2F"

definition name_of_path :: "cstring \<Rightarrow> cstring" where
  "name_of_path path =
     (let base = rev (takeWhile (\<lambda>c. c \<noteq> slash) (rev path))
      in if dot \<in> set base then rev (tl (dropWhile (\<lambda>c. c \<noteq> dot) (rev base))) else base)"

definition load_header :: "cstring \<Rightarrow> nbt_node \<Rightarrow> tc_map \<Rightarrow> tc_map load" where
  "load_header path root m =
     need (expect_byte root ''ClassicWorld.FormatVersion'') (\<lambda>v.
     let name = (case expect_string root ''ClassicWorld.Name'' of
                   Some s \<Rightarrow> s | None \<Rightarrow> name_of_path path)
     in need (expect_bytes root ''ClassicWorld.UUID'') (\<lambda>u.
     guardL (length u = 16) (
     need (expect_short root ''ClassicWorld.X'') (\<lambda>x.
     need (expect_short root ''ClassicWorld.Y'') (\<lambda>y.
     need (expect_short root ''ClassicWorld.Z'') (\<lambda>z.
     Inr (Some (m\<lparr>format_version := v, map_name := Some name, uuid := u,
                 x_size := x, y_size := y, z_size := z\<rparr>))))))))"

text \<open>
  The optional strings are found by path, but their type is not checked before \<open>tag_string\<close> is
  copied; the times likewise before \<open>tag_long\<close> is read.
\<close>

definition load_string_unchecked :: "nbt_node \<Rightarrow> string \<Rightarrow> cstring option outcome" where
  "load_string_unchecked root path =
     (case nbt_find_by_path root (bytes_of path) of
        None \<Rightarrow> Inr None
      | Some n \<Rightarrow>
          (case string_of (nbt_payload n) of None \<Rightarrow> Inl TypeConfusion | Some s \<Rightarrow> Inr (Some s)))"

definition load_time_unchecked :: "64 word \<Rightarrow> nbt_node \<Rightarrow> string \<Rightarrow> 64 word outcome" where
  "load_time_unchecked now root path =
     (case nbt_find_by_path root (bytes_of path) of
        None \<Rightarrow> Inr now
      | Some n \<Rightarrow>
          (case long_of (nbt_payload n) of None \<Rightarrow> Inl TypeConfusion | Some t \<Rightarrow> Inr t))"

definition okL :: "'a outcome \<Rightarrow> ('a \<Rightarrow> 'b load) \<Rightarrow> 'b load" where
  "okL v k = (case v of Inl f \<Rightarrow> Inl f | Inr a \<Rightarrow> k a)"

definition load_origin :: "nbt_node \<Rightarrow> tc_map \<Rightarrow> tc_map load" where
  "load_origin root m =
     okL (load_string_unchecked root ''ClassicWorld.CreatedBy.Service'') (\<lambda>service.
     okL (load_string_unchecked root ''ClassicWorld.CreatedBy.Username'') (\<lambda>username.
     okL (load_string_unchecked root ''ClassicWorld.MapGenerator.Software'') (\<lambda>software.
     okL (load_string_unchecked root ''ClassicWorld.MapGenerator.MapGeneratorName'') (\<lambda>gen_name.
     Inr (Some (m\<lparr>created_by_service := service, created_by_username := username,
                 map_gen_software := software, map_gen_name := gen_name\<rparr>))))))"

definition load_times :: "64 word \<Rightarrow> nbt_node \<Rightarrow> tc_map \<Rightarrow> tc_map load" where
  "load_times now root m =
     okL (load_time_unchecked now root ''ClassicWorld.TimeCreated'') (\<lambda>c.
     okL (load_time_unchecked now root ''ClassicWorld.LastAccessed'') (\<lambda>a.
     okL (load_time_unchecked now root ''ClassicWorld.LastModified'') (\<lambda>d.
     Inr (Some (m\<lparr>time_created := c, last_accessed := a, last_modified := d\<rparr>)))))"

definition load_spawn :: "nbt_node \<Rightarrow> tc_map \<Rightarrow> tc_map load" where
  "load_spawn root m =
     need (expect_short root ''ClassicWorld.Spawn.X'') (\<lambda>x.
     need (expect_short root ''ClassicWorld.Spawn.Y'') (\<lambda>y.
     need (expect_short root ''ClassicWorld.Spawn.Z'') (\<lambda>z.
     need (expect_byte root ''ClassicWorld.Spawn.H'') (\<lambda>h.
     need (expect_byte root ''ClassicWorld.Spawn.P'') (\<lambda>p.
     Inr (Some (m\<lparr>spawn := \<lparr>sp_block = \<lparr>bp_x = x, bp_y = y, bp_z = z\<rparr>,
                            sp_heading = h, sp_pitch = p\<rparr>\<rparr>)))))))"

text \<open>
  The dimensions check compares the length with the \<open>int\<close> product of the promoted dimensions,
  converted to \<open>psize\<close>.
\<close>

definition load_blocks :: "nbt_node \<Rightarrow> tc_map \<Rightarrow> tc_map load" where
  "load_blocks root m =
     need (expect_bytes root ''ClassicWorld.BlockArray'') (\<lambda>a.
     guardL (of_nat (length a) = map_volume m) (
     let m1 = m\<lparr>block_array := Some a, block_array_count := length a\<rparr>
     in case expect_bytes root ''ClassicWorld.BlockArray2'' of
          None \<Rightarrow> Inr (Some m1)
        | Some a2 \<Rightarrow>
            guardL (length a \<le> length a2 * 4)
              (Inr (Some (m1\<lparr>block_array2 := Some a2, block_array2_count := length a2\<rparr>)))))"

text \<open>The optional extension compounds: absent, or complete.\<close>

definition load_extension ::
    "nbt_node \<Rightarrow> string \<Rightarrow> (nbt_node \<Rightarrow> tc_map \<Rightarrow> tc_map load) \<Rightarrow> tc_map \<Rightarrow> tc_map load" where
  "load_extension root path k m =
     (case nbt_expect root path 10 of None \<Rightarrow> Inr (Some m) | Some ext \<Rightarrow> k ext m)"

definition version_or_1 :: "nbt_node \<Rightarrow> pint32" where
  "version_or_1 ext = (case expect_int ext ''ExtensionVersion'' of None \<Rightarrow> 1 | Some v \<Rightarrow> v)"

definition load_custom_blocks :: "nbt_node \<Rightarrow> tc_map \<Rightarrow> tc_map load" where
  "load_custom_blocks ext m =
     need (expect_short ext ''SupportLevel'') (\<lambda>level.
     need (expect_bytes ext ''Fallback'') (\<lambda>fallback.
     guardL (length fallback = 256)
       (Inr (Some (m\<lparr>custom_blocks_extension := Some
          \<lparr>cb_fallback_blocks = Some fallback, cb_extension_version = version_or_1 ext,
           cb_support_level = level\<rparr>\<rparr>)))))"

definition no_color :: tc_map_color_config where
  "no_color = \<lparr>cc_red = 0, cc_green = 0, cc_blue = 0\<rparr>"

definition load_env_colors :: "nbt_node \<Rightarrow> tc_map \<Rightarrow> tc_map load" where
  "load_env_colors ext m =
     need (load_color ext ''Sky'' no_color) (\<lambda>sky.
     need (load_color ext ''Cloud'' no_color) (\<lambda>cloud.
     need (load_color ext ''Fog'' no_color) (\<lambda>fog.
     need (load_color ext ''Ambient'' no_color) (\<lambda>ambient.
     need (load_color ext ''Sunlight'' no_color) (\<lambda>sunlight.
     Inr (Some (m\<lparr>env_colors_extension := Some
       \<lparr>ec_sky = sky, ec_cloud = cloud, ec_fog = fog, ec_ambient = ambient, ec_sunlight = sunlight,
        ec_extension_version = version_or_1 ext\<rparr>\<rparr>)))))))"

definition load_env_aspect :: "nbt_node \<Rightarrow> tc_map \<Rightarrow> tc_map load" where
  "load_env_aspect ext m =
     need (expect_byte ext ''SideBlock'') (\<lambda>side_block.
     need (expect_byte ext ''EdgeBlock'') (\<lambda>edge_block.
     need (expect_int ext ''CloudsHeight'') (\<lambda>clouds_height.
     need (expect_float ext ''CloudsSpeed'') (\<lambda>clouds_speed.
     need (expect_int ext ''EdgeHeight'') (\<lambda>edge_height.
     need (expect_byte ext ''UseExponentialFog'') (\<lambda>use_exponential_fog.
     need (expect_int ext ''SideOffset'') (\<lambda>side_offset.
     need (expect_float ext ''WeatherFade'') (\<lambda>weather_fade.
     need (expect_float ext ''WeatherSpeed'') (\<lambda>weather_speed.
     Inr (Some (m\<lparr>env_aspect_extension := Some
       \<lparr>as_side_block = side_block, as_edge_block = edge_block, as_clouds_height = clouds_height,
        as_clouds_speed = clouds_speed, as_edge_height = edge_height,
        as_use_exponential_fog = use_exponential_fog, as_side_offset = side_offset,
        as_weather_fade = weather_fade, as_weather_speed = weather_speed,
        as_extension_version = version_or_1 ext\<rparr>\<rparr>)))))))))))"

text \<open>Without a version the fields of version 2 decide; \<open>extension_version >= 2\<close> is signed.\<close>

definition appearance_version :: "nbt_node \<Rightarrow> pint32" where
  "appearance_version ext =
     (case expect_int ext ''ExtensionVersion'' of
        Some v \<Rightarrow> v
      | None \<Rightarrow> if nbt_find_by_name ext (bytes_of ''CloudLevel'') \<noteq> None
                  \<or> nbt_find_by_name ext (bytes_of ''MaximumViewDistance'') \<noteq> None then 2 else 1)"

definition load_env_appearance :: "nbt_node \<Rightarrow> tc_map \<Rightarrow> tc_map load" where
  "load_env_appearance ext m =
     (let version = appearance_version ext in
     need (expect_string ext ''TextureURL'') (\<lambda>url.
     need (expect_byte ext ''SideBlock'') (\<lambda>side_block.
     need (expect_byte ext ''EdgeBlock'') (\<lambda>edge_block.
     need (expect_short ext ''SideLevel'') (\<lambda>side_level.
     let finish = (\<lambda>cloud_level distance. Inr (Some (m\<lparr>env_appearance_extension := Some
       \<lparr>ap_texture_url = Some url, ap_side_block = side_block, ap_edge_block = edge_block,
        ap_side_level = side_level, ap_cloud_level = cloud_level,
        ap_maximum_view_distance = distance, ap_extension_version = version\<rparr>\<rparr>)))
     in if 2 \<le> sint version then
          need (expect_short ext ''CloudLevel'') (\<lambda>cloud_level.
          need (expect_short ext ''MaximumViewDistance'') (\<lambda>distance.
          finish cloud_level distance))
        else finish (y_size m + 2) 0)))))"

definition load_env_weather :: "nbt_node \<Rightarrow> tc_map \<Rightarrow> tc_map load" where
  "load_env_weather ext m =
     need (expect_byte ext ''WeatherType'') (\<lambda>weather_type.
     Inr (Some (m\<lparr>env_weather_extension := Some
       \<lparr>we_extension_version = version_or_1 ext, we_weather_type = weather_type\<rparr>\<rparr>)))"

text \<open>The children of \<open>BlockDefinitions\<close> that the loop does not skip.\<close>

definition is_block_compound :: "nbt_node \<Rightarrow> bool" where
  "is_block_compound child \<longleftrightarrow> node_type child = 10
     \<and> (\<exists>name. nbt_name child = Some name \<and> strncmp name (bytes_of ''Block'') 5 = 0)"

definition allow_flag :: "nbt_node \<Rightarrow> string \<Rightarrow> bool" where
  "allow_flag child name = (case expect_byte child name of None \<Rightarrow> True | Some b \<Rightarrow> b \<noteq> 1)"

definition load_block_definition :: "nbt_node \<Rightarrow> tc_map_block_definition option" where
  "load_block_definition child =
     Option.bind (expect_byte child ''ID'') (\<lambda>block_id.
     Option.bind (expect_string child ''Name'') (\<lambda>name.
     Option.bind (expect_float child ''Speed'') (\<lambda>speed.
     Option.bind (expect_bytes child ''Textures'') (\<lambda>textures.
     if length textures < 6 then None else
     Option.bind (expect_byte child ''TransmitsLight'') (\<lambda>transmits_light.
     Option.bind (expect_byte child ''WalkSound'') (\<lambda>walk_sound.
     Option.bind (expect_byte child ''Shape'') (\<lambda>shape.
     Option.bind (expect_byte child ''BlockDraw'') (\<lambda>block_draw.
     Option.bind (expect_bytes child ''Fog'') (\<lambda>fog.
     if length fog < 4 then None else
     Option.bind (expect_bytes child ''Coords'') (\<lambda>coords.
     if length coords < 6 then None else
     Some \<lparr>def_textures = take 6 textures, def_coords = take 6 coords, def_fog = take 4 fog,
           def_block_name = Some name, def_speed = speed,
           def_allow_placement = allow_flag child ''AllowPlacement'',
           def_allow_deletion = allow_flag child ''AllowDeletion'',
           def_transmits_light = transmits_light, def_walk_sound = walk_sound,
           def_shape = shape, def_block_draw = block_draw, def_block_id = block_id\<rparr>))))))))))"

text \<open>The list is built by prepending and reversed at the end.\<close>

fun load_block_loop ::
    "nbt_node list \<Rightarrow> tc_map_block_definition list \<Rightarrow> tc_map_block_definition list option" where
  "load_block_loop [] defs = Some (rev defs)"
| "load_block_loop (child # children) defs =
     (if \<not> is_block_compound child then load_block_loop children defs
      else case load_block_definition child of
             None \<Rightarrow> None
           | Some d \<Rightarrow> load_block_loop children (d # defs))"

definition load_block_definitions :: "nbt_node \<Rightarrow> tc_map \<Rightarrow> tc_map load" where
  "load_block_definitions ext m =
     need (load_block_loop (nbt_children (nbt_payload ext)) []) (\<lambda>defs.
     Inr (Some (m\<lparr>block_definition_extensions := Some
       \<lparr>bx_extension_version = version_or_1 ext, bx_block_definitions = defs\<rparr>\<rparr>)))"

definition tc_map_load :: "64 word \<Rightarrow> cstring \<Rightarrow> nbt_node option \<Rightarrow> tc_map load" where
  "tc_map_load now path parsed =
     (case parsed of
        None \<Rightarrow> Inr None
      | Some root \<Rightarrow>
          if node_type root \<noteq> 10 then Inr None else
          bindL (load_header path root empty_map) (\<lambda>m.
          bindL (load_origin root m) (\<lambda>m.
          bindL (load_times now root m) (\<lambda>m.
          bindL (load_spawn root m) (\<lambda>m.
          bindL (load_blocks root m) (\<lambda>m.
          bindL (load_extension root ''ClassicWorld.Metadata.CPE.CustomBlocks'' load_custom_blocks m) (\<lambda>m.
          bindL (load_extension root ''ClassicWorld.Metadata.CPE.EnvColors'' load_env_colors m) (\<lambda>m.
          bindL (load_extension root ''ClassicWorld.Metadata.CPE.EnvAspect'' load_env_aspect m) (\<lambda>m.
          bindL (load_extension root ''ClassicWorld.Metadata.CPE.EnvMapAppearance'' load_env_appearance m) (\<lambda>m.
          bindL (load_extension root ''ClassicWorld.Metadata.CPE.EnvWeatherType'' load_env_weather m) (\<lambda>m.
          load_extension root ''ClassicWorld.Metadata.CPE.BlockDefinitions'' load_block_definitions m)))))))))))"

section \<open>Saving\<close>

definition save_color :: "string \<Rightarrow> tc_map_color_config \<Rightarrow> nbt_node" where
  "save_color tag c = nbt_make_compound tag
     [nbt_make_short ''R'' (cc_red c), nbt_make_short ''G'' (cc_green c), nbt_make_short ''B'' (cc_blue c)]"

definition opt_node :: "'a option \<Rightarrow> ('a \<Rightarrow> nbt_node) \<Rightarrow> nbt_node list" where
  "opt_node v f = (case v of None \<Rightarrow> [] | Some a \<Rightarrow> [f a])"

definition save_header :: "tc_map \<Rightarrow> nbt_node list outcome" where
  "save_header m =
     (case nbt_make_byte_array ''UUID'' (Some (uuid m)) 16 of
        Inl f \<Rightarrow> Inl f
      | Inr u \<Rightarrow> Inr
          [nbt_make_byte ''FormatVersion'' (format_version m),
           nbt_make_string ''Name'' (map_name m),
           u,
           nbt_make_short ''X'' (x_size m),
           nbt_make_short ''Y'' (y_size m),
           nbt_make_short ''Z'' (z_size m)])"

definition save_origin :: "tc_map \<Rightarrow> nbt_node list" where
  "save_origin m =
     (if created_by_service m \<noteq> None \<or> created_by_username m \<noteq> None then
        [nbt_make_compound ''CreatedBy''
           (opt_node (created_by_service m) (\<lambda>s. nbt_make_string ''Service'' (Some s))
            @ opt_node (created_by_username m) (\<lambda>s. nbt_make_string ''Username'' (Some s)))]
      else [])
     @ (if map_gen_software m \<noteq> None \<or> map_gen_name m \<noteq> None then
        [nbt_make_compound ''MapGenerator''
           (opt_node (map_gen_software m) (\<lambda>s. nbt_make_string ''Software'' (Some s))
            @ opt_node (map_gen_name m) (\<lambda>s. nbt_make_string ''MapGeneratorName'' (Some s)))]
      else [])"

definition save_times :: "tc_map \<Rightarrow> nbt_node list" where
  "save_times m =
     [nbt_make_long ''TimeCreated'' (time_created m),
      nbt_make_long ''LastAccessed'' (last_accessed m),
      nbt_make_long ''LastModified'' (last_modified m)]"

definition save_spawn :: "tc_map \<Rightarrow> nbt_node" where
  "save_spawn m = nbt_make_compound ''Spawn''
     [nbt_make_short ''X'' (bp_x (sp_block (spawn m))),
      nbt_make_short ''Y'' (bp_y (sp_block (spawn m))),
      nbt_make_short ''Z'' (bp_z (sp_block (spawn m))),
      nbt_make_byte ''H'' (sp_heading (spawn m)),
      nbt_make_byte ''P'' (sp_pitch (spawn m))]"

definition save_blocks :: "tc_map \<Rightarrow> nbt_node list outcome" where
  "save_blocks m =
     (case nbt_make_byte_array ''BlockArray'' (block_array m) (block_array_count m) of
        Inl f \<Rightarrow> Inl f
      | Inr a \<Rightarrow>
          if block_array2 m = None then Inr [a]
          else case nbt_make_byte_array ''BlockArray2'' (block_array2 m) (block_array2_count m) of
                 Inl f \<Rightarrow> Inl f
               | Inr a2 \<Rightarrow> Inr [a, a2])"

definition save_custom_blocks :: "tc_map_custom_blocks_extension \<Rightarrow> nbt_node outcome" where
  "save_custom_blocks cb =
     (let fields = [nbt_make_int ''ExtensionVersion'' (cb_extension_version cb),
                    nbt_make_short ''SupportLevel'' (cb_support_level cb)]
      in if cb_fallback_blocks cb = None then Inr (nbt_make_compound ''CustomBlocks'' fields)
         else case nbt_make_byte_array ''Fallback'' (cb_fallback_blocks cb) 256 of
                Inl f \<Rightarrow> Inl f
              | Inr a \<Rightarrow> Inr (nbt_make_compound ''CustomBlocks'' (fields @ [a])))"

definition save_env_colors :: "tc_map_env_colors_extension \<Rightarrow> nbt_node" where
  "save_env_colors ec = nbt_make_compound ''EnvColors''
     [nbt_make_int ''ExtensionVersion'' (ec_extension_version ec),
      save_color ''Sky'' (ec_sky ec),
      save_color ''Cloud'' (ec_cloud ec),
      save_color ''Fog'' (ec_fog ec),
      save_color ''Ambient'' (ec_ambient ec),
      save_color ''Sunlight'' (ec_sunlight ec)]"

definition save_env_aspect :: "tc_map_env_aspect_extension \<Rightarrow> nbt_node" where
  "save_env_aspect ea = nbt_make_compound ''EnvMapAspect''
     [nbt_make_int ''ExtensionVersion'' (as_extension_version ea),
      nbt_make_byte ''SideBlock'' (as_side_block ea),
      nbt_make_byte ''EdgeBlock'' (as_edge_block ea),
      nbt_make_int ''CloudsHeight'' (as_clouds_height ea),
      nbt_make_float ''CloudsSpeed'' (as_clouds_speed ea),
      nbt_make_int ''EdgeHeight'' (as_edge_height ea),
      nbt_make_byte ''UseExponentialFog'' (as_use_exponential_fog ea),
      nbt_make_int ''SideOffset'' (as_side_offset ea),
      nbt_make_float ''WeatherFade'' (as_weather_fade ea),
      nbt_make_float ''WeatherSpeed'' (as_weather_speed ea)]"

definition save_env_appearance :: "tc_map_env_appearance_extension \<Rightarrow> nbt_node" where
  "save_env_appearance ea = nbt_make_compound ''EnvMapAppearance''
     ([nbt_make_int ''ExtensionVersion'' (ap_extension_version ea),
       nbt_make_string ''TextureURL'' (ap_texture_url ea),
       nbt_make_byte ''SideBlock'' (ap_side_block ea),
       nbt_make_byte ''EdgeBlock'' (ap_edge_block ea),
       nbt_make_short ''SideLevel'' (ap_side_level ea)]
      @ (if 2 \<le> sint (ap_extension_version ea) then
           [nbt_make_short ''CloudLevel'' (ap_cloud_level ea),
            nbt_make_short ''MaximumViewDistance'' (ap_maximum_view_distance ea)]
         else []))"

definition save_env_weather :: "tc_map_env_weather_extension \<Rightarrow> nbt_node" where
  "save_env_weather ew = nbt_make_compound ''EnvWeatherType''
     [nbt_make_int ''ExtensionVersion'' (we_extension_version ew),
      nbt_make_byte ''WeatherType'' (we_weather_type ew)]"

text \<open>\<open>snprintf(bname, sizeof(bname), "Block%u", block_id)\<close>\<close>

definition block_name_of :: "pchar \<Rightarrow> string" where
  "block_name_of block_id =
     (let n = unat block_id
      in ''Block'' @ (if n \<ge> 100 then [digit (n div 100)] else [])
         @ (if n \<ge> 10 then [digit (n div 10 mod 10)] else []) @ [digit (n mod 10)])"

text \<open>The arrays of a definition are inside the structure, so they always have their full size.\<close>

definition save_block_definition :: "tc_map_block_definition \<Rightarrow> nbt_node" where
  "save_block_definition d = nbt_make_compound (block_name_of (def_block_id d))
     [nbt_make_byte ''ID'' (def_block_id d),
      nbt_make_string ''Name'' (def_block_name d),
      nbt_make_float ''Speed'' (def_speed d),
      nbt_make ''Textures'' (TagByteArray (take 6 (def_textures d))),
      nbt_make_byte ''TransmitsLight'' (def_transmits_light d),
      nbt_make_byte ''WalkSound'' (def_walk_sound d),
      nbt_make_byte ''Shape'' (def_shape d),
      nbt_make_byte ''BlockDraw'' (def_block_draw d),
      nbt_make ''Fog'' (TagByteArray (take 4 (def_fog d))),
      nbt_make ''Coords'' (TagByteArray (take 6 (def_coords d))),
      nbt_make_byte ''AllowPlacement'' (if def_allow_placement d then 1 else 0),
      nbt_make_byte ''AllowDeletion'' (if def_allow_deletion d then 1 else 0)]"

definition save_block_definitions :: "tc_map_block_definition_extension \<Rightarrow> nbt_node" where
  "save_block_definitions bd = nbt_make_compound ''BlockDefinitions''
     (nbt_make_int ''ExtensionVersion'' (bx_extension_version bd)
      # map save_block_definition (bx_block_definitions bd))"

text \<open>The guard of the \<open>CPE\<close> compound does not name the aspect extension.\<close>

definition save_cpe :: "tc_map \<Rightarrow> nbt_node list outcome" where
  "save_cpe m =
     (if custom_blocks_extension m \<noteq> None \<or> env_colors_extension m \<noteq> None
         \<or> env_appearance_extension m \<noteq> None \<or> env_weather_extension m \<noteq> None
         \<or> block_definition_extensions m \<noteq> None then
        (case (case custom_blocks_extension m of
                 None \<Rightarrow> Inr []
               | Some cb \<Rightarrow> (case save_custom_blocks cb of Inl f \<Rightarrow> Inl f | Inr n \<Rightarrow> Inr [n])) of
           Inl f \<Rightarrow> Inl f
         | Inr cb \<Rightarrow> Inr [nbt_make_compound ''CPE''
             (cb @ opt_node (env_colors_extension m) save_env_colors
              @ opt_node (env_aspect_extension m) save_env_aspect
              @ opt_node (env_appearance_extension m) save_env_appearance
              @ opt_node (env_weather_extension m) save_env_weather
              @ opt_node (block_definition_extensions m) save_block_definitions)])
      else Inr [])"

definition save_tree :: "tc_map \<Rightarrow> nbt_node outcome" where
  "save_tree m =
     (case save_header m of
        Inl f \<Rightarrow> Inl f
      | Inr header \<Rightarrow>
          (case save_blocks m of
             Inl f \<Rightarrow> Inl f
           | Inr blocks \<Rightarrow>
               (case save_cpe m of
                  Inl f \<Rightarrow> Inl f
                | Inr cpe \<Rightarrow> Inr (nbt_make_compound ''ClassicWorld''
                    (header @ save_origin m @ save_times m @ [save_spawn m] @ blocks
                     @ [nbt_make_compound ''Metadata'' cpe])))))"

text \<open>
  \<open>nbt_dump_file\<close>: the status of \<open>nbt_dump_binary\<close> is overwritten by the compression, so a tree
  that could not be dumped completely is written as far as it got. \<open>gz\<close> stands for the
  compression of zlib; \<open>None\<close> is a failure.
\<close>

definition nbt_dump_compressed :: "(cstring \<Rightarrow> cstring option) \<Rightarrow> nbt_node \<Rightarrow> cstring option outcome" where
  "nbt_dump_compressed gz tree =
     (case nbt_dump_binary tree of
        Inl f \<Rightarrow> Inl f
      | Inr (_, b) \<Rightarrow> Inr (if b = [] then None else gz b))"

text \<open>
  The result of \<open>tc_map_save\<close>, the map, and what the file holds afterwards (\<open>old\<close> when it is not
  opened). \<open>can_open\<close> says whether \<open>fopen\<close> succeeds, \<open>torn = Some p\<close> that a write fails with
  only the bytes \<open>p\<close> in the file.
\<close>

definition tc_map_save ::
    "(cstring \<Rightarrow> cstring option) \<Rightarrow> bool \<Rightarrow> cstring option \<Rightarrow> cstring option \<Rightarrow> tc_map
     \<Rightarrow> (bool \<times> tc_map \<times> cstring option) outcome" where
  "tc_map_save gz can_open torn old m =
     (if \<not> is_dirty m then Inr (True, m, old)
      else let m' = m\<lparr>is_dirty := False\<rparr>
           in case save_tree m' of
                Inl f \<Rightarrow> Inl f
              | Inr root \<Rightarrow>
                  if \<not> can_open then Inr (False, m', old)
                  else case nbt_dump_compressed gz root of
                         Inl f \<Rightarrow> Inl f
                       | Inr None \<Rightarrow> Inr (False, m', Some [])
                       | Inr (Some bytes) \<Rightarrow>
                           (case torn of
                              None \<Rightarrow> Inr (True, m', Some bytes)
                            | Some p \<Rightarrow> Inr (False, m', Some p)))"

text \<open>\<open>nbt_parse_path\<close>: \<open>unz\<close> stands for the decompression of zlib.\<close>

definition nbt_parse_path :: "(cstring \<Rightarrow> cstring option) \<Rightarrow> cstring option \<Rightarrow> nbt_node option" where
  "nbt_parse_path unz file =
     (case Option.bind file unz of
        None \<Rightarrow> None
      | Some bytes \<Rightarrow> (case nbt_parse bytes of None \<Rightarrow> None | Some r \<Rightarrow> r))"

section \<open>Lookups in built trees\<close>

lemma byte_inject: "of_nat (of_char c) = (of_nat (of_char d) :: pchar) \<longleftrightarrow> c = d"
proof
  assume "of_nat (of_char c) = (of_nat (of_char d) :: pchar)"
  then have "unat (of_nat (of_char c) :: pchar) = unat (of_nat (of_char d) :: pchar)" by simp
  then have "(of_char c :: nat) = of_char d" by (simp add: unat_of_nat)
  then show "c = d" by simp
qed simp

lemma bytes_of_inject [simp]: "bytes_of s = bytes_of t \<longleftrightarrow> s = t"
  by (simp add: bytes_of_def inj_map_eq_map inj_def byte_inject)

lemma takeWhile_bytes_of: "takeWhile (\<lambda>c. c \<noteq> dot) (bytes_of s) = bytes_of (takeWhile (\<lambda>c. c \<noteq> CHR ''.'') s)"
  using byte_inject [of _ "CHR ''.''"] by (simp add: bytes_of_def takeWhile_map comp_def dot_def)

lemma bytes_of_Nil [simp]: "bytes_of s = [] \<longleftrightarrow> s = []"
  by (simp add: bytes_of_def)

text \<open>A path cut at its dots, and the search by its pieces.\<close>

function path_pieces :: "string \<Rightarrow> string list" where
  "path_pieces s =
     (let piece = takeWhile (\<lambda>c. c \<noteq> CHR ''.'') s; rest = drop (length piece) s
      in if rest = [] then [piece] else piece # path_pieces (tl rest))"
  by pat_completeness auto
termination
  by (relation "measure length") (auto simp: less_Suc_eq_le)

declare path_pieces.simps [simp del]

fun path_find :: "nbt_node \<Rightarrow> string list \<Rightarrow> nbt_node option" where
  "path_find tree [] = None"
| "path_find tree (x # xs) =
     (if \<not> piece_matches (bytes_of x) (nbt_name tree) then None
      else if xs = [] then Some tree
      else first_some (\<lambda>n. path_find n xs) (nbt_children (nbt_payload tree)))"

lemma find_by_path_pieces: "nbt_find_by_path tree (bytes_of s) = path_find tree (path_pieces s)"
proof (induction s arbitrary: tree rule: path_pieces.induct)
  case (1 s)
  let ?p = "takeWhile (\<lambda>c. c \<noteq> CHR ''.'') s"
  let ?r = "drop (length ?p) s"
  have r: "drop (length ?p) (bytes_of s) = bytes_of ?r"
    by (simp add: bytes_of_def drop_map)
  have t: "tl (bytes_of ?r) = bytes_of (tl ?r)"
    by (simp add: bytes_of_def map_tl)
  have ne: "path_pieces u \<noteq> []" for u by (simp add: path_pieces.simps Let_def)
  show ?case
    unfolding path_pieces.simps [of s] nbt_find_by_path.simps [of tree "bytes_of s"]
    using 1 by (simp add: Let_def takeWhile_bytes_of r t ne path_find.simps)
qed

declare path_find.simps [simp del]

lemma path_find_make [simp]:
  "path_find (nbt_make nm p) (x # xs) =
     (if nm \<noteq> x then None
      else if xs = [] then Some (nbt_make nm p)
      else first_some (\<lambda>n. path_find n xs) (nbt_children p))"
  by (auto simp: nbt_make_def piece_matches_def path_find.simps)

lemma first_some_if [simp]:
  "first_some f (if c then xs else ys) = (if c then first_some f xs else first_some f ys)"
  by simp

lemma first_some_opt_node [simp]:
  "first_some f (opt_node v g) = (case v of None \<Rightarrow> None | Some a \<Rightarrow> f (g a))"
  by (simp add: opt_node_def split: option.split)

lemma find_by_name_make [simp]:
  "nbt_find_by_name (nbt_make nm p) (bytes_of x) =
     (if nm = x then Some (nbt_make nm p)
      else first_some (\<lambda>n. nbt_find_by_name n (bytes_of x)) (nbt_children p))"
  unfolding nbt_find_by_name_def
  by (subst nbt_find.simps) (simp add: nbt_make_def names_are_equal_def)

lemma first_some_append [simp]:
  "first_some f (xs @ ys) = (case first_some f xs of None \<Rightarrow> first_some f ys | Some y \<Rightarrow> Some y)"
  by (induction xs) (auto split: option.split)

lemma nbt_make_sel [simp]: "nbt_payload (nbt_make nm p) = p" "nbt_name (nbt_make nm p) = Some (bytes_of nm)"
  by (simp_all add: nbt_make_def)

lemmas make_simps = nbt_make_compound_def nbt_make_byte_def nbt_make_short_def nbt_make_int_def
  nbt_make_long_def nbt_make_float_def nbt_make_string_def

lemma paths [simp]:
  "path_pieces ''ClassicWorld.FormatVersion'' = [''ClassicWorld'', ''FormatVersion'']"
  "path_pieces ''ClassicWorld.Name'' = [''ClassicWorld'', ''Name'']"
  "path_pieces ''ClassicWorld.UUID'' = [''ClassicWorld'', ''UUID'']"
  "path_pieces ''ClassicWorld.X'' = [''ClassicWorld'', ''X'']"
  "path_pieces ''ClassicWorld.Y'' = [''ClassicWorld'', ''Y'']"
  "path_pieces ''ClassicWorld.Z'' = [''ClassicWorld'', ''Z'']"
  "path_pieces ''ClassicWorld.CreatedBy.Service'' = [''ClassicWorld'', ''CreatedBy'', ''Service'']"
  "path_pieces ''ClassicWorld.CreatedBy.Username'' = [''ClassicWorld'', ''CreatedBy'', ''Username'']"
  "path_pieces ''ClassicWorld.MapGenerator.Software'' = [''ClassicWorld'', ''MapGenerator'', ''Software'']"
  "path_pieces ''ClassicWorld.MapGenerator.MapGeneratorName''
     = [''ClassicWorld'', ''MapGenerator'', ''MapGeneratorName'']"
  "path_pieces ''ClassicWorld.TimeCreated'' = [''ClassicWorld'', ''TimeCreated'']"
  "path_pieces ''ClassicWorld.LastAccessed'' = [''ClassicWorld'', ''LastAccessed'']"
  "path_pieces ''ClassicWorld.LastModified'' = [''ClassicWorld'', ''LastModified'']"
  "path_pieces ''ClassicWorld.Spawn.X'' = [''ClassicWorld'', ''Spawn'', ''X'']"
  "path_pieces ''ClassicWorld.Spawn.Y'' = [''ClassicWorld'', ''Spawn'', ''Y'']"
  "path_pieces ''ClassicWorld.Spawn.Z'' = [''ClassicWorld'', ''Spawn'', ''Z'']"
  "path_pieces ''ClassicWorld.Spawn.H'' = [''ClassicWorld'', ''Spawn'', ''H'']"
  "path_pieces ''ClassicWorld.Spawn.P'' = [''ClassicWorld'', ''Spawn'', ''P'']"
  "path_pieces ''ClassicWorld.BlockArray'' = [''ClassicWorld'', ''BlockArray'']"
  "path_pieces ''ClassicWorld.BlockArray2'' = [''ClassicWorld'', ''BlockArray2'']"
  "path_pieces ''ClassicWorld.Metadata.CPE.CustomBlocks''
     = [''ClassicWorld'', ''Metadata'', ''CPE'', ''CustomBlocks'']"
  "path_pieces ''ClassicWorld.Metadata.CPE.EnvColors''
     = [''ClassicWorld'', ''Metadata'', ''CPE'', ''EnvColors'']"
  "path_pieces ''ClassicWorld.Metadata.CPE.EnvAspect''
     = [''ClassicWorld'', ''Metadata'', ''CPE'', ''EnvAspect'']"
  "path_pieces ''ClassicWorld.Metadata.CPE.EnvMapAppearance''
     = [''ClassicWorld'', ''Metadata'', ''CPE'', ''EnvMapAppearance'']"
  "path_pieces ''ClassicWorld.Metadata.CPE.EnvWeatherType''
     = [''ClassicWorld'', ''Metadata'', ''CPE'', ''EnvWeatherType'']"
  "path_pieces ''ClassicWorld.Metadata.CPE.BlockDefinitions''
     = [''ClassicWorld'', ''Metadata'', ''CPE'', ''BlockDefinitions'']"
  by code_simp+


section \<open>What a saved map loads as\<close>

text \<open>
  The maps that can be saved and loaded: the arrays have the sizes their counts and dimensions
  say, the strings that are not optional are there.
\<close>

definition appearance_ok :: "tc_map \<Rightarrow> tc_map_env_appearance_extension \<Rightarrow> bool" where
  "appearance_ok m ea \<longleftrightarrow> ap_texture_url ea \<noteq> None
     \<and> (2 \<le> sint (ap_extension_version ea)
        \<or> ap_cloud_level ea = y_size m + 2 \<and> ap_maximum_view_distance ea = 0)"

definition block_definition_ok :: "tc_map_block_definition \<Rightarrow> bool" where
  "block_definition_ok d \<longleftrightarrow> def_block_name d \<noteq> None \<and> length (def_textures d) = 6
     \<and> length (def_fog d) = 4 \<and> length (def_coords d) = 6"

definition map_file_ok :: "tc_map \<Rightarrow> bool" where
  "map_file_ok m \<longleftrightarrow> map_name m \<noteq> None \<and> length (uuid m) = 16
     \<and> (\<exists>a. block_array m = Some a \<and> block_array_count m = length a \<and> of_nat (length a) = map_volume m
          \<and> (case block_array2 m of None \<Rightarrow> block_array2_count m = 0
             | Some a2 \<Rightarrow> block_array2_count m = length a2 \<and> length a \<le> length a2 * 4))
     \<and> (\<forall>cb. custom_blocks_extension m = Some cb \<longrightarrow>
          (\<exists>f. cb_fallback_blocks cb = Some f \<and> length f = 256))
     \<and> (\<forall>ea. env_appearance_extension m = Some ea \<longrightarrow> appearance_ok m ea)
     \<and> (\<forall>bd. block_definition_extensions m = Some bd \<longrightarrow>
          (\<forall>d \<in> set (bx_block_definitions bd). block_definition_ok d))"

lemmas load_simps = nbt_expect_def expect_byte_def expect_short_def expect_int_def expect_float_def
  expect_bytes_def expect_string_def find_by_path_pieces need_def guardL_def okL_def bindL_def
  load_string_unchecked_def load_time_unchecked_def make_simps

definition root_of :: "nbt_node list \<Rightarrow> tc_map \<Rightarrow> nbt_node list \<Rightarrow> nbt_node list \<Rightarrow> nbt_node" where
  "root_of header m blocks cpe = nbt_make_compound ''ClassicWorld''
     (header @ save_origin m @ save_times m @ [save_spawn m] @ blocks @ [nbt_make_compound ''Metadata'' cpe])"

lemma origin_skip:
  "x \<noteq> ''CreatedBy'' \<Longrightarrow> x \<noteq> ''MapGenerator'' \<Longrightarrow> first_some (\<lambda>n. path_find n (x # xs)) (save_origin m) = None"
  by (simp add: save_origin_def make_simps)

lemma save_header_ok:
  assumes "map_file_ok m"
  shows "save_header m = Inr [nbt_make_byte ''FormatVersion'' (format_version m),
           nbt_make_string ''Name'' (map_name m), nbt_make ''UUID'' (TagByteArray (uuid m)),
           nbt_make_short ''X'' (x_size m), nbt_make_short ''Y'' (y_size m), nbt_make_short ''Z'' (z_size m)]"
  using assms by (simp add: save_header_def nbt_make_byte_array_def map_file_ok_def)

lemma load_header_saved:
  assumes "map_file_ok m" and "save_header m = Inr header"
  shows "load_header path (root_of header m blocks cpe) m0 = Inr (Some (m0\<lparr>format_version := format_version m,
     map_name := map_name m, uuid := uuid m, x_size := x_size m, y_size := y_size m, z_size := z_size m\<rparr>))"
  using assms save_header_ok [OF assms(1)]
  by (auto simp: load_header_def root_of_def load_simps map_file_ok_def)

lemma load_times_saved:
  assumes "map_file_ok m" and "save_header m = Inr header"
  shows "load_times now (root_of header m blocks cpe) m0 = Inr (Some (m0\<lparr>time_created := time_created m,
     last_accessed := last_accessed m, last_modified := last_modified m\<rparr>))"
  using assms save_header_ok [OF assms(1)]
  by (auto simp: load_times_def root_of_def load_simps origin_skip save_times_def)

lemma load_spawn_saved:
  assumes "map_file_ok m" and "save_header m = Inr header"
  shows "load_spawn (root_of header m blocks cpe) m0 = Inr (Some (m0\<lparr>spawn := spawn m\<rparr>))"
  using assms save_header_ok [OF assms(1)]
  by (auto simp: load_spawn_def root_of_def load_simps origin_skip save_times_def save_spawn_def)

lemma load_origin_saved:
  assumes "map_file_ok m" and "save_header m = Inr header" and "save_blocks m = Inr blocks"
  shows "load_origin (root_of header m blocks cpe) m0 = Inr (Some (m0\<lparr>created_by_service := created_by_service m,
     created_by_username := created_by_username m, map_gen_software := map_gen_software m,
     map_gen_name := map_gen_name m\<rparr>))"
proof -
  have b: "x \<noteq> ''BlockArray'' \<Longrightarrow> x \<noteq> ''BlockArray2'' \<Longrightarrow>
      first_some (\<lambda>n. path_find n (x # xs)) blocks = None" for x xs
    using assms(3) by (auto simp: save_blocks_def nbt_make_byte_array_def Let_def split: if_splits)
  note root = root_of_def load_simps save_times_def save_spawn_def save_origin_def b
  have h: "header = [nbt_make_byte ''FormatVersion'' (format_version m),
           nbt_make_string ''Name'' (map_name m), nbt_make ''UUID'' (TagByteArray (uuid m)),
           nbt_make_short ''X'' (x_size m), nbt_make_short ''Y'' (y_size m), nbt_make_short ''Z'' (z_size m)]"
    using assms(2) save_header_ok [OF assms(1)] by simp
  have 1: "load_string_unchecked (root_of header m blocks cpe) ''ClassicWorld.CreatedBy.Service''
      = Inr (created_by_service m)"
    unfolding h by (auto simp: root split: option.splits)
  have 2: "load_string_unchecked (root_of header m blocks cpe) ''ClassicWorld.CreatedBy.Username''
      = Inr (created_by_username m)"
    unfolding h by (auto simp: root split: option.splits)
  have 3: "load_string_unchecked (root_of header m blocks cpe) ''ClassicWorld.MapGenerator.Software''
      = Inr (map_gen_software m)"
    unfolding h by (auto simp: root split: option.splits)
  have 4: "load_string_unchecked (root_of header m blocks cpe) ''ClassicWorld.MapGenerator.MapGeneratorName''
      = Inr (map_gen_name m)"
    unfolding h by (auto simp: root split: option.splits)
  show ?thesis by (simp add: load_origin_def okL_def 1 2 3 4)
qed

lemma save_blocks_ok:
  assumes "map_file_ok m"
  shows "save_blocks m = Inr (nbt_make ''BlockArray'' (TagByteArray (the (block_array m)))
    # opt_node (block_array2 m) (\<lambda>a2. nbt_make ''BlockArray2'' (TagByteArray a2)))"
  using assms by (auto simp: save_blocks_def nbt_make_byte_array_def map_file_ok_def opt_node_def
      split: option.splits)

lemma load_blocks_saved:
  assumes "map_file_ok m" and "save_header m = Inr header" and "save_blocks m = Inr blocks"
    and "map_volume m0 = map_volume m" and "block_array2 m0 = None" "block_array2_count m0 = 0"
  shows "load_blocks (root_of header m blocks cpe) m0 = Inr (Some (m0\<lparr>block_array := block_array m,
    block_array_count := block_array_count m, block_array2 := block_array2 m,
    block_array2_count := block_array2_count m\<rparr>))"
proof -
  have h: "header = [nbt_make_byte ''FormatVersion'' (format_version m),
           nbt_make_string ''Name'' (map_name m), nbt_make ''UUID'' (TagByteArray (uuid m)),
           nbt_make_short ''X'' (x_size m), nbt_make_short ''Y'' (y_size m), nbt_make_short ''Z'' (z_size m)]"
    using assms(2) save_header_ok [OF assms(1)] by simp
  have b: "blocks = nbt_make ''BlockArray'' (TagByteArray (the (block_array m)))
    # opt_node (block_array2 m) (\<lambda>a2. nbt_make ''BlockArray2'' (TagByteArray a2))"
    using assms(3) save_blocks_ok [OF assms(1)] by simp
  have 1: "expect_bytes (root_of header m blocks cpe) ''ClassicWorld.BlockArray'' = block_array m"
    using assms(1) unfolding h b
    by (auto simp: root_of_def load_simps save_times_def save_spawn_def origin_skip map_file_ok_def)
  have 2: "expect_bytes (root_of header m blocks cpe) ''ClassicWorld.BlockArray2'' = block_array2 m"
    unfolding h b
    by (auto simp: root_of_def load_simps save_times_def save_spawn_def origin_skip split: option.splits)
  show ?thesis
    using assms(1,4-6) unfolding load_blocks_def 1 2
    by (cases "block_array2 m"; cases m0) (auto simp: need_def guardL_def map_file_ok_def Let_def)
qed

text \<open>Below the metadata: the compounds of the extensions.\<close>

definition cpe_part :: "nbt_node list \<Rightarrow> string \<Rightarrow> nbt_node option" where
  "cpe_part cpe x = first_some (\<lambda>n. path_find n [''CPE'', x]) cpe"

lemma expect_cpe:
  assumes "map_file_ok m" and "save_header m = Inr header" and "save_blocks m = Inr blocks"
    and "CHR ''.'' \<in> set path" and "path_pieces path = [''ClassicWorld'', ''Metadata'', ''CPE'', x]"
  shows "nbt_expect (root_of header m blocks cpe) path t =
    (case cpe_part cpe x of None \<Rightarrow> None | Some n \<Rightarrow> if node_type n \<noteq> t then None else Some n)"
proof -
  have h: "header = [nbt_make_byte ''FormatVersion'' (format_version m),
           nbt_make_string ''Name'' (map_name m), nbt_make ''UUID'' (TagByteArray (uuid m)),
           nbt_make_short ''X'' (x_size m), nbt_make_short ''Y'' (y_size m), nbt_make_short ''Z'' (z_size m)]"
    using assms(2) save_header_ok [OF assms(1)] by simp
  have b: "blocks = nbt_make ''BlockArray'' (TagByteArray (the (block_array m)))
    # opt_node (block_array2 m) (\<lambda>a2. nbt_make ''BlockArray2'' (TagByteArray a2))"
    using assms(3) save_blocks_ok [OF assms(1)] by simp
  show ?thesis
    unfolding nbt_expect_def find_by_path_pieces assms(5) h b
    using assms(4) by (auto simp: root_of_def make_simps save_times_def save_spawn_def origin_skip cpe_part_def
        split: option.splits)
qed


lemma case_option_None [simp]: "(case v of None \<Rightarrow> None | Some _ \<Rightarrow> None) = None"
  by (cases v) auto

lemma first_some_opt_skip: "(\<And>a. f (g a) = None) \<Longrightarrow> first_some f (opt_node v g) = None"
  by (cases v) (simp_all add: opt_node_def)

lemma first_some_opt_hit: "(\<And>a. f (g a) = Some (g a)) \<Longrightarrow> first_some f (opt_node v g) = map_option g v"
  by (cases v) (simp_all add: opt_node_def)

definition saved_cb :: "tc_map_custom_blocks_extension \<Rightarrow> nbt_node" where
  "saved_cb cb = nbt_make_compound ''CustomBlocks''
     [nbt_make_int ''ExtensionVersion'' (cb_extension_version cb),
      nbt_make_short ''SupportLevel'' (cb_support_level cb),
      nbt_make ''Fallback'' (TagByteArray (the (cb_fallback_blocks cb)))]"

lemma save_custom_blocks_ok:
  "cb_fallback_blocks cb = Some f \<Longrightarrow> length f = 256 \<Longrightarrow> save_custom_blocks cb = Inr (saved_cb cb)"
  by (simp add: save_custom_blocks_def saved_cb_def nbt_make_byte_array_def)

lemma save_cpe_ok:
  assumes "map_file_ok m"
  shows "save_cpe m = Inr (if custom_blocks_extension m \<noteq> None \<or> env_colors_extension m \<noteq> None
         \<or> env_appearance_extension m \<noteq> None \<or> env_weather_extension m \<noteq> None
         \<or> block_definition_extensions m \<noteq> None
       then [nbt_make_compound ''CPE'' (opt_node (custom_blocks_extension m) saved_cb
              @ opt_node (env_colors_extension m) save_env_colors
              @ opt_node (env_aspect_extension m) save_env_aspect
              @ opt_node (env_appearance_extension m) save_env_appearance
              @ opt_node (env_weather_extension m) save_env_weather
              @ opt_node (block_definition_extensions m) save_block_definitions)] else [])"
proof (cases "custom_blocks_extension m")
  case (Some cb)
  with assms obtain f where "cb_fallback_blocks cb = Some f" "length f = 256" by (auto simp: map_file_ok_def)
  with Some show ?thesis by (simp add: save_cpe_def save_custom_blocks_ok opt_node_def)
qed (simp add: save_cpe_def opt_node_def)

lemma path_find_parts [simp]:
  "path_find (saved_cb cb) [x] = (if x = ''CustomBlocks'' then Some (saved_cb cb) else None)"
  "path_find (save_env_colors ec) [x] = (if x = ''EnvColors'' then Some (save_env_colors ec) else None)"
  "path_find (save_env_aspect ea) [x] = (if x = ''EnvMapAspect'' then Some (save_env_aspect ea) else None)"
  "path_find (save_env_appearance ap) [x] = (if x = ''EnvMapAppearance'' then Some (save_env_appearance ap) else None)"
  "path_find (save_env_weather ew) [x] = (if x = ''EnvWeatherType'' then Some (save_env_weather ew) else None)"
  "path_find (save_block_definitions bd) [x] = (if x = ''BlockDefinitions'' then Some (save_block_definitions bd) else None)"
  by (auto simp: saved_cb_def save_env_colors_def save_env_aspect_def save_env_appearance_def
      save_env_weather_def save_block_definitions_def make_simps)

lemma cpe_parts:
  assumes "map_file_ok m" and "save_cpe m = Inr cpe"
  shows "cpe_part cpe ''CustomBlocks'' = map_option saved_cb (custom_blocks_extension m)"
    and "cpe_part cpe ''EnvColors'' = map_option save_env_colors (env_colors_extension m)"
    and "cpe_part cpe ''EnvAspect'' = None"
    and "cpe_part cpe ''EnvMapAppearance'' = map_option save_env_appearance (env_appearance_extension m)"
    and "cpe_part cpe ''EnvWeatherType'' = map_option save_env_weather (env_weather_extension m)"
    and "cpe_part cpe ''BlockDefinitions'' = map_option save_block_definitions (block_definition_extensions m)"
proof -
  have c: "cpe = (if custom_blocks_extension m \<noteq> None \<or> env_colors_extension m \<noteq> None
         \<or> env_appearance_extension m \<noteq> None \<or> env_weather_extension m \<noteq> None
         \<or> block_definition_extensions m \<noteq> None
       then [nbt_make_compound ''CPE'' (opt_node (custom_blocks_extension m) saved_cb
              @ opt_node (env_colors_extension m) save_env_colors
              @ opt_node (env_aspect_extension m) save_env_aspect
              @ opt_node (env_appearance_extension m) save_env_appearance
              @ opt_node (env_weather_extension m) save_env_weather
              @ opt_node (block_definition_extensions m) save_block_definitions)] else [])"
    using assms(2) save_cpe_ok [OF assms(1)] by simp
  show "cpe_part cpe ''CustomBlocks'' = map_option saved_cb (custom_blocks_extension m)"
    unfolding c by (cases "custom_blocks_extension m")
      (simp_all add: cpe_part_def nbt_make_compound_def first_some_opt_skip first_some_opt_hit del: first_some_opt_node)
  show "cpe_part cpe ''EnvColors'' = map_option save_env_colors (env_colors_extension m)"
    unfolding c by (cases "env_colors_extension m")
      (simp_all add: cpe_part_def nbt_make_compound_def first_some_opt_skip first_some_opt_hit del: first_some_opt_node)
  show "cpe_part cpe ''EnvAspect'' = None"
    unfolding c by (simp add: cpe_part_def nbt_make_compound_def first_some_opt_skip del: first_some_opt_node)
  show "cpe_part cpe ''EnvMapAppearance'' = map_option save_env_appearance (env_appearance_extension m)"
    unfolding c by (cases "env_appearance_extension m")
      (simp_all add: cpe_part_def nbt_make_compound_def first_some_opt_skip first_some_opt_hit del: first_some_opt_node)
  show "cpe_part cpe ''EnvWeatherType'' = map_option save_env_weather (env_weather_extension m)"
    unfolding c by (cases "env_weather_extension m")
      (simp_all add: cpe_part_def nbt_make_compound_def first_some_opt_skip first_some_opt_hit del: first_some_opt_node)
  show "cpe_part cpe ''BlockDefinitions'' = map_option save_block_definitions (block_definition_extensions m)"
    unfolding c by (cases "block_definition_extensions m")
      (simp_all add: cpe_part_def nbt_make_compound_def first_some_opt_skip first_some_opt_hit del: first_some_opt_node)
qed

text \<open>The extension readers on the compounds the writers build.\<close>

lemma load_custom_blocks_saved:
  assumes "cb_fallback_blocks cb = Some f" "length f = 256"
  shows "load_custom_blocks (saved_cb cb) m = Inr (Some (m\<lparr>custom_blocks_extension := Some cb\<rparr>))"
  using assms by (cases cb) (simp add: load_custom_blocks_def saved_cb_def load_simps version_or_1_def)

lemma load_env_colors_saved:
  "load_env_colors (save_env_colors ec) m = Inr (Some (m\<lparr>env_colors_extension := Some ec\<rparr>))"
  by (cases ec; cases "ec_sky ec"; cases "ec_cloud ec"; cases "ec_fog ec"; cases "ec_ambient ec"; cases "ec_sunlight ec")
    (simp add: load_env_colors_def save_env_colors_def save_color_def load_color_def load_simps version_or_1_def)

lemma load_env_appearance_saved:
  assumes "appearance_ok m0 ea" and "y_size m = y_size m0"
  shows "load_env_appearance (save_env_appearance ea) m = Inr (Some (m\<lparr>env_appearance_extension := Some ea\<rparr>))"
  using assms by (cases ea) (auto simp: load_env_appearance_def save_env_appearance_def load_simps
      appearance_version_def appearance_ok_def Let_def)

lemma load_env_weather_saved:
  "load_env_weather (save_env_weather ew) m = Inr (Some (m\<lparr>env_weather_extension := Some ew\<rparr>))"
  by (cases ew) (simp add: load_env_weather_def save_env_weather_def load_simps version_or_1_def)

text \<open>The two permissions of a block definition come back negated.\<close>

definition flip_permissions :: "tc_map_block_definition \<Rightarrow> tc_map_block_definition" where
  "flip_permissions d = d\<lparr>def_allow_placement := \<not> def_allow_placement d,
     def_allow_deletion := \<not> def_allow_deletion d\<rparr>"

lemma block_name_of_neq:
  "take 5 s \<noteq> ''Block'' \<Longrightarrow> block_name_of i \<noteq> s" "block_name_of i \<noteq> ''BlockDraw''"
proof -
  show "take 5 s \<noteq> ''Block'' \<Longrightarrow> block_name_of i \<noteq> s" by (auto simp: block_name_of_def Let_def)
  have "last (block_name_of i) = digit (unat i mod 10)" by (simp add: block_name_of_def Let_def)
  moreover have "digit (unat i mod 10) \<noteq> CHR ''w''"
  proof
    assume "digit (unat i mod 10) = CHR ''w''"
    then have "(of_char (digit (unat i mod 10)) :: nat) = of_char CHR ''w''" by simp
    moreover have "unat i mod 10 < 10" by simp
    ultimately show False by (simp add: digit_def)
  qed
  ultimately show "block_name_of i \<noteq> ''BlockDraw''" by auto
qed

lemma load_block_definition_saved:
  assumes "block_definition_ok d"
  shows "load_block_definition (save_block_definition d) = Some (flip_permissions d)"
  using assms by (cases d) (auto simp: load_block_definition_def save_block_definition_def load_simps
      block_definition_ok_def allow_flag_def flip_permissions_def block_name_of_neq)

lemma strncmp_prefix: "strncmp (xs @ ys) xs (length xs) = 0"
  by (induction xs) auto

lemma save_block_definition_compound: "is_block_compound (save_block_definition d)"
proof -
  have "strncmp (bytes_of (block_name_of i)) (bytes_of ''Block'') 5 = 0" for i
  proof -
    obtain r where "block_name_of i = ''Block'' @ r" unfolding block_name_of_def Let_def by blast
    then have "bytes_of (block_name_of i) = bytes_of ''Block'' @ bytes_of r" by (simp add: bytes_of_def)
    moreover have "length (bytes_of ''Block'') = 5" by (simp add: bytes_of_def)
    ultimately show ?thesis using strncmp_prefix [of "bytes_of ''Block''" "bytes_of r"] by metis
  qed
  then show ?thesis
    by (simp add: is_block_compound_def save_block_definition_def make_simps)
qed

lemma load_block_loop_saved:
  assumes "\<forall>d \<in> set defs. block_definition_ok d"
  shows "load_block_loop (map save_block_definition defs) acc = Some (rev acc @ map flip_permissions defs)"
  using assms
  by (induction defs arbitrary: acc) (simp_all add: save_block_definition_compound load_block_definition_saved)

lemma load_block_definitions_saved:
  assumes "\<forall>d \<in> set (bx_block_definitions bd). block_definition_ok d"
  shows "load_block_definitions (save_block_definitions bd) m = Inr (Some (m\<lparr>block_definition_extensions :=
    Some (bd\<lparr>bx_block_definitions := map flip_permissions (bx_block_definitions bd)\<rparr>)\<rparr>))"
proof -
  have "\<not> is_block_compound (nbt_make ''ExtensionVersion'' (TagInt v))" for v
    by (simp add: is_block_compound_def)
  then show ?thesis
    using assms by (cases bd) (simp add: load_block_definitions_def save_block_definitions_def load_simps
      version_or_1_def load_block_loop_saved)
qed

text \<open>
  The map that comes back: unchanged but for the aspect extension, which is lost, and the two
  permissions of the block definitions, which are negated.
\<close>

definition reloaded :: "tc_map \<Rightarrow> tc_map" where
  "reloaded m = m\<lparr>is_dirty := False, env_aspect_extension := None,
     block_definition_extensions := map_option
       (\<lambda>bd. bd\<lparr>bx_block_definitions := map flip_permissions (bx_block_definitions bd)\<rparr>)
       (block_definition_extensions m)\<rparr>"

lemma node_type_compound [simp]:
  "node_type (saved_cb cb) = 10" "node_type (save_env_colors ec) = 10"
  "node_type (save_env_appearance ap) = 10" "node_type (save_env_weather ew) = 10"
  "node_type (save_block_definitions bd) = 10"
  by (simp_all add: saved_cb_def save_env_colors_def save_env_appearance_def
      save_env_weather_def save_block_definitions_def make_simps)

lemma load_extension_part:
  assumes "map_file_ok m" "save_header m = Inr header" "save_blocks m = Inr blocks"
    and "CHR ''.'' \<in> set path" "path_pieces path = [''ClassicWorld'', ''Metadata'', ''CPE'', x]"
    and "cpe_part cpe x = map_option save e" and "\<And>v. node_type (save v) = 10"
  shows "load_extension (root_of header m blocks cpe) path k m0
    = (case e of None \<Rightarrow> Inr (Some m0) | Some v \<Rightarrow> k (save v) m0)"
  unfolding load_extension_def expect_cpe [OF assms(1-5)] assms(6)
  by (simp add: assms(7) split: option.split)

lemma load_extensions_saved:
  assumes ok: "map_file_ok m" and s: "save_header m = Inr header" "save_blocks m = Inr blocks" "save_cpe m = Inr cpe"
  shows "custom_blocks_extension m0 = None \<Longrightarrow>
      load_extension (root_of header m blocks cpe) ''ClassicWorld.Metadata.CPE.CustomBlocks'' load_custom_blocks m0
      = Inr (Some (m0\<lparr>custom_blocks_extension := custom_blocks_extension m\<rparr>))"
    and "env_colors_extension m0 = None \<Longrightarrow>
      load_extension (root_of header m blocks cpe) ''ClassicWorld.Metadata.CPE.EnvColors'' load_env_colors m0
      = Inr (Some (m0\<lparr>env_colors_extension := env_colors_extension m\<rparr>))"
    and "load_extension (root_of header m blocks cpe) ''ClassicWorld.Metadata.CPE.EnvAspect'' load_env_aspect m0
      = Inr (Some m0)"
    and "env_appearance_extension m0 = None \<Longrightarrow> y_size m0 = y_size m \<Longrightarrow>
      load_extension (root_of header m blocks cpe) ''ClassicWorld.Metadata.CPE.EnvMapAppearance'' load_env_appearance m0
      = Inr (Some (m0\<lparr>env_appearance_extension := env_appearance_extension m\<rparr>))"
    and "env_weather_extension m0 = None \<Longrightarrow>
      load_extension (root_of header m blocks cpe) ''ClassicWorld.Metadata.CPE.EnvWeatherType'' load_env_weather m0
      = Inr (Some (m0\<lparr>env_weather_extension := env_weather_extension m\<rparr>))"
    and "block_definition_extensions m0 = None \<Longrightarrow>
      load_extension (root_of header m blocks cpe) ''ClassicWorld.Metadata.CPE.BlockDefinitions'' load_block_definitions m0
      = Inr (Some (m0\<lparr>block_definition_extensions := map_option
         (\<lambda>bd. bd\<lparr>bx_block_definitions := map flip_permissions (bx_block_definitions bd)\<rparr>)
         (block_definition_extensions m)\<rparr>))"
proof -
  note part = load_extension_part [OF ok s(1,2)] and cpe = cpe_parts [OF ok s(3)]
  show "custom_blocks_extension m0 = None \<Longrightarrow>
      load_extension (root_of header m blocks cpe) ''ClassicWorld.Metadata.CPE.CustomBlocks'' load_custom_blocks m0
      = Inr (Some (m0\<lparr>custom_blocks_extension := custom_blocks_extension m\<rparr>))"
    by (subst part [OF _ _ cpe(1)], simp_all, cases "custom_blocks_extension m"; cases m0)
      (use ok in \<open>auto simp: map_file_ok_def load_custom_blocks_saved\<close>)
  show "env_colors_extension m0 = None \<Longrightarrow>
      load_extension (root_of header m blocks cpe) ''ClassicWorld.Metadata.CPE.EnvColors'' load_env_colors m0
      = Inr (Some (m0\<lparr>env_colors_extension := env_colors_extension m\<rparr>))"
    by (subst part [OF _ _ cpe(2)], simp_all, cases "env_colors_extension m"; cases m0)
      (auto simp: load_env_colors_saved)
  show "load_extension (root_of header m blocks cpe) ''ClassicWorld.Metadata.CPE.EnvAspect'' load_env_aspect m0
      = Inr (Some m0)"
    using expect_cpe [OF ok s(1,2), where path = "''ClassicWorld.Metadata.CPE.EnvAspect''" and x = "''EnvAspect''"]
    by (simp add: load_extension_def cpe(3))
  show "env_appearance_extension m0 = None \<Longrightarrow> y_size m0 = y_size m \<Longrightarrow>
      load_extension (root_of header m blocks cpe) ''ClassicWorld.Metadata.CPE.EnvMapAppearance'' load_env_appearance m0
      = Inr (Some (m0\<lparr>env_appearance_extension := env_appearance_extension m\<rparr>))"
  proof (subst part [OF _ _ cpe(4)])
    assume m0: "env_appearance_extension m0 = None" "y_size m0 = y_size m"
    show "(case env_appearance_extension m of None \<Rightarrow> Inr (Some m0)
        | Some v \<Rightarrow> load_env_appearance (save_env_appearance v) m0)
        = Inr (Some (m0\<lparr>env_appearance_extension := env_appearance_extension m\<rparr>))"
    proof (cases "env_appearance_extension m")
      case None
      with m0 show ?thesis by (cases m0) simp
    next
      case (Some ea)
      with ok have "appearance_ok m ea" by (simp add: map_file_ok_def)
      from load_env_appearance_saved [OF this m0(2)] Some show ?thesis by simp
    qed
  qed simp_all
  show "env_weather_extension m0 = None \<Longrightarrow>
      load_extension (root_of header m blocks cpe) ''ClassicWorld.Metadata.CPE.EnvWeatherType'' load_env_weather m0
      = Inr (Some (m0\<lparr>env_weather_extension := env_weather_extension m\<rparr>))"
    by (subst part [OF _ _ cpe(5)], simp_all, cases "env_weather_extension m"; cases m0)
      (auto simp: load_env_weather_saved)
  show "block_definition_extensions m0 = None \<Longrightarrow>
      load_extension (root_of header m blocks cpe) ''ClassicWorld.Metadata.CPE.BlockDefinitions'' load_block_definitions m0
      = Inr (Some (m0\<lparr>block_definition_extensions := map_option
         (\<lambda>bd. bd\<lparr>bx_block_definitions := map flip_permissions (bx_block_definitions bd)\<rparr>)
         (block_definition_extensions m)\<rparr>))"
    by (subst part [OF _ _ cpe(6)], simp_all, cases "block_definition_extensions m"; cases m0)
      (use ok in \<open>auto simp: map_file_ok_def load_block_definitions_saved\<close>)
qed

lemma bindL_Some [simp]: "bindL (Inr (Some a)) k = k a"
  by (simp add: bindL_def)

lemma load_saved_tree:
  assumes ok: "map_file_ok m" and tree: "save_tree m = Inr root"
  shows "tc_map_load now path (Some root) = Inr (Some (reloaded m))"
proof -
  obtain header blocks cpe where s: "save_header m = Inr header" "save_blocks m = Inr blocks"
    "save_cpe m = Inr cpe" "root = root_of header m blocks cpe"
    using tree by (auto simp: save_tree_def root_of_def split: sum.splits)
  have t: "node_type (root_of header m blocks cpe) = 10" by (simp add: root_of_def make_simps)
  have v: "map_volume (m0\<lparr>x_size := x_size m, y_size := y_size m, z_size := z_size m\<rparr>) = map_volume m" for m0
    by (simp add: map_volume_def)
  show ?thesis
    unfolding tc_map_load_def s(4)
    by (simp add: t empty_map_def load_header_saved [OF ok s(1)] load_origin_saved [OF ok s(1,2)]
        load_times_saved [OF ok s(1)] load_spawn_saved [OF ok s(1)] load_blocks_saved [OF ok s(1,2)]
        load_extensions_saved [OF ok s(1-3)] map_volume_def reloaded_def)
qed

section \<open>Maps that were loaded\<close>

text \<open>What the extension readers leave alone.\<close>

definition same_blocks :: "tc_map \<Rightarrow> tc_map \<Rightarrow> bool" where
  "same_blocks m m' \<longleftrightarrow> x_size m' = x_size m \<and> y_size m' = y_size m \<and> z_size m' = z_size m
     \<and> block_array m' = block_array m \<and> block_array2 m' = block_array2 m
     \<and> block_array_count m' = block_array_count m \<and> block_array2_count m' = block_array2_count m
     \<and> is_dirty m' = is_dirty m"

lemma need_eq_Some: "need v k = Inr (Some b) \<longleftrightarrow> (\<exists>a. v = Some a \<and> k a = Inr (Some b))"
  by (simp add: need_def split: option.split)

lemma guardL_eq_Some: "guardL c k = Inr (Some b) \<longleftrightarrow> c \<and> k = Inr (Some b)"
  by (simp add: guardL_def)

lemma bindL_eq_Some: "bindL v k = Inr (Some b) \<longleftrightarrow> (\<exists>a. v = Inr (Some a) \<and> k a = Inr (Some b))"
  by (simp add: bindL_def split: sum.split option.split)

lemma okL_eq_Some: "okL v k = Inr (Some b) \<longleftrightarrow> (\<exists>a. v = Inr a \<and> k a = Inr (Some b))"
  by (simp add: okL_def split: sum.split)

lemmas load_elims = need_eq_Some guardL_eq_Some bindL_eq_Some okL_eq_Some

lemma same_blocks_updates:
  "same_blocks m (m\<lparr>custom_blocks_extension := cb\<rparr>)" "same_blocks m (m\<lparr>env_colors_extension := ec\<rparr>)"
  "same_blocks m (m\<lparr>env_aspect_extension := ea\<rparr>)" "same_blocks m (m\<lparr>env_appearance_extension := ap\<rparr>)"
  "same_blocks m (m\<lparr>env_weather_extension := ew\<rparr>)" "same_blocks m (m\<lparr>block_definition_extensions := bd\<rparr>)"
  by (simp_all add: same_blocks_def)

lemma custom_blocks_same_blocks: "load_custom_blocks ext m = Inr (Some m') \<Longrightarrow> same_blocks m m'"
  unfolding load_custom_blocks_def Let_def need_eq_Some guardL_eq_Some
  by (elim exE conjE) (auto simp: need_eq_Some same_blocks_updates split: if_splits)

lemma env_colors_same_blocks: "load_env_colors ext m = Inr (Some m') \<Longrightarrow> same_blocks m m'"
  unfolding load_env_colors_def Let_def need_eq_Some guardL_eq_Some
  by (elim exE conjE) (auto simp: need_eq_Some same_blocks_updates split: if_splits)

lemma env_aspect_same_blocks: "load_env_aspect ext m = Inr (Some m') \<Longrightarrow> same_blocks m m'"
  unfolding load_env_aspect_def Let_def need_eq_Some guardL_eq_Some
  by (elim exE conjE) (auto simp: need_eq_Some same_blocks_updates split: if_splits)

lemma env_appearance_same_blocks: "load_env_appearance ext m = Inr (Some m') \<Longrightarrow> same_blocks m m'"
  unfolding load_env_appearance_def Let_def need_eq_Some guardL_eq_Some
  by (elim exE conjE) (auto simp: need_eq_Some same_blocks_updates split: if_splits)

lemma env_weather_same_blocks: "load_env_weather ext m = Inr (Some m') \<Longrightarrow> same_blocks m m'"
  unfolding load_env_weather_def Let_def need_eq_Some guardL_eq_Some
  by (elim exE conjE) (auto simp: need_eq_Some same_blocks_updates split: if_splits)

lemma block_definitions_same_blocks: "load_block_definitions ext m = Inr (Some m') \<Longrightarrow> same_blocks m m'"
  unfolding load_block_definitions_def Let_def need_eq_Some guardL_eq_Some
  by (elim exE conjE) (auto simp: need_eq_Some same_blocks_updates split: if_splits)

lemma load_extension_same_blocks:
  assumes "load_extension root path k m = Inr (Some m')"
    and "\<And>ext m m'. k ext m = Inr (Some m') \<Longrightarrow> same_blocks m m'"
  shows "same_blocks m m'"
  using assms by (auto simp: load_extension_def same_blocks_def split: option.splits)

definition blocks_ok :: "tc_map \<Rightarrow> bool" where
  "blocks_ok m \<longleftrightarrow> \<not> is_dirty m
     \<and> (\<exists>a. block_array m = Some a \<and> block_array_count m = length a \<and> of_nat (length a) = map_volume m
          \<and> (\<forall>a2. block_array2 m = Some a2 \<longrightarrow> block_array2_count m = length a2 \<and> length a \<le> length a2 * 4))"

lemma same_blocks_ok: "same_blocks m m' \<Longrightarrow> blocks_ok m \<Longrightarrow> blocks_ok m'"
  by (simp add: same_blocks_def blocks_ok_def map_volume_def)

lemma load_extension_blocks_ok:
  assumes "blocks_ok m" and "load_extension root path k m = Inr (Some m')"
    and "\<And>ext m m'. k ext m = Inr (Some m') \<Longrightarrow> same_blocks m m'"
  shows "blocks_ok m'"
  using load_extension_same_blocks [OF assms(2,3)] assms(1) by (rule same_blocks_ok)

lemma load_prefix_clean:
  "load_header path root m = Inr (Some m') \<Longrightarrow> is_dirty m' = is_dirty m \<and> block_array2 m' = block_array2 m"
  "load_origin root m = Inr (Some m') \<Longrightarrow> is_dirty m' = is_dirty m \<and> block_array2 m' = block_array2 m"
  "load_times now root m = Inr (Some m') \<Longrightarrow> is_dirty m' = is_dirty m \<and> block_array2 m' = block_array2 m"
  "load_spawn root m = Inr (Some m') \<Longrightarrow> is_dirty m' = is_dirty m \<and> block_array2 m' = block_array2 m"
  by (auto simp: load_elims load_header_def load_origin_def load_times_def load_spawn_def Let_def)

lemma load_blocks_ok:
  assumes "load_blocks root m = Inr (Some m')" and "\<not> is_dirty m" and "block_array2 m = None"
  shows "blocks_ok m'"
  using assms by (auto simp: load_blocks_def load_elims blocks_ok_def map_volume_def Let_def split: option.splits)

lemma tc_map_load_blocks_ok:
  assumes "tc_map_load now path parsed = Inr (Some m)"
  shows "blocks_ok m"
proof -
  obtain root m1 m2 m3 m4 m5 m6 m7 m8 m9 m10 where s:
    "load_header path root empty_map = Inr (Some m1)" "load_origin root m1 = Inr (Some m2)"
    "load_times now root m2 = Inr (Some m3)" "load_spawn root m3 = Inr (Some m4)"
    "load_blocks root m4 = Inr (Some m5)"
    and e: "load_extension root ''ClassicWorld.Metadata.CPE.CustomBlocks'' load_custom_blocks m5 = Inr (Some m6)"
    "load_extension root ''ClassicWorld.Metadata.CPE.EnvColors'' load_env_colors m6 = Inr (Some m7)"
    "load_extension root ''ClassicWorld.Metadata.CPE.EnvAspect'' load_env_aspect m7 = Inr (Some m8)"
    "load_extension root ''ClassicWorld.Metadata.CPE.EnvMapAppearance'' load_env_appearance m8 = Inr (Some m9)"
    "load_extension root ''ClassicWorld.Metadata.CPE.EnvWeatherType'' load_env_weather m9 = Inr (Some m10)"
    "load_extension root ''ClassicWorld.Metadata.CPE.BlockDefinitions'' load_block_definitions m10 = Inr (Some m)"
    using assms unfolding tc_map_load_def by (auto simp: bindL_eq_Some split: option.splits if_splits)
  have "\<not> is_dirty m4" "block_array2 m4 = None"
    using load_prefix_clean(1) [OF s(1)] load_prefix_clean(2) [OF s(2)] load_prefix_clean(3) [OF s(3)]
      load_prefix_clean(4) [OF s(4)] by (simp_all add: empty_map_def)
  then have "blocks_ok m5" by (rule load_blocks_ok [OF s(5)])
  then have "blocks_ok m6"
    by (rule load_extension_blocks_ok [OF _ e(1)]) (erule custom_blocks_same_blocks)
  then have "blocks_ok m7"
    by (rule load_extension_blocks_ok [OF _ e(2)]) (erule env_colors_same_blocks)
  then have "blocks_ok m8"
    by (rule load_extension_blocks_ok [OF _ e(3)]) (erule env_aspect_same_blocks)
  then have "blocks_ok m9"
    by (rule load_extension_blocks_ok [OF _ e(4)]) (erule env_appearance_same_blocks)
  then have "blocks_ok m10"
    by (rule load_extension_blocks_ok [OF _ e(5)]) (erule env_weather_same_blocks)
  then show ?thesis
    by (rule load_extension_blocks_ok [OF _ e(6)]) (erule block_definitions_same_blocks)
qed

lemma map_volume_exact:
  assumes "0 < sint (x_size m)" "0 < sint (y_size m)" "0 < sint (z_size m)"
    and "sint (x_size m) * sint (y_size m) * sint (z_size m) < 2 ^ 31"
  shows "uint (map_volume m) = sint (x_size m) * sint (y_size m) * sint (z_size m)"
proof -
  let ?I = "sint (x_size m) * sint (y_size m) * sint (z_size m)"
  have b: "0 \<le> ?I" using assms by simp
  have "(scast (x_size m) * scast (y_size m) * scast (z_size m) :: pint32) = word_of_int ?I" by simp
  then have "map_volume m = word_of_int ?I"
    unfolding map_volume_def by (simp only: scast_eq sint_word_of_int_32 [OF b assms(4)])
  then have "unat (map_volume m) = nat ?I" using unat_word_of_int_64 [OF b assms(4)] by simp
  then show ?thesis using b by (metis nat_0_le uint_nat)
qed

lemma blocks_ok_wf:
  assumes ok: "blocks_ok m" and len: "block_array_count m < 2 ^ 64"
    and dims: "0 < sint (x_size m)" "0 < sint (y_size m)" "0 < sint (z_size m)"
      "sint (x_size m) * sint (y_size m) * sint (z_size m) < 2 ^ 31"
  shows "map_wf m"
proof -
  obtain a where a: "block_array m = Some a" "block_array_count m = length a" "of_nat (length a) = map_volume m"
    and a2: "\<And>a2. block_array2 m = Some a2 \<Longrightarrow> length a \<le> length a2 * 4"
    using ok by (auto simp: blocks_ok_def)
  have "uint (of_nat (length a) :: psize) = int (length a)"
    using len a(2) by (simp add: uint_nat unat_of_nat)
  then have "int (length a) = sint (x_size m) * sint (y_size m) * sint (z_size m)"
    using map_volume_exact [OF dims] a(3) by simp
  with a a2 dims show ?thesis by (force simp: map_wf_def)
qed

section \<open>Dumping the saved tree\<close>

definition string_field_ok :: "cstring option \<Rightarrow> bool" where
  "string_field_ok v \<longleftrightarrow> (case v of None \<Rightarrow> True | Some s \<Rightarrow> nbt_string_ok s)"

text \<open>The strings and arrays of a map that the file format can hold.\<close>

definition map_strings_ok :: "tc_map \<Rightarrow> bool" where
  "map_strings_ok m \<longleftrightarrow> string_field_ok (map_name m) \<and> string_field_ok (created_by_service m)
     \<and> string_field_ok (created_by_username m) \<and> string_field_ok (map_gen_software m)
     \<and> string_field_ok (map_gen_name m)
     \<and> block_array_count m \<le> 2147483647 \<and> block_array2_count m \<le> 2147483647
     \<and> (\<forall>ap. env_appearance_extension m = Some ap \<longrightarrow> string_field_ok (ap_texture_url ap))
     \<and> (\<forall>bd. block_definition_extensions m = Some bd \<longrightarrow>
          (\<forall>d \<in> set (bx_block_definitions bd). string_field_ok (def_block_name d)))"

lemma node_ok_make [simp]:
  "node_ok True (nbt_make nm p) \<longleftrightarrow> nbt_string_ok (bytes_of nm) \<and> payload_ok p"
  by (simp add: nbt_make_def)

lemma set_opt_node [simp]: "set (opt_node v f) = f ` set_option v"
  by (cases v) (simp_all add: opt_node_def)

lemma payload_ok_string: "string_field_ok v \<Longrightarrow> nbt_string_ok (case v of None \<Rightarrow> [] | Some s \<Rightarrow> s)"
  by (cases v) (simp_all add: string_field_ok_def nbt_string_ok_def)

lemma string_ok_name: "length s \<le> 32767 \<Longrightarrow> CHR 0x00 \<notin> set s \<Longrightarrow> nbt_string_ok (bytes_of s)"
proof -
  assume "length s \<le> 32767" "CHR 0x00 \<notin> set s"
  moreover have "(0 :: pchar) = of_nat (of_char CHR 0x00)" by simp
  ultimately show ?thesis
    unfolding nbt_string_ok_def bytes_of_def set_map image_iff by (metis byte_inject length_map)
qed

lemma block_name_ok: "nbt_string_ok (bytes_of (block_name_of i))"
proof -
  have d: "n < 10 \<Longrightarrow> CHR 0x00 \<noteq> digit n" for n
  proof
    assume "n < 10" "CHR 0x00 = digit n"
    then have "(of_char (digit n) :: nat) = of_char CHR 0x00" by simp
    with \<open>n < 10\<close> show False by (simp add: digit_def)
  qed
  have "unat i < 2 ^ 8" using unsigned_less [of i, where 'a = nat] by simp
  then have "unat i div 100 < 10" by simp
  moreover have "unat i div 10 mod 10 < 10" "unat i mod 10 < 10" by simp_all
  ultimately show ?thesis
    by (intro string_ok_name) (simp_all add: block_name_of_def Let_def d)
qed

lemmas saved_node = make_simps payload_ok_string string_ok_name

lemma header_nodes_ok:
  assumes "map_file_ok m" "map_strings_ok m" "save_header m = Inr header" "n \<in> set header"
  shows "node_ok True n"
  using assms save_header_ok [OF assms(1)]
  by (auto simp: saved_node string_field_ok_def map_strings_ok_def map_file_ok_def)

lemma origin_nodes_ok:
  assumes "map_strings_ok m" "n \<in> set (save_origin m)"
  shows "node_ok True n"
  using assms
  by (auto simp: save_origin_def map_strings_ok_def string_field_ok_def saved_node split: if_splits option.splits)

lemma blocks_nodes_ok:
  assumes "map_file_ok m" "map_strings_ok m" "save_blocks m = Inr blocks" "n \<in> set blocks"
  shows "node_ok True n"
  using assms save_blocks_ok [OF assms(1)]
  by (auto simp: saved_node map_strings_ok_def map_file_ok_def)

lemma block_definition_node_ok:
  assumes "string_field_ok (def_block_name d)"
  shows "node_ok True (save_block_definition d)"
  using assms by (simp add: save_block_definition_def saved_node block_name_ok min_le_iff_disj)

lemma cpe_nodes_ok:
  assumes "map_file_ok m" "map_strings_ok m" "save_cpe m = Inr cpe" "n \<in> set cpe"
  shows "node_ok True n"
proof -
  have 1: "node_ok True (saved_cb cb)" if "custom_blocks_extension m = Some cb" for cb
    using that assms(1) by (auto simp: saved_cb_def saved_node map_file_ok_def)
  have 2: "node_ok True (save_env_colors ec)" for ec
    by (simp add: save_env_colors_def save_color_def saved_node)
  have 3: "node_ok True (save_env_aspect ea)" for ea
    by (simp add: save_env_aspect_def saved_node)
  have 4: "node_ok True (save_env_appearance ap)" if "env_appearance_extension m = Some ap" for ap
    using that assms(2) by (auto simp: save_env_appearance_def saved_node map_strings_ok_def)
  have 5: "node_ok True (save_env_weather ew)" for ew
    by (simp add: save_env_weather_def saved_node)
  have 6: "node_ok True (save_block_definitions bd)" if "block_definition_extensions m = Some bd" for bd
    using that assms(2) block_definition_node_ok
    by (auto simp: save_block_definitions_def saved_node map_strings_ok_def)
  show ?thesis
    using assms(3,4) save_cpe_ok [OF assms(1)]
    by (auto simp: nbt_make_compound_def string_ok_name 2 3 5 intro: 1 4 6 split: if_splits)
qed

lemma save_tree_ok:
  assumes "map_file_ok m"
  shows "\<exists>root. save_tree m = Inr root"
  using save_header_ok [OF assms] save_blocks_ok [OF assms] save_cpe_ok [OF assms]
  by (simp add: save_tree_def)

lemma saved_tree_node_ok:
  assumes ok: "map_file_ok m" "map_strings_ok m" and root: "save_tree m = Inr root"
  shows "node_ok True root"
proof -
  obtain header blocks cpe where s: "save_header m = Inr header" "save_blocks m = Inr blocks"
    "save_cpe m = Inr cpe" "root = root_of header m blocks cpe"
    using root by (auto simp: save_tree_def root_of_def split: sum.splits)
  have "node_ok True n" if "n \<in> set (save_times m @ [save_spawn m])" for n
    using that by (auto simp: save_times_def save_spawn_def saved_node)
  then show ?thesis
    using header_nodes_ok [OF ok s(1)] origin_nodes_ok [OF ok(2)] blocks_nodes_ok [OF ok s(2)]
      cpe_nodes_ok [OF ok s(3)]
    by (auto simp: s(4) root_of_def nbt_make_compound_def string_ok_name)
qed

lemma file_ok_clean [simp]:
  "map_file_ok (m\<lparr>is_dirty := b\<rparr>) = map_file_ok m" "map_strings_ok (m\<lparr>is_dirty := b\<rparr>) = map_strings_ok m"
  by (simp_all add: map_file_ok_def map_strings_ok_def map_volume_def appearance_ok_def cong: option.case_cong)

lemma save_load_file:
  assumes ok: "map_file_ok m" "map_strings_ok m" "is_dirty m"
    and zlib: "\<And>root b. save_tree (m\<lparr>is_dirty := False\<rparr>) = Inr root \<Longrightarrow> nbt_dump_binary root = Inr (NBT_OK, b)
      \<Longrightarrow> \<exists>z. gz b = Some z \<and> unz z = Some b"
  shows "\<exists>file. tc_map_save gz True None old m = Inr (True, m\<lparr>is_dirty := False\<rparr>, Some file)
    \<and> tc_map_load now path (nbt_parse_path unz (Some file)) = Inr (Some (reloaded m))"
proof -
  let ?m = "m\<lparr>is_dirty := False\<rparr>"
  have ok': "map_file_ok ?m" "map_strings_ok ?m" using ok by simp_all
  then obtain root where root: "save_tree ?m = Inr root" using save_tree_ok by blast
  obtain b where b: "nbt_dump_binary root = Inr (NBT_OK, b)" "nbt_parse b = Some (Some root)"
    using dump_parse [OF saved_tree_node_ok [OF ok' root], of "[]"] by auto
  then have "b \<noteq> []" by (auto simp: nbt_parse_def parse_named_tag_def read_generic_def)
  moreover obtain z where z: "gz b = Some z" "unz z = Some b" using zlib [OF root b(1)] by blast
  ultimately have "tc_map_save gz True None old m = Inr (True, ?m, Some z)"
    using ok(3) root b(1) by (simp add: tc_map_save_def Let_def nbt_dump_compressed_def)
  moreover have "tc_map_load now path (nbt_parse_path unz (Some z)) = Inr (Some (reloaded ?m))"
    using load_saved_tree [OF ok'(1) root] by (simp add: nbt_parse_path_def z b(2))
  moreover have "reloaded ?m = reloaded m" by (simp add: reloaded_def)
  ultimately show ?thesis by auto
qed

section \<open>Properties\<close>

text \<open>A map of one block with every optional part the format keeps.\<close>

definition sample_map :: tc_map where
  "sample_map = empty_map\<lparr>map_name := Some (bytes_of ''lobby''), uuid := replicate 16 7,
     x_size := 1, y_size := 1, z_size := 1, block_array := Some [3], block_array_count := 1,
     block_array2 := Some [1], block_array2_count := 1, created_by_username := Some (bytes_of ''op''),
     env_weather_extension := Some \<lparr>we_extension_version = 1, we_weather_type = 2\<rparr>, is_dirty := True\<rparr>"

lemma sample_map_ok: "map_file_ok sample_map" "map_strings_ok sample_map" "is_dirty sample_map"
  by (simp_all add: sample_map_def empty_map_def map_file_ok_def map_strings_ok_def string_field_ok_def
      nbt_string_ok_def bytes_of_def map_volume_def)

text \<open>
  [C11] Saving and loading a map: for a dirty map whose arrays have the sizes its dimensions say and
  whose strings the format can hold, \<open>tc_map_save\<close> succeeds and marks the map clean, and
  \<open>tc_map_load\<close> on the file it wrote gives the map back, name, identity, blocks, spawn, times and
  extensions included, except as \<open>reloaded\<close> says: the aspect extension is dropped and the placement
  and deletion permissions of block definitions are negated. zlib is used through its contract that
  decompressing what was compressed gives the bytes back.
\<close>

theorem map_file_roundtrip:
  assumes "map_file_ok m" and "map_strings_ok m" and "is_dirty m"
    and "\<And>b. \<exists>z. gz b = Some z \<and> unz z = Some b"
  shows "\<exists>file. tc_map_save gz True None old m = Inr (True, m\<lparr>is_dirty := False\<rparr>, Some file)
    \<and> tc_map_load now path (nbt_parse_path unz (Some file)) = Inr (Some (reloaded m))"
  using assms(1-3) by (rule save_load_file) (rule assms(4))

theorem map_file_roundtrip_witness:
  "\<exists>file. tc_map_save Some True None None sample_map = Inr (True, sample_map\<lparr>is_dirty := False\<rparr>, Some file)
    \<and> tc_map_load 0 [] (nbt_parse_path Some (Some file)) = Inr (Some (reloaded sample_map))"
  by (rule map_file_roundtrip [OF sample_map_ok]) simp

text \<open>
  [C12] A loaded map is consistent: whatever the tree read from the file, if \<open>tc_map_load\<close> accepts it
  then the map is clean, its count is the length of the block array and, with positive dimensions
  whose product fits an \<open>int\<close>, the map is well-formed, so that the block accessors stay inside the
  arrays.
\<close>

theorem loaded_map_well_formed:
  assumes "tc_map_load now path parsed = Inr (Some m)"
    and "0 < sint (x_size m)" "0 < sint (y_size m)" "0 < sint (z_size m)"
    and "sint (x_size m) * sint (y_size m) * sint (z_size m) < 2 ^ 31"
    and "block_array_count m < 2 ^ 64"
  shows "\<not> is_dirty m \<and> map_wf m"
  using blocks_ok_wf [OF tc_map_load_blocks_ok [OF assms(1)] assms(6,2-5)] tc_map_load_blocks_ok [OF assms(1)]
  by (simp add: blocks_ok_def)

theorem loaded_map_well_formed_witness:
  "\<exists>root. save_tree sample_map = Inr root \<and> tc_map_load 0 [] (Some root) = Inr (Some (reloaded sample_map))
    \<and> \<not> is_dirty (reloaded sample_map) \<and> map_wf (reloaded sample_map)"
proof -
  obtain root where root: "save_tree sample_map = Inr root" using save_tree_ok [OF sample_map_ok(1)] by blast
  note load = load_saved_tree [OF sample_map_ok(1) root, of 0 "[]"]
  from loaded_map_well_formed [OF load] root load show ?thesis
    by (simp add: reloaded_def sample_map_def empty_map_def)
qed

text \<open>
  The map aspect extension does not survive a save: it is written as \<open>EnvMapAspect\<close> but looked
  up as \<open>EnvAspect\<close>, so a map that had one is loaded without it.
\<close>

theorem aspect_extension_lost:
  assumes "map_file_ok m" and "save_tree m = Inr root" and "env_aspect_extension m = Some ea"
  shows "\<exists>m'. tc_map_load now path (Some root) = Inr (Some m') \<and> env_aspect_extension m' = None"
  using load_saved_tree [OF assms(1,2)] by (simp add: reloaded_def)

definition sample_aspect :: tc_map_env_aspect_extension where
  "sample_aspect = \<lparr>as_side_block = 7, as_edge_block = 8, as_clouds_height = 64, as_clouds_speed = 0,
     as_edge_height = 32, as_use_exponential_fog = 0, as_side_offset = 0, as_weather_fade = 0,
     as_weather_speed = 0, as_extension_version = 1\<rparr>"

theorem aspect_extension_lost_witness:
  "\<exists>root m'. save_tree (sample_map\<lparr>env_aspect_extension := Some sample_aspect\<rparr>) = Inr root
    \<and> tc_map_load 0 [] (Some root) = Inr (Some m') \<and> env_aspect_extension m' = None"
proof -
  let ?m = "sample_map\<lparr>env_aspect_extension := Some sample_aspect\<rparr>"
  have ok: "map_file_ok ?m"
    using sample_map_ok(1) by (simp add: map_file_ok_def sample_map_def empty_map_def map_volume_def)
  obtain root where "save_tree ?m = Inr root" using save_tree_ok [OF ok] by blast
  with aspect_extension_lost [OF ok this, of sample_aspect 0 "[]"] show ?thesis by auto
qed

text \<open>
  The permissions of a block definition are negated by a save and a load: a block that could be
  placed and deleted can then not be, and the other way round.
\<close>

theorem block_permissions_inverted:
  assumes "block_definition_ok d"
  shows "\<exists>d'. load_block_definition (save_block_definition d) = Some d'
    \<and> def_allow_placement d' = (\<not> def_allow_placement d) \<and> def_allow_deletion d' = (\<not> def_allow_deletion d)
    \<and> def_block_id d' = def_block_id d \<and> def_block_name d' = def_block_name d
    \<and> def_textures d' = def_textures d"
  using load_block_definition_saved [OF assms] by (simp add: flip_permissions_def)

definition sample_definition :: tc_map_block_definition where
  "sample_definition = \<lparr>def_textures = replicate 6 1, def_coords = replicate 6 16, def_fog = replicate 4 0,
     def_block_name = Some (bytes_of ''Marble''), def_speed = 0, def_allow_placement = True,
     def_allow_deletion = True, def_transmits_light = 0, def_walk_sound = 1, def_shape = 16,
     def_block_draw = 0, def_block_id = 66\<rparr>"

theorem block_permissions_inverted_witness:
  "\<exists>d'. load_block_definition (save_block_definition sample_definition) = Some d' \<and> \<not> def_allow_placement d'"
proof -
  have "block_definition_ok sample_definition" by (simp add: block_definition_ok_def sample_definition_def)
  from block_permissions_inverted [OF this] show ?thesis by (auto simp: sample_definition_def)
qed

text \<open>
  A map file whose optional creation strings or times have another type is not rejected: the
  payload is read as the wrong member of the union, here a number as the pointer to a string.
\<close>

theorem load_confuses_types:
  "tc_map_load now path (Some (nbt_make_compound ''ClassicWorld''
     [nbt_make_byte ''FormatVersion'' 1, nbt_make ''UUID'' (TagByteArray (replicate 16 0)),
      nbt_make_short ''X'' 1, nbt_make_short ''Y'' 1, nbt_make_short ''Z'' 1,
      nbt_make_compound ''CreatedBy'' [nbt_make_int ''Service'' 0xDEAD]])) = Inl TypeConfusion"
  by (simp add: tc_map_load_def load_header_def load_origin_def load_simps)

end
