(* ===== verification/TC_NBT_File.thy ===== *)
theory TC_NBT_File
  imports TC_NBT
begin

text \<open>
  The growing buffers of \<^verbatim>\<open>cNBT/buffer.c\<close> and the loops of \<^verbatim>\<open>cNBT/nbt_loading.c\<close> that read, write,
  compress and decompress files with them in steps of 4096 bytes.

  Sizes are words and wrap. Of the memory of a buffer the bytes below \<open>len\<close> are kept, the others are
  undefined. A list of booleans says which allocations succeed; an exhausted list succeeds. zlib is a
  parameter: the stream that \<open>deflate\<close> makes of its input, and for \<open>inflate\<close> the bytes it delivers
  and what it returns after them; both fill the output they are given before they report an end.
  A loop that does not end is \<open>None\<close>.
\<close>

section \<open>Buffers\<close>

record buffer =
  buf_data :: "cstring option"
  buf_len :: psize
  buf_cap :: psize

definition BUFFER_INIT :: buffer where
  "BUFFER_INIT = \<lparr>buf_data = None, buf_len = 0, buf_cap = 0\<rparr>"

fun next_alloc :: "bool list \<Rightarrow> bool \<times> bool list" where
  "next_alloc [] = (True, [])"
| "next_alloc (ok # rest) = (ok, rest)"

text \<open>The result of the next functions says whether they failed.\<close>

definition lazy_init :: "bool list \<Rightarrow> bool \<times> buffer \<times> bool list" where
  "lazy_init mem = (let (ok, mem') = next_alloc mem
     in (\<not> ok, \<lparr>buf_data = (if ok then Some [] else None), buf_len = 0, buf_cap = 1024\<rparr>, mem'))"

definition init_if_null :: "buffer \<Rightarrow> bool list \<Rightarrow> bool \<times> buffer \<times> bool list" where
  "init_if_null b mem = (if buf_data b = None then lazy_init mem else (False, b, mem))"

definition buffer_free :: "buffer \<Rightarrow> buffer" where
  "buffer_free b = b\<lparr>buf_data := None, buf_len := 0, buf_cap := 0\<rparr>"

partial_function (option) grow_cap :: "psize \<Rightarrow> psize \<Rightarrow> psize option" where
  "grow_cap reserved_amount cap = (if cap < reserved_amount then grow_cap reserved_amount (cap * 2) else Some cap)"

definition buffer_reserve :: "buffer \<Rightarrow> psize \<Rightarrow> bool list \<Rightarrow> (bool \<times> buffer \<times> bool list) option" where
  "buffer_reserve b reserved_amount mem =
     (case init_if_null b mem of (failed, b, mem) \<Rightarrow>
        if failed then Some (True, b, mem)
        else if buf_cap b \<ge> reserved_amount then Some (False, b, mem)
        else case grow_cap reserved_amount (buf_cap b) of
               None \<Rightarrow> None
             | Some cap \<Rightarrow>
                 (case next_alloc mem of (ok, mem) \<Rightarrow>
                    if \<not> ok then Some (True, buffer_free b, mem) else Some (False, b\<lparr>buf_cap := cap\<rparr>, mem)))"

text \<open>A copy of bytes to the end of the buffer.\<close>

definition put_bytes :: "buffer \<Rightarrow> cstring \<Rightarrow> buffer outcome" where
  "put_bytes b bs =
     (case buf_data b of
        None \<Rightarrow> if bs = [] then Inr b else Inl NullDereference
      | Some d \<Rightarrow> if unat (buf_cap b) < unat (buf_len b) + length bs then Inl OutOfBounds
          else Inr (b\<lparr>buf_data := Some (d @ bs), buf_len := buf_len b + of_nat (length bs)\<rparr>))"

definition buffer_append :: "buffer \<Rightarrow> cstring \<Rightarrow> bool list \<Rightarrow> (fault + bool \<times> buffer \<times> bool list) option" where
  "buffer_append b bs mem =
     (case init_if_null b mem of (failed, b, mem) \<Rightarrow>
        if failed then Some (Inr (True, b, mem))
        else case buffer_reserve b (buf_len b + of_nat (length bs)) mem of
               None \<Rightarrow> None
             | Some (failed, b, mem) \<Rightarrow>
                 if failed then Some (Inr (True, b, mem))
                 else Some (case put_bytes b bs of Inl f \<Rightarrow> Inl f | Inr b \<Rightarrow> Inr (False, b, mem)))"

section \<open>Files and zlib\<close>

definition CHUNK_SIZE :: nat where "CHUNK_SIZE = 4096"

datatype zlib_ret = Z_STREAM_END | Z_BUF_ERROR | Z_DATA_ERROR | Z_NEED_DICT | Z_MEM_ERROR

record nbt_zlib =
  deflate_init_ok :: bool
  deflate_ok :: bool
  deflate_stream :: "int \<Rightarrow> cstring \<Rightarrow> cstring"
  inflate_init_ok :: bool
  inflate_bytes :: "cstring \<Rightarrow> cstring"
  inflate_ret :: "cstring \<Rightarrow> zlib_ret"

text \<open>
  The loop that \<open>read_file\<close>, \<open>__compress\<close> and \<open>__decompress\<close> share: room for a chunk, as much of the
  source as fits it, and again while the chunk was filled.
\<close>

partial_function (option) chunk_loop :: "cstring \<Rightarrow> buffer \<Rightarrow> bool list \<Rightarrow> (fault + nbt_status \<times> buffer) option" where
  "chunk_loop src b mem =
     (case buffer_reserve b (buf_len b + of_nat CHUNK_SIZE) mem of
        None \<Rightarrow> None
      | Some (failed, b, mem) \<Rightarrow>
          if failed then Some (Inr (NBT_EMEM, buffer_free b))
          else (case put_bytes b (take CHUNK_SIZE src) of
                  Inl f \<Rightarrow> Some (Inl f)
                | Inr b \<Rightarrow> if CHUNK_SIZE \<le> length src then chunk_loop (drop CHUNK_SIZE src) b mem else Some (Inr (NBT_OK, b))))"

text \<open>What follows a loop that ended: its result, or an error with the buffer freed.\<close>

definition finish_loop :: "nbt_status \<Rightarrow> (fault + nbt_status \<times> buffer) option \<Rightarrow> (fault + nbt_status \<times> buffer) option" where
  "finish_loop status r = (case r of Some (Inr (NBT_OK, b)) \<Rightarrow>
     Some (Inr (if status = NBT_OK then (NBT_OK, b) else (status, buffer_free b))) | _ \<Rightarrow> r)"

text \<open>\<open>error\<close> says that reading ends with \<open>ferror\<close> instead of the end of the file.\<close>

definition read_file :: "cstring \<Rightarrow> bool \<Rightarrow> bool list \<Rightarrow> (fault + nbt_status \<times> buffer) option" where
  "read_file content error mem = finish_loop (if error then NBT_EIO else NBT_OK) (chunk_loop content BUFFER_INIT mem)"

text \<open>
  Each element of \<open>writes\<close> is a call of \<open>fwrite\<close> that wrote that many bytes and whether \<open>ferror\<close>
  holds after it; an exhausted list writes everything. The result has the bytes in the file.
\<close>

fun write_file :: "cstring \<Rightarrow> (nat \<times> bool) list \<Rightarrow> nbt_status \<times> cstring" where
  "write_file bytes [] = (NBT_OK, bytes)"
| "write_file bytes ((n, error) # writes) =
     (if error then (NBT_EIO, take n bytes)
      else if length bytes \<le> n then (NBT_OK, bytes)
      else case write_file (drop n bytes) writes of (status, out) \<Rightarrow> (status, take n bytes @ out))"

text \<open>\<open>gzip\<close> is \<open>STRAT_GZIP\<close>.\<close>

definition compress :: "nbt_zlib \<Rightarrow> cstring \<Rightarrow> bool \<Rightarrow> bool list \<Rightarrow> (fault + nbt_status \<times> buffer) option" where
  "compress z bytes gzip mem =
     (let windowbits = (if gzip then 15 + 16 else 15) in
      if \<not> deflate_init_ok z then Some (Inr (NBT_EZ, BUFFER_INIT))
      else if length bytes mod 2 ^ 32 \<noteq> length bytes then Some (Inl AssertFailure)
      else if \<not> deflate_ok z then
        (case buffer_reserve BUFFER_INIT (of_nat CHUNK_SIZE) mem of
           None \<Rightarrow> None
         | Some (failed, b, _) \<Rightarrow> Some (Inr (if failed then NBT_EMEM else NBT_EZ, buffer_free b)))
      else chunk_loop (deflate_stream z windowbits bytes) BUFFER_INIT mem)"

definition decompress :: "nbt_zlib \<Rightarrow> cstring \<Rightarrow> bool list \<Rightarrow> (fault + nbt_status \<times> buffer) option" where
  "decompress z bytes mem =
     (if \<not> inflate_init_ok z then Some (Inr (NBT_EZ, BUFFER_INIT))
      else let input = take (length bytes mod 2 ^ 32) bytes
           in finish_loop (case inflate_ret z input of Z_STREAM_END \<Rightarrow> NBT_OK | Z_MEM_ERROR \<Rightarrow> NBT_EMEM | _ \<Rightarrow> NBT_EZ)
                (chunk_loop (inflate_bytes z input) BUFFER_INIT mem))"

text \<open>The bytes of a result whose buffer is not null.\<close>

definition buffer_bytes :: "(fault + nbt_status \<times> buffer) option \<Rightarrow> cstring option outcome option" where
  "buffer_bytes r = map_option (map_sum id (\<lambda>(_, b). buf_data b)) r"

definition nbt_parse_compressed :: "nbt_zlib \<Rightarrow> bool list \<Rightarrow> cstring \<Rightarrow> nbt_node option outcome option" where
  "nbt_parse_compressed z mem chunk =
     (case buffer_bytes (decompress z chunk mem) of
        Some (Inr (Some bytes)) \<Rightarrow> map_option Inr (nbt_parse bytes)
      | Some (Inr None) \<Rightarrow> Some (Inr None)
      | Some (Inl f) \<Rightarrow> Some (Inl f)
      | None \<Rightarrow> None)"

text \<open>\<open>mem1\<close> is for the file and \<open>mem2\<close> for what is in it.\<close>

definition nbt_parse_file :: "nbt_zlib \<Rightarrow> bool list \<Rightarrow> bool list \<Rightarrow> cstring \<Rightarrow> bool \<Rightarrow> nbt_node option outcome option" where
  "nbt_parse_file z mem1 mem2 content error =
     (case buffer_bytes (read_file content error mem1) of
        Some (Inr (Some bytes)) \<Rightarrow> nbt_parse_compressed z mem2 bytes
      | Some (Inr None) \<Rightarrow> Some (Inr None)
      | Some (Inl f) \<Rightarrow> Some (Inl f)
      | None \<Rightarrow> None)"

text \<open>The dump of a tree is a buffer of its own; an empty one was never allocated.\<close>

definition nbt_dump_file :: "nbt_zlib \<Rightarrow> bool list \<Rightarrow> nbt_node \<Rightarrow> bool \<Rightarrow> (nat \<times> bool) list
    \<Rightarrow> (fault + nbt_status \<times> cstring) option" where
  "nbt_dump_file z mem tree gzip writes =
     (case nbt_dump_binary tree of
        Inl f \<Rightarrow> Some (Inl f)
      | Inr (status, bytes) \<Rightarrow>
          if bytes = [] then Some (Inr (status, []))
          else (case compress z bytes gzip mem of
                  None \<Rightarrow> None
                | Some (Inl f) \<Rightarrow> Some (Inl f)
                | Some (Inr (status, b)) \<Rightarrow>
                    (case buf_data b of None \<Rightarrow> Some (Inr (status, [])) | Some out \<Rightarrow> Some (Inr (write_file out writes)))))"

section \<open>Growing\<close>

text \<open>Capacities are powers of two, from 1024 on.\<close>

definition caps :: "psize set" where
  "caps = (\<lambda>k. 2 ^ k) ` {10..63}"

lemma unat_cap: "k \<le> 63 \<Longrightarrow> unat (2 ^ k :: psize) = 2 ^ k"
proof -
  assume "k \<le> 63"
  then have "(2::nat) ^ k < 2 ^ 64" by (intro power_strict_increasing) simp_all
  then have "unat (of_nat (2 ^ k) :: psize) = 2 ^ k" by (simp add: unat_of_nat del: of_nat_power)
  then show ?thesis by simp
qed

lemma cap_in: "10 \<le> k \<Longrightarrow> k \<le> 63 \<Longrightarrow> 2 ^ k \<in> caps"
  by (auto simp: caps_def)

lemma grow_cap_enough:
  assumes "unat n \<le> 2 ^ 63" and "10 \<le> k" "k \<le> 63"
  shows "\<exists>c \<in> caps. grow_cap n (2 ^ k) = Some c \<and> n \<le> c \<and> 2 ^ k \<le> c"
  using assms(2,3)
proof (induction "63 - k" arbitrary: k)
  case 0
  then have "k = 63" by simp
  with assms(1) have "\<not> (2 ^ k :: psize) < n" using unat_cap [of k] by (simp add: word_less_nat_alt)
  then show ?case using cap_in [OF 0(2,3)] by (subst grow_cap.simps) (auto intro!: bexI [of _ "2 ^ k"])
next
  case (Suc j)
  show ?case
  proof (cases "(2 ^ k :: psize) < n")
    case True
    have "j = 63 - Suc k" "10 \<le> Suc k" "Suc k \<le> 63" using Suc by simp_all
    with Suc.hyps(1) [of "Suc k"] obtain c where c: "c \<in> caps" "grow_cap n (2 ^ Suc k) = Some c" "n \<le> c" by auto
    have "grow_cap n (2 ^ k) = Some c" using True c(2) by (subst grow_cap.simps) (simp add: mult.commute)
    moreover have "2 ^ k \<le> c" using True c(3) by (meson less_imp_le order.trans)
    ultimately show ?thesis using c(1,3) by blast
  next
    case False
    then show ?thesis using cap_in [OF Suc.prems] by (subst grow_cap.simps) (auto intro!: bexI [of _ "2 ^ k"])
  qed
qed

lemma cap_double: "c \<in> insert 0 caps \<Longrightarrow> c * 2 \<in> insert 0 caps"
proof -
  assume "c \<in> insert 0 caps"
  then consider "c = 0" | k where "c = 2 ^ k" "10 \<le> k" "k \<le> 63" by (auto simp: caps_def)
  then show ?thesis
  proof cases
    case 2
    show ?thesis
    proof (cases "k = 63")
      case True
      then show ?thesis by (simp add: 2(1))
    next
      case False
      then show ?thesis using 2 cap_in [of "Suc k"] by (simp add: mult.commute)
    qed
  qed simp
qed

lemma grow_cap_result: "grow_cap n c = Some d \<Longrightarrow> n \<le> d \<and> (c \<in> insert 0 caps \<longrightarrow> d \<in> insert 0 caps)"
proof (rule grow_cap.raw_induct [where P = "\<lambda>n c d. n \<le> d \<and> (c \<in> insert 0 caps \<longrightarrow> d \<in> insert 0 caps)"])
  fix g :: "psize \<Rightarrow> psize \<Rightarrow> psize option" and n c d
  assume IH: "\<And>n c d. g n c = Some d \<Longrightarrow> n \<le> d \<and> (c \<in> insert 0 caps \<longrightarrow> d \<in> insert 0 caps)"
    and r: "(if c < n then g n (c * 2) else Some c) = Some d"
  show "n \<le> d \<and> (c \<in> insert 0 caps \<longrightarrow> d \<in> insert 0 caps)"
    using IH [of n "c * 2" d] r cap_double [of c] by (auto split: if_splits)
qed simp

lemma cap_bound: "c \<in> insert 0 caps \<Longrightarrow> unat c \<le> 2 ^ 63"
proof -
  assume "c \<in> insert 0 caps"
  then consider "c = 0" | k where "c = 2 ^ k" "k \<le> 63" by (auto simp: caps_def)
  then show ?thesis
  proof cases
    case 2
    have "(2::nat) ^ k \<le> 2 ^ 63" by (intro power_increasing) (use 2 in simp_all)
    then show ?thesis unfolding 2(1) unat_cap [OF 2(2)] .
  qed simp
qed

lemma grow_cap_hangs: "2 ^ 63 < unat n \<Longrightarrow> c \<in> caps \<Longrightarrow> grow_cap n c = None"
  using grow_cap_result [of n c] cap_bound by (cases "grow_cap n c") (force simp: word_le_nat_alt)+

section \<open>Buffers hold what was appended\<close>

definition contents :: "buffer \<Rightarrow> cstring" where
  "contents b = (case buf_data b of None \<Rightarrow> [] | Some d \<Rightarrow> d)"

definition buffer_wf :: "buffer \<Rightarrow> bool" where
  "buffer_wf b \<longleftrightarrow> (case buf_data b of None \<Rightarrow> buf_len b = 0
     | Some d \<Rightarrow> unat (buf_len b) = length d \<and> length d \<le> unat (buf_cap b) \<and> buf_cap b \<in> caps)"

lemma buffer_init_wf [simp]: "buffer_wf BUFFER_INIT" "contents BUFFER_INIT = []" "buf_data BUFFER_INIT = None" "buf_len BUFFER_INIT = 0"
  by (simp_all add: buffer_wf_def contents_def BUFFER_INIT_def)

lemma buffer_free_init [simp]: "buffer_free b = BUFFER_INIT"
  by (simp add: buffer_free_def BUFFER_INIT_def)

lemma init_runs:
  assumes "buffer_wf b"
  obtains failed b' mem' where "init_if_null b mem = (failed, b', mem')" "buffer_wf b'" "failed \<Longrightarrow> buf_data b' = None"
    "\<not> failed \<Longrightarrow> buf_data b' = Some (contents b) \<and> buf_len b' = buf_len b" "mem = [] \<Longrightarrow> \<not> failed \<and> mem' = []"
proof -
  obtain ok mem' where m: "next_alloc mem = (ok, mem')" by fastforce
  show ?thesis
  proof (cases "buf_data b")
    case None
    show ?thesis
      by (rule that [of "\<not> ok" "\<lparr>buf_data = (if ok then Some [] else None), buf_len = 0, buf_cap = 1024\<rparr>" mem'])
        (use None m assms cap_in [of 10] in \<open>auto simp: init_if_null_def lazy_init_def buffer_wf_def contents_def\<close>)
  next
    case (Some d)
    then show ?thesis by (intro that [of False b mem]) (use assms in \<open>auto simp: init_if_null_def contents_def\<close>)
  qed
qed

lemma reserve_runs:
  assumes wf: "buffer_wf b" and n: "unat n \<le> 2 ^ 63"
  obtains failed b' mem' where "buffer_reserve b n mem = Some (failed, b', mem')" "buffer_wf b'" "failed \<Longrightarrow> buf_data b' = None"
    "\<not> failed \<Longrightarrow> buf_data b' = Some (contents b) \<and> buf_len b' = buf_len b \<and> n \<le> buf_cap b'" "mem = [] \<Longrightarrow> \<not> failed \<and> mem' = []"
proof -
  obtain failed b1 mem1 where i: "init_if_null b mem = (failed, b1, mem1)" "buffer_wf b1" "failed \<Longrightarrow> buf_data b1 = None"
    "\<not> failed \<Longrightarrow> buf_data b1 = Some (contents b) \<and> buf_len b1 = buf_len b" "mem = [] \<Longrightarrow> \<not> failed \<and> mem1 = []"
    using init_runs [OF wf] by blast
  show ?thesis
  proof (cases "failed \<or> n \<le> buf_cap b1")
    case True
    show ?thesis by (rule that [of failed b1 mem1]) (use i True in \<open>auto simp: buffer_reserve_def\<close>)
  next
    case False
    then have c: "buf_cap b1 \<in> caps" and d: "buf_data b1 = Some (contents b)" "buf_len b1 = buf_len b"
      using i(2,4) by (auto simp: buffer_wf_def)
    then obtain k where k: "buf_cap b1 = 2 ^ k" "10 \<le> k" "k \<le> 63" by (auto simp: caps_def)
    obtain cap where cap: "cap \<in> caps" "grow_cap n (buf_cap b1) = Some cap" "n \<le> cap" "buf_cap b1 \<le> cap"
      using grow_cap_enough [OF n k(2,3)] k(1) by auto
    obtain ok mem2 where m: "next_alloc mem1 = (ok, mem2)" by fastforce
    have "buffer_wf (b1\<lparr>buf_cap := cap\<rparr>)" using i(2) cap(1,4) d by (auto simp: buffer_wf_def word_le_nat_alt)
    then show ?thesis
      by (intro that [of "\<not> ok" "if ok then b1\<lparr>buf_cap := cap\<rparr> else BUFFER_INIT" mem2])
        (use i False cap d m in \<open>auto simp: buffer_reserve_def not_le\<close>)
  qed
qed

lemma put_runs:
  assumes wf: "buffer_wf b" and d: "buf_data b = Some d" and r: "length d + length bs \<le> unat (buf_cap b)"
  shows "\<exists>b'. put_bytes b bs = Inr b' \<and> buffer_wf b' \<and> buf_data b' = Some (d @ bs)"
proof -
  have l: "unat (buf_len b) = length d" and c: "buf_cap b \<in> caps" using wf d by (simp_all add: buffer_wf_def)
  have "length d + length bs < 2 ^ 64" using r cap_bound [of "buf_cap b"] c by simp
  then have "unat (buf_len b + of_nat (length bs)) = length d + length bs" by (simp add: l unat_word_ariths unat_of_nat)
  then show ?thesis using r c by (simp add: put_bytes_def d l buffer_wf_def)
qed

lemma length_words:
  assumes "buffer_wf b" "length (contents b) + k \<le> 2 ^ 63"
  shows "unat (buf_len b + of_nat k) = length (contents b) + k"
proof -
  have "unat (buf_len b) = length (contents b)" using assms(1) by (cases "buf_data b") (simp_all add: buffer_wf_def contents_def)
  then show ?thesis using assms(2) by (simp add: unat_word_ariths unat_of_nat)
qed


lemma chunk_loop_step:
  assumes "buffer_wf b" "length (contents b) + CHUNK_SIZE \<le> 2 ^ 63"
  obtains "chunk_loop src b mem = Some (Inr (NBT_EMEM, BUFFER_INIT))" "mem \<noteq> []"
  | b' mem' where "buffer_wf b'" "contents b' = contents b @ take CHUNK_SIZE src" "buf_data b' \<noteq> None" "mem = [] \<Longrightarrow> mem' = []"
    "chunk_loop src b mem = (if CHUNK_SIZE \<le> length src then chunk_loop (drop CHUNK_SIZE src) b' mem' else Some (Inr (NBT_OK, b')))"
proof -
  have n: "unat (buf_len b + of_nat CHUNK_SIZE) = length (contents b) + CHUNK_SIZE" using length_words assms by blast
  with assms(2) have le: "unat (buf_len b + of_nat CHUNK_SIZE) \<le> 2 ^ 63" by simp
  obtain failed b1 mem1 where r: "buffer_reserve b (buf_len b + of_nat CHUNK_SIZE) mem = Some (failed, b1, mem1)" "buffer_wf b1"
    "failed \<Longrightarrow> buf_data b1 = None"
    "\<not> failed \<Longrightarrow> buf_data b1 = Some (contents b) \<and> buf_len b1 = buf_len b \<and> buf_len b + of_nat CHUNK_SIZE \<le> buf_cap b1"
    "mem = [] \<Longrightarrow> \<not> failed \<and> mem1 = []"
    by (rule reserve_runs [OF assms(1) le, of mem]) (rule that)
  show ?thesis
  proof (cases failed)
    case True
    have "chunk_loop src b mem = Some (Inr (NBT_EMEM, BUFFER_INIT))" using r(1) True by (subst chunk_loop.simps) simp
    then show ?thesis using r(5) True by (intro that(1)) auto
  next
    case False
    have "length (contents b) + length (take CHUNK_SIZE src) \<le> unat (buf_cap b1)"
      using r(4) False n by (auto simp: word_le_nat_alt)
    with put_runs [OF r(2), of "contents b"] r(4) False obtain b2 where
      b2: "put_bytes b1 (take CHUNK_SIZE src) = Inr b2" "buffer_wf b2" "buf_data b2 = Some (contents b @ take CHUNK_SIZE src)" by blast
    have "chunk_loop src b mem = (if CHUNK_SIZE \<le> length src then chunk_loop (drop CHUNK_SIZE src) b2 mem1 else Some (Inr (NBT_OK, b2)))"
      using r(1) b2(1) False by (subst chunk_loop.simps) simp
    then show ?thesis using b2(2,3) r(5) by (intro that(2) [of b2 mem1]) (auto simp: contents_def)
  qed
qed

lemma chunk_loop_runs:
  assumes "buffer_wf b" "length (contents b) + length src + CHUNK_SIZE \<le> 2 ^ 63"
  shows "(chunk_loop src b mem = Some (Inr (NBT_EMEM, BUFFER_INIT)) \<and> mem \<noteq> [])
    \<or> (\<exists>b'. chunk_loop src b mem = Some (Inr (NBT_OK, b')) \<and> buffer_wf b' \<and> buf_data b' = Some (contents b @ src))"
  using assms
proof (induction src arbitrary: b mem rule: measure_induct_rule [where f = length])
  case (less src)
  have "length (contents b) + CHUNK_SIZE \<le> 2 ^ 63" using less.prems by simp
  from less.prems(1) this show ?case
  proof (cases rule: chunk_loop_step [of b src mem])
    case (2 b' mem')
    show ?thesis
    proof (cases "CHUNK_SIZE \<le> length src")
      case True
      have "length (drop CHUNK_SIZE src) < length src" "length (contents b') + length (drop CHUNK_SIZE src) + CHUNK_SIZE \<le> 2 ^ 63"
        using True less.prems(2) 2(2) by (auto simp: CHUNK_SIZE_def)
      from less.IH [OF this(1) 2(1) this(2), of mem'] 2 True show ?thesis by auto
    next
      case False
      then show ?thesis using 2 by (auto simp: contents_def split: option.splits)
    qed
  qed auto
qed

lemma write_file_ok:
  "\<forall>(n, error) \<in> set writes. \<not> error \<Longrightarrow> write_file bytes writes = (NBT_OK, bytes)"
  by (induction bytes writes rule: write_file.induct) auto

text \<open>What is used of zlib: it works, and inflating a stream that \<open>deflate\<close> made gives the input back.\<close>

definition zlib_works :: "nbt_zlib \<Rightarrow> bool" where
  "zlib_works z \<longleftrightarrow> deflate_init_ok z \<and> deflate_ok z \<and> inflate_init_ok z
     \<and> (\<forall>w x. inflate_bytes z (deflate_stream z w x) = x \<and> inflate_ret z (deflate_stream z w x) = Z_STREAM_END)"

lemma compress_runs:
  assumes "zlib_works z" "length bytes < 2 ^ 32" "length (deflate_stream z (if gzip then 31 else 15) bytes) < 2 ^ 32"
  shows "\<exists>b. compress z bytes gzip [] = Some (Inr (NBT_OK, b)) \<and> buf_data b = Some (deflate_stream z (if gzip then 31 else 15) bytes)"
  using chunk_loop_runs [OF buffer_init_wf(1), of "deflate_stream z (if gzip then 31 else 15) bytes" "[]"] assms
  by (auto simp: compress_def zlib_works_def CHUNK_SIZE_def Let_def)

lemma read_file_runs:
  assumes "length content < 2 ^ 32"
  shows "\<exists>b. read_file content False [] = Some (Inr (NBT_OK, b)) \<and> buf_data b = Some content"
  using chunk_loop_runs [OF buffer_init_wf(1), of content "[]"] assms
  by (auto simp: read_file_def finish_loop_def CHUNK_SIZE_def)

lemma decompress_runs:
  assumes "zlib_works z" "length bytes < 2 ^ 32" "length (deflate_stream z w bytes) < 2 ^ 32"
  shows "\<exists>b. decompress z (deflate_stream z w bytes) [] = Some (Inr (NBT_OK, b)) \<and> buf_data b = Some bytes"
  using chunk_loop_runs [OF buffer_init_wf(1), of bytes "[]"] assms
  by (auto simp: decompress_def zlib_works_def finish_loop_def CHUNK_SIZE_def)

section \<open>Properties\<close>

text \<open>
  A tree written to a file is read back: with memory, a zlib that works and an \<open>fwrite\<close> that may write
  in any number of pieces, \<open>nbt_dump_file\<close> ends with \<open>NBT_OK\<close> and \<open>nbt_parse_file\<close> on the bytes in the file
  ends with the same tree, for files and dumps below 4 GiB.
\<close>

theorem nbt_file_roundtrip:
  assumes ok: "node_ok True n" and z: "zlib_works z" and w: "\<forall>(k, error) \<in> set writes. \<not> error"
    and size: "\<And>bytes. nbt_dump_binary n = Inr (NBT_OK, bytes) \<Longrightarrow>
      length bytes < 2 ^ 32 \<and> length (deflate_stream z (if gzip then 31 else 15) bytes) < 2 ^ 32"
  shows "\<exists>file. nbt_dump_file z [] n gzip writes = Some (Inr (NBT_OK, file))
    \<and> nbt_parse_file z [] [] file False = Some (Inr (Some n))"
proof -
  obtain bytes where b: "nbt_dump_binary n = Inr (NBT_OK, bytes)" "nbt_parse bytes = Some (Some n)"
    using dump_parse [OF ok, of "[]"] by auto
  then have ne: "bytes \<noteq> []" by (auto simp: nbt_parse_def parse_named_tag_def read_generic_def)
  let ?s = "deflate_stream z (if gzip then 31 else 15) bytes"
  note l = size [OF b(1)]
  obtain c where c: "compress z bytes gzip [] = Some (Inr (NBT_OK, c))" "buf_data c = Some ?s" using compress_runs [OF z] l by blast
  obtain r where r: "read_file ?s False [] = Some (Inr (NBT_OK, r))" "buf_data r = Some ?s" using read_file_runs l by blast
  obtain d where d: "decompress z ?s [] = Some (Inr (NBT_OK, d))" "buf_data d = Some bytes" using decompress_runs [OF z] l by blast
  have "nbt_dump_file z [] n gzip writes = Some (Inr (NBT_OK, ?s))"
    using b(1) ne c write_file_ok [OF w, of ?s] by (simp add: nbt_dump_file_def)
  moreover have "nbt_parse_file z [] [] ?s False = Some (Inr (Some n))"
    using r d b(2) by (simp add: nbt_parse_file_def nbt_parse_compressed_def buffer_bytes_def)
  ultimately show ?thesis by blast
qed

text \<open>A zlib that copies, and a tree.\<close>

definition copy_zlib :: nbt_zlib where
  "copy_zlib = \<lparr>deflate_init_ok = True, deflate_ok = True, deflate_stream = (\<lambda>_ x. x), inflate_init_ok = True,
     inflate_bytes = (\<lambda>x. x), inflate_ret = (\<lambda>_. Z_STREAM_END)\<rparr>"

lemma copy_zlib_works: "zlib_works copy_zlib"
  by (simp add: zlib_works_def copy_zlib_def)

definition sample_leaf :: nbt_node where
  "sample_leaf = NbtNode (Some [65]) (TagShort 7)"

theorem nbt_file_roundtrip_witness:
  "\<exists>file. nbt_dump_file copy_zlib [] sample_leaf True [(2, False)] = Some (Inr (NBT_OK, file))
    \<and> nbt_parse_file copy_zlib [] [] file False = Some (Inr (Some sample_leaf))"
proof -
  have "nbt_dump_binary sample_leaf = Inr (NBT_OK, [2, 0, 1, 65, 0, 7])" by code_simp
  moreover have "node_ok True sample_leaf" by (simp add: sample_leaf_def nbt_string_ok_def)
  ultimately show ?thesis by (intro nbt_file_roundtrip copy_zlib_works) (auto simp: copy_zlib_def)
qed


text \<open>
  Appending to a buffer: below \<open>2 ^ 63\<close> bytes \<open>buffer_append\<close> always ends, without a write outside its
  memory. It adds exactly the bytes, and it fails only for want of memory; the buffer is then empty and
  was freed.
\<close>

theorem buffer_append_adds:
  assumes wf: "buffer_wf b" and n: "length (contents b) + length bs \<le> 2 ^ 63"
  shows "\<exists>failed b' mem'. buffer_append b bs mem = Some (Inr (failed, b', mem')) \<and> buffer_wf b'
    \<and> (if failed then buf_data b' = None \<and> mem \<noteq> [] else buf_data b' = Some (contents b @ bs))"
proof -
  obtain failed b1 mem1 where i: "init_if_null b mem = (failed, b1, mem1)" "buffer_wf b1" "failed \<Longrightarrow> buf_data b1 = None"
    "\<not> failed \<Longrightarrow> buf_data b1 = Some (contents b) \<and> buf_len b1 = buf_len b" "mem = [] \<Longrightarrow> \<not> failed \<and> mem1 = []"
    using init_runs [OF wf] by blast
  show ?thesis
  proof (cases failed)
    case True
    then show ?thesis using i by (auto simp: buffer_append_def)
  next
    case False
    then have c: "contents b1 = contents b" using i(4) by (simp add: contents_def)
    have len: "unat (buf_len b1 + of_nat (length bs)) = length (contents b) + length bs"
      using length_words [OF i(2), of "length bs"] n c by simp
    then obtain failed2 b2 mem2 where r: "buffer_reserve b1 (buf_len b1 + of_nat (length bs)) mem1 = Some (failed2, b2, mem2)" "buffer_wf b2"
      "failed2 \<Longrightarrow> buf_data b2 = None"
      "\<not> failed2 \<Longrightarrow> buf_data b2 = Some (contents b1) \<and> buf_len b2 = buf_len b1 \<and> buf_len b1 + of_nat (length bs) \<le> buf_cap b2"
      "mem1 = [] \<Longrightarrow> \<not> failed2 \<and> mem2 = []"
      using reserve_runs [OF i(2), of "buf_len b1 + of_nat (length bs)" mem1] n by auto
    show ?thesis
    proof (cases failed2)
      case True
      then show ?thesis using False i r by (auto simp: buffer_append_def)
    next
      case f2: False
      have "length (contents b) + length bs \<le> unat (buf_cap b2)" using r(4) [OF f2] len by (simp add: word_le_nat_alt)
      from put_runs [OF r(2) _ this] r(4) [OF f2] c obtain b3 where
        "put_bytes b2 bs = Inr b3" "buffer_wf b3" "buf_data b3 = Some (contents b @ bs)" by auto
      then show ?thesis using False f2 i(1) r(1) by (auto simp: buffer_append_def)
    qed
  qed
qed

theorem buffer_append_adds_witness:
  "\<exists>b'. buffer_append BUFFER_INIT [1, 2] [] = Some (Inr (False, b', [])) \<and> buf_data b' = Some [1, 2]"
proof -
  from buffer_append_adds [OF buffer_init_wf(1), of "[1, 2]" "[]"]
  obtain failed b' mem' where r: "buffer_append BUFFER_INIT [1, 2] [] = Some (Inr (failed, b', mem'))" "\<not> failed" "buf_data b' = Some [1, 2]"
    by (auto split: if_splits)
  moreover have "mem' = []"
    using r(1) by (simp add: buffer_append_def init_if_null_def lazy_init_def buffer_reserve_def put_bytes_def)
  ultimately show ?thesis by auto
qed

text \<open>
  A request for more than \<open>2 ^ 63\<close> bytes never returns: the doubled capacity wraps to zero and stays
  there.
\<close>

theorem huge_reserve_hangs:
  assumes "buffer_wf b" and "buf_data b \<noteq> None" and "2 ^ 63 < unat n"
  shows "buffer_reserve b n mem = None"
proof -
  have c: "buf_cap b \<in> caps" using assms(1,2) by (auto simp: buffer_wf_def)
  then have "\<not> n \<le> buf_cap b" using cap_bound [of "buf_cap b"] assms(3) by (auto simp: word_le_nat_alt)
  with grow_cap_hangs [OF assms(3) c] assms(2) show ?thesis
    by (cases "buf_data b") (simp_all add: buffer_reserve_def init_if_null_def)
qed

theorem huge_reserve_hangs_witness: "buffer_reserve \<lparr>buf_data = Some [], buf_len = 0, buf_cap = 1024\<rparr> (2 ^ 63 + 1) [] = None"
  by (rule huge_reserve_hangs) (use cap_in [of 10] in \<open>simp_all add: buffer_wf_def\<close>)

end
