(* ===== verification/TC_NBT_Tree.thy ===== *)
theory TC_NBT_Tree
  imports TC_NBT
begin

text \<open>
  The traversals of \<^verbatim>\<open>cNBT/nbt_treeops.c\<close> that change no memory but that of the tree: counting, visiting,
  filtering in place, the elements of a list, and the names of types and errors of
  \<^verbatim>\<open>cNBT/nbt_util.c\<close>. Each is related to the list of the nodes of the tree in preorder, and so is the
  search that loading a map uses.
\<close>

section \<open>Operations\<close>

text \<open>A recursive call on the children of a node.\<close>

lemma child_smaller: "c \<in> set (nbt_children (nbt_payload n)) \<Longrightarrow> size c < size n"
  using size_child [of c "nbt_payload n"] by (cases n) simp

function nbt_size :: "nbt_node \<Rightarrow> psize" where
  "nbt_size tree = sum_list (map nbt_size (nbt_children (nbt_payload tree))) + 1"
  by pat_completeness auto
termination by (relation "measure size") (simp_all add: child_smaller)

declare nbt_size.simps [simp del]

text \<open>\<open>n\<close> is an \<open>int\<close>; a negative index is never reached.\<close>

definition nbt_list_item :: "nbt_node \<Rightarrow> int \<Rightarrow> nbt_node option" where
  "nbt_list_item list n =
     (let ns = nbt_children (nbt_payload list) in if 0 \<le> n \<and> nat n < length ns then Some (ns ! nat n) else None)"

text \<open>The visitor works on a state of its own and says whether to go on.\<close>

fun visit_all :: "('a \<Rightarrow> 's \<Rightarrow> bool \<times> 's) \<Rightarrow> 'a list \<Rightarrow> 's \<Rightarrow> bool \<times> 's" where
  "visit_all v [] s = (True, s)"
| "visit_all v (x # xs) s = (case v x s of (ok, s) \<Rightarrow> if ok then visit_all v xs s else (False, s))"

lemma visit_all_cong [fundef_cong]:
  "xs = ys \<Longrightarrow> (\<And>x s. x \<in> set ys \<Longrightarrow> v x s = w x s) \<Longrightarrow> s = t \<Longrightarrow> visit_all v xs s = visit_all w ys t"
  by (induction xs arbitrary: ys s t) (auto split: prod.splits)

function nbt_map :: "nbt_node \<Rightarrow> (nbt_node \<Rightarrow> 's \<Rightarrow> bool \<times> 's) \<Rightarrow> 's \<Rightarrow> bool \<times> 's" where
  "nbt_map tree v s = (case v tree s of (ok, s) \<Rightarrow>
     if ok then visit_all (\<lambda>n s. nbt_map n v s) (nbt_children (nbt_payload tree)) s else (False, s))"
  by pat_completeness auto
termination by (relation "measure (\<lambda>(tree, _, _). size tree)") (simp_all add: child_smaller)

declare nbt_map.simps [simp del]

fun with_children :: "nbt_payload \<Rightarrow> nbt_node list \<Rightarrow> nbt_payload" where
  "with_children (TagList t _) ns = TagList t ns"
| "with_children (TagCompound _) ns = TagCompound ns"
| "with_children p ns = p"

lemma map_filter_cong [fundef_cong]:
  "xs = ys \<Longrightarrow> (\<And>x. x \<in> set ys \<Longrightarrow> f x = g x) \<Longrightarrow> List.map_filter f xs = List.map_filter g ys"
  by (induction xs arbitrary: ys) (auto simp: List.map_filter_simps split: option.split)

text \<open>A list keeps its sentinel; a node that is refused is freed with everything below it.\<close>

function nbt_filter_inplace :: "nbt_node \<Rightarrow> (nbt_node \<Rightarrow> bool) \<Rightarrow> nbt_node option" where
  "nbt_filter_inplace tree P =
     (if \<not> P tree then None
      else Some (NbtNode (nbt_name tree) (with_children (nbt_payload tree)
        (List.map_filter (\<lambda>n. nbt_filter_inplace n P) (nbt_children (nbt_payload tree))))))"
  by pat_completeness auto
termination
  by (relation "measure (\<lambda>(tree, _). size tree)") (simp_all add: child_smaller)

declare nbt_filter_inplace.simps [simp del]

fun nbt_type_to_string :: "8 word \<Rightarrow> string" where
  "nbt_type_to_string t =
     (let names = [''TAG_END'', ''TAG_BYTE'', ''TAG_SHORT'', ''TAG_INT'', ''TAG_LONG'', ''TAG_FLOAT'', ''TAG_DOUBLE'',
        ''TAG_BYTE_ARRAY'', ''TAG_STRING'', ''TAG_LIST'', ''TAG_COMPOUND'', ''TAG_INT_ARRAY'']
      in if unat t < length names then names ! unat t else ''TAG_UNKNOWN'')"

fun nbt_error_to_string :: "nbt_status \<Rightarrow> string" where
  "nbt_error_to_string NBT_OK = ''No error.''"
| "nbt_error_to_string NBT_ERR = ''NBT tree is corrupt.''"
| "nbt_error_to_string NBT_EMEM = ''Out of memory. You should buy some RAM.''"
| "nbt_error_to_string NBT_EIO = ''IO Error. Nonexistant/corrupt file?''"
| "nbt_error_to_string NBT_EZ = ''Fatal zlib error. Corrupt file?''"

section \<open>Nodes in preorder\<close>

function preorder :: "nbt_node \<Rightarrow> nbt_node list" where
  "preorder tree = tree # concat (map preorder (nbt_children (nbt_payload tree)))"
  by pat_completeness auto
termination by (relation "measure size") (simp_all add: child_smaller)

declare preorder.simps [simp del]

lemma node_induct [case_names node]:
  "(\<And>n. (\<And>c. c \<in> set (nbt_children (nbt_payload n)) \<Longrightarrow> P c) \<Longrightarrow> P n) \<Longrightarrow> P n"
  by (induction n rule: measure_induct_rule [where f = size]) (blast dest: child_smaller)

lemma visit_all_append: "visit_all v (xs @ ys) s = (case visit_all v xs s of (ok, s) \<Rightarrow> if ok then visit_all v ys s else (False, s))"
  by (induction xs arbitrary: s) (auto split: prod.splits)

lemma visit_all_concat: "visit_all (\<lambda>xs. visit_all v xs) xss s = visit_all v (concat xss) s"
  by (induction xss arbitrary: s) (auto simp: visit_all_append split: prod.splits)

lemma visit_all_map: "visit_all v (map f xs) s = visit_all (\<lambda>x. v (f x)) xs s"
  by (induction xs arbitrary: s) (auto split: prod.splits)

lemma first_some_find: "(\<And>x. x \<in> set xs \<Longrightarrow> f x = find P (g x)) \<Longrightarrow> first_some f xs = find P (concat (map g xs))"
proof (induction xs)
  case (Cons x xs)
  have a: "find P (ys @ zs) = (case find P ys of Some y \<Rightarrow> Some y | None \<Rightarrow> find P zs)" for ys zs by (induction ys) auto
  show ?case using Cons by (auto simp: a split: option.split)
qed simp

lemma with_children_same: "with_children p (nbt_children p) = p"
  by (cases p) simp_all

section \<open>Properties\<close>

text \<open>
  Visiting, counting and searching agree on the nodes of a tree: \<open>nbt_map\<close> visits them in preorder
  until the visitor stops it, \<open>nbt_size\<close> is their number (as a \<open>size_t\<close>), and \<open>nbt_find\<close> returns the first
  that satisfies the predicate.
\<close>

theorem traversals_are_preorder:
  "nbt_map tree v s = visit_all v (preorder tree) s
   \<and> nbt_size tree = of_nat (length (preorder tree)) \<and> nbt_find tree P = find P (preorder tree)"
proof (intro conjI)
  show "nbt_map tree v s = visit_all v (preorder tree) s"
  proof (induction tree arbitrary: s rule: node_induct)
    case (node n)
    have "visit_all (\<lambda>c s. nbt_map c v s) (nbt_children (nbt_payload n)) t
        = visit_all v (concat (map preorder (nbt_children (nbt_payload n)))) t" for t
      unfolding visit_all_concat [symmetric] visit_all_map by (rule visit_all_cong) (simp_all add: node)
    then show ?case by (subst nbt_map.simps, subst preorder.simps) (simp split: prod.splits)
  qed
  show "nbt_size tree = of_nat (length (preorder tree))"
  proof (induction tree rule: node_induct)
    case (node n)
    have "sum_list (map nbt_size ns) = (of_nat (length (concat (map preorder ns))) :: psize)"
      if "set ns \<subseteq> set (nbt_children (nbt_payload n))" for ns
      using that by (induction ns) (simp_all add: node)
    then show ?case by (subst nbt_size.simps, subst preorder.simps) simp
  qed
  show "nbt_find tree P = find P (preorder tree)"
  proof (induction tree rule: node_induct)
    case (node n)
    then show ?case
      by (subst nbt_find.simps, subst preorder.simps) (simp add: first_some_find [of _ "\<lambda>c. nbt_find c P" P preorder])
  qed
qed

text \<open>
  Filtering in place removes the refused nodes with everything below them, and nothing when all are
  accepted.
\<close>

theorem filter_inplace_keeps:
  assumes "\<forall>n \<in> set (preorder tree). P n"
  shows "nbt_filter_inplace tree P = Some tree"
  using assms
proof (induction tree rule: node_induct)
  case (node n)
  have "List.map_filter (\<lambda>c. nbt_filter_inplace c P) ns = ns" if "set ns \<subseteq> set (nbt_children (nbt_payload n))" for ns
    using that
  proof (induction ns)
    case (Cons c ns)
    have "\<forall>m \<in> set (preorder c). P m" using node.prems Cons.prems by (subst (asm) preorder.simps) auto
    then show ?case using Cons node.IH [of c] by (simp add: List.map_filter_simps)
  qed (simp add: List.map_filter_simps)
  moreover have "P n" using node.prems by (subst (asm) preorder.simps) simp
  ultimately show ?case by (subst nbt_filter_inplace.simps) (simp add: with_children_same)
qed

theorem filter_inplace_keeps_witness:
  "nbt_filter_inplace (NbtNode None (TagCompound [NbtNode None (TagByte 1)])) (\<lambda>n. nbt_name n = None)
     = Some (NbtNode None (TagCompound [NbtNode None (TagByte 1)]))"
  by (rule filter_inplace_keeps) (simp add: preorder.simps)

end
