(* ===== verification/TC_NBT_Copy.thy ===== *)
theory TC_NBT_Copy
  imports TC_NBT_Tree
begin

text \<open>
  The operations of cNBT that make a new tree or text from a tree, and the comparison of trees:
  \<^verbatim>\<open>nbt_clone\<close> and \<^verbatim>\<open>nbt_filter\<close> of \<^verbatim>\<open>nbt_treeops.c\<close>, \<^verbatim>\<open>nbt_eq\<close> of \<^verbatim>\<open>nbt_util.c\<close> and
  \<^verbatim>\<open>nbt_dump_ascii\<close> of \<^verbatim>\<open>nbt_parsing.c\<close>.

  Allocations are taken to succeed, as in \<open>TC_NBT\<close>; the words that newly allocated memory holds are
  the parameter \<open>junk\<close>. Comparing floating-point numbers and printing them are parameters. A list
  whose sentinel has no data is a list of type 0; only \<^verbatim>\<open>nbt_filter\<close> makes such lists, and the text of
  one, for which the code would follow the missing sentinel, is outside of the model of \<^verbatim>\<open>nbt_dump_ascii\<close>.
\<close>

section \<open>Copies\<close>

text \<open>
  The copy of an array of \<open>n\<close> ints: memory for \<open>n\<close> ints, of which \<^verbatim>\<open>memcpy\<close> fills the first \<open>n\<close>
  bytes. On a little-endian machine the low bytes of a word come first.
\<close>

definition copied_int :: "nat \<Rightarrow> 32 word \<Rightarrow> 32 word \<Rightarrow> nat \<Rightarrow> 32 word" where
  "copied_int bytes w old i =
     (if 4 * i + 4 \<le> bytes then w
      else if 4 * i < bytes then take_bit (8 * (bytes - 4 * i)) w OR (old AND NOT (mask (8 * (bytes - 4 * i))))
      else old)"

definition copy_int_array :: "(nat \<Rightarrow> 32 word) \<Rightarrow> 32 word list \<Rightarrow> 32 word list" where
  "copy_int_array junk ws = map (\<lambda>i. copied_int (length ws) (ws ! i) (junk i) i) [0..<length ws]"

text \<open>The payload of a copy, with the nodes of a list or compound given; long arrays are shared.\<close>

fun copy_payload :: "(nat \<Rightarrow> 32 word) \<Rightarrow> 8 word \<Rightarrow> nbt_payload \<Rightarrow> nbt_node list \<Rightarrow> nbt_payload" where
  "copy_payload junk t (TagIntArray ws) ns = TagIntArray (copy_int_array junk ws)"
| "copy_payload junk t (TagList _ _) ns = TagList t ns"
| "copy_payload junk t (TagCompound _) ns = TagCompound ns"
| "copy_payload junk t p ns = p"

fun sentinel_type :: "nbt_payload \<Rightarrow> 8 word" where
  "sentinel_type (TagList t _) = t"
| "sentinel_type _ = 0"

function nbt_clone :: "(nat \<Rightarrow> 32 word) \<Rightarrow> nbt_node \<Rightarrow> nbt_node" where
  "nbt_clone junk tree =
     NbtNode (nbt_name tree) (copy_payload junk (sentinel_type (nbt_payload tree)) (nbt_payload tree)
       (map (nbt_clone junk) (nbt_children (nbt_payload tree))))"
  by pat_completeness auto
termination by (relation "measure (size \<circ> snd)") (simp_all add: child_smaller)

declare nbt_clone.simps [simp del]

text \<open>\<^verbatim>\<open>filter_list\<close> gives the new list no type.\<close>

function nbt_filter :: "(nat \<Rightarrow> 32 word) \<Rightarrow> (nbt_node \<Rightarrow> bool) \<Rightarrow> nbt_node \<Rightarrow> nbt_node option" where
  "nbt_filter junk P tree =
     (if \<not> P tree then None
      else Some (NbtNode (nbt_name tree) (copy_payload junk 0 (nbt_payload tree)
        (List.map_filter (nbt_filter junk P) (nbt_children (nbt_payload tree))))))"
  by pat_completeness auto
termination by (relation "measure (size \<circ> snd \<circ> snd)") (simp_all add: child_smaller)

declare nbt_filter.simps [simp del]

section \<open>Comparison\<close>

definition safe_strcmp :: "cstring option \<Rightarrow> cstring option \<Rightarrow> int" where
  "safe_strcmp a b =
     (case a of
        None \<Rightarrow> (if b \<noteq> None then 1 else 0)
      | Some x \<Rightarrow> (case b of None \<Rightarrow> 1 | Some y \<Rightarrow> strncmp x y (Suc (max (length x) (length y)))))"

text \<open>\<^verbatim>\<open>memcmp\<close> of the first \<open>n\<close> bytes of two arrays of ints is 0.\<close>

definition same_bytes :: "nat \<Rightarrow> 32 word list \<Rightarrow> 32 word list \<Rightarrow> bool" where
  "same_bytes n xs ys \<longleftrightarrow>
     (\<forall>i < n div 4. xs ! i = ys ! i)
     \<and> (n mod 4 \<noteq> 0 \<longrightarrow> take_bit (8 * (n mod 4)) (xs ! (n div 4)) = take_bit (8 * (n mod 4)) (ys ! (n div 4)))"

text \<open>
  The two loops over the lists of a node, as one recursion on both trees; \<open>close\<close> is
  \<^verbatim>\<open>floats_are_close\<close> and \<open>widen\<close> the conversion of a float to a double. There is no case for
  long arrays.
\<close>

lemma zip_child:
  "(x, y) \<in> set (zip xs ys) \<Longrightarrow> TagList t xs = nbt_payload a \<Longrightarrow> size x < size a"
  "(x, y) \<in> set (zip xs ys) \<Longrightarrow> TagCompound xs = nbt_payload a \<Longrightarrow> size x < size a"
  using child_smaller [of x a] set_zip_leftD [of x y xs ys] by (metis nbt_children.simps)+

function nbt_eq :: "(64 word \<Rightarrow> 64 word \<Rightarrow> bool) \<Rightarrow> (32 word \<Rightarrow> 64 word) \<Rightarrow> nbt_node \<Rightarrow> nbt_node \<Rightarrow> bool" where
  "nbt_eq close widen a b =
     (if node_type a \<noteq> node_type b then False
      else if safe_strcmp (nbt_name a) (nbt_name b) \<noteq> 0 then False
      else case (nbt_payload a, nbt_payload b) of
          (TagByte x, TagByte y) \<Rightarrow> x = y
        | (TagShort x, TagShort y) \<Rightarrow> x = y
        | (TagInt x, TagInt y) \<Rightarrow> x = y
        | (TagLong x, TagLong y) \<Rightarrow> x = y
        | (TagFloat x, TagFloat y) \<Rightarrow> close (widen x) (widen y)
        | (TagDouble x, TagDouble y) \<Rightarrow> close x y
        | (TagByteArray x, TagByteArray y) \<Rightarrow> length x = length y \<and> x = y
        | (TagIntArray x, TagIntArray y) \<Rightarrow> length x = length y \<and> same_bytes (length x) x y
        | (TagString x, TagString y) \<Rightarrow> strncmp x y (Suc (max (length x) (length y))) = 0
        | (TagList _ xs, TagList _ ys) \<Rightarrow> length xs = length ys \<and> list_all (\<lambda>(x, y). nbt_eq close widen x y) (zip xs ys)
        | (TagCompound xs, TagCompound ys) \<Rightarrow>
            length xs = length ys \<and> list_all (\<lambda>(x, y). nbt_eq close widen x y) (zip xs ys)
        | _ \<Rightarrow> False)"
  by pat_completeness auto
termination
  by (relation "measure (\<lambda>(_, _, a, _). size a)") (auto intro: zip_child)

declare nbt_eq.simps [simp del]

section \<open>Text\<close>

text \<open>
  \<^verbatim>\<open>bprintf\<close> appends to the buffer; the text of a dump is the list of its bytes. \<open>fmt_f\<close> is what
  \<^verbatim>\<open>%f\<close> prints. An array of longs is printed with \<^verbatim>\<open>%u\<close>, which takes the low 32 bits.
\<close>

definition indent :: "nat \<Rightarrow> cstring" where
  "indent amount = replicate (amount * 4) 0x20"

definition SAFE_NAME :: "nbt_node \<Rightarrow> cstring" where
  "SAFE_NAME node = (case nbt_name node of None \<Rightarrow> bytes_of ''<null>'' | Some n \<Rightarrow> n)"

definition dump_array :: "nat list \<Rightarrow> cstring" where
  "dump_array xs = bytes_of ''[ '' @ concat (map (\<lambda>x. bytes_of (decimal_nat x @ '' '')) xs) @ bytes_of '']''"

definition newline :: pchar where "newline = 0x0A"

text \<open>A line \<^verbatim>\<open>tag("name")\<close>, and what follows it.\<close>

definition dump_line :: "string \<Rightarrow> nbt_node \<Rightarrow> cstring \<Rightarrow> cstring" where
  "dump_line tag tree rest = bytes_of tag @ [0x28, 0x22] @ SAFE_NAME tree @ [0x22, 0x29] @ rest @ [newline]"

function dump_ascii :: "(64 word \<Rightarrow> cstring) \<Rightarrow> (32 word \<Rightarrow> 64 word) \<Rightarrow> nat \<Rightarrow> nbt_node \<Rightarrow> cstring" where
  "dump_ascii fmt_f widen ident tree =
     indent ident @
     (let colon = bytes_of '': '';
          block = indent ident @ bytes_of ''{'' @ [newline]
                    @ concat (map (dump_ascii fmt_f widen (ident + 1)) (nbt_children (nbt_payload tree)))
                    @ indent ident @ bytes_of ''}'' @ [newline]
      in case nbt_payload tree of
           TagByte w \<Rightarrow> dump_line ''TAG_Byte'' tree (colon @ bytes_of (decimal (sint w)))
         | TagShort w \<Rightarrow> dump_line ''TAG_Short'' tree (colon @ bytes_of (decimal (sint w)))
         | TagInt w \<Rightarrow> dump_line ''TAG_Int'' tree (colon @ bytes_of (decimal (sint w)))
         | TagLong w \<Rightarrow> dump_line ''TAG_Long'' tree (colon @ bytes_of (decimal (sint w)))
         | TagFloat w \<Rightarrow> dump_line ''TAG_Float'' tree (colon @ fmt_f (widen w))
         | TagDouble w \<Rightarrow> dump_line ''TAG_Double'' tree (colon @ fmt_f w)
         | TagByteArray xs \<Rightarrow> dump_line ''TAG_Byte_Array'' tree (colon @ dump_array (map unat xs))
         | TagIntArray xs \<Rightarrow> dump_line ''Tag_Int_Array'' tree (colon @ dump_array (map unat xs))
         | TagLongArray xs \<Rightarrow> dump_line ''Tag_Long_Array'' tree (colon @ dump_array (map (\<lambda>x. unat (ucast x :: 32 word)) xs))
         | TagString s \<Rightarrow> dump_line ''TAG_String'' tree (colon @ s)
         | TagList t ns \<Rightarrow> dump_line ''TAG_List'' tree (bytes_of '' ['' @ bytes_of (nbt_type_to_string t) @ bytes_of '']'') @ block
         | TagCompound ns \<Rightarrow> dump_line ''TAG_Compound'' tree [] @ block)"
  by pat_completeness auto
termination
  by (relation "measure (\<lambda>(_, _, _, n). size n)") (simp_all add: child_smaller)

declare dump_ascii.simps [simp del]

definition nbt_dump_ascii :: "(64 word \<Rightarrow> cstring) \<Rightarrow> (32 word \<Rightarrow> 64 word) \<Rightarrow> nbt_node \<Rightarrow> cstring" where
  "nbt_dump_ascii fmt_f widen tree = dump_ascii fmt_f widen 0 tree"

section \<open>Clones\<close>

lemma preorder_self: "n \<in> set (preorder n)"
  by (subst preorder.simps) simp

lemma preorder_child: "c \<in> set (nbt_children (nbt_payload n)) \<Longrightarrow> set (preorder c) \<subseteq> set (preorder n)"
  by (subst preorder.simps [of n]) auto

definition full_int_array :: "nbt_node \<Rightarrow> bool" where
  "full_int_array n = (case nbt_payload n of TagIntArray ws \<Rightarrow> ws \<noteq> [] | _ \<Rightarrow> False)"

lemma clone_exact:
  "\<forall>n \<in> set (preorder tree). \<not> full_int_array n \<Longrightarrow> nbt_clone junk tree = tree"
proof (induction tree rule: node_induct)
  case (node n)
  have "nbt_clone junk c = c" if "c \<in> set (nbt_children (nbt_payload n))" for c
    using node.IH [OF that] node.prems preorder_child [OF that] by blast
  then have "map (nbt_clone junk) (nbt_children (nbt_payload n)) = nbt_children (nbt_payload n)"
    by (intro map_idI)
  moreover have "\<not> full_int_array n"
    using node.prems preorder_self by blast
  ultimately show ?case
    by (subst nbt_clone.simps, cases n, cases "nbt_payload n")
       (auto simp: full_int_array_def copy_int_array_def)
qed

text \<open>
  What \<^verbatim>\<open>nbt_eq\<close> can say of a tree and its clone: a long array is never equal to anything, and a
  floating-point number must be close to itself.
\<close>

definition self_comparable :: "(64 word \<Rightarrow> 64 word \<Rightarrow> bool) \<Rightarrow> (32 word \<Rightarrow> 64 word) \<Rightarrow> nbt_node \<Rightarrow> bool" where
  "self_comparable close widen n =
     (case nbt_payload n of
        TagFloat x \<Rightarrow> close (widen x) (widen x)
      | TagDouble x \<Rightarrow> close x x
      | TagLongArray _ \<Rightarrow> False
      | _ \<Rightarrow> True)"

lemma strncmp_self [simp]: "strncmp x x n = 0"
proof (induction n arbitrary: x)
  case (Suc n)
  then show ?case by (cases x) simp_all
qed simp

lemma safe_strcmp_self [simp]: "safe_strcmp a a = 0"
  by (simp add: safe_strcmp_def split: option.split)

lemma same_bytes_copy: "same_bytes (length ws) ws (copy_int_array junk ws)"
proof -
  have "ws ! i = copy_int_array junk ws ! i" if "i < length ws div 4" for i
  proof -
    have "4 * i + 4 \<le> length ws" using that by linarith
    then show ?thesis by (simp add: copy_int_array_def copied_int_def)
  qed
  moreover have "take_bit (8 * (length ws mod 4)) (copy_int_array junk ws ! (length ws div 4))
      = take_bit (8 * (length ws mod 4)) (ws ! (length ws div 4))" if "length ws mod 4 \<noteq> 0"
  proof -
    have "length ws - 4 * (length ws div 4) = length ws mod 4" "\<not> 4 * (length ws div 4) + 4 \<le> length ws"
        "4 * (length ws div 4) < length ws" "length ws div 4 < length ws"
      using that by presburger+
    then show ?thesis
      by (simp add: copy_int_array_def copied_int_def) (auto intro!: bit_word_eqI simp: bit_simps)
  qed
  ultimately show ?thesis
    by (simp add: same_bytes_def)
qed

lemma length_copy_int_array [simp]: "length (copy_int_array junk ws) = length ws"
  by (simp add: copy_int_array_def)

lemma clone_looks_equal:
  "\<forall>n \<in> set (preorder tree). self_comparable close widen n \<Longrightarrow> nbt_eq close widen tree (nbt_clone junk tree)"
proof (induction tree rule: node_induct)
  case (node n)
  have IH: "nbt_eq close widen c (nbt_clone junk c)" if "c \<in> set (nbt_children (nbt_payload n))" for c
    using node.IH [OF that] node.prems preorder_child [OF that] by blast
  have "self_comparable close widen n"
    using node.prems preorder_self by blast
  moreover have "list_all (\<lambda>(x, y). nbt_eq close widen x y) (zip ns (map (nbt_clone junk) ns))"
    if "set ns \<subseteq> set (nbt_children (nbt_payload n))" for ns
    using that IH by (induction ns) auto
  ultimately show ?case
    by (subst nbt_eq.simps, subst (1 2 3) nbt_clone.simps, cases "nbt_payload n")
       (auto simp: self_comparable_def same_bytes_copy)
qed

section \<open>Filtering into a copy\<close>

text \<open>A copy of a tree in which lists have no type.\<close>

function untyped_copy :: "(nat \<Rightarrow> 32 word) \<Rightarrow> nbt_node \<Rightarrow> nbt_node" where
  "untyped_copy junk tree =
     NbtNode (nbt_name tree) (copy_payload junk 0 (nbt_payload tree)
       (map (untyped_copy junk) (nbt_children (nbt_payload tree))))"
  by pat_completeness auto
termination by (relation "measure (size \<circ> snd)") (simp_all add: child_smaller)

declare untyped_copy.simps [simp del]

lemma map_filter_map_option: "map f (List.map_filter g xs) = List.map_filter (\<lambda>x. map_option f (g x)) xs"
  by (induction xs) (auto simp: List.map_filter_simps split: option.split)

lemma copy_with_children:
  "copy_payload junk 0 (with_children p ns) (map f (nbt_children (with_children p ns))) = copy_payload junk 0 p (map f ns)"
  by (cases p) simp_all

lemma filter_copies_inplace: "nbt_filter junk P tree = map_option (untyped_copy junk) (nbt_filter_inplace tree P)"
proof (induction tree rule: node_induct)
  case (node n)
  have "List.map_filter (nbt_filter junk P) (nbt_children (nbt_payload n))
      = map (untyped_copy junk) (List.map_filter (\<lambda>c. nbt_filter_inplace c P) (nbt_children (nbt_payload n)))"
    unfolding map_filter_map_option by (rule map_filter_cong) (simp_all add: node)
  then show ?case
    by (subst nbt_filter.simps, subst nbt_filter_inplace.simps)
       (simp add: untyped_copy.simps [of junk "NbtNode _ _"] copy_with_children)
qed

section \<open>Lines of a dump\<close>

text \<open>A node is one line, a list or compound three and the lines of what it holds.\<close>

definition lines :: "cstring \<Rightarrow> nat" where
  "lines t = length (filter (\<lambda>c. c = newline) t)"

definition node_lines :: "nbt_node \<Rightarrow> nat" where
  "node_lines n = (case nbt_payload n of TagList _ _ \<Rightarrow> 3 | TagCompound _ \<Rightarrow> 3 | _ \<Rightarrow> 1)"

lemma lines_append [simp]: "lines (xs @ ys) = lines xs + lines ys"
  by (simp add: lines_def)

lemma lines_concat: "lines (concat xss) = sum_list (map lines xss)"
  by (induction xss) (simp_all add: lines_def)

lemma lines_indent [simp]: "lines (indent n) = 0"
  by (simp add: lines_def indent_def newline_def)

definition one_line_name :: "nbt_node \<Rightarrow> bool" where
  "one_line_name n \<longleftrightarrow> newline \<notin> set (SAFE_NAME n)
     \<and> (case nbt_payload n of TagString s \<Rightarrow> newline \<notin> set s | _ \<Rightarrow> True)"

lemma lines_0 [simp]: "newline \<notin> set t \<Longrightarrow> lines t = 0"
  by (auto simp: lines_def filter_empty_conv)

lemma newline_bytes_of: "newline \<in> set (bytes_of s) \<longleftrightarrow> CHR 0x0A \<in> set s"
proof -
  have "of_nat (of_char c) = newline \<longleftrightarrow> c = CHR 0x0A" for c
  proof
    assume "of_nat (of_char c) = newline"
    then have "unat (of_nat (of_char c) :: pchar) = 10"
      by (simp add: newline_def)
    then have "of_char c = (of_char (CHR 0x0A) :: nat)"
      by (simp add: unat_of_nat)
    then show "c = CHR 0x0A" by (simp only: of_char_eq_iff)
  qed (simp add: newline_def)
  then show ?thesis
    unfolding bytes_of_def set_map by (metis (no_types, lifting) imageE imageI)
qed

lemma decimal_one_line: "CHR 0x0A \<notin> set (decimal_nat n)" "CHR 0x0A \<notin> set (decimal i)"
proof -
  have digit: "digit k \<noteq> CHR 0x0A" if "k < 10" for k
  proof
    assume "digit k = CHR 0x0A"
    then have "of_char (digit k) = (10::nat)" by simp
    then show False using that by (simp add: digit_def)
  qed
  show nat: "CHR 0x0A \<notin> set (decimal_nat n)" for n
  proof (induction n rule: decimal_nat.induct)
    case (1 n)
    then show ?case using digit by (subst decimal_nat.simps) (auto simp: eq_commute [of "CHR 0x0A"])
  qed
  show "CHR 0x0A \<notin> set (decimal i)"
    using nat by (simp add: decimal_def)
qed

lemma type_names_one_line: "CHR 0x0A \<notin> set (nbt_type_to_string t)"
proof -
  have "list_all (\<lambda>s. CHR 0x0A \<notin> set s) [''TAG_END'', ''TAG_BYTE'', ''TAG_SHORT'', ''TAG_INT'', ''TAG_LONG'', ''TAG_FLOAT'',
      ''TAG_DOUBLE'', ''TAG_BYTE_ARRAY'', ''TAG_STRING'', ''TAG_LIST'', ''TAG_COMPOUND'', ''TAG_INT_ARRAY'']"
    by simp
  then show ?thesis
    unfolding nbt_type_to_string.simps Let_def list_all_length by (simp del: list.size)
qed

lemma lines_bytes_of: "CHR 0x0A \<notin> set s \<Longrightarrow> lines (bytes_of s) = 0"
  by (simp add: newline_bytes_of)

lemma dump_array_one_line: "lines (dump_array xs) = 0"
  by (simp add: dump_array_def lines_bytes_of lines_concat comp_def decimal_one_line)

lemma lines_marks: "lines [0x28, 0x22] = 0" "lines [0x22, 0x29] = 0" "lines [newline] = 1"
  by (simp_all add: lines_def newline_def)

lemma lines_newline: "lines (newline # t) = Suc (lines t)"
  by (simp add: lines_def)

lemma sum_list_map_concat: "sum_list (map f (concat xss)) = (\<Sum>xs \<leftarrow> xss. sum_list (map f xs))"
  by (induction xss) simp_all

lemma lines_dump_line:
  "one_line_name n \<Longrightarrow> CHR 0x0A \<notin> set tag \<Longrightarrow> lines (dump_line tag n rest) = lines rest + 1"
  by (simp add: dump_line_def one_line_name_def lines_bytes_of lines_marks del: append_Cons)

lemma dump_ascii_lines:
  assumes "\<And>x. newline \<notin> set (fmt_f x)"
  shows "\<forall>n \<in> set (preorder tree). one_line_name n \<Longrightarrow>
    lines (dump_ascii fmt_f widen ident tree) = sum_list (map node_lines (preorder tree))"
proof (induction tree arbitrary: ident rule: node_induct)
  case (node n)
  let ?ns = "nbt_children (nbt_payload n)"
  have "lines (dump_ascii fmt_f widen (ident + 1) c) = sum_list (map node_lines (preorder c))" if "c \<in> set ?ns" for c
    using node.IH [OF that] node.prems preorder_child [OF that] by blast
  then have ns: "lines (concat (map (dump_ascii fmt_f widen (ident + 1)) ?ns))
      = sum_list (map node_lines (concat (map preorder ?ns)))"
    by (simp add: lines_concat sum_list_map_concat comp_def cong: map_cong)
  have "one_line_name n"
    using node.prems preorder_self by blast
  then show ?case
    using ns
    by (subst dump_ascii.simps, subst preorder.simps, cases "nbt_payload n")
       (auto simp: Let_def lines_dump_line node_lines_def lines_bytes_of decimal_one_line dump_array_one_line assms
          type_names_one_line one_line_name_def lines_newline simp del: nbt_type_to_string.simps)
qed

section \<open>Where a copy is not a copy\<close>

text \<open>
  Of an array of \<open>n\<close> ints a clone holds only the first quarter: \<^verbatim>\<open>memcpy\<close> is given the number of
  elements as a number of bytes, and the rest is whatever the new memory held. \<^verbatim>\<open>nbt_eq\<close> compares
  as few bytes, and does not notice.
\<close>

lemma clone_int_array_keeps_quarter:
  assumes "i < length ws"
  shows "4 * i + 4 \<le> length ws \<Longrightarrow> copy_int_array junk ws ! i = ws ! i"
    and "length ws \<le> 4 * i \<Longrightarrow> copy_int_array junk ws ! i = junk i"
  using assms by (auto simp: copy_int_array_def copied_int_def)

lemma clone_differs_but_equal:
  "nbt_clone (\<lambda>_. 7) (NbtNode None (TagIntArray [1, 2])) = NbtNode None (TagIntArray [1, 7])"
  "nbt_eq close widen (NbtNode None (TagIntArray [1, 2])) (NbtNode None (TagIntArray [1, 7]))"
proof -
  show clone: "nbt_clone (\<lambda>_. 7) (NbtNode None (TagIntArray [1, 2])) = NbtNode None (TagIntArray [1, 7])"
    by (simp add: nbt_clone.simps) code_simp
  show "nbt_eq close widen (NbtNode None (TagIntArray [1, 2])) (NbtNode None (TagIntArray [1, 7]))"
    using clone_looks_equal [of "NbtNode None (TagIntArray [1, 2])" close widen "\<lambda>_. 7"]
    by (simp add: clone preorder.simps self_comparable_def)
qed

text \<open>A tree with a long array is not equal to itself, and a filtered list has lost its type.\<close>

lemma long_array_not_equal: "\<not> nbt_eq close widen (NbtNode name (TagLongArray xs)) (NbtNode name (TagLongArray xs))"
  by (simp add: nbt_eq.simps)

lemma filtered_list_untyped: "nbt_filter junk (\<lambda>_. True) (NbtNode name (TagList t [])) = Some (NbtNode name (TagList 0 []))"
  by (simp add: nbt_filter.simps List.map_filter_simps)

section \<open>Properties\<close>


definition sample_tree :: nbt_node where
  "sample_tree = NbtNode (Some (bytes_of ''m'')) (TagCompound
     [NbtNode (Some (bytes_of ''x'')) (TagShort 3), NbtNode None (TagList 1 [NbtNode None (TagByte 1)])])"


end
