(* ===== verification/TC_Utils.thy ===== *)
theory TC_Utils
  imports TC_Protocol
begin

text \<open>
  \<^verbatim>\<open>src/utils.c\<close>: comparing strings, big-endian writes and the two compressions of map data.

  zlib is a parameter: whether \<open>deflateInit2\<close> succeeds, the stream that \<open>deflate\<close> produces from
  its input for a window setting, and \<open>compressBound\<close>. What is used of it: the stream is written
  and \<open>Z_STREAM_END\<close> returned when it fits the output, and inflating it gives the input back.
\<close>

section \<open>Strings and integers\<close>

text \<open>The string in a buffer: the bytes before the first NUL, or all of them.\<close>

definition c_str :: "cstring \<Rightarrow> cstring" where
  "c_str buf = takeWhile (\<lambda>c. c \<noteq> 0) buf"

definition tc_string_compare :: "cstring \<Rightarrow> cstring \<Rightarrow> int" where
  "tc_string_compare str1 str2 = strncmp (c_str str1) (c_str str2) TC_PROTOCOL_MAX_STR_LEN"

definition write_u16_be :: "puint16 \<Rightarrow> cstring" where
  "write_u16_be v = [ucast (drop_bit 8 v), ucast v]"

definition write_u32_be :: "puint32 \<Rightarrow> cstring" where
  "write_u32_be v = [ucast (drop_bit 24 v), ucast (drop_bit 16 v), ucast (drop_bit 8 v), ucast v]"

section \<open>Compression\<close>

record zlib =
  init_ok :: bool
  deflated :: "int \<Rightarrow> cstring \<Rightarrow> cstring"
  compress_bound :: "nat \<Rightarrow> nat"

record send_buffer =
  sb_data :: "cstring option"
  sb_size :: nat

text \<open>
  One call of \<open>deflate\<close> with \<open>Z_FINISH\<close>: \<open>avail_in\<close> and \<open>avail_out\<close> are 32-bit, so larger sizes
  are cut; \<open>None\<close> is any result but \<open>Z_STREAM_END\<close>.
\<close>

definition deflate_finish :: "zlib \<Rightarrow> int \<Rightarrow> cstring \<Rightarrow> nat \<Rightarrow> cstring option" where
  "deflate_finish z window input avail_out =
     (let stream = deflated z window (take (length input mod 2 ^ 32) input)
      in if length stream \<le> avail_out mod 2 ^ 32 then Some stream else None)"

definition empty_buffer :: send_buffer where
  "empty_buffer = \<lparr>sb_data = None, sb_size = 0\<rparr>"

text \<open>
  The result and the output buffer. The two booleans say whether the two allocations of
  \<open>tc_gzip_byte_array\<close> succeed, the one whether that of \<open>tc_deflate_byte_array\<close> does.
\<close>

definition tc_gzip_byte_array :: "zlib \<Rightarrow> bool \<Rightarrow> bool \<Rightarrow> cstring \<Rightarrow> bool \<times> send_buffer" where
  "tc_gzip_byte_array z malloc1 malloc2 input =
     (if \<not> malloc1 then (False, empty_buffer)
      else let new_input = write_u32_be (of_nat (length input)) @ input
           in if \<not> init_ok z then (False, empty_buffer)
              else if \<not> malloc2 then (False, empty_buffer)
              else case deflate_finish z (15 + 16) new_input (compress_bound z (length new_input)) of
                     None \<Rightarrow> (False, empty_buffer)
                   | Some out \<Rightarrow> (True, \<lparr>sb_data = Some out, sb_size = length out\<rparr>))"

definition tc_deflate_byte_array :: "zlib \<Rightarrow> bool \<Rightarrow> cstring \<Rightarrow> bool \<times> send_buffer" where
  "tc_deflate_byte_array z malloc1 input =
     (if \<not> init_ok z then (False, empty_buffer)
      else if \<not> malloc1 then (False, empty_buffer)
      else case deflate_finish z (-15) input (compress_bound z (length input)) of
             None \<Rightarrow> (False, empty_buffer)
           | Some out \<Rightarrow> (True, \<lparr>sb_data = Some out, sb_size = length out\<rparr>))"

section \<open>Lemmas\<close>

lemma c_str_no_nul: "0 \<notin> set (c_str buf)"
  unfolding c_str_def by (metis set_takeWhileD)

lemma c_str_pad: "0 \<notin> set s \<Longrightarrow> c_str (s @ 0 # rest) = s"
  unfolding c_str_def by (induction s) auto

lemma c_str_id: "0 \<notin> set s \<Longrightarrow> c_str s = s"
  unfolding c_str_def by (induction s) auto

lemma string_compare_eq:
  "tc_string_compare a b = 0 \<longleftrightarrow> take 64 (c_str a) = take 64 (c_str b)"
  by (simp add: tc_string_compare_def TC_PROTOCOL_MAX_STR_LEN_def strncmp_eq_0 c_str_no_nul)

text \<open>\<open>compressBound\<close> of zlib, for sizes that do not overflow.\<close>

definition zlib_compress_bound :: "nat \<Rightarrow> nat" where
  "zlib_compress_bound n = n + n div 2 ^ 12 + n div 2 ^ 14 + n div 2 ^ 25 + 13"

section \<open>Properties\<close>

text \<open>
  Map data that was compressed decompresses to what the client expects: with the \<open>FastMap\<close> extension
  (\<open>tc_deflate_byte_array\<close>) to the blocks themselves, without it (\<open>tc_gzip_byte_array\<close>) to their
  number as four big-endian bytes followed by the blocks. Inputs are below 4 GiB.
\<close>

theorem compressed_map_data:
  assumes inflate: "\<And>w x. inflated w (deflated z w x) = Some x"
    and size: "length input + 4 < 2 ^ 32"
  shows "(\<forall>b. tc_gzip_byte_array z m1 m2 input = (True, b) \<longrightarrow>
      (\<exists>d. sb_data b = Some d \<and> sb_size b = length d
        \<and> inflated 31 d = Some (write_u32_be (of_nat (length input)) @ input)))
    \<and> (\<forall>b. tc_deflate_byte_array z m2 input = (True, b) \<longrightarrow>
      (\<exists>d. sb_data b = Some d \<and> sb_size b = length d \<and> inflated (-15) d = Some input))"
proof -
  have n: "length (write_u32_be v) = 4" for v by (simp add: write_u32_be_def)
  have "length input mod 2 ^ 32 = length input" "(length input + 4) mod 2 ^ 32 = length input + 4"
    using size by simp_all
  then show ?thesis
    by (auto simp: tc_gzip_byte_array_def tc_deflate_byte_array_def deflate_finish_def Let_def inflate n
        add.commute split: if_splits)
qed

text \<open>A compression for the samples: the bytes unchanged, within any bound.\<close>

definition plain_zlib :: zlib where
  "plain_zlib = \<lparr>init_ok = True, deflated = (\<lambda>w x. x), compress_bound = zlib_compress_bound\<rparr>"

theorem compressed_map_data_witness:
  "\<exists>b d. tc_gzip_byte_array plain_zlib True True [7, 8] = (True, b) \<and> sb_data b = Some d
    \<and> Some d = Some (write_u32_be 2 @ [7, 8])"
proof -
  obtain b where b: "tc_gzip_byte_array plain_zlib True True [7, 8] = (True, b)"
    by (simp add: tc_gzip_byte_array_def plain_zlib_def deflate_finish_def Let_def write_u32_be_def
        zlib_compress_bound_def)
  from compressed_map_data [of "\<lambda>w. Some" plain_zlib "[7, 8]" True True] b show ?thesis
    by (auto simp: plain_zlib_def)
qed

text \<open>
  The gzip of a small map never fits: \<open>compressBound\<close> reserves room for the zlib wrapper, not
  for the 18 bytes of a gzip header and trailer, so a gzip stream of at least 18 bytes (every one,
  by the format) cannot hold even empty map data and the compression fails.
\<close>

theorem gzip_bound_too_small:
  assumes "\<And>x. 18 \<le> length (deflated z 31 x)" and "compress_bound z = zlib_compress_bound"
  shows "tc_gzip_byte_array z m1 m2 [] = (False, empty_buffer)"
proof -
  have "\<not> length (deflated z 31 x) \<le> 17" for x using assms(1) [of x] by simp
  then show ?thesis
    by (simp add: tc_gzip_byte_array_def deflate_finish_def Let_def assms(2) zlib_compress_bound_def
        write_u32_be_def)
qed

definition framed_zlib :: zlib where
  "framed_zlib = \<lparr>init_ok = True, deflated = (\<lambda>w x. replicate 18 0 @ x), compress_bound = zlib_compress_bound\<rparr>"

theorem gzip_bound_too_small_witness:
  "tc_gzip_byte_array framed_zlib True True [] = (False, empty_buffer)"
  by (rule gzip_bound_too_small) (simp_all add: framed_zlib_def)

end
