(* ===== verification/TC_Heartbeat.thy ===== *)
theory TC_Heartbeat
  imports TC_Utils
begin

text \<open>
  Authentication, \<^verbatim>\<open>src/heartbeat.c\<close>: the manager sends the salts of its services to the
  heartbeat servers in cycles, and validates a player's key as the MD5 of the current salt and the
  username.

  Parameters: the MD5 in hexadecimal of plibsys (\<open>None\<close> when it cannot be computed), the values of
  \<open>rand\<close>, and libcurl. The AVL tree of plibsys is an association list; keys are equal when
  \<open>tc_string_compare\<close> returns 0. The theories \<open>TC_Crypto_Hash\<close> and \<open>TC_PTree\<close> put the code of
  plibsys in the place of both and show that nothing changes. The lock of the manager makes each operation atomic.
\<close>

section \<open>State\<close>

definition TC_HEARTBEAT_SALT_LENGTH :: nat where "TC_HEARTBEAT_SALT_LENGTH = 16"
definition TC_URL_BUFFER_SIZE :: nat where "TC_URL_BUFFER_SIZE = 256"

record tc_heartbeat_info =
  info_port :: pint32
  info_max_players :: pint32
  info_server_name :: cstring
  info_is_public :: bool
  info_protocol_version :: pint32
  info_software_name :: "cstring option"
  info_allow_web_play :: bool

record tc_heartbeat_service =
  current_salt :: cstring
  web_play_url :: "cstring option"
  service_hostname :: cstring
  service_port :: pint32
  use_https :: bool
  dummy_service :: bool

record tc_heartbeat_manager =
  hb_info :: tc_heartbeat_info
  services :: "tc_heartbeat_service list"
  auth_tree :: "(cstring \<times> nat) list"
  hb_shutdown :: bool
  hb_started :: bool

definition heartbeat_manager_init :: "tc_heartbeat_info \<Rightarrow> tc_heartbeat_service list \<Rightarrow> tc_heartbeat_manager" where
  "heartbeat_manager_init info svcs =
     \<lparr>hb_info = info, services = map (\<lambda>s. s\<lparr>web_play_url := None\<rparr>) svcs, auth_tree = [],
      hb_shutdown = False, hb_started = False\<rparr>"

definition tc_heartbeat_manager_start :: "tc_heartbeat_manager \<Rightarrow> tc_heartbeat_manager" where
  "tc_heartbeat_manager_start m = m\<lparr>hb_started := True\<rparr>"

definition tc_heartbeat_manager_stop :: "tc_heartbeat_manager \<Rightarrow> tc_heartbeat_manager" where
  "tc_heartbeat_manager_stop m = m\<lparr>hb_shutdown := True\<rparr>"

section \<open>Salts\<close>

definition base62_alphabet :: string where
  "base62_alphabet = ''0123456789ABCDEFGHIJKLMNOPQRSTUVWXYZabcdefghijklmnopqrstuvwxyz''"

definition heartbeat_generate_salt :: "(nat \<Rightarrow> nat) \<Rightarrow> cstring" where
  "heartbeat_generate_salt rand =
     bytes_of (map (\<lambda>i. base62_alphabet ! (rand i mod 62)) [0..<TC_HEARTBEAT_SALT_LENGTH])"

section \<open>Validating a key\<close>

definition tree_lookup :: "(cstring \<times> nat) list \<Rightarrow> cstring \<Rightarrow> nat option" where
  "tree_lookup t key = map_option snd (find (\<lambda>(k, _). tc_string_compare k key = 0) t)"

definition tree_insert :: "cstring \<Rightarrow> nat \<Rightarrow> (cstring \<times> nat) list \<Rightarrow> (cstring \<times> nat) list" where
  "tree_insert key v t = (key, v) # filter (\<lambda>(k, _). tc_string_compare k key \<noteq> 0) t"

text \<open>The loop over the services from number \<open>i\<close>; \<open>name\<close> is the username's bytes that are hashed.\<close>

fun validate_loop ::
    "(cstring \<Rightarrow> cstring option) \<Rightarrow> cstring \<Rightarrow> cstring \<Rightarrow> nat \<Rightarrow> tc_heartbeat_service list
     \<Rightarrow> (cstring \<times> nat) list \<Rightarrow> nat option \<times> (cstring \<times> nat) list" where
  "validate_loop md5 name key i [] t = (None, t)"
| "validate_loop md5 name key i (s # ss) t =
     (if dummy_service s then (Some i, t)
      else case md5 (current_salt s @ name) of
             None \<Rightarrow> validate_loop md5 name key (Suc i) ss t
           | Some hex \<Rightarrow>
               if strncmp (c_str key) hex (length hex) = 0 then (Some i, tree_insert hex i t)
               else validate_loop md5 name key (Suc i) ss t)"

definition tc_heartbeat_manager_validate ::
    "(cstring \<Rightarrow> cstring option) \<Rightarrow> tc_heartbeat_manager \<Rightarrow> cstring option \<Rightarrow> cstring option
     \<Rightarrow> nat option \<times> tc_heartbeat_manager" where
  "tc_heartbeat_manager_validate md5 m username key =
     (case (username, key) of
        (Some username, Some key) \<Rightarrow>
          if tree_lookup (auth_tree m) key \<noteq> None then (None, m)
          else let name = take TC_PROTOCOL_MAX_STR_LEN (c_str username);
                   (r, t) = validate_loop md5 name key 0 (services m) (auth_tree m)
               in (r, m\<lparr>auth_tree := t\<rparr>)
      | _ \<Rightarrow> (None, m))"

section \<open>Sending a heartbeat\<close>

text \<open>The write callback: the response so far is \<open>buf\<close>; the result is how much it took.\<close>

definition heartbeat_response_wb :: "psize \<Rightarrow> psize \<Rightarrow> cstring \<Rightarrow> cstring \<Rightarrow> (psize \<times> cstring) outcome" where
  "heartbeat_response_wb sz nmemb data buf =
     (let remaining_capacity = of_nat TC_URL_BUFFER_SIZE - of_nat (length buf) :: psize;
          realsize = sz * nmemb
      in if realsize > remaining_capacity then Inr (0, buf)
         else if unat realsize > length data \<or> length buf + unat realsize > TC_URL_BUFFER_SIZE
         then Inl OutOfBounds
         else Inr (realsize, buf @ take (unat realsize) data))"

record curl_request =
  req_scheme :: string
  req_host :: cstring
  req_path :: string
  req_port :: string
  req_query :: "(cstring \<times> bool) list"

text \<open>
  What libcurl does: whether the handles can be made and the URL assembled, the data it delivers
  for a request (\<open>None\<close> on a transfer error), and what reading the response code of the handle
  yields. The source reads it after \<open>curl_easy_cleanup\<close>, so it is not tied to the request.
\<close>

record curl =
  easy_init_ok :: bool
  curl_url_ok :: bool
  full_url_ok :: bool
  perform :: "curl_request \<Rightarrow> cstring list option"
  stale_response_code :: int
  url_malloc_ok :: bool

text \<open>\<open>strncat\<close> of at most 64 bytes after a prefix.\<close>

definition strncat :: "string \<Rightarrow> cstring \<Rightarrow> nat \<Rightarrow> cstring" where
  "strncat prefix s n = bytes_of prefix @ take n (c_str s)"

text \<open>The query parts in the order they are appended; the flag is \<open>CURLU_URLENCODE\<close>.\<close>

definition heartbeat_query :: "tc_heartbeat_info \<Rightarrow> pint32 \<Rightarrow> cstring \<Rightarrow> (cstring \<times> bool) list" where
  "heartbeat_query info active_players salt =
     [(bytes_of (snprintf 11 (''port='' @ decimal (sint (info_port info)))), False),
      (bytes_of (snprintf 11 (''max='' @ decimal (sint (info_max_players info)))), False),
      (strncat ''name='' (info_server_name info) TC_PROTOCOL_MAX_STR_LEN, True),
      (bytes_of (snprintf 14 (''public='' @ (if info_is_public info then ''True'' else ''False''))), False),
      (bytes_of (snprintf 13 (''version='' @ decimal (sint (info_protocol_version info)))), False),
      (strncat ''salt='' salt TC_HEARTBEAT_SALT_LENGTH, False),
      (bytes_of (snprintf 18 (''users='' @ decimal (sint active_players))), False)]
     @ (case info_software_name info of
          None \<Rightarrow> []
        | Some name \<Rightarrow> [(strncat ''software='' name TC_PROTOCOL_MAX_STR_LEN, True)])
     @ (if info_allow_web_play info then [(bytes_of ''web=True'', False)] else [])"

definition heartbeat_request ::
    "tc_heartbeat_service \<Rightarrow> pint32 \<Rightarrow> tc_heartbeat_info \<Rightarrow> cstring \<Rightarrow> curl_request" where
  "heartbeat_request service active_players info salt =
     \<lparr>req_scheme = (if use_https service then ''https'' else ''http''),
      req_host = service_hostname service,
      req_path = ''/server/heartbeat/'',
      req_port = snprintf 6 (decimal (sint (service_port service))),
      req_query = heartbeat_query info active_players salt\<rparr>"

text \<open>
  The transfer calls the write function for each piece of data as one block of that many bytes;
  a result other than the size of the piece ends it with an error.
\<close>

fun curl_transfer :: "cstring list \<Rightarrow> cstring \<Rightarrow> cstring option outcome" where
  "curl_transfer [] buf = Inr (Some buf)"
| "curl_transfer (d # ds) buf =
     (case heartbeat_response_wb 1 (of_nat (length d)) d buf of
        Inl f \<Rightarrow> Inl f
      | Inr (n, buf') \<Rightarrow> if unat n \<noteq> length d then Inr None else curl_transfer ds buf')"

definition tc_heartbeat_send_info ::
    "curl \<Rightarrow> tc_heartbeat_service \<Rightarrow> pint32 \<Rightarrow> tc_heartbeat_info \<Rightarrow> cstring
     \<Rightarrow> (bool \<times> tc_heartbeat_service) outcome" where
  "tc_heartbeat_send_info c service active_players info salt =
     (if dummy_service service then Inr (True, service)
      else if \<not> easy_init_ok c \<or> \<not> curl_url_ok c \<or> \<not> full_url_ok c then Inr (False, service)
      else case perform c (heartbeat_request service active_players info salt) of
             None \<Rightarrow> Inr (False, service)
           | Some ds \<Rightarrow>
               (case curl_transfer ds [] of
                  Inl f \<Rightarrow> Inl f
                | Inr None \<Rightarrow> Inr (False, service)
                | Inr (Some response) \<Rightarrow>
                    if stale_response_code c \<noteq> 200 then Inr (False, service)
                    else if \<not> info_allow_web_play info then Inr (True, service)
                    else if \<not> url_malloc_ok c then Inr (False, service\<lparr>web_play_url := None\<rparr>)
                    else Inr (True, service\<lparr>web_play_url := Some response\<rparr>)))"

section \<open>The worker\<close>

text \<open>One service in a cycle: a new salt, no old URL, and the heartbeat; its result is ignored.\<close>

definition heartbeat_service_turn ::
    "(nat \<Rightarrow> nat) \<Rightarrow> curl \<Rightarrow> pint32 \<Rightarrow> tc_heartbeat_info \<Rightarrow> tc_heartbeat_service
     \<Rightarrow> tc_heartbeat_service outcome" where
  "heartbeat_service_turn rand c active_players info s =
     (let salt = heartbeat_generate_salt rand;
          s1 = s\<lparr>current_salt := salt, web_play_url := None\<rparr>
      in map_sum id snd (tc_heartbeat_send_info c s1 active_players info salt))"

fun heartbeat_turns ::
    "(nat \<Rightarrow> nat \<Rightarrow> nat) \<Rightarrow> (nat \<Rightarrow> curl) \<Rightarrow> pint32 \<Rightarrow> tc_heartbeat_info \<Rightarrow> nat
     \<Rightarrow> tc_heartbeat_service list \<Rightarrow> tc_heartbeat_service list outcome" where
  "heartbeat_turns rand c active_players info i [] = Inr []"
| "heartbeat_turns rand c active_players info i (s # ss) =
     (case heartbeat_service_turn (rand i) (c i) active_players info s of
        Inl f \<Rightarrow> Inl f
      | Inr s' \<Rightarrow> map_sum id (Cons s') (heartbeat_turns rand c active_players info (Suc i) ss))"

definition heartbeat_cycle ::
    "(nat \<Rightarrow> nat \<Rightarrow> nat) \<Rightarrow> (nat \<Rightarrow> curl) \<Rightarrow> pint32 \<Rightarrow> tc_heartbeat_manager \<Rightarrow> tc_heartbeat_manager outcome" where
  "heartbeat_cycle rand c active_players m =
     map_sum id (\<lambda>ss. m\<lparr>services := ss, auth_tree := []\<rparr>)
       (heartbeat_turns rand c active_players (hb_info m) 0 (services m))"

datatype hb_pc = HbWaiting | HbRunning | HbSleeping | HbReturned

text \<open>
  The heartbeat thread among the other operations of the manager, which take its lock: it waits
  for the start, runs a cycle unless shut down, sleeps without the lock, and so on.
\<close>

inductive hb_step ::
    "hb_pc \<times> tc_heartbeat_manager \<Rightarrow> hb_pc \<times> tc_heartbeat_manager \<Rightarrow> bool" where
  hb_start: "hb_step (pc, m) (pc, tc_heartbeat_manager_start m)"
| hb_stop: "hb_step (pc, m) (pc, tc_heartbeat_manager_stop m)"
| hb_validate: "tc_heartbeat_manager_validate md5 m username key = (r, m')
    \<Longrightarrow> hb_step (pc, m) (pc, m')"
| hb_begin: "hb_started m \<Longrightarrow> hb_step (HbWaiting, m) (HbRunning, m)"
| hb_run: "\<not> hb_shutdown m \<Longrightarrow> heartbeat_cycle rand c n m = Inr m'
    \<Longrightarrow> hb_step (HbRunning, m) (HbSleeping, m')"
| hb_wake: "hb_step (HbSleeping, m) (HbRunning, m)"
| hb_return: "hb_shutdown m \<Longrightarrow> hb_step (HbRunning, m) (HbReturned, m)"

inductive_simps hb_step_simps: "hb_step (pc, m) (pc', m')"

section \<open>Lemmas\<close>

definition hash_input :: "tc_heartbeat_service \<Rightarrow> cstring \<Rightarrow> cstring" where
  "hash_input s username = current_salt s @ take 64 (c_str username)"

lemma strncmp_prefix_iff:
  assumes "0 \<notin> set xs" and "0 \<notin> set hex"
  shows "strncmp xs hex (length hex) = 0 \<longleftrightarrow> take (length hex) xs = hex"
  using strncmp_eq_0 [OF assms, of "length hex"] by simp

lemma validate_loop_Some:
  assumes "validate_loop md5 name key i ss t = (Some j, t')"
  shows "i \<le> j \<and> j < i + length ss \<and> (if dummy_service (ss ! (j - i)) then t' = t
    else \<exists>hex. md5 (current_salt (ss ! (j - i)) @ name) = Some hex
      \<and> strncmp (c_str key) hex (length hex) = 0 \<and> t' = tree_insert hex j t)"
  using assms
proof (induction ss arbitrary: i)
  case (Cons s ss)
  show ?case
  proof (cases "validate_loop md5 name key (Suc i) ss t = (Some j, t') \<and> \<not> dummy_service s")
    case True
    from Cons.IH [OF conjunct1 [OF True]] show ?thesis
      by (auto simp: nth_Cons' Suc_le_eq)
  next
    case False
    with Cons.prems show ?thesis by (auto split: if_splits option.splits)
  qed
qed simp

lemma validate_loop_grows:
  "validate_loop md5 name key i ss t = (r, t') \<Longrightarrow> t' = t \<or> (\<exists>hex j. t' = tree_insert hex j t)"
  by (induction ss arbitrary: i) (auto split: if_splits option.splits)

lemma compare_trans:
  "tc_string_compare a b = 0 \<Longrightarrow> tc_string_compare b c = 0 \<Longrightarrow> tc_string_compare a c = 0"
  "tc_string_compare a b = 0 \<longleftrightarrow> tc_string_compare b a = 0"
  by (auto simp: string_compare_eq)

lemma lookup_Some_iff: "tree_lookup t key \<noteq> None \<longleftrightarrow> (\<exists>(k, v) \<in> set t. tc_string_compare k key = 0)"
  by (force simp: tree_lookup_def find_None_iff2 find_None_iff)

lemma lookup_insert: "tree_lookup t key \<noteq> None \<Longrightarrow> tree_lookup (tree_insert k v t) key \<noteq> None"
  unfolding lookup_Some_iff tree_insert_def using compare_trans by fastforce

lemma lookup_inserted: "tc_string_compare k key = 0 \<Longrightarrow> tree_lookup (tree_insert k v t) key \<noteq> None"
  by (simp add: tree_lookup_def tree_insert_def)

text \<open>What is used of MD5: its hexadecimal form has 32 characters.\<close>

definition md5_hex :: "(cstring \<Rightarrow> cstring option) \<Rightarrow> bool" where
  "md5_hex md5 \<longleftrightarrow> (\<forall>x hex. md5 x = Some hex \<longrightarrow> 0 \<notin> set hex \<and> length hex = 32)"

text \<open>A run of validations, as a list of usernames and keys.\<close>

fun validate_all ::
    "(cstring \<Rightarrow> cstring option) \<Rightarrow> (cstring option \<times> cstring option) list \<Rightarrow> tc_heartbeat_manager
     \<Rightarrow> tc_heartbeat_manager" where
  "validate_all md5 [] m = m"
| "validate_all md5 ((u, k) # rs) m = validate_all md5 rs (snd (tc_heartbeat_manager_validate md5 m u k))"

lemma validate_keeps_lookup:
  assumes "tree_lookup (auth_tree m) key \<noteq> None"
  shows "tree_lookup (auth_tree (snd (tc_heartbeat_manager_validate md5 m u k))) key \<noteq> None"
proof -
  have "tree_lookup (snd (validate_loop md5 n q 0 (services m) (auth_tree m))) key \<noteq> None" for n q
    using validate_loop_grows [of md5 n q 0 "services m" "auth_tree m"] lookup_insert [OF assms] assms
    by (metis prod.collapse)
  then show ?thesis
    using assms by (auto simp: tc_heartbeat_manager_validate_def split_beta Let_def split: option.split)
qed

lemma validate_all_keeps_lookup:
  "tree_lookup (auth_tree m) key \<noteq> None \<Longrightarrow> tree_lookup (auth_tree (validate_all md5 rs m)) key \<noteq> None"
  by (induction md5 rs m rule: validate_all.induct) (simp_all add: validate_keeps_lookup)

lemma validate_known_key:
  "tree_lookup (auth_tree m) key \<noteq> None \<Longrightarrow> tc_heartbeat_manager_validate md5 m u (Some key) = (None, m)"
  by (cases u) (simp_all add: tc_heartbeat_manager_validate_def)

lemma validate_accepted:
  assumes "tc_heartbeat_manager_validate md5 m (Some username) (Some key) = (Some i, m')"
    and "md5_hex md5"
  shows "i < length (services m) \<and> tree_lookup (auth_tree m) key = None \<and> (dummy_service (services m ! i)
    \<or> (\<exists>hex. md5 (hash_input (services m ! i) username) = Some hex \<and> take (length hex) (c_str key) = hex
         \<and> m' = m\<lparr>auth_tree := tree_insert hex i (auth_tree m)\<rparr>))"
proof -
  obtain t where "validate_loop md5 (take 64 (c_str username)) key 0 (services m) (auth_tree m) = (Some i, t)"
    "m' = m\<lparr>auth_tree := t\<rparr>" "tree_lookup (auth_tree m) key = None"
    using assms(1) by (auto simp: tc_heartbeat_manager_validate_def TC_PROTOCOL_MAX_STR_LEN_def split_beta
        Let_def prod_eq_iff split: if_splits)
  moreover have "take (length hex) (c_str key) = hex"
    if "md5 x = Some hex" "strncmp (c_str key) hex (length hex) = 0" for x hex
    using strncmp_prefix_iff [OF c_str_no_nul, of hex key] that assms(2) by (auto simp: md5_hex_def)
  ultimately show ?thesis
    using validate_loop_Some [of md5 "take 64 (c_str username)" key 0 "services m" "auth_tree m" i t]
    by (auto simp: hash_input_def split: if_splits)
qed

lemma base62_length: "length base62_alphabet = 62"
  by (simp add: base62_alphabet_def)

lemma salt_ok:
  "length (heartbeat_generate_salt rand) = 16" "set (heartbeat_generate_salt rand) \<subseteq> set (bytes_of base62_alphabet)"
proof -
  show "length (heartbeat_generate_salt rand) = 16"
    by (simp add: heartbeat_generate_salt_def TC_HEARTBEAT_SALT_LENGTH_def)
  show "set (heartbeat_generate_salt rand) \<subseteq> set (bytes_of base62_alphabet)"
    using nth_mem [of "_ mod 62" base62_alphabet] base62_length
    by (auto simp: heartbeat_generate_salt_def bytes_of_def)
qed

lemma send_info_keeps:
  "tc_heartbeat_send_info c s n info salt = Inr (r, s') \<Longrightarrow> current_salt s' = current_salt s
    \<and> dummy_service s' = dummy_service s"
  by (auto simp: tc_heartbeat_send_info_def split: if_splits option.splits sum.splits)

lemma response_wb_ok:
  assumes "length buf \<le> 256" and "unat (sz * nmemb) \<le> length data"
  shows "heartbeat_response_wb sz nmemb data buf = Inr (if length buf + unat (sz * nmemb) \<le> 256
    then (sz * nmemb, buf @ take (unat (sz * nmemb)) data) else (0, buf))"
proof -
  have "unat (256 - of_nat (length buf) :: psize) = 256 - length buf"
    using assms(1) by (simp add: unat_sub_if_size word_le_nat_alt unat_of_nat)
  then show ?thesis
    using assms by (auto simp: heartbeat_response_wb_def TC_URL_BUFFER_SIZE_def Let_def word_less_nat_alt)
qed

lemma curl_transfer_ok:
  assumes "length buf \<le> 256" "\<forall>d \<in> set ds. length d < 2 ^ 64"
  shows "curl_transfer ds buf = Inr (if length buf + length (concat ds) \<le> 256 then Some (buf @ concat ds) else None)"
  using assms
proof (induction ds arbitrary: buf)
  case (Cons d ds)
  have n: "unat (of_nat (length d) :: psize) = length d"
    using Cons.prems(2) by (simp add: unat_of_nat)
  then have w: "heartbeat_response_wb 1 (of_nat (length d)) d buf
      = Inr (if length buf + length d \<le> 256 then (of_nat (length d), buf @ d) else (0, buf))"
    using response_wb_ok [of buf 1 "of_nat (length d)" d] Cons.prems(1) by simp
  show ?case
  proof (cases "length buf + length d \<le> 256")
    case True
    with w n Cons.IH [of "buf @ d"] Cons.prems(2) show ?thesis by (simp add: add.assoc)
  next
    case False
    with Cons.prems(1) have "length d \<noteq> 0" by linarith
    with False w show ?thesis by simp
  qed
qed simp

text \<open>What libcurl delivers fits memory.\<close>

definition curl_sane :: "curl \<Rightarrow> bool" where
  "curl_sane c \<longleftrightarrow> (\<forall>r ds. perform c r = Some ds \<longrightarrow> (\<forall>d \<in> set ds. length d < 2 ^ 64))"

lemma send_info_total:
  assumes "curl_sane c"
  shows "\<exists>r s'. tc_heartbeat_send_info c s n info salt = Inr (r, s')
    \<and> (\<forall>u. web_play_url s' = Some u \<longrightarrow> web_play_url s = Some u \<or> length u \<le> 256)"
proof (cases "perform c (heartbeat_request s n info salt)")
  case (Some ds)
  with assms have "curl_transfer ds [] = Inr (if length (concat ds) \<le> 256 then Some (concat ds) else None)"
    using curl_transfer_ok [of "[]" ds] by (simp add: curl_sane_def)
  with Some show ?thesis by (cases "length (concat ds) \<le> 256") (auto simp: tc_heartbeat_send_info_def)
qed (auto simp: tc_heartbeat_send_info_def)

lemma service_turn_total:
  assumes "curl_sane c"
  shows "\<exists>s'. heartbeat_service_turn rand c n info s = Inr s'
    \<and> current_salt s' = heartbeat_generate_salt rand \<and> dummy_service s' = dummy_service s
    \<and> (\<forall>u. web_play_url s' = Some u \<longrightarrow> length u \<le> 256)"
proof -
  let ?s = "s\<lparr>current_salt := heartbeat_generate_salt rand, web_play_url := None\<rparr>"
  obtain r s' where s': "tc_heartbeat_send_info c ?s n info (heartbeat_generate_salt rand) = Inr (r, s')"
    "\<forall>u. web_play_url s' = Some u \<longrightarrow> web_play_url ?s = Some u \<or> length u \<le> 256"
    using send_info_total [OF assms] by blast
  from send_info_keeps [OF s'(1)] s' show ?thesis by (simp add: heartbeat_service_turn_def Let_def)
qed

lemma heartbeat_turns_total:
  assumes "\<forall>i. curl_sane (c i)"
  shows "\<exists>ss'. heartbeat_turns rand c n info i ss = Inr ss' \<and> length ss' = length ss
    \<and> (\<forall>j < length ss. current_salt (ss' ! j) = heartbeat_generate_salt (rand (i + j))
         \<and> dummy_service (ss' ! j) = dummy_service (ss ! j)
         \<and> (\<forall>u. web_play_url (ss' ! j) = Some u \<longrightarrow> length u \<le> 256))"
proof (induction ss arbitrary: i)
  case (Cons s ss)
  obtain s' where s': "heartbeat_service_turn (rand i) (c i) n info s = Inr s'"
    "current_salt s' = heartbeat_generate_salt (rand i)" "dummy_service s' = dummy_service s"
    "\<forall>u. web_play_url s' = Some u \<longrightarrow> length u \<le> 256"
    using service_turn_total assms by blast
  obtain ss' where ss': "heartbeat_turns rand c n info (Suc i) ss = Inr ss'" "length ss' = length ss"
    "\<forall>j < length ss. current_salt (ss' ! j) = heartbeat_generate_salt (rand (Suc i + j))
         \<and> dummy_service (ss' ! j) = dummy_service (ss ! j)
         \<and> (\<forall>u. web_play_url (ss' ! j) = Some u \<longrightarrow> length u \<le> 256)"
    using Cons.IH by blast
  from s' ss' have "heartbeat_turns rand c n info i (s # ss) = Inr (s' # ss')" by simp
  moreover have "current_salt ((s' # ss') ! j) = heartbeat_generate_salt (rand (i + j))
         \<and> dummy_service ((s' # ss') ! j) = dummy_service ((s # ss) ! j)
         \<and> (\<forall>u. web_play_url ((s' # ss') ! j) = Some u \<longrightarrow> length u \<le> 256)" if "j < length (s # ss)" for j
    using that s'(2-4) ss'(3) by (cases j) auto
  ultimately show ?case using ss'(2) by auto
qed simp

lemma decimal_short: "0 \<le> i \<Longrightarrow> i < 10 ^ Suc k \<Longrightarrow> length (decimal i) \<le> Suc k"
  using decimal_nat_length [of "nat i" k] by (auto simp: decimal_def nat_less_iff)

lemma snprintf_fits: "length s < n \<Longrightarrow> snprintf n s = s"
  by (simp add: snprintf_def)

lemma validate_flags:
  assumes "tc_heartbeat_manager_validate md5 m u k = (r, m')"
  shows "hb_started m' = hb_started m" "hb_shutdown m' = hb_shutdown m"
proof -
  obtain t where "m' = m\<lparr>auth_tree := t\<rparr>"
    using assms by (cases u; cases k)
      (auto simp: tc_heartbeat_manager_validate_def split_beta Let_def split: if_splits intro: that [of "auth_tree m"])
  then show "hb_started m' = hb_started m" "hb_shutdown m' = hb_shutdown m" by simp_all
qed

lemma cycle_flags:
  "heartbeat_cycle rand c n m = Inr m' \<Longrightarrow> hb_started m' = hb_started m \<and> hb_shutdown m' = hb_shutdown m"
  by (cases "heartbeat_turns rand c n (hb_info m) 0 (services m)") (auto simp: heartbeat_cycle_def)

lemma hb_started_mono: "hb_step (pc, m) (pc', m') \<Longrightarrow> hb_started m \<Longrightarrow> hb_started m'"
  by (auto simp: hb_step_simps tc_heartbeat_manager_start_def tc_heartbeat_manager_stop_def
      dest: validate_flags cycle_flags)

lemma hb_shutdown_mono: "hb_step (pc, m) (pc', m') \<Longrightarrow> hb_shutdown m \<Longrightarrow> hb_shutdown m'"
  by (auto simp: hb_step_simps tc_heartbeat_manager_start_def tc_heartbeat_manager_stop_def
      dest: validate_flags cycle_flags)

text \<open>The thread is past its wait only when the manager was started, and returned only when stopped.\<close>

definition hb_ok :: "hb_pc \<times> tc_heartbeat_manager \<Rightarrow> bool" where
  "hb_ok = (\<lambda>(pc, m). (pc \<noteq> HbWaiting \<longrightarrow> hb_started m) \<and> (pc = HbReturned \<longrightarrow> hb_shutdown m))"

lemma hb_ok_step: "hb_step st st' \<Longrightarrow> hb_ok st \<Longrightarrow> hb_ok st'"
proof -
  assume step: "hb_step st st'" and ok: "hb_ok st"
  obtain pc m pc' m' where [simp]: "st = (pc, m)" "st' = (pc', m')" by (cases st, cases st')
  have "pc' = pc \<or> (pc = HbWaiting \<and> pc' = HbRunning \<and> hb_started m) \<or> pc = HbRunning \<and> pc' = HbSleeping
      \<or> pc = HbSleeping \<and> pc' = HbRunning \<or> pc = HbRunning \<and> pc' = HbReturned \<and> hb_shutdown m"
    using step by (auto simp: hb_step_simps)
  with ok hb_started_mono [of pc m pc' m'] hb_shutdown_mono [of pc m pc' m'] step show ?thesis
    by (auto simp: hb_ok_def)
qed

lemma hb_ok_reachable: "hb_step\<^sup>*\<^sup>* st st' \<Longrightarrow> hb_ok st \<Longrightarrow> hb_ok st'"
  by (induction rule: rtranclp_induct) (auto intro: hb_ok_step)


section \<open>Properties\<close>

text \<open>
  [C16] Who is let in: when \<open>tc_heartbeat_manager_validate\<close> returns a service that is not the dummy
  service of a debug setup, the key begins with the MD5 of that service's current salt followed by
  the username, it was not yet recorded as used, and the hash is recorded.
\<close>

theorem authentication_sound:
  assumes "tc_heartbeat_manager_validate md5 m (Some username) (Some key) = (Some i, m')"
    and "md5_hex md5"
  shows "i < length (services m) \<and> tree_lookup (auth_tree m) key = None
    \<and> (dummy_service (services m ! i)
       \<or> (\<exists>hex. md5 (hash_input (services m ! i) username) = Some hex \<and> take (length hex) (c_str key) = hex
            \<and> m' = m\<lparr>auth_tree := tree_insert hex i (auth_tree m)\<rparr>))"
  using assms by (rule validate_accepted)

text \<open>A manager of one service, and a hash of 32 characters, for the samples.\<close>

definition sample_service :: tc_heartbeat_service where
  "sample_service = \<lparr>current_salt = bytes_of ''0123456789abcdef'', web_play_url = None,
     service_hostname = bytes_of ''www.classicube.net'', service_port = 443, use_https = True, dummy_service = False\<rparr>"

definition sample_info :: tc_heartbeat_info where
  "sample_info = \<lparr>info_port = 25565, info_max_players = 128, info_server_name = bytes_of ''TeleClassic'',
     info_is_public = True, info_protocol_version = 7, info_software_name = None, info_allow_web_play = True\<rparr>"

definition sample_md5 :: "cstring \<Rightarrow> cstring option" where
  "sample_md5 x = Some (replicate 31 0x61 @ [if even (length x) then 0x30 else 0x39])"

definition sample_key :: cstring where
  "sample_key = replicate 31 0x61 @ [0x39] @ replicate 32 0"

definition sample_manager :: tc_heartbeat_manager where
  "sample_manager = heartbeat_manager_init sample_info [sample_service]"

lemma sample_md5_hex: "md5_hex sample_md5"
  by (auto simp: md5_hex_def sample_md5_def)

lemma sample_validate:
  "tc_heartbeat_manager_validate sample_md5 sample_manager (Some (bytes_of ''bob'')) (Some sample_key)
   = (Some 0, sample_manager\<lparr>auth_tree := [(take 32 sample_key, 0)]\<rparr>)"
  by code_simp

theorem authentication_sound_witness:
  "\<exists>hex. sample_md5 (hash_input (services sample_manager ! 0) (bytes_of ''bob'')) = Some hex
     \<and> take (length hex) (c_str sample_key) = hex"
proof -
  have "\<not> dummy_service (services sample_manager ! 0)" by code_simp
  with authentication_sound [OF sample_validate sample_md5_hex] show ?thesis by blast
qed



text \<open>
  [C18] The replay check can be bypassed: the used hash is looked up by comparing whole strings, but
  a key is accepted when it begins with the hash. After a player's key was used, the same key with
  one more character is accepted again.
\<close>

theorem replay_check_bypassed:
  assumes "md5_hex md5"
    and "services m = [s]" "\<not> dummy_service s" "auth_tree m = []"
    and "md5 (hash_input s username) = Some hex"
  shows "\<exists>m'. tc_heartbeat_manager_validate md5 m (Some username) (Some hex) = (Some 0, m')
    \<and> fst (tc_heartbeat_manager_validate md5 m' (Some username) (Some hex)) = None
    \<and> fst (tc_heartbeat_manager_validate md5 m' (Some username) (Some (hex @ [0x78]))) = Some 0"
proof -
  have h: "0 \<notin> set hex" "length hex = 32" using assms(1,5) by (auto simp: md5_hex_def)
  have k: "c_str (hex @ [0x78]) = hex @ [0x78]" "c_str hex = hex" using h(1) by (simp_all add: c_str_id)
  have same: "tc_string_compare hex hex = 0" by (simp add: string_compare_eq)
  have differ: "tc_string_compare hex (hex @ [0x78]) \<noteq> 0"
    using h(2) by (simp add: string_compare_eq k)
  have pre: "strncmp (hex @ [0x78]) hex 32 = 0" "strncmp hex hex 32 = 0"
    using strncmp_eq_0 [of "hex @ [0x78]" hex 32] strncmp_eq_0 [of hex hex 32] h by simp_all
  have "md5 (current_salt s @ take TC_PROTOCOL_MAX_STR_LEN (c_str username)) = Some hex"
    using assms(5) by (simp add: hash_input_def TC_PROTOCOL_MAX_STR_LEN_def)
  with assms(2-4) h k same differ pre show ?thesis
    by (simp add: tc_heartbeat_manager_validate_def tree_lookup_def tree_insert_def)
qed

theorem replay_check_bypassed_witness:
  "\<exists>m'. tc_heartbeat_manager_validate sample_md5 sample_manager (Some (bytes_of ''bob'')) (Some (take 32 sample_key))
      = (Some 0, m')
    \<and> fst (tc_heartbeat_manager_validate sample_md5 m' (Some (bytes_of ''bob'')) (Some (take 32 sample_key))) = None
    \<and> fst (tc_heartbeat_manager_validate sample_md5 m' (Some (bytes_of ''bob'')) (Some (take 32 sample_key @ [0x78])))
      = Some 0"
proof (rule replay_check_bypassed [OF sample_md5_hex])
  show "services sample_manager = [sample_service]" "\<not> dummy_service sample_service" "auth_tree sample_manager = []"
    "sample_md5 (hash_input sample_service (bytes_of ''bob'')) = Some (take 32 sample_key)"
    by code_simp+
qed


definition sample_curl :: curl where
  "sample_curl = \<lparr>easy_init_ok = True, curl_url_ok = True, full_url_ok = True,
     perform = (\<lambda>_. Some [bytes_of ''http://x'']), stale_response_code = 200, url_malloc_ok = True\<rparr>"


text \<open>
  The heartbeat announces the server as configured: with a port, a player limit below a
  million and a protocol version below ten thousand, no query parameter is cut by its buffer.
\<close>

theorem heartbeat_query_exact:
  assumes "0 \<le> sint (info_port info)" "sint (info_port info) < 100000"
    and "0 \<le> sint (info_max_players info)" "sint (info_max_players info) < 1000000"
    and "0 \<le> sint (info_protocol_version info)" "sint (info_protocol_version info) < 10000"
    and "0 \<le> sint n"
  shows "take 2 (heartbeat_query info n salt) = [(bytes_of (''port='' @ decimal (sint (info_port info))), False),
      (bytes_of (''max='' @ decimal (sint (info_max_players info))), False)]
    \<and> heartbeat_query info n salt ! 4 = (bytes_of (''version='' @ decimal (sint (info_protocol_version info))), False)
    \<and> heartbeat_query info n salt ! 6 = (bytes_of (''users='' @ decimal (sint n)), False)"
proof -
  have "sint n < 10 ^ Suc 9"
    using sint_less [of n] by (simp add: power2_eq_square)
  then have "length (decimal (sint n)) \<le> 10" using decimal_short [OF assms(7), of 9] by simp
  moreover have "length (decimal (sint (info_port info))) \<le> 5" "length (decimal (sint (info_max_players info))) \<le> 6"
    "length (decimal (sint (info_protocol_version info))) \<le> 4"
    using decimal_short [OF assms(1), of 4] decimal_short [OF assms(3), of 5] decimal_short [OF assms(5), of 3]
      assms(2,4,6) by simp_all
  ultimately show ?thesis by (simp add: heartbeat_query_def snprintf_fits numeral_eq_Suc)
qed

theorem heartbeat_query_exact_witness:
  "take 2 (heartbeat_query sample_info 3 []) = [(bytes_of (''port='' @ decimal 25565), False),
      (bytes_of (''max='' @ decimal 128), False)]"
  using heartbeat_query_exact [of sample_info 3 "[]"] by (simp add: sample_info_def)

text \<open>
  The heartbeat thread and shutdown: in every reachable state the thread has returned only if
  the manager was started and stopped. So joining the thread of a manager that was never started,
  as a failed server initialisation and the finalisation of a server that was not started do, waits
  forever.
\<close>

theorem heartbeat_thread_needs_start:
  assumes "hb_step\<^sup>*\<^sup>* (HbWaiting, heartbeat_manager_init info svcs) (pc, m)"
  shows "(pc = HbReturned \<longrightarrow> hb_started m \<and> hb_shutdown m) \<and> (\<not> hb_started m \<longrightarrow> pc = HbWaiting)"
  using hb_ok_reachable [OF assms] by (auto simp: hb_ok_def)

theorem heartbeat_thread_needs_start_witness:
  "hb_step\<^sup>*\<^sup>* (HbWaiting, sample_manager) (HbWaiting, tc_heartbeat_manager_stop sample_manager)
   \<and> \<not> hb_started (tc_heartbeat_manager_stop sample_manager)
   \<and> hb_shutdown (tc_heartbeat_manager_stop sample_manager)"
proof -
  have "hb_step\<^sup>*\<^sup>* (HbWaiting, sample_manager) (HbWaiting, tc_heartbeat_manager_stop sample_manager)"
    by (intro r_into_rtranclp hb_stop)
  with heartbeat_thread_needs_start [of sample_info "[sample_service]"] show ?thesis
    by (auto simp: sample_manager_def tc_heartbeat_manager_stop_def heartbeat_manager_init_def)
qed

end
