(* ===== verification/TC_Server.thy ===== *)
theory TC_Server
  imports TC_Thread_Pool TC_Heartbeat
begin

text \<open>
  Sessions and the server, \<^verbatim>\<open>src/server.c\<close>, with the packet tables of \<^verbatim>\<open>src/handler.c\<close>.

  A task of the thread pool runs as one action on the server: a task of a session holds the
  session's action lock while it works, and the server's lock is held only for a few lines, so
  tasks of different sessions do not interfere in what is stated here. A lock is a flag; taking a
  lock that is held, which with tasks as actions means that the same task holds it or that an
  earlier task never released it, is the fault \<open>SelfDeadlock\<close>, releasing a lock that is not held
  \<open>UnlockNotHeld\<close>.

  Worlds (joinables) are called through function pointers; here \<open>J\<close> gives the callbacks of each
  joinable. Logging is not part of the state. \<open>pint\<close> counters that wrap do so explicitly.
\<close>

section \<open>State\<close>

definition TC_SERVER_MAX_SESSIONS :: nat where "TC_SERVER_MAX_SESSIONS = 128"
definition TC_SERVER_PING_INTERVAL :: nat where "TC_SERVER_PING_INTERVAL = 15000000"

text \<open>What a read of a client socket can meet; empty data is the end of the stream.\<close>

datatype recv_event = RecvData cstring | RecvWouldBlock | RecvFailed

record tc_session =
  username :: cstring
  ext_cpe_versions :: "pchar list"
  client_socket :: psocket
  socket_inbox :: "recv_event list"
  socket_open :: bool
  ping_profiler :: "nat option"
  action_locked :: bool
  authenticated_service :: "nat option"
  current_joinable :: "nat option"
  pending_packet_buffer :: "cstring option"
  pending_packet_buffer_size :: nat
  pending_packet_opcode :: int
  supports_cpe :: bool
  current_generation :: int
  session_id :: nat
  remaining_cpe_ext_packets :: pint16
  custom_block_support_level :: pchar

text \<open>The task functions of the server, and those of worlds by number.\<close>

datatype tc_task =
    ClientListenTask
  | ShutdownClientTask
  | ListenerWorkerTask
  | HandleBeginCpeNegotiation
  | HandleCpeExtinfo
  | HandleCpeExtentry
  | HandleCpeCustomBlockSupportLevel
  | HandlePlayerIdentification
  | HandlePlayerSetBlock
  | HandlePlayerPositionUpdate
  | WorldTask nat

datatype task_arg = SessionArg nat | ServerArg | WorldArg nat

record tc_joinable_interface =
  joinable_name :: cstring
  joinable_ref :: nat

record tc_join_router =
  joinables :: "tc_joinable_interface list"
  router_readers :: nat
  router_writer :: bool
  default_joinable :: "nat option"
  router_stopped :: bool

record tc_server =
  session_buffer :: "tc_session list"
  id_buffer :: "nat list"
  id_buffer_head :: nat
  thread_pool :: "(tc_task, task_arg) tc_thread_pool"
  heartbeat_manager :: tc_heartbeat_manager
  join_router :: tc_join_router
  motd :: cstring
  server_locked :: bool
  active_players :: int
  server_started :: bool
  alloc_script :: "bool list"

record joinable_ops =
  attempt_join :: "nat \<Rightarrow> cstring option \<Rightarrow> tc_thread_pool_task_priority \<Rightarrow> int \<Rightarrow> (tc_server, bool) cm"
  leave :: "nat \<Rightarrow> tc_thread_pool_task_priority \<Rightarrow> int \<Rightarrow> (tc_server, unit) cm"
  handle_set_block :: "nat \<Rightarrow> pint16 \<Rightarrow> pint16 \<Rightarrow> pint16 \<Rightarrow> pchar \<Rightarrow> pint16
    \<Rightarrow> tc_thread_pool_task_priority \<Rightarrow> int \<Rightarrow> (tc_server, bool) cm"
  handle_position_update :: "nat \<Rightarrow> pint16 \<Rightarrow> pint16 \<Rightarrow> pint16 \<Rightarrow> pchar \<Rightarrow> pchar
    \<Rightarrow> tc_thread_pool_task_priority \<Rightarrow> int \<Rightarrow> (tc_server, bool) cm"
  handle_server_stop :: "(tc_server, unit) cm"

type_synonym joinable_table = "nat \<Rightarrow> joinable_ops"

section \<open>Access to a session\<close>

definition get_session :: "nat \<Rightarrow> (tc_server, tc_session) cm" where
  "get_session sid = (\<lambda>s. if sid < length (session_buffer s) then Inr (session_buffer s ! sid, s)
     else Inl OutOfBounds)"

definition upd_session :: "nat \<Rightarrow> (tc_session \<Rightarrow> tc_session) \<Rightarrow> (tc_server, unit) cm" where
  "upd_session sid f = (\<lambda>s. if sid < length (session_buffer s)
     then Inr ((), s\<lparr>session_buffer := (session_buffer s)[sid := f (session_buffer s ! sid)]\<rparr>)
     else Inl OutOfBounds)"

text \<open>A protocol function on the client's socket; the socket is freed when the session ends.\<close>

definition on_socket :: "nat \<Rightarrow> (psocket, 'a) cm \<Rightarrow> (tc_server, 'a) cm" where
  "on_socket sid m = bindC (get_session sid) (\<lambda>x.
     if \<not> socket_open x then faultC UseAfterFree
     else case m (client_socket x) of
            Inl f \<Rightarrow> faultC f
          | Inr (a, sock) \<Rightarrow> thenC (upd_session sid (\<lambda>x. x\<lparr>client_socket := sock\<rparr>)) (retC a))"

text \<open>
  \<open>p_socket_receive\<close> of at most \<open>n\<close> bytes: the number of bytes (0 at the end of the stream, -1 on
  an error), the bytes, and for an error whether it is \<open>WOULD_BLOCK\<close>.
\<close>

definition p_socket_receive :: "nat \<Rightarrow> nat \<Rightarrow> (tc_server, int \<times> cstring \<times> bool option) cm" where
  "p_socket_receive sid n = bindC (get_session sid) (\<lambda>x.
     if \<not> socket_open x then faultC UseAfterFree
     else case socket_inbox x of
            [] \<Rightarrow> retC (-1, [], Some True)
          | RecvWouldBlock # rest \<Rightarrow>
              thenC (upd_session sid (\<lambda>x. x\<lparr>socket_inbox := rest\<rparr>)) (retC (-1, [], Some True))
          | RecvFailed # rest \<Rightarrow>
              thenC (upd_session sid (\<lambda>x. x\<lparr>socket_inbox := rest\<rparr>)) (retC (-1, [], Some False))
          | RecvData d # rest \<Rightarrow>
              thenC (upd_session sid (\<lambda>x. x\<lparr>socket_inbox :=
                       (if drop n d = [] then rest else RecvData (drop n d) # rest)\<rparr>))
                (retC (int (length (take n d)), take n d, None)))"

text \<open>The next result of \<open>p_malloc\<close> and of the other allocating calls.\<close>

definition server_malloc :: "(tc_server, bool) cm" where
  "server_malloc = (\<lambda>s. case alloc_script s of [] \<Rightarrow> Inr (True, s)
     | ok # rest \<Rightarrow> Inr (ok, s\<lparr>alloc_script := rest\<rparr>))"

definition server_lock :: "(tc_server, unit) cm" where
  "server_lock = (\<lambda>s. if server_locked s then Inl SelfDeadlock else Inr ((), s\<lparr>server_locked := True\<rparr>))"

definition server_unlock :: "(tc_server, unit) cm" where
  "server_unlock = (\<lambda>s. if server_locked s then Inr ((), s\<lparr>server_locked := False\<rparr>) else Inl UnlockNotHeld)"

definition server_schedule_next ::
    "tc_task \<Rightarrow> tc_task option \<Rightarrow> task_arg \<Rightarrow> tc_thread_pool_task_priority \<Rightarrow> int \<Rightarrow> (tc_server, unit) cm" where
  "server_schedule_next next_task shutdown_task a prio gen = (\<lambda>s.
     case tc_thread_schedule_next (thread_pool s) next_task shutdown_task a prio gen of
       Inl f \<Rightarrow> Inl f
     | Inr p \<Rightarrow> Inr ((), s\<lparr>thread_pool := p\<rparr>))"

definition server_schedule_new ::
    "tc_task \<Rightarrow> task_arg \<Rightarrow> tc_thread_pool_task_priority \<Rightarrow> int \<Rightarrow> (tc_server, bool) cm" where
  "server_schedule_new new_task a prio gen = (\<lambda>s.
     case tc_thread_schedule_new (thread_pool s) new_task a prio gen of
       Inl f \<Rightarrow> Inl f
     | Inr (ok, p) \<Rightarrow> Inr (ok, s\<lparr>thread_pool := p\<rparr>))"

section \<open>The action lock and the extension versions\<close>

definition tc_session_aquire_action_lock :: "nat \<Rightarrow> int \<Rightarrow> (tc_server, bool) cm" where
  "tc_session_aquire_action_lock sid expected_generation = bindC (get_session sid) (\<lambda>x.
     if action_locked x then faultC SelfDeadlock
     else if current_generation x \<noteq> expected_generation then retC False
     else thenC (upd_session sid (\<lambda>x. x\<lparr>action_locked := True\<rparr>)) (retC True))"

definition tc_session_release_action_lock :: "nat \<Rightarrow> (tc_server, unit) cm" where
  "tc_session_release_action_lock sid = bindC (get_session sid) (\<lambda>x.
     if action_locked x then upd_session sid (\<lambda>x. x\<lparr>action_locked := False\<rparr>) else faultC UnlockNotHeld)"

text \<open>Two bits per extension in three bytes; \<open>pchar\<close> is signed, so the shift is arithmetic.\<close>

definition tc_session_get_extension_version :: "tc_session \<Rightarrow> int \<Rightarrow> int" where
  "tc_session_get_extension_version x extension_index =
     (if extension_index < 0 \<or> int TC_CPE_EXTENSION_MAX_SUPPORTED \<le> extension_index then -1
      else let i = nat extension_index
           in uint (signed_drop_bit (i mod 4 * 2) (scast (ext_cpe_versions x ! (i div 4)) :: pint32) AND 0x3))"

section \<open>Packet tables\<close>

definition TC_PACKET_HANDLERS_MAX_PACKETS :: int where "TC_PACKET_HANDLERS_MAX_PACKETS = 32"
definition TC_INBOUND_PACKET_PLAYER_IDENTIFICATION :: int where "TC_INBOUND_PACKET_PLAYER_IDENTIFICATION = 0"
definition TC_INBOUND_PACKET_PLAYER_SET_BLOCK :: int where "TC_INBOUND_PACKET_PLAYER_SET_BLOCK = 5"
definition TC_INBOUND_PACKET_POSITION_AND_ORIENTATION_UPDATE :: int where
  "TC_INBOUND_PACKET_POSITION_AND_ORIENTATION_UPDATE = 8"

definition TC_CPE_CUSTOM_BLOCKS_EXTENSION_INDEX :: int where "TC_CPE_CUSTOM_BLOCKS_EXTENSION_INDEX = 0"

definition tc_packet_data_sizes :: "int \<Rightarrow> nat" where
  "tc_packet_data_sizes opcode =
     (if opcode = 0x10 then 66 else if opcode = 0x11 then 68 else if opcode = 0x13 then 1
      else if opcode = TC_INBOUND_PACKET_PLAYER_IDENTIFICATION then 130
      else if opcode = TC_INBOUND_PACKET_PLAYER_SET_BLOCK then 8
      else if opcode = TC_INBOUND_PACKET_POSITION_AND_ORIENTATION_UPDATE then 9 else 0)"

definition tc_packet_handlers :: "int \<Rightarrow> tc_task option" where
  "tc_packet_handlers opcode =
     (if opcode = 0x10 then Some HandleCpeExtinfo
      else if opcode = 0x11 then Some HandleCpeExtentry
      else if opcode = 0x13 then Some HandleCpeCustomBlockSupportLevel
      else if opcode = TC_INBOUND_PACKET_PLAYER_IDENTIFICATION then Some HandlePlayerIdentification
      else if opcode = TC_INBOUND_PACKET_PLAYER_SET_BLOCK then Some HandlePlayerSetBlock
      else if opcode = TC_INBOUND_PACKET_POSITION_AND_ORIENTATION_UPDATE then Some HandlePlayerPositionUpdate
      else None)"

definition tc_packet_data_size :: "int \<Rightarrow> tc_session \<Rightarrow> nat" where
  "tc_packet_data_size opcode x =
     (if tc_session_get_extension_version x TC_CPE_CUSTOM_BLOCKS_EXTENSION_INDEX > 0
         \<and> opcode = TC_INBOUND_PACKET_PLAYER_SET_BLOCK then 9
      else if tc_session_get_extension_version x TC_CPE_CUSTOM_BLOCKS_EXTENSION_INDEX > 0
         \<and> opcode = TC_INBOUND_PACKET_POSITION_AND_ORIENTATION_UPDATE then 10
      else tc_packet_data_sizes opcode)"

section \<open>Ending a session\<close>

text \<open>\<open>p_atomic_int_inc\<close> on a \<open>pint\<close>.\<close>

definition pint_inc :: "int \<Rightarrow> int" where
  "pint_inc g = sint (word_of_int (g + 1) :: pint32)"

definition push_session_id :: "nat \<Rightarrow> (tc_server, unit) cm" where
  "push_session_id i = (\<lambda>s.
     if id_buffer_head s = 0 \<or> length (id_buffer s) < id_buffer_head s then Inl OutOfBounds
     else Inr ((), s\<lparr>id_buffer_head := id_buffer_head s - 1,
                     id_buffer := (id_buffer s)[id_buffer_head s - 1 := i]\<rparr>))"

text \<open>The part under the server's lock: the player count and the identifier.\<close>

definition return_session_id :: "nat \<Rightarrow> (tc_server, unit) cm" where
  "return_session_id sid =
     thenC server_lock (bindC (get_session sid) (\<lambda>x.
     thenC (whenC (authenticated_service x \<noteq> None) (modifyC (\<lambda>s. s\<lparr>active_players := active_players s - 1\<rparr>)))
     (thenC (push_session_id (session_id x)) server_unlock)))"

definition disconnect_session :: "joinable_table \<Rightarrow> nat \<Rightarrow> int \<Rightarrow> (tc_server, unit) cm" where
  "disconnect_session J sid gen = bindC (get_session sid) (\<lambda>x.
     thenC (case current_joinable x of
              None \<Rightarrow> retC ()
            | Some j \<Rightarrow> thenC (leave (J j) sid PRIORITY_INVALID gen)
                          (upd_session sid (\<lambda>x. x\<lparr>current_joinable := None\<rparr>)))
     (thenC (upd_session sid (\<lambda>x. x\<lparr>pending_packet_buffer := None\<rparr>))
     (thenC (on_socket sid (retC ()))
     (thenC (upd_session sid (\<lambda>x. x\<lparr>socket_open := False, ping_profiler := None,
                                     current_generation := pint_inc (current_generation x)\<rparr>))
      (return_session_id sid)))))"

definition tc_server_kick_session ::
    "joinable_table \<Rightarrow> nat \<Rightarrow> string option \<Rightarrow> int \<Rightarrow> bool \<Rightarrow> (tc_server, unit) cm" where
  "tc_server_kick_session J sid msg expected_generation aquire_lock =
     bindC (if aquire_lock then tc_session_aquire_action_lock sid expected_generation else retC True) (\<lambda>ok.
       if \<not> ok then retC ()
       else thenC (case msg of None \<Rightarrow> retC ()
                   | Some m \<Rightarrow> thenC (on_socket sid (tc_protocol_kick (bytes_of m))) (retC ()))
            (thenC (disconnect_session J sid expected_generation)
             (whenC aquire_lock (tc_session_release_action_lock sid))))"

text \<open>A kick by a task that holds the action lock, and the release after it.\<close>

definition kick_and_release :: "joinable_table \<Rightarrow> nat \<Rightarrow> string \<Rightarrow> (tc_server, unit) cm" where
  "kick_and_release J sid msg =
     thenC (tc_server_kick_session J sid (Some msg) (-1) False) (tc_session_release_action_lock sid)"

definition tc_server_protocol_handler_cleanup ::
    "nat \<Rightarrow> tc_task option \<Rightarrow> tc_thread_pool_task_priority \<Rightarrow> int \<Rightarrow> (tc_server, unit) cm" where
  "tc_server_protocol_handler_cleanup sid next_task prio gen =
     thenC (upd_session sid (\<lambda>x. x\<lparr>pending_packet_buffer := None, pending_packet_opcode := -1,
                                    pending_packet_buffer_size := 0\<rparr>))
       (case next_task of None \<Rightarrow> retC ()
        | Some t \<Rightarrow> server_schedule_next t (Some ShutdownClientTask) (SessionArg sid) prio gen)"

definition tc_server_shutdown_client_task :: "joinable_table \<Rightarrow> nat \<Rightarrow> int \<Rightarrow> (tc_server, unit) cm" where
  "tc_server_shutdown_client_task J sid gen =
     tc_server_kick_session J sid (Some ''Server is Shutting Down: Please come back later!'') gen True"

section \<open>Listening to a client\<close>

text \<open>The ping; false when the client is gone and the task returns.\<close>

definition listen_ping :: "joinable_table \<Rightarrow> nat \<Rightarrow> int \<Rightarrow> (tc_server, bool) cm" where
  "listen_ping J sid gen = bindC (get_session sid) (\<lambda>x.
     if (case ping_profiler x of None \<Rightarrow> 0 | Some t \<Rightarrow> t) > TC_SERVER_PING_INTERVAL then
       bindC (on_socket sid tc_protocol_ping) (\<lambda>ok.
         if ok then thenC (upd_session sid (\<lambda>x. x\<lparr>ping_profiler := Some 0\<rparr>)) (retC True)
         else thenC (disconnect_session J sid gen)
              (thenC (tc_session_release_action_lock sid) (retC False)))
     else retC True)"

text \<open>
  The two branches of the read: \<open>None\<close> when the task has returned, otherwise the error that the
  outer variable \<open>error\<close> holds at the end. In the second branch an inner variable of the same name
  takes the error, so the outer one stays \<open>NULL\<close>. A fresh allocation is a list of zeroes.
\<close>

definition listen_new_packet :: "joinable_table \<Rightarrow> nat \<Rightarrow> int \<Rightarrow> bool option \<Rightarrow> (tc_server, bool option option) cm" where
  "listen_new_packet J sid opcode error =
     (if opcode < 0 \<or> TC_PACKET_HANDLERS_MAX_PACKETS \<le> opcode then
        thenC (kick_and_release J sid ''Packet Opcode Out of Range: Please reconnect.'') (retC None)
      else if tc_packet_handlers opcode = None then
        thenC (kick_and_release J sid ''Invalid Packet Opcode: Please reconnect.'') (retC None)
      else bindC (get_session sid) (\<lambda>x. bindC server_malloc (\<lambda>ok.
        if ok then
          thenC (upd_session sid (\<lambda>x. x\<lparr>pending_packet_buffer := Some (replicate (tc_packet_data_size opcode x) 0),
                                        pending_packet_buffer_size := 0\<rparr>)) (retC (Some error))
        else thenC (upd_session sid (\<lambda>x. x\<lparr>pending_packet_buffer := None, pending_packet_buffer_size := 0\<rparr>))
             (thenC (kick_and_release J sid ''Out of Memory: Sorry'') (retC None)))))"

definition listen_opcode :: "joinable_table \<Rightarrow> nat \<Rightarrow> (tc_server, bool option option) cm" where
  "listen_opcode J sid = bindC (p_socket_receive sid 1) (\<lambda>(read_size, data, error).
     if read_size > 0 then
       thenC (upd_session sid (\<lambda>x. x\<lparr>pending_packet_opcode := sint (hd data)\<rparr>))
         (listen_new_packet J sid (sint (hd data)) error)
     else if read_size = 0 then
       thenC (kick_and_release J sid ''Client Disconnected: Please reconnect.'') (retC None)
     else retC (Some error))"

definition listen_packet_data :: "joinable_table \<Rightarrow> nat \<Rightarrow> tc_thread_pool_task_priority \<Rightarrow> int \<Rightarrow> cstring \<Rightarrow> nat
    \<Rightarrow> int \<Rightarrow> nat \<Rightarrow> int \<times> cstring \<times> bool option \<Rightarrow> (tc_server, bool option option) cm" where
  "listen_packet_data J sid prio gen buf have opcode packet_buffer_size = (\<lambda>(read_size, data, _).
     if read_size > 0 then
       if length buf < have + length data then faultC OutOfBounds
       else thenC (upd_session sid (\<lambda>x. x\<lparr>
              pending_packet_buffer := Some (take have buf @ data @ drop (have + length data) buf),
              pending_packet_buffer_size := have + length data\<rparr>))
            (if have + length data = packet_buffer_size then
               case tc_packet_handlers opcode of
                 None \<Rightarrow> faultC NullDereference
               | Some handler \<Rightarrow>
                   thenC (server_schedule_next handler (Some ShutdownClientTask) (SessionArg sid) prio gen)
                   (thenC (tc_session_release_action_lock sid) (retC None))
             else retC (Some None))
     else if read_size = 0 then
       thenC (kick_and_release J sid ''Client Disconnected: Please reconnect.'') (retC None)
     else retC (Some None))"

definition listen_body ::
    "joinable_table \<Rightarrow> nat \<Rightarrow> tc_thread_pool_task_priority \<Rightarrow> int \<Rightarrow> (tc_server, bool option option) cm" where
  "listen_body J sid prio gen = bindC (get_session sid) (\<lambda>x.
     case pending_packet_buffer x of
       None \<Rightarrow> faultC NullDereference
     | Some buf \<Rightarrow>
         let packet_buffer_size = tc_packet_data_size (pending_packet_opcode x) x;
             have = pending_packet_buffer_size x
         in if packet_buffer_size < have then faultC OutOfBounds
            else bindC (p_socket_receive sid (packet_buffer_size - have))
                   (listen_packet_data J sid prio gen buf have (pending_packet_opcode x) packet_buffer_size))"

definition tc_server_client_listen_task ::
    "joinable_table \<Rightarrow> nat \<Rightarrow> tc_thread_pool_task_priority \<Rightarrow> int \<Rightarrow> (tc_server, unit) cm" where
  "tc_server_client_listen_task J sid prio gen =
     bindC (tc_session_aquire_action_lock sid gen) (\<lambda>ok. if \<not> ok then retC () else
     bindC (listen_ping J sid gen) (\<lambda>alive. if \<not> alive then retC () else
     bindC (get_session sid) (\<lambda>x.
     bindC (if pending_packet_opcode x = -1 then listen_opcode J sid else listen_body J sid prio gen) (\<lambda>r.
     case r of
       None \<Rightarrow> retC ()
     | Some error \<Rightarrow>
         if error = Some False then kick_and_release J sid ''Error: Please reconnect.''
         else thenC (server_schedule_next ClientListenTask (Some ShutdownClientTask) (SessionArg sid) prio gen)
              (tc_session_release_action_lock sid)))))"

section \<open>New sessions\<close>

text \<open>The fields that \<open>handle_new_session\<close> sets.\<close>

definition new_session :: "psocket \<Rightarrow> recv_event list \<Rightarrow> nat \<Rightarrow> tc_session \<Rightarrow> tc_session" where
  "new_session sock inbox sid x = x\<lparr>client_socket := sock, socket_inbox := inbox, socket_open := True,
     session_id := sid, pending_packet_opcode := -1, pending_packet_buffer := None,
     pending_packet_buffer_size := 0, supports_cpe := False, authenticated_service := None,
     current_joinable := None, remaining_cpe_ext_packets := -1, custom_block_support_level := 0,
     ext_cpe_versions := replicate ((TC_CPE_EXTENSION_MAX_SUPPORTED + 3) div 4) 0\<rparr>"

definition busy_message :: string where
  "busy_message = ''Server is Busy: Please try again or come back soon.''"

definition begin_session :: "joinable_table \<Rightarrow> psocket \<Rightarrow> recv_event list \<Rightarrow> nat \<Rightarrow> (tc_server, unit) cm" where
  "begin_session J sock inbox sid = bindC (get_session sid) (\<lambda>x.
     bindC (tc_session_aquire_action_lock sid (current_generation x)) (\<lambda>ok.
     if \<not> ok then retC ()
     else thenC (upd_session sid (new_session sock inbox sid))
     (bindC server_malloc (\<lambda>profiler_ok.
     if \<not> profiler_ok then
       thenC (upd_session sid (\<lambda>x. x\<lparr>ping_profiler := None\<rparr>)) (kick_and_release J sid ''Out of Memory: Sorry'')
     else thenC (upd_session sid (\<lambda>x. x\<lparr>ping_profiler := Some 0\<rparr>))
     (bindC (server_schedule_new ClientListenTask (SessionArg sid) PRIORITY_LOW (current_generation x)) (\<lambda>ok.
     thenC (whenC (\<not> ok) (tc_server_kick_session J sid (Some busy_message) (current_generation x) True))
       (tc_session_release_action_lock sid)))))))"

definition handle_new_session :: "joinable_table \<Rightarrow> psocket \<Rightarrow> recv_event list \<Rightarrow> (tc_server, unit) cm" where
  "handle_new_session J sock inbox =
     thenC server_lock (bindC (getC id_buffer_head) (\<lambda>head.
       if head = TC_SERVER_MAX_SESSIONS then
         case tc_protocol_kick (bytes_of busy_message) sock of Inl f \<Rightarrow> faultC f | Inr _ \<Rightarrow> server_unlock
       else bindC (getC id_buffer) (\<lambda>ids.
         if length ids \<le> head then faultC OutOfBounds
         else thenC (modifyC (\<lambda>s. s\<lparr>id_buffer_head := head + 1\<rparr>))
           (thenC server_unlock (begin_session J sock inbox (ids ! head))))))"

text \<open>\<open>accepted\<close> is what \<open>p_socket_accept\<close> returned.\<close>

definition listener_worker_task ::
    "joinable_table \<Rightarrow> (psocket \<times> recv_event list) option \<Rightarrow> tc_thread_pool_task_priority \<Rightarrow> (tc_server, unit) cm" where
  "listener_worker_task J accepted prio =
     thenC (case accepted of None \<Rightarrow> retC () | Some (sock, inbox) \<Rightarrow> handle_new_session J sock inbox)
       (server_schedule_next ListenerWorkerTask None ServerArg prio (-1))"

section \<open>Starting and stopping\<close>

definition tc_server_start :: "bool \<Rightarrow> (tc_server, bool) cm" where
  "tc_server_start listen_ok = bindC (getC server_started) (\<lambda>started.
     if started then retC False
     else if \<not> listen_ok then retC False
     else bindC (server_schedule_new ListenerWorkerTask ServerArg PRIORITY_HIGH (-1)) (\<lambda>ok.
       if \<not> ok then retC False
       else thenC (modifyC (\<lambda>s. s\<lparr>heartbeat_manager := tc_heartbeat_manager_start (heartbeat_manager s),
                                   server_started := True\<rparr>)) (retC True)))"

definition tc_server_stop :: "(tc_server, unit) cm" where
  "tc_server_stop = bindC (getC server_started) (\<lambda>started.
     whenC started (modifyC (\<lambda>s. s\<lparr>heartbeat_manager := tc_heartbeat_manager_stop (heartbeat_manager s),
                                   thread_pool := tc_thread_pool_stop (thread_pool s)\<rparr>)))"

section \<open>Rules for the primitives\<close>

lemma runs_get_session [runs_rules]:
  "runs F (get_session sid) s Q \<longleftrightarrow>
     (if sid < length (session_buffer s) then Q (session_buffer s ! sid) s else OutOfBounds \<in> F)"
  by (simp add: runs_def get_session_def)

lemma runs_upd_session [runs_rules]:
  "runs F (upd_session sid f) s Q \<longleftrightarrow> (if sid < length (session_buffer s)
     then Q () (s\<lparr>session_buffer := (session_buffer s)[sid := f (session_buffer s ! sid)]\<rparr>) else OutOfBounds \<in> F)"
  by (simp add: runs_def upd_session_def)

lemma runs_server_malloc: "(\<And>b al. Q b (s\<lparr>alloc_script := al\<rparr>)) \<Longrightarrow> runs F server_malloc s Q"
  by (simp add: runs_def server_malloc_def split: list.split) (metis tc_server.surjective tc_server.update_convs(11))

lemma runs_server_lock [runs_rules]:
  "runs F server_lock s Q \<longleftrightarrow> (if server_locked s then SelfDeadlock \<in> F else Q () (s\<lparr>server_locked := True\<rparr>))"
  by (simp add: runs_def server_lock_def)

lemma runs_server_unlock [runs_rules]:
  "runs F server_unlock s Q \<longleftrightarrow> (if server_locked s then Q () (s\<lparr>server_locked := False\<rparr>) else UnlockNotHeld \<in> F)"
  by (simp add: runs_def server_unlock_def)

lemma runs_push_session_id [runs_rules]:
  "runs F (push_session_id i) s Q \<longleftrightarrow> (if id_buffer_head s = 0 \<or> length (id_buffer s) < id_buffer_head s
     then OutOfBounds \<in> F else Q () (s\<lparr>id_buffer_head := id_buffer_head s - 1,
       id_buffer := (id_buffer s)[id_buffer_head s - 1 := i]\<rparr>))"
  by (simp add: runs_def push_session_id_def)

text \<open>The functions of the protocol never fault; they change only the socket.\<close>

definition safe_send :: "(psocket, 'a) cm \<Rightarrow> bool" where
  "safe_send m \<longleftrightarrow> (\<forall>k. runs {} m k (\<lambda>_ _. True))"

lemma runs_on_socket:
  assumes "sid < length (session_buffer s)" and "socket_open (session_buffer s ! sid)" and "safe_send m"
    and "\<And>a k. Q a (s\<lparr>session_buffer := (session_buffer s)[sid := (session_buffer s ! sid)\<lparr>client_socket := k\<rparr>]\<rparr>)"
  shows "runs F (on_socket sid m) s Q"
proof -
  obtain a k where "m (client_socket (session_buffer s ! sid)) = Inr (a, k)"
    using assms(3) unfolding safe_send_def runs_total by blast
  with assms(1,2,4) show ?thesis by (simp add: on_socket_def runs_rules)
qed

lemma safe_send_rules:
  "safe_send (retC a)"
  "safe_send m \<Longrightarrow> (\<And>a. safe_send (k a)) \<Longrightarrow> safe_send (bindC m k)"
  "safe_send (p_socket_send b)"
  by (auto simp: safe_send_def runs_rules elim: runs_mono)
    (simp add: runs_def p_socket_send_def split: list.split send_result.split)

lemma safe_send_primitives:
  "safe_send (tc_protocol_send_byte b)" "safe_send (tc_protocol_send_string str)"
  by (auto simp: tc_protocol_send_byte_def tc_protocol_send_string_def split_beta intro!: safe_send_rules)

lemma safe_send_all: "\<forall>m \<in> set ms. safe_send m \<Longrightarrow> safe_send (send_all ms)"
  by (induction ms) (auto intro!: safe_send_rules)

lemma safe_send_numbers:
  "safe_send (tc_protocol_send_short d)" "safe_send (tc_protocol_send_int i)"
  by (auto simp: tc_protocol_send_short_def tc_protocol_send_int_def safe_send_primitives
      simp del: send_all.simps intro!: safe_send_all)

lemma safe_send_packets:
  "safe_send (tc_protocol_kick msg)" "safe_send tc_protocol_ping"
  "safe_send (tc_cpe_send_extinfo app)" "safe_send (tc_cpe_send_extentry nm v)"
  "safe_send (tc_cpe_send_custom_block_support_level l)"
  "safe_send (tc_protocol_server_identification nm md ty)" "safe_send (tc_protocol_send_message i msg)"
  by (auto simp: tc_protocol_kick_def tc_protocol_ping_def tc_cpe_send_extinfo_def tc_cpe_send_extentry_def
      tc_cpe_send_custom_block_support_level_def tc_protocol_server_identification_def
      tc_protocol_send_message_def safe_send_primitives safe_send_numbers
      simp del: send_all.simps intro!: safe_send_all)

section \<open>The invariant of the server\<close>

text \<open>
  A session between two tasks: no packet is pending, or one with a known opcode whose buffer has
  exactly the size of its data and is filled up to \<open>pending_packet_buffer_size\<close>.
\<close>

definition session_wf :: "tc_session \<Rightarrow> bool" where
  "session_wf x \<longleftrightarrow> length (ext_cpe_versions x) = 3
     \<and> (if pending_packet_opcode x = -1 then pending_packet_buffer x = None
        else tc_packet_handlers (pending_packet_opcode x) \<noteq> None
          \<and> (\<exists>b. pending_packet_buffer x = Some b \<and> length b = tc_packet_data_size (pending_packet_opcode x) x
               \<and> pending_packet_buffer_size x \<le> length b))"

text \<open>
  The identifiers from \<open>id_buffer_head\<close> on are the free ones: those of the sessions without a
  socket, each once. \<open>X\<close> are sessions whose packet state is being changed, \<open>L\<close> the sessions whose
  action lock is held.
\<close>

definition server_inv :: "nat set \<Rightarrow> nat set \<Rightarrow> tc_server \<Rightarrow> bool" where
  "server_inv X L s \<longleftrightarrow> length (session_buffer s) = 128 \<and> length (id_buffer s) = 128
     \<and> id_buffer_head s \<le> 128 \<and> distinct (drop (id_buffer_head s) (id_buffer s))
     \<and> set (drop (id_buffer_head s) (id_buffer s)) \<subseteq> {..<128} \<and> \<not> server_locked s
     \<and> (\<forall>i < 128. let x = session_buffer s ! i in
          (socket_open x \<longleftrightarrow> i \<notin> set (drop (id_buffer_head s) (id_buffer s)))
          \<and> (socket_open x \<longrightarrow> session_id x = i \<and> (i \<notin> X \<longrightarrow> session_wf x))
          \<and> (action_locked x \<longleftrightarrow> i \<in> L))"

lemma server_invD:
  assumes "server_inv X L s"
  shows "length (session_buffer s) = 128" "length (id_buffer s) = 128" "id_buffer_head s \<le> 128"
    "\<not> server_locked s" "distinct (drop (id_buffer_head s) (id_buffer s))"
    "i < 128 \<Longrightarrow> action_locked (session_buffer s ! i) \<longleftrightarrow> i \<in> L"
    "i < 128 \<Longrightarrow> socket_open (session_buffer s ! i) \<Longrightarrow> session_id (session_buffer s ! i) = i"
    "i < 128 \<Longrightarrow> socket_open (session_buffer s ! i) \<Longrightarrow> i \<notin> X \<Longrightarrow> session_wf (session_buffer s ! i)"
    "i < 128 \<Longrightarrow> socket_open (session_buffer s ! i) \<longleftrightarrow> i \<notin> set (drop (id_buffer_head s) (id_buffer s))"
  using assms by (auto simp: server_inv_def Let_def)

lemma server_inv_upd:
  assumes "server_inv X L s" and "sid < 128" and "x = session_buffer s ! sid"
    and "socket_open y = socket_open x" and "socket_open x \<Longrightarrow> session_id y = session_id x"
    and "socket_open x \<Longrightarrow> sid \<notin> X' \<Longrightarrow> session_wf y" and "X - {sid} \<subseteq> X'"
    and "action_locked y \<longleftrightarrow> sid \<in> L'" and "L' - {sid} = L - {sid}"
  shows "server_inv X' L' (s\<lparr>session_buffer := (session_buffer s)[sid := y]\<rparr>)"
  using assms unfolding server_inv_def Let_def
  by (auto simp: nth_list_update)

lemma server_inv_mono: "server_inv X L s \<Longrightarrow> X \<subseteq> Y \<Longrightarrow> server_inv Y L s"
  by (auto simp: server_inv_def Let_def)

lemma server_inv_other [simp]:
  "server_inv X L (s\<lparr>thread_pool := p\<rparr>) = server_inv X L s"
  "server_inv X L (s\<lparr>active_players := n\<rparr>) = server_inv X L s"
  "server_inv X L (s\<lparr>alloc_script := al\<rparr>) = server_inv X L s"
  "server_inv X L (s\<lparr>heartbeat_manager := hm\<rparr>) = server_inv X L s"
  "server_inv X L (s\<lparr>join_router := r\<rparr>) = server_inv X L s"
  by (simp_all add: server_inv_def)

lemma tc_packet_data_size_upd [simp]:
  "tc_packet_data_size opc (x\<lparr>pending_packet_buffer := b\<rparr>) = tc_packet_data_size opc x"
  "tc_packet_data_size opc (x\<lparr>pending_packet_buffer_size := n\<rparr>) = tc_packet_data_size opc x"
  "tc_packet_data_size opc (x\<lparr>pending_packet_opcode := i\<rparr>) = tc_packet_data_size opc x"
  "tc_packet_data_size opc (x\<lparr>socket_inbox := q\<rparr>) = tc_packet_data_size opc x"
  "tc_packet_data_size opc (x\<lparr>action_locked := l\<rparr>) = tc_packet_data_size opc x"
  "tc_packet_data_size opc (x\<lparr>client_socket := k\<rparr>) = tc_packet_data_size opc x"
  by (simp_all add: tc_packet_data_size_def tc_session_get_extension_version_def)

lemma session_wf_socket [simp]:
  "session_wf (x\<lparr>client_socket := k\<rparr>) = session_wf x" "session_wf (x\<lparr>socket_inbox := q\<rparr>) = session_wf x"
  "session_wf (x\<lparr>ping_profiler := t\<rparr>) = session_wf x" "session_wf (x\<lparr>action_locked := b\<rparr>) = session_wf x"
  "session_wf (x\<lparr>current_joinable := j\<rparr>) = session_wf x" "session_wf (x\<lparr>username := u\<rparr>) = session_wf x"
  "session_wf (x\<lparr>authenticated_service := v\<rparr>) = session_wf x" "session_wf (x\<lparr>supports_cpe := c\<rparr>) = session_wf x"
  "session_wf (x\<lparr>remaining_cpe_ext_packets := n\<rparr>) = session_wf x"
  "session_wf (x\<lparr>custom_block_support_level := l\<rparr>) = session_wf x"
  by (simp_all add: session_wf_def tc_packet_data_size_def tc_session_get_extension_version_def)

lemma runs_p_socket_receive:
  assumes "sid < length (session_buffer s)" and "socket_open (session_buffer s ! sid)"
    and "\<And>q r d e. (r = -1 \<and> d = [] \<and> e \<noteq> None) \<or> (r = int (length d) \<and> length d \<le> n \<and> e = None)
       \<Longrightarrow> Q (r, d, e) (s\<lparr>session_buffer := (session_buffer s)[sid := (session_buffer s ! sid)\<lparr>socket_inbox := q\<rparr>]\<rparr>)"
  shows "runs F (p_socket_receive sid n) s Q"
proof -
  have same: "Q (-1, [], Some True) s"
    using assms(3) [of "-1" "[]" "Some True" "socket_inbox (session_buffer s ! sid)"] by simp
  show ?thesis using assms(1,2)
    by (auto simp: p_socket_receive_def runs_rules same split: list.split recv_event.split intro!: assms(3))
qed

lemma known_opcode_range: "tc_packet_handlers opc \<noteq> None \<Longrightarrow> 0 \<le> opc \<and> opc < 32"
  by (auto simp: tc_packet_handlers_def TC_INBOUND_PACKET_PLAYER_IDENTIFICATION_def
      TC_INBOUND_PACKET_PLAYER_SET_BLOCK_def TC_INBOUND_PACKET_POSITION_AND_ORIENTATION_UPDATE_def split: if_splits)

lemma packet_opcode_range: "tc_packet_handlers opc \<noteq> None \<Longrightarrow> opc \<noteq> -1"
  using known_opcode_range [of opc] by auto

section \<open>The contract of a world\<close>

text \<open>
  What the callbacks of a joinable may change: the task pool, allocations and the sockets of
  clients. They leave the sessions and the identifiers alone and do not use up the place of the
  task that called them.
\<close>

definition pool_ready :: "(tc_task, task_arg) tc_thread_pool \<Rightarrow> tc_thread_pool_task_priority \<Rightarrow> bool" where
  "pool_ready p prio \<longleftrightarrow> (\<forall>t sd a g. \<exists>p'. tc_thread_schedule_next p t (Some sd) a prio g = Inr p')"

definition callback_frame :: "tc_server \<Rightarrow> tc_server \<Rightarrow> bool" where
  "callback_frame s s' \<longleftrightarrow> length (session_buffer s') = length (session_buffer s)
     \<and> (\<forall>i < length (session_buffer s). \<exists>k. session_buffer s' ! i = (session_buffer s ! i)\<lparr>client_socket := k\<rparr>)
     \<and> id_buffer s' = id_buffer s \<and> id_buffer_head s' = id_buffer_head s
     \<and> heartbeat_manager s' = heartbeat_manager s \<and> join_router s' = join_router s \<and> motd s' = motd s
     \<and> server_locked s' = server_locked s \<and> active_players s' = active_players s
     \<and> server_started s' = server_started s
     \<and> (\<forall>prio. pool_ready (thread_pool s) prio \<longrightarrow> pool_ready (thread_pool s') prio)"

locale joinable_contract =
  fixes J :: joinable_table
  assumes leave_ok: "runs {} (leave (J j) sid prio gen) s (\<lambda>_. callback_frame s)"
    and set_block_ok: "runs {} (handle_set_block (J j) sid x y z mode block prio gen) s (\<lambda>_. callback_frame s)"
    and position_ok: "runs {} (handle_position_update (J j) sid x y z heading pitch prio gen) s (\<lambda>_. callback_frame s)"

lemma callback_session:
  assumes "callback_frame s s'" "i < length (session_buffer s)"
  obtains k where "session_buffer s' ! i = (session_buffer s ! i)\<lparr>client_socket := k\<rparr>"
  using assms by (auto simp: callback_frame_def)

lemma callback_frame_inv:
  assumes "callback_frame s s'" and "server_inv X L s"
  shows "server_inv X L s'"
proof -
  have n: "length (session_buffer s) = 128" using assms(2) by (simp add: server_inv_def)
  have "socket_open (session_buffer s' ! i) = socket_open (session_buffer s ! i)
      \<and> session_id (session_buffer s' ! i) = session_id (session_buffer s ! i)
      \<and> session_wf (session_buffer s' ! i) = session_wf (session_buffer s ! i)
      \<and> action_locked (session_buffer s' ! i) = action_locked (session_buffer s ! i)" if "i < 128" for i
    by (rule callback_session [OF assms(1), of i]) (simp_all add: that n)
  with assms show ?thesis by (auto simp: server_inv_def callback_frame_def Let_def)
qed


section \<open>Ending a session\<close>

lemma free_ids_not_all:
  assumes "server_inv X L s" "sid < 128" "socket_open (session_buffer s ! sid)"
  shows "0 < id_buffer_head s"
proof (rule ccontr)
  assume "\<not> 0 < id_buffer_head s"
  then have "distinct (id_buffer s)" "set (id_buffer s) \<subseteq> {..<128}" "length (id_buffer s) = 128"
    using assms(1) by (auto simp: server_inv_def)
  then have "set (id_buffer s) = {..<128}" by (intro card_subset_eq) (simp_all add: distinct_card)
  moreover have "sid \<notin> set (id_buffer s)"
    using assms \<open>\<not> 0 < id_buffer_head s\<close> by (auto simp: server_inv_def Let_def)
  ultimately show False using assms(2) by simp
qed

lemma drop_pushed_id: "0 < h \<Longrightarrow> h \<le> length ids \<Longrightarrow> drop (h - Suc 0) (ids[h - Suc 0 := i]) = i # drop h ids"
  by (cases h) (simp_all add: Cons_nth_drop_Suc [symmetric])

text \<open>What the end of session \<open>sid\<close> changes: other sessions keep all but their sockets.\<close>

definition others_kept :: "nat \<Rightarrow> tc_server \<Rightarrow> tc_server \<Rightarrow> bool" where
  "others_kept sid s s' \<longleftrightarrow> length (session_buffer s') = length (session_buffer s)
     \<and> (\<forall>i < length (session_buffer s). i \<noteq> sid \<longrightarrow> (\<exists>k. session_buffer s' ! i = (session_buffer s ! i)\<lparr>client_socket := k\<rparr>))
     \<and> heartbeat_manager s' = heartbeat_manager s \<and> join_router s' = join_router s \<and> motd s' = motd s
     \<and> server_started s' = server_started s
     \<and> (\<forall>prio. pool_ready (thread_pool s) prio \<longrightarrow> pool_ready (thread_pool s') prio)"

definition ended :: "nat \<Rightarrow> tc_server \<Rightarrow> tc_server \<Rightarrow> bool" where
  "ended sid s s' \<longleftrightarrow> \<not> socket_open (session_buffer s' ! sid)
     \<and> current_generation (session_buffer s' ! sid) = pint_inc (current_generation (session_buffer s ! sid))
     \<and> id_buffer_head s' + 1 = id_buffer_head s
     \<and> active_players s' = active_players s - (if authenticated_service (session_buffer s ! sid) \<noteq> None then 1 else 0)
     \<and> others_kept sid s s'"

lemma session_same_socket: "\<exists>k. x = x\<lparr>client_socket := k\<rparr>"
  by (rule exI [of _ "client_socket x"]) simp

lemma others_kept_refl [simp]: "others_kept sid s s"
  by (simp add: others_kept_def session_same_socket)

lemma others_kept_trans [trans]:
  assumes "others_kept sid s s'" and "others_kept sid s' s''"
  shows "others_kept sid s s''"
proof -
  have "\<exists>k. session_buffer s'' ! i = (session_buffer s ! i)\<lparr>client_socket := k\<rparr>"
    if i: "i < length (session_buffer s)" "i \<noteq> sid" for i
  proof -
    obtain k where "session_buffer s' ! i = (session_buffer s ! i)\<lparr>client_socket := k\<rparr>"
      using assms(1) i unfolding others_kept_def by blast
    moreover obtain k' where "session_buffer s'' ! i = (session_buffer s' ! i)\<lparr>client_socket := k'\<rparr>"
      using assms i unfolding others_kept_def by metis
    ultimately show ?thesis by auto
  qed
  with assms show ?thesis unfolding others_kept_def by simp
qed

lemma others_kept_simps [simp]:
  "others_kept sid s (s'\<lparr>active_players := n\<rparr>) = others_kept sid s s'"
  "others_kept sid s (s'\<lparr>server_locked := b\<rparr>) = others_kept sid s s'"
  "others_kept sid s (s'\<lparr>id_buffer_head := h\<rparr>) = others_kept sid s s'"
  "others_kept sid s (s'\<lparr>id_buffer := ids\<rparr>) = others_kept sid s s'"
  "others_kept sid s (s'\<lparr>alloc_script := al\<rparr>) = others_kept sid s s'"
  "others_kept sid s (s'\<lparr>session_buffer := (session_buffer s')[sid := x]\<rparr>) = others_kept sid s s'"
  by (simp_all add: others_kept_def)

lemma runs_close_session:
  assumes inv: "server_inv X L s" and sid: "sid < 128" "socket_open (session_buffer s ! sid)"
  shows "runs {} (thenC (upd_session sid (\<lambda>x. x\<lparr>socket_open := False, ping_profiler := None,
      current_generation := pint_inc (current_generation x)\<rparr>)) (return_session_id sid)) s
    (\<lambda>_ s'. server_inv (X - {sid}) L s' \<and> ended sid s s')"
proof -
  let ?x = "session_buffer s ! sid"
  let ?h = "id_buffer_head s"
  note D = server_invD [OF inv]
  have h: "0 < ?h" "?h \<le> 128" using free_ids_not_all [OF inv sid] D(3) by auto
  then have ids: "drop (?h - Suc 0) ((id_buffer s)[?h - Suc 0 := sid]) = sid # drop ?h (id_buffer s)"
    using D(2) by (intro drop_pushed_id) auto
  have out: "sid \<notin> set (drop ?h (id_buffer s))" using D(9) [OF sid(1)] sid(2) by simp
  have sub: "set (drop ?h (id_buffer s)) \<subseteq> {..<128}" using inv by (simp add: server_inv_def)
  let ?s = "s\<lparr>session_buffer := (session_buffer s)[sid := ?x\<lparr>socket_open := False, ping_profiler := None,
    current_generation := pint_inc (current_generation ?x)\<rparr>]\<rparr>"
  have "server_inv (X - {sid}) L (t\<lparr>id_buffer_head := ?h - Suc 0,
      id_buffer := (id_buffer s)[?h - Suc 0 := sid], server_locked := False\<rparr>)"
    if "t = ?s \<or> t = ?s\<lparr>active_players := active_players s - 1\<rparr>" for t
    unfolding server_inv_def Let_def using D h sid out sub that
    by (auto simp: ids nth_list_update split: if_splits)
  from this [of ?s] this [of "?s\<lparr>active_players := active_players s - 1\<rparr>"] show ?thesis
    using D(1,2,4) D(7) [OF sid] h sid
    by (auto simp: return_session_id_def runs_rules ended_def)
qed

text \<open>The session is being closed: still open, everything that the end reports as it was.\<close>

definition closing :: "nat set \<Rightarrow> nat set \<Rightarrow> nat \<Rightarrow> tc_server \<Rightarrow> tc_server \<Rightarrow> bool" where
  "closing X L sid s s' \<longleftrightarrow> server_inv (insert sid X) L s' \<and> socket_open (session_buffer s' ! sid)
     \<and> current_generation (session_buffer s' ! sid) = current_generation (session_buffer s ! sid)
     \<and> authenticated_service (session_buffer s' ! sid) = authenticated_service (session_buffer s ! sid)
     \<and> id_buffer_head s' = id_buffer_head s \<and> active_players s' = active_players s \<and> others_kept sid s s'"

lemma closing_refl:
  "server_inv X L s \<Longrightarrow> socket_open (session_buffer s ! sid) \<Longrightarrow> closing X L sid s s"
  by (auto simp: closing_def intro: server_inv_mono)

lemma closing_upd:
  assumes "closing X L sid s s'" "sid < 128" "x = session_buffer s' ! sid"
    and "socket_open y = socket_open x" "session_id y = session_id x" "action_locked y = action_locked x"
    and "current_generation y = current_generation x" "authenticated_service y = authenticated_service x"
  shows "closing X L sid s (s'\<lparr>session_buffer := (session_buffer s')[sid := y]\<rparr>)"
proof -
  have inv: "server_inv (insert sid X) L s'" using assms(1) by (simp add: closing_def)
  have "server_inv (insert sid X) L (s'\<lparr>session_buffer := (session_buffer s')[sid := y]\<rparr>)"
    using inv assms(2-6) server_invD(6) [OF inv assms(2)] by (intro server_inv_upd [OF inv assms(2)]) auto
  with assms server_invD(1) [OF inv] show ?thesis by (auto simp: closing_def)
qed

lemma closing_frame:
  assumes c: "closing X L sid s s'" and sid: "sid < 128" and f: "callback_frame s' s''"
  shows "closing X L sid s s''"
proof -
  have inv: "server_inv (insert sid X) L s'" using c by (simp add: closing_def)
  have n: "length (session_buffer s') = 128" using server_invD(1) [OF inv] .
  obtain k where "session_buffer s'' ! sid = (session_buffer s' ! sid)\<lparr>client_socket := k\<rparr>"
    by (rule callback_session [OF f, of sid]) (simp_all add: sid n)
  moreover have "others_kept sid s' s''" using f by (auto simp: others_kept_def callback_frame_def)
  moreover have "others_kept sid s s'" using c by (simp add: closing_def)
  ultimately show ?thesis using c f callback_frame_inv [OF f inv] others_kept_trans
    by (auto simp: closing_def callback_frame_def)
qed

lemma closing_ended:
  assumes "closing X L sid s s'" "ended sid s' s''"
  shows "ended sid s s''"
  using assms others_kept_trans by (auto simp: closing_def ended_def)

context joinable_contract
begin

lemma runs_leave:
  assumes c: "closing X L sid s s'" and sid: "sid < 128"
  shows "runs {} (case j of None \<Rightarrow> retC ()
      | Some j \<Rightarrow> thenC (leave (J j) sid prio gen) (upd_session sid (\<lambda>x. x\<lparr>current_joinable := None\<rparr>))) s'
    (\<lambda>_. closing X L sid s)"
proof (cases j)
  case (Some i)
  show ?thesis unfolding Some option.case runs_thenC
  proof (rule runs_mono [OF leave_ok])
    fix s'' assume "callback_frame s' s''"
    with c sid have c'': "closing X L sid s s''" by (rule closing_frame)
    then have n: "length (session_buffer s'') = 128" unfolding closing_def using server_invD(1) by blast
    show "runs {} (upd_session sid (\<lambda>x. x\<lparr>current_joinable := None\<rparr>)) s'' (\<lambda>_. closing X L sid s)"
      using n sid closing_upd [OF c'' sid] by (simp add: runs_rules)
  qed
qed (simp add: runs_rules c)

lemma runs_disconnect:
  assumes inv: "server_inv X L s" and sid: "sid < 128" and op: "socket_open (session_buffer s ! sid)"
  shows "runs {} (disconnect_session J sid gen) s (\<lambda>_ s'. server_inv (X - {sid}) L s' \<and> ended sid s s')"
proof -
  have n: "length (session_buffer s) = 128" using server_invD(1) [OF inv] .
  have fin: "runs {} (thenC (upd_session sid (\<lambda>x. x\<lparr>pending_packet_buffer := None\<rparr>))
     (thenC (on_socket sid (retC ()))
     (thenC (upd_session sid (\<lambda>x. x\<lparr>socket_open := False, ping_profiler := None,
        current_generation := pint_inc (current_generation x)\<rparr>)) (return_session_id sid)))) s'
     (\<lambda>_ s'. server_inv (X - {sid}) L s' \<and> ended sid s s')" (is "runs {} (thenC _ (thenC _ ?close)) s' _")
    if c: "closing X L sid s s'" for s'
  proof -
    have n': "length (session_buffer s') = 128" using c unfolding closing_def using server_invD(1) by blast
    have close: "runs {} ?close t (\<lambda>_ s'. server_inv (X - {sid}) L s' \<and> ended sid s s')"
      if "closing X L sid s t" for t
      using that runs_close_session [OF _ sid, of "insert sid X" L t] closing_ended [OF that]
      by (auto simp: closing_def elim!: runs_mono)
    let ?t = "s'\<lparr>session_buffer := (session_buffer s')[sid := (session_buffer s' ! sid)\<lparr>pending_packet_buffer := None\<rparr>]\<rparr>"
    have c': "closing X L sid s ?t" by (rule closing_upd [OF c sid]) simp_all
    have sock: "closing X L sid s (?t\<lparr>session_buffer := (session_buffer ?t)[sid := (session_buffer ?t ! sid)\<lparr>client_socket := k\<rparr>]\<rparr>)" for k
      by (rule closing_upd [OF c' sid]) simp_all
    have "socket_open (session_buffer ?t ! sid)" using c' by (simp add: closing_def)
    with sid n' have "runs {} (on_socket sid (retC ())) ?t (\<lambda>_ s'. runs {} ?close s' (\<lambda>_ s'. server_inv (X - {sid}) L s' \<and> ended sid s s'))"
      by (intro runs_on_socket close sock) (simp_all add: safe_send_rules)
    then show ?thesis using n' sid by (simp add: runs_rules)
  qed
  have "runs {} (case current_joinable (session_buffer s ! sid) of None \<Rightarrow> retC ()
      | Some j \<Rightarrow> thenC (leave (J j) sid PRIORITY_INVALID gen) (upd_session sid (\<lambda>x. x\<lparr>current_joinable := None\<rparr>))) s
     (\<lambda>_. closing X L sid s)"
    by (rule runs_leave [OF closing_refl [OF inv op] sid])
  then show ?thesis using n sid unfolding disconnect_session_def runs_bindC runs_get_session runs_thenC
    by (auto elim!: runs_mono simp: fin [unfolded runs_thenC])
qed


lemma runs_kick_message:
  assumes inv: "server_inv X L s" and sid: "sid < 128" and op: "socket_open (session_buffer s ! sid)"
  shows "runs {} (case msg of None \<Rightarrow> retC () | Some m \<Rightarrow> thenC (on_socket sid (tc_protocol_kick (bytes_of m))) (retC ())) s
    (\<lambda>_. closing X L sid s)"
proof (cases msg)
  case (Some m)
  have "closing X L sid s (s\<lparr>session_buffer := (session_buffer s)[sid := (session_buffer s ! sid)\<lparr>client_socket := k\<rparr>]\<rparr>)" for k
    by (rule closing_upd [OF closing_refl [OF inv op] sid]) simp_all
  with sid op server_invD(1) [OF inv] show ?thesis
    by (auto simp: Some runs_thenC runs_retC safe_send_packets intro!: runs_on_socket)
qed (simp add: runs_rules closing_refl [OF inv op])

lemma runs_kick:
  assumes inv: "server_inv X L s" and sid: "sid < 128" and op: "socket_open (session_buffer s ! sid)"
  shows "runs {} (tc_server_kick_session J sid msg gen False) s (\<lambda>_ s'. server_inv (X - {sid}) L s' \<and> ended sid s s')"
proof -
  have "runs {} (disconnect_session J sid gen) t (\<lambda>_ s'. server_inv (X - {sid}) L s' \<and> ended sid s s')"
    if "closing X L sid s t" for t
    using that runs_disconnect [OF _ sid, of "insert sid X" L t gen] closing_ended [OF that]
    by (auto simp: closing_def elim!: runs_mono)
  from runs_then [OF runs_kick_message [OF assms, of msg] this] show ?thesis
    by (simp add: tc_server_kick_session_def runs_bindC runs_retC runs_thenC runs_whenC)
qed

lemma runs_release:
  assumes inv: "server_inv X L s" and sid: "sid < 128" "sid \<in> L"
  shows "runs {} (tc_session_release_action_lock sid) s (\<lambda>_ s'. server_inv X (L - {sid}) s'
    \<and> s' = s\<lparr>session_buffer := (session_buffer s)[sid := (session_buffer s ! sid)\<lparr>action_locked := False\<rparr>]\<rparr>)"
  using server_invD(1,6) [OF inv] sid server_invD(8) [OF inv sid(1)]
  by (auto simp: tc_session_release_action_lock_def runs_rules intro!: server_inv_upd [OF inv])

lemma ended_unlock:
  "ended sid s s' \<Longrightarrow> sid < length (session_buffer s') \<Longrightarrow> ended sid s (s'\<lparr>session_buffer := (session_buffer s')[sid := (session_buffer s' ! sid)\<lparr>action_locked := b\<rparr>]\<rparr>)"
  by (simp add: ended_def)

lemma runs_kick_and_release:
  assumes inv: "server_inv X L s" and sid: "sid < 128" and op: "socket_open (session_buffer s ! sid)" and "sid \<in> L"
  shows "runs {} (kick_and_release J sid msg) s (\<lambda>_ s'. server_inv (X - {sid}) (L - {sid}) s' \<and> ended sid s s')"
proof -
  have "runs {} (tc_session_release_action_lock sid) t (\<lambda>_ s'. server_inv (X - {sid}) (L - {sid}) s' \<and> ended sid s s')"
    if "server_inv (X - {sid}) L t \<and> ended sid s t" for t
    using runs_release [of "X - {sid}" L t sid] that sid assms(4) server_invD(1) [of "X - {sid}" L t]
    by (auto elim!: runs_mono intro!: ended_unlock)
  from runs_then [OF runs_kick [OF inv sid op] this] show ?thesis unfolding kick_and_release_def .
qed

lemma runs_acquire:
  assumes inv: "server_inv X L s" and sid: "sid < 128" "sid \<notin> L"
  shows "runs {} (tc_session_aquire_action_lock sid gen) s (\<lambda>ok s'.
    if current_generation (session_buffer s ! sid) = gen
    then ok \<and> server_inv X (insert sid L) s' \<and> s' = s\<lparr>session_buffer := (session_buffer s)[sid := (session_buffer s ! sid)\<lparr>action_locked := True\<rparr>]\<rparr>
    else \<not> ok \<and> s' = s)"
  using server_invD(1,6) [OF inv] sid server_invD(8) [OF inv sid(1)]
  by (auto simp: tc_session_aquire_action_lock_def runs_rules intro!: server_inv_upd [OF inv])


end

text \<open>The listen task holds the lock of its session and has its place in the pool.\<close>

definition listening :: "nat \<Rightarrow> tc_thread_pool_task_priority \<Rightarrow> tc_server \<Rightarrow> bool" where
  "listening sid prio s \<longleftrightarrow> server_inv {} {sid} s \<and> sid < 128 \<and> socket_open (session_buffer s ! sid)
     \<and> pool_ready (thread_pool s) prio"

lemma listening_upd:
  assumes "listening sid prio s" "x = session_buffer s ! sid"
    and "socket_open y = socket_open x" "session_id y = session_id x" "session_wf x \<Longrightarrow> session_wf y"
    and "action_locked y = action_locked x"
  shows "listening sid prio (s\<lparr>session_buffer := (session_buffer s)[sid := y]\<rparr>)"
proof -
  have inv: "server_inv {} {sid} s" and sid: "sid < 128" and op: "socket_open (session_buffer s ! sid)"
    using assms(1) by (simp_all add: listening_def)
  have "server_inv {} {sid} (s\<lparr>session_buffer := (session_buffer s)[sid := y]\<rparr>)"
    using assms(2-6) server_invD(6,8) [OF inv sid] op by (intro server_inv_upd [OF inv sid]) auto
  with assms server_invD(1) [OF inv] show ?thesis by (simp add: listening_def)
qed

text \<open>The same while the packet fields of the session change.\<close>

definition kickable :: "nat \<Rightarrow> tc_thread_pool_task_priority \<Rightarrow> tc_server \<Rightarrow> bool" where
  "kickable sid prio s \<longleftrightarrow> server_inv {sid} {sid} s \<and> sid < 128 \<and> socket_open (session_buffer s ! sid)
     \<and> pool_ready (thread_pool s) prio"

lemma kickable_alloc [simp]: "kickable sid prio (s\<lparr>alloc_script := al\<rparr>) = kickable sid prio s"
  by (simp add: kickable_def)

lemma kickable_length: "kickable sid prio s \<Longrightarrow> length (session_buffer s) = 128 \<and> sid < 128"
  unfolding kickable_def using server_invD(1) by blast

lemma listening_kickable: "listening sid prio s \<Longrightarrow> kickable sid prio s"
  by (auto simp: kickable_def listening_def intro: server_inv_mono)

lemma kickable_upd:
  assumes "kickable sid prio s" "x = session_buffer s ! sid"
    and "socket_open y = socket_open x" "session_id y = session_id x" "action_locked y = action_locked x"
  shows "kickable sid prio (s\<lparr>session_buffer := (session_buffer s)[sid := y]\<rparr>)"
    and "session_wf y \<Longrightarrow> listening sid prio (s\<lparr>session_buffer := (session_buffer s)[sid := y]\<rparr>)"
  using assms server_invD(1) [of "{sid}" "{sid}" s] server_invD(6) [of "{sid}" "{sid}" s sid] unfolding kickable_def listening_def
  by (auto intro!: server_inv_upd [of "{sid}" "{sid}" s sid])

abbreviation listened :: "nat \<Rightarrow> tc_thread_pool_task_priority \<Rightarrow> bool option option \<Rightarrow> tc_server \<Rightarrow> bool" where
  "listened sid prio r s \<equiv> (case r of None \<Rightarrow> server_inv {} {} s | Some _ \<Rightarrow> listening sid prio s)"

context joinable_contract
begin

lemma runs_listen_ping:
  assumes "listening sid prio s"
  shows "runs {} (listen_ping J sid gen) s (\<lambda>alive s'. if alive then listening sid prio s' else server_inv {} {} s')"
proof -
  have inv: "server_inv {} {sid} s" and sid: "sid < 128" and op: "socket_open (session_buffer s ! sid)"
    using assms by (simp_all add: listening_def)
  note n = server_invD(1) [OF inv]
  let ?Q = "\<lambda>alive s'. if alive then listening sid prio s' else server_inv {} {} s'"
  have sock: "listening sid prio (s\<lparr>session_buffer := (session_buffer s)[sid := (session_buffer s ! sid)\<lparr>client_socket := k\<rparr>]\<rparr>)" (is "listening sid prio (?s k)") for k
    by (rule listening_upd [OF assms]) simp_all
  have good: "runs {} (thenC (upd_session sid (\<lambda>x. x\<lparr>ping_profiler := Some 0\<rparr>)) (retC True)) (?s k) ?Q" for k
    using listening_upd [OF sock [of k]] n sid by (simp add: runs_rules)
  have bad: "runs {} (thenC (disconnect_session J sid gen) (thenC (tc_session_release_action_lock sid) (retC False))) (?s k) ?Q" for k
  proof (rule runs_then)
    show "runs {} (disconnect_session J sid gen) (?s k) (\<lambda>_ s'. server_inv {} {sid} s' \<and> ended sid (?s k) s')"
      using runs_disconnect [of "{}" "{sid}" "?s k" sid gen] sock [of k] by (simp add: listening_def)
    show "runs {} (thenC (tc_session_release_action_lock sid) (retC False)) t ?Q"
      if "server_inv {} {sid} t \<and> ended sid (?s k) t" for t
      using that runs_release [of "{}" "{sid}" t sid] sid by (auto simp: runs_thenC runs_retC elim!: runs_mono)
  qed
  have "runs {} (bindC (on_socket sid tc_protocol_ping) (\<lambda>ok.
         if ok then thenC (upd_session sid (\<lambda>x. x\<lparr>ping_profiler := Some 0\<rparr>)) (retC True)
         else thenC (disconnect_session J sid gen) (thenC (tc_session_release_action_lock sid) (retC False)))) s ?Q"
    unfolding runs_bindC using good bad n sid op
    by (intro runs_on_socket) (auto simp: safe_send_packets)
  with n sid assms show ?thesis
    unfolding listen_ping_def runs_bindC [of _ "get_session _"] runs_get_session by (simp add: runs_retC)
qed

lemma runs_listen_kick:
  assumes "kickable sid prio s"
  shows "runs {} (thenC (kick_and_release J sid msg) (retC None)) s (listened sid prio)"
  using assms runs_kick_and_release [of "{sid}" "{sid}" s sid msg] unfolding kickable_def
  by (auto simp: runs_thenC runs_retC elim!: runs_mono)

lemma runs_listen_new_packet:
  assumes k: "kickable sid prio s" and "pending_packet_opcode (session_buffer s ! sid) = opc"
    and "length (ext_cpe_versions (session_buffer s ! sid)) = 3"
  shows "runs {} (listen_new_packet J sid opc error) s (listened sid prio)"
proof -
  note n = kickable_length [OF k]
  let ?x = "session_buffer s ! sid"
  have "listening sid prio (s\<lparr>alloc_script := al, session_buffer := (session_buffer s)[sid := ?x\<lparr>
      pending_packet_buffer := Some (replicate (tc_packet_data_size opc ?x) 0), pending_packet_buffer_size := 0\<rparr>]\<rparr>)"
    if "tc_packet_handlers opc \<noteq> None" for al
    using kickable_upd(2) [of sid prio "s\<lparr>alloc_script := al\<rparr>" ?x] k that packet_opcode_range [OF that] assms(2,3)
    by (auto simp: session_wf_def)
  moreover have "kickable sid prio (s\<lparr>alloc_script := al, session_buffer := (session_buffer s)[sid := ?x\<lparr>
      pending_packet_buffer := None, pending_packet_buffer_size := 0\<rparr>]\<rparr>)" for al
    using kickable_upd(1) [of sid prio "s\<lparr>alloc_script := al\<rparr>" ?x] k by simp
  ultimately have "runs {} (bindC (get_session sid) (\<lambda>x. bindC server_malloc (\<lambda>ok.
        if ok then
          thenC (upd_session sid (\<lambda>x. x\<lparr>pending_packet_buffer := Some (replicate (tc_packet_data_size opc x) 0),
                                        pending_packet_buffer_size := 0\<rparr>)) (retC (Some error))
        else thenC (upd_session sid (\<lambda>x. x\<lparr>pending_packet_buffer := None, pending_packet_buffer_size := 0\<rparr>))
             (thenC (kick_and_release J sid msg) (retC None))))) s (listened sid prio)"
    if "tc_packet_handlers opc \<noteq> None" for msg
    using n that runs_listen_kick
    by (auto simp: runs_bindC runs_get_session runs_thenC [of _ "upd_session _ _"] runs_upd_session runs_retC intro!: runs_server_malloc)
  then show ?thesis using runs_listen_kick [OF k]
    unfolding listen_new_packet_def by (auto simp del: option.case)
qed

lemma runs_listen_opcode:
  assumes l: "listening sid prio s"
  shows "runs {} (listen_opcode J sid) s (listened sid prio)"
proof -
  note k = listening_kickable [OF l]
  note n = kickable_length [OF k]
  let ?x = "session_buffer s ! sid"
  have op: "socket_open ?x" and wf: "length (ext_cpe_versions ?x) = 3"
    using l server_invD(8) [of "{}" "{sid}" s sid] by (auto simp: listening_def session_wf_def)
  let ?s = "\<lambda>q. s\<lparr>session_buffer := (session_buffer s)[sid := ?x\<lparr>socket_inbox := q\<rparr>]\<rparr>"
  have ls: "listening sid prio (?s q)" for q by (rule listening_upd [OF l]) simp_all
  have "runs {} (thenC (upd_session sid (\<lambda>x. x\<lparr>pending_packet_opcode := opc\<rparr>)) (listen_new_packet J sid opc e)) (?s q)
      (listened sid prio)" for opc e q
    using n wf kickable_upd(1) [OF listening_kickable [OF ls [of q]]]
    by (auto simp: runs_thenC runs_upd_session intro!: runs_listen_new_packet)
  moreover note runs_listen_kick [OF listening_kickable [OF ls]]
  ultimately show ?thesis unfolding listen_opcode_def runs_bindC using n op ls
    by (intro runs_p_socket_receive) (auto simp: runs_retC simp del: One_nat_def)
qed

lemma runs_server_schedule_next:
  assumes "pool_ready (thread_pool s) prio" and "\<And>p. Q () (s\<lparr>thread_pool := p\<rparr>)"
  shows "runs F (server_schedule_next t (Some sd) a prio gen) s Q"
proof -
  obtain p' where "tc_thread_schedule_next (thread_pool s) t (Some sd) a prio gen = Inr p'"
    using assms(1) unfolding pool_ready_def by blast
  with assms(2) show ?thesis by (simp add: runs_def server_schedule_next_def)
qed

lemma runs_schedule_and_release:
  assumes "listening sid prio s"
  shows "runs {} (thenC (server_schedule_next t (Some sd) a prio gen) (tc_session_release_action_lock sid)) s
    (\<lambda>_ s'. server_inv {} {} s')"
proof (rule runs_then [OF runs_server_schedule_next])
  show "pool_ready (thread_pool s) prio" using assms by (simp add: listening_def)
  show "server_inv {} {sid} (s\<lparr>thread_pool := p\<rparr>)" for p using assms by (simp add: listening_def)
  show "runs {} (tc_session_release_action_lock sid) t (\<lambda>_. server_inv {} {})" if "server_inv {} {sid} t" for t
    using runs_release [OF that] assms by (auto simp: listening_def elim!: runs_mono)
qed

lemma runs_listen_body:
  assumes l: "listening sid prio s" and pending: "pending_packet_opcode (session_buffer s ! sid) \<noteq> -1"
  shows "runs {} (listen_body J sid prio gen) s (listened sid prio)"
proof -
  note n = kickable_length [OF listening_kickable [OF l]]
  let ?x = "session_buffer s ! sid"
  let ?opc = "pending_packet_opcode ?x"
  have op: "socket_open ?x" and wf: "session_wf ?x"
    using l server_invD(8) [of "{}" "{sid}" s sid] by (auto simp: listening_def)
  then obtain b h where b: "pending_packet_buffer ?x = Some b" "length b = tc_packet_data_size ?opc ?x"
      "pending_packet_buffer_size ?x \<le> length b" and h: "tc_packet_handlers ?opc = Some h"
    using pending by (auto simp: session_wf_def)
  let ?s = "\<lambda>q. s\<lparr>session_buffer := (session_buffer s)[sid := ?x\<lparr>socket_inbox := q\<rparr>]\<rparr>"
  have ls: "listening sid prio (?s q)" for q by (rule listening_upd [OF l]) simp_all
  note kick = runs_listen_kick [OF listening_kickable [OF ls]]
  let ?have = "pending_packet_buffer_size ?x"
  have filled: "listening sid prio (s\<lparr>session_buffer := (session_buffer s)[sid := ?x\<lparr>socket_inbox := q,
      pending_packet_buffer := Some (take ?have b @ d @ drop (?have + length d) b),
      pending_packet_buffer_size := ?have + length d\<rparr>]\<rparr>)" if "length d \<le> length b - ?have" for q d
    using that b h wf by (intro listening_upd [OF l]) (auto simp: session_wf_def)
  have full: "listening sid prio (s\<lparr>session_buffer := (session_buffer s)[sid := ?x\<lparr>socket_inbox := q,
      pending_packet_buffer := Some (take ?have b @ d), pending_packet_buffer_size := length b\<rparr>]\<rparr>)"
    if "?have + length d = length b" for q d using filled [of d q] that by simp
  have sched: "runs {} (server_schedule_next t (Some sd) a prio gen) s'
      (\<lambda>_ s'. runs {} (tc_session_release_action_lock sid) s' (\<lambda>_. server_inv {} {}))"
    if "listening sid prio s'" for t sd a gen s'
    using runs_schedule_and_release [OF that] by (simp add: runs_thenC)
  have "runs {} (bindC (p_socket_receive sid (length b - ?have))
      (listen_packet_data J sid prio gen b ?have ?opc (length b))) s (listened sid prio)"
    unfolding runs_bindC listen_packet_data_def using n op b(3) h ls kick filled full
    by (intro runs_p_socket_receive)
      (auto simp: runs_thenC [of _ "upd_session _ _"] runs_upd_session runs_retC runs_faultC
        runs_thenC [of _ "server_schedule_next _ _ _ _ _"] runs_thenC [of _ "tc_session_release_action_lock _"] intro!: sched)
  then show ?thesis using n b by (simp add: listen_body_def runs_bindC runs_get_session Let_def)
qed

lemma runs_listen_end:
  assumes "listening sid prio s"
  shows "runs {} (if error = Some False then kick_and_release J sid msg
         else thenC (server_schedule_next ClientListenTask (Some ShutdownClientTask) (SessionArg sid) prio gen)
              (tc_session_release_action_lock sid)) s (\<lambda>_. server_inv {} {})"
  using runs_schedule_and_release [OF assms] runs_kick_and_release [of "{}" "{sid}" s sid msg] assms
  by (auto simp: listening_def elim!: runs_mono)

lemma runs_listen_task:
  assumes inv: "server_inv {} {} s" and sid: "sid < 128" and pool: "pool_ready (thread_pool s) prio"
    and op: "current_generation (session_buffer s ! sid) = gen \<Longrightarrow> socket_open (session_buffer s ! sid)"
  shows "runs {} (tc_server_client_listen_task J sid prio gen) s (\<lambda>_. server_inv {} {})"
  unfolding tc_server_client_listen_task_def
proof (rule runs_seq [OF runs_acquire [OF inv sid]], simp)
  fix ok t
  assume locked: "if current_generation (session_buffer s ! sid) = gen
    then ok \<and> server_inv {} (insert sid {}) t \<and> t = s\<lparr>session_buffer := (session_buffer s)[sid := (session_buffer s ! sid)\<lparr>action_locked := True\<rparr>]\<rparr>
    else \<not> ok \<and> t = s"
  let ?last = "\<lambda>r. case r of None \<Rightarrow> retC ()
     | Some error \<Rightarrow> if error = Some False then kick_and_release J sid ''Error: Please reconnect.''
         else thenC (server_schedule_next ClientListenTask (Some ShutdownClientTask) (SessionArg sid) prio gen)
              (tc_session_release_action_lock sid)"
  have fin: "runs {} (?last r) u (\<lambda>_. server_inv {} {})" if "listened sid prio r u" for r u
    using that runs_listen_end by (cases r) (auto simp: runs_retC)
  have body: "runs {} (bindC (get_session sid) (\<lambda>x.
     bindC (if pending_packet_opcode x = -1 then listen_opcode J sid else listen_body J sid prio gen) ?last)) u (\<lambda>_. server_inv {} {})"
    if l: "listening sid prio u" for u
  proof (rule runs_seq [of _ _ _ "\<lambda>x v. x = session_buffer u ! sid \<and> v = u"])
    show "runs {} (get_session sid) u (\<lambda>x v. x = session_buffer u ! sid \<and> v = u)"
      using kickable_length [OF listening_kickable [OF l]] by (simp add: runs_get_session)
    show "runs {} (bindC (if pending_packet_opcode x = -1 then listen_opcode J sid else listen_body J sid prio gen) ?last) v
       (\<lambda>_. server_inv {} {})" if "x = session_buffer u ! sid \<and> v = u" for x v
      using that runs_listen_opcode [OF l] runs_listen_body [OF l]
      by (intro runs_seq [of _ _ _ "listened sid prio", OF _ fin]) auto
  qed
  show "runs {} (if \<not> ok then retC () else bindC (listen_ping J sid gen) (\<lambda>alive. if \<not> alive then retC () else
     bindC (get_session sid) (\<lambda>x.
     bindC (if pending_packet_opcode x = -1 then listen_opcode J sid else listen_body J sid prio gen) ?last))) t
     (\<lambda>_. server_inv {} {})"
  proof (cases ok)
    case True
    then have "listening sid prio t" using locked op pool sid server_invD(1) [OF inv]
      by (auto simp: listening_def split: if_splits)
    then show ?thesis using True body
      by (auto simp: runs_retC intro!: runs_seq [OF runs_listen_ping])
  qed (use locked inv in \<open>auto simp: runs_retC split: if_splits\<close>)
qed

lemma runs_shutdown_client:
  assumes inv: "server_inv {} {} s" and sid: "sid < 128"
    and op: "current_generation (session_buffer s ! sid) = gen \<Longrightarrow> socket_open (session_buffer s ! sid)"
  shows "runs {} (tc_server_shutdown_client_task J sid gen) s (\<lambda>_ s'. server_inv {} {} s'
    \<and> (if current_generation (session_buffer s ! sid) = gen then ended sid s s' else s' = s))"
proof -
  have kick: "runs {} (thenC (thenC (on_socket sid (tc_protocol_kick (bytes_of m))) (retC ()))
       (thenC (disconnect_session J sid g) (whenC True (tc_session_release_action_lock sid)))) t
      (\<lambda>_ s'. server_inv {} {} s' \<and> ended sid t s')"
    if t: "server_inv {} {sid} t" "socket_open (session_buffer t ! sid)" for t m g
  proof -
    have rel: "runs {} (tc_session_release_action_lock sid) u (\<lambda>_ s'. server_inv {} {} s' \<and> ended sid t s')"
      if "server_inv {} {sid} u \<and> ended sid t u" for u
      using runs_release [of "{}" "{sid}" u sid] that sid server_invD(1) [of "{}" "{sid}" u]
      by (auto elim!: runs_mono intro!: ended_unlock)
    have "runs {} (tc_server_kick_session J sid (Some m) g False) t (\<lambda>_ s'. server_inv {} {sid} s' \<and> ended sid t s')"
      using runs_kick [OF t(1) sid t(2)] by simp
    from runs_mono [OF this rel] show ?thesis
      by (simp add: tc_server_kick_session_def runs_bindC runs_retC runs_thenC runs_whenC)
  qed
  let ?t = "s\<lparr>session_buffer := (session_buffer s)[sid := (session_buffer s ! sid)\<lparr>action_locked := True\<rparr>]\<rparr>"
  have ended: "ended sid s s'" if "ended sid ?t s'" for s'
    using that others_kept_trans [of sid s ?t s'] sid server_invD(1) [OF inv] by (simp add: ended_def)
  show ?thesis unfolding tc_server_shutdown_client_task_def tc_server_kick_session_def if_True
    by (rule runs_seq [OF runs_acquire [OF inv sid]])
      (use inv op sid server_invD(1) [OF inv] ended in \<open>auto simp: runs_retC split: if_splits intro!: runs_mono [OF kick]\<close>)
qed

end

section \<open>Reassembling a packet\<close>

text \<open>
  The rounds of the listen task of one session, each with the pool as the worker that runs it finds
  it: between two rounds other tasks use the pool.
\<close>

fun listen_rounds :: "joinable_table \<Rightarrow> nat \<Rightarrow> tc_thread_pool_task_priority \<Rightarrow> int
    \<Rightarrow> (tc_task, task_arg) tc_thread_pool list \<Rightarrow> tc_server \<Rightarrow> tc_server outcome" where
  "listen_rounds J sid prio gen [] s = Inr s"
| "listen_rounds J sid prio gen (p # ps) s =
     (case tc_server_client_listen_task J sid prio gen (s\<lparr>thread_pool := p\<rparr>) of
        Inl f \<Rightarrow> Inl f
      | Inr (_, s') \<Rightarrow> listen_rounds J sid prio gen ps s')"

text \<open>A session that can be listened to without a ping being due.\<close>

definition quiet_session :: "nat \<Rightarrow> int \<Rightarrow> tc_server \<Rightarrow> bool" where
  "quiet_session sid gen s \<longleftrightarrow> server_inv {} {} s \<and> sid < 128 \<and> socket_open (session_buffer s ! sid)
     \<and> current_generation (session_buffer s ! sid) = gen
     \<and> (case ping_profiler (session_buffer s ! sid) of None \<Rightarrow> True | Some t \<Rightarrow> t \<le> TC_SERVER_PING_INTERVAL)"

lemma quiet_session_upd:
  assumes "quiet_session sid gen s" "x = session_buffer s ! sid"
    and "socket_open y = socket_open x" "session_id y = session_id x" "action_locked y = action_locked x"
    and "current_generation y = current_generation x" "ping_profiler y = ping_profiler x" "session_wf y"
  shows "quiet_session sid gen (s\<lparr>thread_pool := p, session_buffer := (session_buffer s)[sid := y]\<rparr>)"
proof -
  have inv: "server_inv {} {} s" and sid: "sid < 128" using assms(1) by (simp_all add: quiet_session_def)
  then have inv': "server_inv {} {} (s\<lparr>thread_pool := p\<rparr>)" by simp
  have "server_inv {} {} (s\<lparr>thread_pool := p, session_buffer := (session_buffer (s\<lparr>thread_pool := p\<rparr>))[sid := y]\<rparr>)"
    using assms server_invD(6) [OF inv sid] by (intro server_inv_upd [OF inv' sid]) auto
  then show ?thesis using assms server_invD(1) [OF inv] by (auto simp: quiet_session_def)
qed

lemma quiet_session_pool [simp]: "quiet_session sid gen (s\<lparr>thread_pool := p\<rparr>) = quiet_session sid gen s"
  by (simp add: quiet_session_def)

lemma listen_task_quiet:
  assumes "quiet_session sid gen s" and "x = session_buffer s ! sid"
  shows "tc_server_client_listen_task J sid prio gen s =
    bindC (if pending_packet_opcode x = -1 then listen_opcode J sid else listen_body J sid prio gen)
      (\<lambda>r. case r of None \<Rightarrow> retC ()
         | Some error \<Rightarrow>
             if error = Some False then kick_and_release J sid ''Error: Please reconnect.''
             else thenC (server_schedule_next ClientListenTask (Some ShutdownClientTask) (SessionArg sid) prio gen)
                  (tc_session_release_action_lock sid))
      (s\<lparr>session_buffer := (session_buffer s)[sid := x\<lparr>action_locked := True\<rparr>]\<rparr>)"
proof -
  have inv: "server_inv {} {} s" and sid: "sid < 128" using assms(1) by (simp_all add: quiet_session_def)
  have "length (session_buffer s) = 128" "\<not> action_locked (session_buffer s ! sid)"
    using server_invD(1) [OF inv] server_invD(6) [OF inv sid] by auto
  moreover have "\<not> (case ping_profiler x of None \<Rightarrow> 0 | Some t \<Rightarrow> t) > TC_SERVER_PING_INTERVAL"
    using assms by (simp add: quiet_session_def split: option.splits)
  ultimately show ?thesis using assms
    by (simp add: tc_server_client_listen_task_def tc_session_aquire_action_lock_def listen_ping_def
        quiet_session_def get_session_def upd_session_def run_simps)
qed

text \<open>One round in the middle of a packet.\<close>

lemma listen_round_data:
  assumes q: "quiet_session sid gen s" and x: "x = session_buffer s ! sid"
    and opc: "pending_packet_opcode x \<noteq> -1" and b: "pending_packet_buffer x = Some b"
    and have_: "pending_packet_buffer_size x = have" "have + length d \<le> length b" and d: "d \<noteq> []"
    and inbox: "socket_inbox x = RecvData d # rest" and pool: "pool_ready (thread_pool s) prio"
  shows "\<exists>p y. tc_server_client_listen_task J sid prio gen s =
      Inr ((), s\<lparr>thread_pool := p, session_buffer := (session_buffer s)[sid := y]\<rparr>)
    \<and> y = x\<lparr>socket_inbox := rest, pending_packet_buffer := Some (take have b @ d @ drop (have + length d) b),
            pending_packet_buffer_size := have + length d, action_locked := False\<rparr>
    \<and> quiet_session sid gen (s\<lparr>thread_pool := p, session_buffer := (session_buffer s)[sid := y]\<rparr>)
    \<and> tc_thread_schedule_next (thread_pool s)
        (if have + length d = length b then the (tc_packet_handlers (pending_packet_opcode x)) else ClientListenTask)
        (Some ShutdownClientTask) (SessionArg sid) prio gen = Inr p"
proof -
  have inv: "server_inv {} {} s" and sid: "sid < 128" and op: "socket_open x" using q x by (simp_all add: quiet_session_def)
  have n: "length (session_buffer s) = 128" "\<not> action_locked x"
    using server_invD(1) [OF inv] server_invD(6) [OF inv sid] x by auto
  have wf: "session_wf x" using server_invD(8) [OF inv sid] op x by simp
  with opc b obtain h where h: "tc_packet_handlers (pending_packet_opcode x) = Some h"
    and size: "tc_packet_data_size (pending_packet_opcode x) x = length b"
    by (auto simp: session_wf_def)
  define f where "f = (if have + length d = length b then h else ClientListenTask)"
  obtain p where p: "tc_thread_schedule_next (thread_pool s) f (Some ShutdownClientTask) (SessionArg sid) prio gen = Inr p"
    using pool unfolding pool_ready_def by blast
  let ?y = "x\<lparr>socket_inbox := rest, pending_packet_buffer := Some (take have b @ d @ drop (have + length d) b),
            pending_packet_buffer_size := have + length d, action_locked := False\<rparr>"
  have "session_wf ?y" using wf opc b have_ by (auto simp: session_wf_def)
  then have "quiet_session sid gen (s\<lparr>thread_pool := p, session_buffer := (session_buffer s)[sid := ?y]\<rparr>)"
    using n by (intro quiet_session_upd [OF q x]) simp_all
  moreover have "tc_server_client_listen_task J sid prio gen s =
      Inr ((), s\<lparr>thread_pool := p, session_buffer := (session_buffer s)[sid := ?y]\<rparr>)"
    using opc b have_ inbox op sid n d p h
    by (simp add: listen_task_quiet [OF q x] listen_body_def listen_packet_data_def p_socket_receive_def
        get_session_def upd_session_def tc_session_release_action_lock_def server_schedule_next_def
        size run_simps f_def Let_def split: if_splits)
  ultimately show ?thesis using p h by (auto simp: f_def)
qed


lemma listen_rounds_data:
  assumes "quiet_session sid gen s" and "x = session_buffer s ! sid"
    and "pending_packet_opcode x \<noteq> -1" and "pending_packet_buffer x = Some b"
    and "pending_packet_buffer_size x = got" "got + length (concat ds) = length b" and "[] \<notin> set ds" "ds \<noteq> []"
    and "socket_inbox x = map RecvData ds @ rest" and "length pools = length ds" "\<forall>p \<in> set pools. pool_ready p prio"
  shows "\<exists>s'. listen_rounds J sid prio gen pools s = Inr s' \<and> quiet_session sid gen s'
    \<and> session_buffer s' ! sid = x\<lparr>socket_inbox := rest, pending_packet_buffer := Some (take got b @ concat ds),
         pending_packet_buffer_size := length b, action_locked := False\<rparr>
    \<and> tc_thread_schedule_next (last pools) (the (tc_packet_handlers (pending_packet_opcode x)))
        (Some ShutdownClientTask) (SessionArg sid) prio gen = Inr (thread_pool s')"
  using assms
proof (induction ds arbitrary: s x b got pools)
  case (Cons d ds)
  then obtain p ps where pools: "pools = p # ps" "length ps = length ds" by (cases pools) auto
  have q: "quiet_session sid gen (s\<lparr>thread_pool := p\<rparr>)" and p: "pool_ready (thread_pool (s\<lparr>thread_pool := p\<rparr>)) prio"
    and x: "x = session_buffer (s\<lparr>thread_pool := p\<rparr>) ! sid"
    using Cons.prems pools by auto
  have d: "got + length d \<le> length b" "d \<noteq> []" "socket_inbox x = RecvData d # map RecvData ds @ rest"
    using Cons.prems by auto
  define y where "y = x\<lparr>socket_inbox := map RecvData ds @ rest,
     pending_packet_buffer := Some (take got b @ d @ drop (got + length d) b),
     pending_packet_buffer_size := got + length d, action_locked := False\<rparr>"
  obtain p' s' where s': "s' = s\<lparr>thread_pool := p', session_buffer := (session_buffer s)[sid := y]\<rparr>"
    and run: "tc_server_client_listen_task J sid prio gen (s\<lparr>thread_pool := p\<rparr>) = Inr ((), s')"
    and q': "quiet_session sid gen s'"
    and sched: "tc_thread_schedule_next p (if got + length d = length b then the (tc_packet_handlers (pending_packet_opcode x))
        else ClientListenTask) (Some ShutdownClientTask) (SessionArg sid) prio gen = Inr p'"
    using listen_round_data [OF q x Cons.prems(3,4,5) d(1,2,3) p, of J] by (auto simp: y_def)
  have n: "sid < length (session_buffer s)"
    using q server_invD(1) unfolding quiet_session_def by fastforce
  show ?case
  proof (cases "ds = []")
    case True
    with pools run sched q' Cons.prems(6) n show ?thesis by (auto simp: s' y_def)
  next
    case False
    have y: "y = session_buffer s' ! sid" using n by (simp add: s')
    have "\<exists>s''. listen_rounds J sid prio gen ps s' = Inr s'' \<and> quiet_session sid gen s''
      \<and> session_buffer s'' ! sid = y\<lparr>socket_inbox := rest,
         pending_packet_buffer := Some (take (got + length d) (take got b @ d @ drop (got + length d) b) @ concat ds),
         pending_packet_buffer_size := length (take got b @ d @ drop (got + length d) b), action_locked := False\<rparr>
      \<and> tc_thread_schedule_next (last ps) (the (tc_packet_handlers (pending_packet_opcode y)))
        (Some ShutdownClientTask) (SessionArg sid) prio gen = Inr (thread_pool s'')"
      by (rule Cons.IH [OF q' y]) (use Cons.prems pools False d in \<open>auto simp: y_def\<close>)
    moreover have "got < length b" using d(1,2) by (cases d) auto
    ultimately show ?thesis using run pools False Cons.prems(6) by (auto simp: y_def)
  qed
qed simp

text \<open>The round that reads the opcode; bytes that came with it stay on the socket.\<close>

lemma listen_round_opcode:
  assumes q: "quiet_session sid gen s" and x: "x = session_buffer s ! sid"
    and opc: "pending_packet_opcode x = -1" and h: "tc_packet_handlers (sint opc) \<noteq> None"
    and inbox: "socket_inbox x = RecvData (opc # d) # rest" and pool: "pool_ready (thread_pool s) prio"
    and alloc: "alloc_script s = []"
  shows "\<exists>p y. tc_server_client_listen_task J sid prio gen s =
      Inr ((), s\<lparr>thread_pool := p, session_buffer := (session_buffer s)[sid := y]\<rparr>)
    \<and> y = x\<lparr>socket_inbox := (if d = [] then rest else RecvData d # rest), pending_packet_opcode := sint opc,
            pending_packet_buffer := Some (replicate (tc_packet_data_size (sint opc) x) 0),
            pending_packet_buffer_size := 0, action_locked := False\<rparr>
    \<and> quiet_session sid gen (s\<lparr>thread_pool := p, session_buffer := (session_buffer s)[sid := y]\<rparr>)"
proof -
  have inv: "server_inv {} {} s" and sid: "sid < 128" and op: "socket_open x" using q x by (simp_all add: quiet_session_def)
  have n: "length (session_buffer s) = 128" "\<not> action_locked x"
    using server_invD(1) [OF inv] server_invD(6) [OF inv sid] x by auto
  have wf: "session_wf x" using server_invD(8) [OF inv sid] op x by simp
  have r: "0 \<le> sint opc" "sint opc < 32"
    using known_opcode_range [OF h] by auto
  obtain hd' where h2: "tc_packet_handlers (sint opc) = Some hd'" using h by blast
  obtain p where p: "tc_thread_schedule_next (thread_pool s) ClientListenTask (Some ShutdownClientTask) (SessionArg sid) prio gen = Inr p"
    using pool unfolding pool_ready_def by blast
  let ?y = "x\<lparr>socket_inbox := (if d = [] then rest else RecvData d # rest), pending_packet_opcode := sint opc,
            pending_packet_buffer := Some (replicate (tc_packet_data_size (sint opc) x) 0),
            pending_packet_buffer_size := 0, action_locked := False\<rparr>"
  have "session_wf ?y" using wf h packet_opcode_range [OF h] by (auto simp: session_wf_def)
  then have "quiet_session sid gen (s\<lparr>thread_pool := p, session_buffer := (session_buffer s)[sid := ?y]\<rparr>)"
    using n by (intro quiet_session_upd [OF q x]) simp_all
  moreover have "tc_server_client_listen_task J sid prio gen s =
      Inr ((), s\<lparr>thread_pool := p, session_buffer := (session_buffer s)[sid := ?y]\<rparr>)"
    using opc inbox op sid n p h2 r alloc
    by (simp add: listen_task_quiet [OF q x] listen_opcode_def listen_new_packet_def p_socket_receive_def
        get_session_def upd_session_def tc_session_release_action_lock_def server_schedule_next_def
        server_malloc_def TC_PACKET_HANDLERS_MAX_PACKETS_def run_simps)
  ultimately show ?thesis by blast
qed

lemma listen_rounds_packet:
  assumes q: "quiet_session sid gen s" and x: "x = session_buffer s ! sid"
    and opc: "pending_packet_opcode x = -1" and h: "tc_packet_handlers (sint opc) = Some h"
    and inbox: "socket_inbox x = RecvData (opc # d) # map RecvData ds @ rest" and ds: "[] \<notin> set ds"
    and data: "data = d @ concat ds" "length data = tc_packet_data_size (sint opc) x" and alloc: "alloc_script s = []"
    and pools: "length pools = (if d = [] then 1 else 2) + length ds" "\<forall>p \<in> set pools. pool_ready p prio"
  shows "\<exists>s'. listen_rounds J sid prio gen pools s = Inr s' \<and> server_inv {} {} s'
    \<and> session_buffer s' ! sid = x\<lparr>socket_inbox := rest, pending_packet_opcode := sint opc,
         pending_packet_buffer := Some data, pending_packet_buffer_size := length data, action_locked := False\<rparr>
    \<and> tc_thread_schedule_next (last pools) h (Some ShutdownClientTask) (SessionArg sid) prio gen = Inr (thread_pool s')"
proof -
  obtain p ps where ps: "pools = p # ps" using pools(1) by (cases pools) (auto split: if_splits)
  have h': "tc_packet_handlers (sint opc) \<noteq> None" using h by simp
  have pos: "0 < tc_packet_data_size (sint opc) x"
    using h by (auto simp: tc_packet_handlers_def tc_packet_data_size_def tc_packet_data_sizes_def split: if_splits)
  let ?ds = "if d = [] then ds else d # ds"
  define y where "y = x\<lparr>socket_inbox := map RecvData ?ds @ rest, pending_packet_opcode := sint opc,
            pending_packet_buffer := Some (replicate (tc_packet_data_size (sint opc) x) 0),
            pending_packet_buffer_size := 0, action_locked := False\<rparr>"
  have in': "(if d = [] then map RecvData ds @ rest else RecvData d # map RecvData ds @ rest) = map RecvData ?ds @ rest"
    by simp
  obtain p' s' where s': "s' = s\<lparr>thread_pool := p', session_buffer := (session_buffer s)[sid := y]\<rparr>"
    and run: "tc_server_client_listen_task J sid prio gen (s\<lparr>thread_pool := p\<rparr>) = Inr ((), s')"
    and q': "quiet_session sid gen s'"
    using listen_round_opcode [of sid gen "s\<lparr>thread_pool := p\<rparr>" x opc d "map RecvData ds @ rest" prio J, unfolded in']
      q x opc h' inbox pools(2) ps alloc by (auto simp: y_def)
  have n: "sid < length (session_buffer s)"
    using q server_invD(1) unfolding quiet_session_def by fastforce
  have y: "y = session_buffer s' ! sid" using n by (simp add: s')
  have "\<exists>s''. listen_rounds J sid prio gen ps s' = Inr s'' \<and> quiet_session sid gen s''
    \<and> session_buffer s'' ! sid = y\<lparr>socket_inbox := rest,
         pending_packet_buffer := Some (take 0 (replicate (tc_packet_data_size (sint opc) x) 0) @ concat ?ds),
         pending_packet_buffer_size := length (replicate (tc_packet_data_size (sint opc) x) (0 :: pchar)), action_locked := False\<rparr>
    \<and> tc_thread_schedule_next (last ps) (the (tc_packet_handlers (pending_packet_opcode y)))
        (Some ShutdownClientTask) (SessionArg sid) prio gen = Inr (thread_pool s'')"
    by (rule listen_rounds_data [OF q' y])
      (use data pos ds pools ps packet_opcode_range [OF h'] in \<open>auto simp: y_def split: if_splits\<close>)
  moreover have "concat ?ds = data" using data(1) by simp
  moreover have "ps \<noteq> []" using pools(1) ps pos data by (cases ps) (auto split: if_splits)
  ultimately show ?thesis using run ps h data(2) by (auto simp: y_def quiet_session_def)
qed

section \<open>Accepting a client\<close>

lemma free_id:
  assumes inv: "server_inv X L s" and h: "id_buffer_head s < 128"
  shows "id_buffer s ! id_buffer_head s < 128" and "\<not> socket_open (session_buffer s ! (id_buffer s ! id_buffer_head s))"
proof -
  let ?i = "id_buffer s ! id_buffer_head s"
  have i: "?i \<in> set (drop (id_buffer_head s) (id_buffer s))"
    using h server_invD(2) [OF inv] by (metis hd_drop_conv_nth drop_eq_Nil hd_in_set leD)
  then show "?i < 128" using inv by (auto simp: server_inv_def)
  then show "\<not> socket_open (session_buffer s ! ?i)" using i server_invD(9) [OF inv] by blast
qed

lemma new_session_wf: "session_wf (new_session sock inbox sid x)"
  by (simp add: session_wf_def new_session_def TC_CPE_EXTENSION_MAX_SUPPORTED_def)

lemma new_session_inv:
  assumes inv: "server_inv {} {} s" and h: "id_buffer_head s < 128" and sid: "sid = id_buffer s ! id_buffer_head s"
    and y: "socket_open y" "session_id y = sid" "\<not> action_locked y" "session_wf y"
  shows "server_inv {} {} (s\<lparr>id_buffer_head := id_buffer_head s + 1, session_buffer := (session_buffer s)[sid := y]\<rparr>)"
proof -
  let ?h = "id_buffer_head s"
  have d: "drop ?h (id_buffer s) = sid # drop (Suc ?h) (id_buffer s)"
    using h server_invD(2) [OF inv] sid by (simp add: Cons_nth_drop_Suc)
  have "sid < 128" using free_id(1) [OF inv h] sid by simp
  then show ?thesis using inv h y unfolding server_inv_def Let_def
    by (auto simp: d nth_list_update)
qed

lemma handle_new_session_run:
  assumes inv: "server_inv {} {} s" and alloc: "alloc_script s = []"
    and sid: "sid = id_buffer s ! id_buffer_head s" and x: "x = session_buffer s ! sid" and h: "id_buffer_head s < 128"
  shows "handle_new_session J sock inbox s =
    (case tc_thread_schedule_new (thread_pool s) ClientListenTask (SessionArg sid) PRIORITY_LOW (current_generation x) of
       Inl f \<Rightarrow> Inl f
     | Inr (ok, p) \<Rightarrow> if ok then Inr ((), s\<lparr>id_buffer_head := id_buffer_head s + 1, server_locked := False, thread_pool := p,
          session_buffer := (session_buffer s)[sid := (new_session sock inbox sid x)\<lparr>ping_profiler := Some 0, action_locked := False\<rparr>]\<rparr>)
        else Inl SelfDeadlock)"
proof -
  have s128: "sid < 128" and n: "length (session_buffer s) = 128" "length (id_buffer s) = 128" "\<not> server_locked s"
    using free_id(1) [OF inv h] sid server_invD(1,2,4) [OF inv] by auto
  have l: "\<not> action_locked x" using server_invD(6) [OF inv s128] x by simp
  obtain r where r: "tc_thread_schedule_new (thread_pool s) ClientListenTask (SessionArg sid) PRIORITY_LOW (current_generation x) = r" by simp
  have start: "handle_new_session J sock inbox s
      = begin_session J sock inbox sid (s\<lparr>id_buffer_head := id_buffer_head s + 1, server_locked := False\<rparr>)"
    using n h by (simp add: handle_new_session_def server_lock_def server_unlock_def run_simps TC_SERVER_MAX_SESSIONS_def sid)
  show ?thesis unfolding start r
    using n s128 h alloc l r
    by (simp add: run_simps x begin_session_def get_session_def upd_session_def tc_session_aquire_action_lock_def server_malloc_def
        server_schedule_new_def tc_server_kick_session_def tc_session_release_action_lock_def new_session_def
        split: sum.split prod.split)
qed

lemma handle_new_session_full:
  assumes "server_inv {} {} s" and "id_buffer_head s = 128"
  shows "handle_new_session J sock inbox s = Inr ((), s\<lparr>server_locked := False\<rparr>)"
proof -
  obtain a k where "tc_protocol_kick (bytes_of busy_message) sock = Inr (a, k)"
    using safe_send_packets(1) unfolding safe_send_def runs_total by blast
  with assms server_invD(4) [OF assms(1)] show ?thesis
    by (simp add: handle_new_session_def server_lock_def server_unlock_def run_simps TC_SERVER_MAX_SESSIONS_def)
qed

section \<open>The test world\<close>

text \<open>
  The callbacks of the joinable that \<^verbatim>\<open>src/main.c\<close> builds; \<open>join\<close> stands for \<open>test_attempt_join\<close>,
  which sends the map of the lobby.
\<close>

definition build_test_joinable ::
    "(nat \<Rightarrow> cstring option \<Rightarrow> tc_thread_pool_task_priority \<Rightarrow> int \<Rightarrow> (tc_server, bool) cm) \<Rightarrow> joinable_ops" where
  "build_test_joinable join = \<lparr>attempt_join = join, leave = (\<lambda>_ _ _. retC ()),
     handle_set_block = (\<lambda>_ _ _ _ _ _ _ _. retC True), handle_position_update = (\<lambda>_ _ _ _ _ _ _ _. retC True),
     handle_server_stop = retC ()\<rparr>"

lemma callback_frame_refl [simp]: "callback_frame s s"
  by (simp add: callback_frame_def session_same_socket)

interpretation test_rig: joinable_contract "\<lambda>_. build_test_joinable join" for join
  by unfold_locales (simp_all add: build_test_joinable_def runs_retC)

section \<open>Errors while reading\<close>

lemma listen_error_in_body:
  assumes q: "quiet_session sid gen s" and x: "x = session_buffer s ! sid"
    and opc: "pending_packet_opcode x \<noteq> -1" and inbox: "socket_inbox x = RecvFailed # rest"
    and pool: "pool_ready (thread_pool s) prio"
  shows "\<exists>p. tc_thread_schedule_next (thread_pool s) ClientListenTask (Some ShutdownClientTask) (SessionArg sid) prio gen = Inr p
    \<and> tc_server_client_listen_task J sid prio gen s =
      Inr ((), s\<lparr>thread_pool := p, session_buffer := (session_buffer s)[sid := x\<lparr>socket_inbox := rest, action_locked := False\<rparr>]\<rparr>)"
proof -
  have inv: "server_inv {} {} s" and sid: "sid < 128" and op: "socket_open x" using q x by (simp_all add: quiet_session_def)
  have n: "length (session_buffer s) = 128" "\<not> action_locked x"
    using server_invD(1) [OF inv] server_invD(6) [OF inv sid] x by auto
  have wf: "session_wf x" using server_invD(8) [OF inv sid] op x by simp
  then obtain b where b: "pending_packet_buffer x = Some b" "pending_packet_buffer_size x \<le> length b"
      "tc_packet_data_size (pending_packet_opcode x) x = length b"
    using opc by (auto simp: session_wf_def)
  obtain p where p: "tc_thread_schedule_next (thread_pool s) ClientListenTask (Some ShutdownClientTask) (SessionArg sid) prio gen = Inr p"
    using pool unfolding pool_ready_def by blast
  then show ?thesis
    using opc b inbox op sid n
    by (simp add: listen_task_quiet [OF q x] listen_body_def listen_packet_data_def p_socket_receive_def
        get_session_def upd_session_def tc_session_release_action_lock_def server_schedule_next_def run_simps Let_def)
qed

context joinable_contract
begin

lemma listen_error_in_opcode:
  assumes q: "quiet_session sid gen s" and x: "x = session_buffer s ! sid"
    and opc: "pending_packet_opcode x = -1" and inbox: "socket_inbox x = RecvFailed # rest"
  shows "runs {} (tc_server_client_listen_task J sid prio gen) s
    (\<lambda>_ s'. server_inv {} {} s' \<and> \<not> socket_open (session_buffer s' ! sid))"
proof -
  have inv: "server_inv {} {} s" and sid: "sid < 128" and op: "socket_open x" using q x by (simp_all add: quiet_session_def)
  have n: "length (session_buffer s) = 128" using server_invD(1) [OF inv] .
  let ?s = "s\<lparr>session_buffer := (session_buffer s)[sid := x\<lparr>action_locked := True, socket_inbox := rest\<rparr>]\<rparr>"
  have "tc_server_client_listen_task J sid prio gen s = kick_and_release J sid ''Error: Please reconnect.'' ?s"
    using opc inbox op sid n
    by (simp add: listen_task_quiet [OF q x] listen_opcode_def p_socket_receive_def get_session_def upd_session_def run_simps)
  moreover have "server_inv {} {sid} ?s"
    using server_invD(6,8) [OF inv sid] op x by (intro server_inv_upd [OF inv sid]) auto
  then have "runs {} (kick_and_release J sid ''Error: Please reconnect.'') ?s (\<lambda>_ s'. server_inv {} {} s' \<and> ended sid ?s s')"
    using runs_kick_and_release [of "{}" "{sid}" ?s sid] sid op n by simp
  ultimately show ?thesis by (auto simp: runs_def ended_def split: sum.splits)
qed

end

section \<open>A concrete server\<close>

definition idle_session :: tc_session where
  "idle_session = \<lparr>username = [], ext_cpe_versions = [0, 0, 0], client_socket = \<lparr>wire = [], send_script = []\<rparr>,
     socket_inbox = [], socket_open = False, ping_profiler = None, action_locked = False,
     authenticated_service = None, current_joinable = None, pending_packet_buffer = None,
     pending_packet_buffer_size = 0, pending_packet_opcode = -1, supports_cpe = False, current_generation = 0,
     session_id = 0, remaining_cpe_ext_packets = -1, custom_block_support_level = 0\<rparr>"

definition demo_router :: tc_join_router where
  "demo_router = \<lparr>joinables = [\<lparr>joinable_name = bytes_of ''lobby'', joinable_ref = 0\<rparr>], router_readers = 0,
     router_writer = False, default_joinable = Some 0, router_stopped = False\<rparr>"

definition demo_server :: "tc_session \<Rightarrow> (tc_task, task_arg) tc_thread_pool \<Rightarrow> tc_server" where
  "demo_server x p = \<lparr>session_buffer = x # replicate 127 idle_session, id_buffer = [0..<128], id_buffer_head = 1,
     thread_pool = p, heartbeat_manager = sample_manager, join_router = demo_router, motd = [],
     server_locked = False, active_players = 0, server_started = True, alloc_script = []\<rparr>"

definition demo_session :: "recv_event list \<Rightarrow> tc_session" where
  "demo_session inbox = (new_session \<lparr>wire = [], send_script = []\<rparr> inbox 0 idle_session)\<lparr>ping_profiler := Some 0\<rparr>"

definition listen_pool :: "(tc_task, task_arg) pool_system" where
  "listen_pool = demo_running ClientListenTask (SessionArg 0)"

lemma demo_server_inv:
  assumes "socket_open x" "session_id x = 0" "\<not> action_locked x" "session_wf x"
  shows "server_inv {} {} (demo_server x p)"
proof -
  have "drop 1 [0..<128] = [1..<128]" by (simp add: drop_upt)
  with assms show ?thesis
    by (auto simp: server_inv_def demo_server_def idle_session_def nth_Cons split: nat.splits)
qed

lemma listen_pool_running:
  "pool_reachable listen_pool" "0 < length (workers listen_pool)"
  "workers listen_pool ! 0 = Running (demo_task ClientListenTask (SessionArg 0)) False"
  unfolding listen_pool_def by (rule demo_running_reachable) code_simp+

lemma pool_ready_running:
  assumes "pool_reachable ps" "i < length (workers ps)" "workers ps ! i = Running t False"
  shows "pool_ready (pool_of ps) (priority t)"
  using continuation_total [OF assms] unfolding pool_ready_def by blast

lemma demo_session_wf:
  "socket_open (demo_session q)" "session_id (demo_session q) = 0" "\<not> action_locked (demo_session q)"
  "session_wf (demo_session q)" "current_generation (demo_session q) = 0" "ping_profiler (demo_session q) = Some 0"
  "pending_packet_opcode (demo_session q) = -1" "socket_inbox (demo_session q) = q"
  "ext_cpe_versions (demo_session q) = [0, 0, 0]"
  using new_session_wf
  by (simp_all add: demo_session_def) (simp_all add: new_session_def idle_session_def TC_CPE_EXTENSION_MAX_SUPPORTED_def numeral_3_eq_3)

lemma demo_server_simps [simp]:
  "session_buffer (demo_server x p) ! 0 = x" "thread_pool (demo_server x p) = p" "alloc_script (demo_server x p) = []"
  "id_buffer_head (demo_server x p) = 1" "id_buffer (demo_server x p) = [0..<128]"
  by (simp_all add: demo_server_def)

lemma demo_quiet: "quiet_session 0 0 (demo_server (demo_session q) p)"
  by (simp add: quiet_session_def demo_server_inv demo_session_wf)

section \<open>Properties\<close>

text \<open>
  [C20] The listen task is safe: run by a worker of the pool, on a server between tasks and for a
  world that keeps its contract, it always ends without a fault (no lock is taken twice or released
  unheld, no buffer is overrun, no freed socket is used, the assertion on the continuation holds)
  and leaves the server in a state between tasks again, whatever the socket delivers, whether or
  not memory is available and whether or not the messages to the client can be sent.
\<close>

theorem listen_task_safe:
  assumes "joinable_contract J" and "server_inv {} {} s" and "sid < 128"
    and "pool_reachable ps" and "i < length (workers ps)" and "workers ps ! i = Running t False"
    and "thread_pool s = pool_of ps"
    and "current_generation (session_buffer s ! sid) = gen \<longrightarrow> socket_open (session_buffer s ! sid)"
  shows "\<exists>s'. tc_server_client_listen_task J sid (priority t) gen s = Inr ((), s') \<and> server_inv {} {} s'"
  using joinable_contract.runs_listen_task [OF assms(1-3), of "priority t" gen]
    pool_ready_running [OF assms(4-6)] assms(7,8) by (auto simp: runs_total)

theorem listen_task_safe_witness:
  "\<exists>s'. tc_server_client_listen_task (\<lambda>_. build_test_joinable (\<lambda>_ _ _ _. retC True)) 0 PRIORITY_HIGH 0
     (demo_server (demo_session [RecvData [99]]) (pool_of listen_pool)) = Inr ((), s') \<and> server_inv {} {} s'"
proof -
  let ?s = "demo_server (demo_session [RecvData [99]]) (pool_of listen_pool)"
  have inv: "server_inv {} {} ?s" by (simp add: demo_server_inv demo_session_wf)
  have "priority (demo_task ClientListenTask (SessionArg 0)) = PRIORITY_HIGH" by (simp add: demo_task_def)
  with listen_task_safe [OF test_rig.joinable_contract_axioms inv _ listen_pool_running, of 0 0]
  show ?thesis by (simp add: demo_session_wf)
qed

text \<open>
  [C22] A new client gets its own clean session, or the server is full: with all 128 sessions in use
  the client is refused and nothing changes; otherwise the session whose identifier is on top of
  the free list, which no other client uses, is reset for the client, its listen task is queued
  with its current generation and the server is between tasks again. When the pool refuses the
  task, the busy kick tries to take the action lock that is already held and the worker deadlocks.
\<close>

theorem new_client_gets_free_session:
  assumes "server_inv {} {} s" and "alloc_script s = []"
    and "sid = id_buffer s ! id_buffer_head s" and "x = session_buffer s ! sid"
    and "r = tc_thread_schedule_new (thread_pool s) ClientListenTask (SessionArg sid) PRIORITY_LOW (current_generation x)"
  shows "(id_buffer_head s = 128 \<longrightarrow> handle_new_session J sock inbox s = Inr ((), s\<lparr>server_locked := False\<rparr>))
    \<and> (id_buffer_head s < 128 \<longrightarrow> sid < 128 \<and> \<not> socket_open x
        \<and> (\<forall>p. r = Inr (False, p) \<longrightarrow> handle_new_session J sock inbox s = Inl SelfDeadlock)
        \<and> (\<forall>p. r = Inr (True, p) \<longrightarrow> (\<exists>s'. handle_new_session J sock inbox s = Inr ((), s') \<and> server_inv {} {} s'
              \<and> thread_pool s' = p \<and> id_buffer_head s' = id_buffer_head s + 1
              \<and> session_buffer s' = (session_buffer s)[sid :=
                  (new_session sock inbox sid x)\<lparr>ping_profiler := Some 0, action_locked := False\<rparr>])))"
proof (cases "id_buffer_head s < 128")
  case True
  let ?y = "(new_session sock inbox sid x)\<lparr>ping_profiler := Some 0, action_locked := False\<rparr>"
  have y: "socket_open ?y" "session_id ?y = sid" "\<not> action_locked ?y" "session_wf ?y"
    by (simp_all add: new_session_wf) (simp_all add: new_session_def)
  have "server_inv {} {} (s\<lparr>id_buffer_head := id_buffer_head s + 1, session_buffer := (session_buffer s)[sid := ?y]\<rparr>)"
    by (rule new_session_inv [OF assms(1) True assms(3) y])
  then have "server_inv {} {} (s\<lparr>id_buffer_head := id_buffer_head s + 1, server_locked := False, thread_pool := p,
      session_buffer := (session_buffer s)[sid := ?y]\<rparr>)" for p
    by (simp add: server_inv_def)
  with free_id [OF assms(1) True] handle_new_session_run [OF assms(1-4) True, of J sock inbox] True assms(3-5)
  show ?thesis by (auto split: sum.splits)
next
  case False
  then have "id_buffer_head s = 128" using server_invD(3) [OF assms(1)] by simp
  with handle_new_session_full [OF assms(1)] show ?thesis by simp
qed

theorem new_client_gets_free_session_witness:
  "\<exists>s' p. handle_new_session (\<lambda>_. build_test_joinable (\<lambda>_ _ _ _. retC True)) \<lparr>wire = [], send_script = []\<rparr> []
     (demo_server (demo_session []) (pool_of listen_pool)) = Inr ((), s') \<and> id_buffer_head s' = 2
     \<and> session_buffer s' ! 1 = (new_session \<lparr>wire = [], send_script = []\<rparr> [] 1 idle_session)\<lparr>ping_profiler := Some 0, action_locked := False\<rparr>"
proof -
  let ?s = "demo_server (demo_session []) (pool_of listen_pool)"
  let ?r = "tc_thread_schedule_new (pool_of listen_pool) ClientListenTask (SessionArg 1) PRIORITY_LOW 0"
  have "\<not> isl ?r" "fst (projr ?r)" by code_simp+
  then obtain p where p: "?r = Inr (True, p)" by (cases ?r) (auto simp: prod_eq_iff)
  have x: "session_buffer ?s ! 1 = idle_session" "length (session_buffer ?s) = 128" by (simp_all add: demo_server_def)
  have g: "current_generation idle_session = 0" by (simp add: idle_session_def)
  have inv: "server_inv {} {} ?s" by (simp add: demo_server_inv demo_session_wf)
  have i: "id_buffer ?s ! id_buffer_head ?s = 1" by simp
  from new_client_gets_free_session [OF inv _ i [symmetric] refl refl, unfolded x(1) g] p
  obtain s' where "handle_new_session (\<lambda>_. build_test_joinable (\<lambda>_ _ _ _. retC True)) \<lparr>wire = [], send_script = []\<rparr> [] ?s = Inr ((), s')"
    "id_buffer_head s' = 2" "session_buffer s' = (session_buffer ?s)[1 :=
      (new_session \<lparr>wire = [], send_script = []\<rparr> [] 1 idle_session)\<lparr>ping_profiler := Some 0, action_locked := False\<rparr>]"
    by (fastforce simp: numeral_2_eq_2)
  with x(2) show ?thesis by auto
qed

text \<open>
  [C21] Packets are reassembled whatever way TCP cuts them: when the opcode of a packet and its data
  arrive in any sequence of non-empty pieces, with or without data in the piece that has the
  opcode, the rounds of the listen task that read them never fault, put exactly the data into the
  packet buffer, leave what follows the packet on the socket, and the last round schedules the
  handler of the opcode; between two rounds the pool may change in any way that leaves the task its
  place.
\<close>

theorem packet_reassembled:
  assumes "quiet_session sid gen s" and "x = session_buffer s ! sid" and "pending_packet_opcode x = -1"
    and "tc_packet_handlers (sint opc) = Some h"
    and "socket_inbox x = RecvData (opc # d) # map RecvData ds @ rest" and "[] \<notin> set ds"
    and "data = d @ concat ds" and "length data = tc_packet_data_size (sint opc) x" and "alloc_script s = []"
    and "length pools = (if d = [] then 1 else 2) + length ds" and "\<forall>p \<in> set pools. pool_ready p prio"
  shows "\<exists>s'. listen_rounds J sid prio gen pools s = Inr s' \<and> server_inv {} {} s'
    \<and> session_buffer s' ! sid = x\<lparr>socket_inbox := rest, pending_packet_opcode := sint opc,
         pending_packet_buffer := Some data, pending_packet_buffer_size := length data, action_locked := False\<rparr>
    \<and> tc_thread_schedule_next (last pools) h (Some ShutdownClientTask) (SessionArg sid) prio gen = Inr (thread_pool s')"
  by (rule listen_rounds_packet [OF assms])

theorem packet_reassembled_witness:
  "\<exists>s'. listen_rounds (\<lambda>_. build_test_joinable (\<lambda>_ _ _ _. retC True)) 0 PRIORITY_HIGH 0
       [pool_of listen_pool, pool_of listen_pool, pool_of listen_pool]
       (demo_server (demo_session [RecvData [5, 0, 1], RecvData [0, 2, 0, 3, 1, 4], RecvWouldBlock]) (pool_of listen_pool)) = Inr s'
     \<and> pending_packet_buffer (session_buffer s' ! 0) = Some [0, 1, 0, 2, 0, 3, 1, 4]
     \<and> socket_inbox (session_buffer s' ! 0) = [RecvWouldBlock]"
proof -
  let ?x = "demo_session [RecvData [5, 0, 1], RecvData [0, 2, 0, 3, 1, 4], RecvWouldBlock]"
  have "priority (demo_task ClientListenTask (SessionArg 0)) = PRIORITY_HIGH" by (simp add: demo_task_def)
  then have r: "pool_ready (pool_of listen_pool) PRIORITY_HIGH" using pool_ready_running [OF listen_pool_running] by simp
  have "tc_packet_handlers (sint (5 :: pchar)) = Some HandlePlayerSetBlock" by code_simp
  moreover have "tc_packet_data_size (sint (5 :: pchar)) ?x = 8"
  proof -
    have "tc_session_get_extension_version ?x 0 = 0"
      by (simp add: tc_session_get_extension_version_def demo_session_wf TC_CPE_EXTENSION_MAX_SUPPORTED_def)
    moreover have "tc_packet_data_sizes (sint (5 :: pchar)) = 8" by code_simp
    ultimately show ?thesis by (simp add: tc_packet_data_size_def TC_CPE_CUSTOM_BLOCKS_EXTENSION_INDEX_def)
  qed
  ultimately show ?thesis
    using packet_reassembled [OF demo_quiet refl, of "[RecvData [5, 0, 1], RecvData [0, 2, 0, 3, 1, 4], RecvWouldBlock]"
        "pool_of listen_pool" "5 :: pchar" HandlePlayerSetBlock "[0, 1]" "[[0, 2, 0, 3, 1, 4]]" "[RecvWouldBlock]" "[0, 1, 0, 2, 0, 3, 1, 4]"
        "[pool_of listen_pool, pool_of listen_pool, pool_of listen_pool]" PRIORITY_HIGH
        "\<lambda>_. build_test_joinable (\<lambda>_ _ _ _. retC True)"] r
    by (auto simp: demo_session_wf simp del: listen_rounds.simps)
qed

text \<open>
  Errors of the socket: a read error other than \<open>WOULD_BLOCK\<close> while waiting for an opcode
  ends the session, but the same error in the middle of a packet is lost (an inner variable
  \<open>error\<close> hides the one that is checked): the session stays as it is and the listen task is queued
  again, so a broken connection is polled until the ping fails.
\<close>

theorem body_read_error_ignored:
  assumes "joinable_contract J" and "quiet_session sid gen s" and "x = session_buffer s ! sid"
    and "socket_inbox x = RecvFailed # rest" and "pool_ready (thread_pool s) prio"
  shows "if pending_packet_opcode x = -1
    then \<exists>s'. tc_server_client_listen_task J sid prio gen s = Inr ((), s') \<and> server_inv {} {} s'
           \<and> \<not> socket_open (session_buffer s' ! sid)
    else \<exists>p. tc_thread_schedule_next (thread_pool s) ClientListenTask (Some ShutdownClientTask) (SessionArg sid) prio gen = Inr p
           \<and> tc_server_client_listen_task J sid prio gen s = Inr ((), s\<lparr>thread_pool := p, session_buffer :=
               (session_buffer s)[sid := x\<lparr>socket_inbox := rest, action_locked := False\<rparr>]\<rparr>)"
  using listen_error_in_body [OF assms(2,3) _ assms(4,5), of J]
    joinable_contract.listen_error_in_opcode [OF assms(1-3) _ assms(4), of prio]
  by (auto simp: runs_total)

theorem body_read_error_ignored_witness:
  "\<exists>s'. tc_server_client_listen_task (\<lambda>_. build_test_joinable (\<lambda>_ _ _ _. retC True)) 0 PRIORITY_HIGH 0
     (demo_server (demo_session [RecvFailed]) (pool_of listen_pool)) = Inr ((), s')
     \<and> \<not> socket_open (session_buffer s' ! 0)"
proof -
  have "priority (demo_task ClientListenTask (SessionArg 0)) = PRIORITY_HIGH" by (simp add: demo_task_def)
  then have "pool_ready (pool_of listen_pool) PRIORITY_HIGH" using pool_ready_running [OF listen_pool_running] by simp
  with body_read_error_ignored [OF test_rig.joinable_contract_axioms demo_quiet refl] show ?thesis
    by (fastforce simp: demo_session_wf)
qed

end
