(* ===== verification/TC_Joinable.thy ===== *)
theory TC_Joinable
  imports TC_Server
begin

text \<open>
  The join router and joining worlds, \<^verbatim>\<open>src/joinable.c\<close>, with \<open>tc_api_send_message\<close> of
  \<^verbatim>\<open>src/api.c\<close>. The router's read-write lock is a count of readers and a flag for the writer; a
  lock that an earlier call never released makes the next conflicting call wait forever, the fault
  \<open>SelfDeadlock\<close>.
\<close>

section \<open>The router\<close>

text \<open>\<open>strcmp\<close> returns 0 exactly for equal strings.\<close>

definition str_equal :: "cstring \<Rightarrow> cstring \<Rightarrow> bool" where
  "str_equal a b \<longleftrightarrow> c_str a = c_str b"

definition router_reader_lock :: "(tc_join_router, unit) cm" where
  "router_reader_lock = (\<lambda>r. if router_writer r then Inl SelfDeadlock
     else Inr ((), r\<lparr>router_readers := router_readers r + 1\<rparr>))"

definition router_reader_unlock :: "(tc_join_router, unit) cm" where
  "router_reader_unlock = (\<lambda>r. if router_readers r = 0 then Inl UnlockNotHeld
     else Inr ((), r\<lparr>router_readers := router_readers r - 1\<rparr>))"

definition router_writer_lock :: "(tc_join_router, unit) cm" where
  "router_writer_lock = (\<lambda>r. if router_writer r \<or> router_readers r > 0 then Inl SelfDeadlock
     else Inr ((), r\<lparr>router_writer := True\<rparr>))"

definition router_writer_unlock :: "(tc_join_router, unit) cm" where
  "router_writer_unlock = (\<lambda>r. if router_writer r then Inr ((), r\<lparr>router_writer := False\<rparr>) else Inl UnlockNotHeld)"

definition find_joinable_callback :: "cstring \<Rightarrow> tc_joinable_interface \<Rightarrow> nat option \<Rightarrow> nat option" where
  "find_joinable_callback address joinable_interface best_match =
     (if best_match \<noteq> None then best_match
      else if str_equal (joinable_name joinable_interface) address then Some (joinable_ref joinable_interface)
      else best_match)"

definition tc_find_joinable :: "cstring option \<Rightarrow> (tc_join_router, nat option) cm" where
  "tc_find_joinable address =
     (case address of
        None \<Rightarrow> getC default_joinable
      | Some a \<Rightarrow>
          if str_equal a (bytes_of ''default'') \<or> str_equal a [] then getC default_joinable
          else thenC router_reader_lock (bindC (getC router_stopped) (\<lambda>stopped.
            if stopped then retC None
            else bindC (getC joinables) (\<lambda>js.
              thenC router_reader_unlock (retC (fold (find_joinable_callback a) js None))))))"

text \<open>\<open>lock_ok\<close> is whether \<open>p_rwlock_new\<close> succeeds.\<close>

definition tc_join_router_init ::
    "bool \<Rightarrow> tc_joinable_interface list \<Rightarrow> cstring option \<Rightarrow> (bool \<times> tc_join_router) outcome" where
  "tc_join_router_init lock_ok js default_joinable_name =
     (let r = \<lparr>joinables = js, router_readers = 0, router_writer = False, default_joinable = None, router_stopped = False\<rparr>
      in if \<not> lock_ok then Inr (False, r)
         else case tc_find_joinable default_joinable_name r of
                Inl f \<Rightarrow> Inl f
              | Inr (j, r') \<Rightarrow> Inr (True, r'\<lparr>default_joinable := j\<rparr>))"

text \<open>
  Stopping calls \<open>handle_server_stop\<close> of each joinable and frees it. The result lists the
  joinables that were stopped.
\<close>

definition tc_join_router_stop_all :: "(tc_join_router, nat list) cm" where
  "tc_join_router_stop_all =
     thenC router_writer_lock (bindC (getC router_stopped) (\<lambda>stopped.
       if stopped then retC []
       else thenC (modifyC (\<lambda>r. r\<lparr>router_stopped := True\<rparr>))
            (bindC (getC joinables) (\<lambda>js. thenC router_writer_unlock (retC (map joinable_ref js))))))"

definition tc_join_router_finalize :: "(tc_join_router, nat list) cm" where
  "tc_join_router_finalize = bindC (getC router_stopped) (\<lambda>stopped.
     bindC (if stopped then retC [] else tc_join_router_stop_all) (\<lambda>js.
       thenC (modifyC (\<lambda>r. r\<lparr>joinables := []\<rparr>)) (retC js)))"

section \<open>Joining a world\<close>

definition on_router :: "(tc_join_router, 'a) cm \<Rightarrow> (tc_server, 'a) cm" where
  "on_router m = (\<lambda>s. case m (join_router s) of Inl f \<Rightarrow> Inl f | Inr (a, r) \<Rightarrow> Inr (a, s\<lparr>join_router := r\<rparr>))"

definition TC_CPE_MESSAGE_TYPES_EXTENSION_INDEX :: int where "TC_CPE_MESSAGE_TYPES_EXTENSION_INDEX = 4"

definition tc_api_send_message :: "nat \<Rightarrow> pchar \<Rightarrow> cstring \<Rightarrow> (tc_server, bool) cm" where
  "tc_api_send_message sid message_type message = bindC (get_session sid) (\<lambda>x.
     if tc_session_get_extension_version x TC_CPE_MESSAGE_TYPES_EXTENSION_INDEX > 0
     then on_socket sid (tc_protocol_send_message message_type message)
     else on_socket sid (tc_protocol_send_message 0 message))"

text \<open>The part after \<open>attempt_join\<close> of the chosen world has failed.\<close>

definition reroute_to_default ::
    "joinable_table \<Rightarrow> nat \<Rightarrow> cstring option \<Rightarrow> tc_thread_pool_task_priority \<Rightarrow> int \<Rightarrow> bool \<Rightarrow> (tc_server, bool) cm" where
  "reroute_to_default J sid address prio gen aquire_lock =
     bindC (tc_api_send_message sid 0 (bytes_of ''Failed to join world.'')) (\<lambda>sent.
       if \<not> sent then
         thenC (tc_server_kick_session J sid
             (Some ''Failed to send message indicating that the player can't join the world.'') (-1) False)
         (thenC (whenC aquire_lock (tc_session_release_action_lock sid)) (retC False))
       else bindC (getC (\<lambda>s. default_joinable (join_router s))) (\<lambda>dj.
         case dj of
           None \<Rightarrow> faultC NullDereference
         | Some d \<Rightarrow> bindC (attempt_join (J d) sid address prio gen) (\<lambda>joined.
             if \<not> joined then
               thenC (tc_server_kick_session J sid
                   (Some ''Failed to reroute you to default/lobby after failing to join a world.'') (-1) False)
               (thenC (whenC aquire_lock (tc_session_release_action_lock sid)) (retC False))
             else thenC (upd_session sid (\<lambda>x. x\<lparr>current_joinable := Some d\<rparr>))
               (thenC (whenC aquire_lock (tc_session_release_action_lock sid)) (retC True)))))"

definition tc_session_join ::
    "joinable_table \<Rightarrow> nat \<Rightarrow> cstring option \<Rightarrow> tc_thread_pool_task_priority \<Rightarrow> int \<Rightarrow> bool \<Rightarrow> (tc_server, bool) cm" where
  "tc_session_join J sid address prio gen aquire_lock =
     bindC (on_router (tc_find_joinable address)) (\<lambda>joinable.
     case joinable of
       None \<Rightarrow> retC True
     | Some j \<Rightarrow>
         bindC (if aquire_lock then tc_session_aquire_action_lock sid gen else retC True) (\<lambda>ok.
         if \<not> ok then retC False
         else bindC (get_session sid) (\<lambda>x.
           thenC (case current_joinable x of None \<Rightarrow> retC () | Some old \<Rightarrow> leave (J old) sid prio gen)
           (bindC (attempt_join (J j) sid address prio gen) (\<lambda>joined.
              if \<not> joined then reroute_to_default J sid address prio gen aquire_lock
              else thenC (upd_session sid (\<lambda>x. x\<lparr>current_joinable := Some j\<rparr>))
                (thenC (whenC aquire_lock (tc_session_release_action_lock sid)) (retC True)))))))"

section \<open>Lookup\<close>

lemma find_fold:
  "fold (find_joinable_callback a) js None = map_option joinable_ref (find (\<lambda>j. str_equal (joinable_name j) a) js)"
proof -
  have "fold (find_joinable_callback a) js (Some i) = Some i" for js i
    by (induction js) (simp_all add: find_joinable_callback_def)
  then show ?thesis by (induction js) (simp_all add: find_joinable_callback_def)
qed

definition router_idle :: "tc_join_router \<Rightarrow> bool" where
  "router_idle r \<longleftrightarrow> \<not> router_writer r \<and> router_readers r = 0"

definition reserved_address :: "cstring option \<Rightarrow> bool" where
  "reserved_address a \<longleftrightarrow> a = None \<or> (\<exists>b. a = Some b \<and> (str_equal b (bytes_of ''default'') \<or> str_equal b []))"

lemma find_joinable_run:
  assumes "\<not> router_writer r"
  shows "tc_find_joinable a r =
    (if reserved_address a then Inr (default_joinable r, r)
     else if router_stopped r then Inr (None, r\<lparr>router_readers := router_readers r + 1\<rparr>)
     else Inr (map_option joinable_ref (find (\<lambda>j. str_equal (joinable_name j) (the a)) (joinables r)), r))"
  using assms by (cases a) (auto simp: tc_find_joinable_def reserved_address_def run_simps router_reader_lock_def
      router_reader_unlock_def find_fold)

section \<open>Properties\<close>



text \<open>
  Stopping the router twice, or looking a world up after it has stopped, leaves its lock
  taken: the early returns skip the unlock. After a stop every lookup adds a reader that never
  leaves, so the next attempt to stop waits forever, and after a second stop the writer stays in,
  so every later lookup by name waits forever.
\<close>

theorem stopped_router_keeps_lock:
  assumes "router_idle r" and "\<not> router_stopped r" and "\<not> reserved_address a"
  shows "\<exists>r1. tc_join_router_stop_all r = Inr (map joinable_ref (joinables r), r1) \<and> router_idle r1
    \<and> (\<exists>r2. tc_find_joinable a r1 = Inr (None, r2) \<and> router_readers r2 = 1
          \<and> tc_join_router_stop_all r2 = Inl SelfDeadlock)
    \<and> (\<exists>r3. tc_join_router_stop_all r1 = Inr ([], r3) \<and> router_writer r3
          \<and> tc_find_joinable a r3 = Inl SelfDeadlock)"
  using assms by (cases a)
    (auto simp: tc_join_router_stop_all_def run_simps router_idle_def router_writer_lock_def router_writer_unlock_def
      tc_find_joinable_def reserved_address_def router_reader_lock_def)

theorem stopped_router_keeps_lock_witness:
  "\<exists>r1 r3. tc_join_router_stop_all demo_router = Inr ([0], r1) \<and> tc_join_router_stop_all r1 = Inr ([], r3)
     \<and> tc_find_joinable (Some (bytes_of ''lobby'')) r3 = Inl SelfDeadlock"
proof -
  have "\<not> reserved_address (Some (bytes_of ''lobby''))" unfolding reserved_address_def by (auto; code_simp)
  with stopped_router_keeps_lock [of demo_router "Some (bytes_of ''lobby'')"] show ?thesis
    by (fastforce simp: router_idle_def demo_router_def)
qed

end
