(* ===== verification/TC_Handler.thy ===== *)
theory TC_Handler
  imports TC_Joinable
begin

text \<open>
  The packet handlers, \<^verbatim>\<open>src/handler.c\<close>: player identification, the CPE negotiation, block changes
  and movement. A handler runs as a task of its session when the listen task has filled the packet
  buffer. MD5 is a parameter, as in the heartbeat manager that validates the keys.
\<close>

section \<open>Reading the packet buffer\<close>

definition packet_buffer :: "nat \<Rightarrow> (tc_server, cstring) cm" where
  "packet_buffer sid = bindC (get_session sid) (\<lambda>x.
     case pending_packet_buffer x of None \<Rightarrow> faultC NullDereference | Some b \<Rightarrow> retC b)"

definition packet_byte :: "nat \<Rightarrow> nat \<Rightarrow> (tc_server, pchar) cm" where
  "packet_byte sid i = bindC (packet_buffer sid) (\<lambda>b. if i < length b then retC (b ! i) else faultC OutOfBounds)"

definition packet_short :: "nat \<Rightarrow> nat \<Rightarrow> (tc_server, pint16) cm" where
  "packet_short sid i = bindC (packet_buffer sid) (\<lambda>b. liftC (tc_protocol_decode_short (drop i b)))"

definition packet_int :: "nat \<Rightarrow> nat \<Rightarrow> (tc_server, pint32) cm" where
  "packet_int sid i = bindC (packet_buffer sid) (\<lambda>b. liftC (tc_protocol_decode_int (drop i b)))"

text \<open>
  \<open>tc_protocol_decode_string\<close> into an array of \<open>TC_PROTOCOL_MAX_STR_LEN\<close> bytes; what the array held
  before is overwritten.
\<close>

definition packet_string :: "nat \<Rightarrow> nat \<Rightarrow> (tc_server, cstring) cm" where
  "packet_string sid i = bindC (packet_buffer sid) (\<lambda>b.
     bindC (liftC (tc_protocol_decode_string (replicate TC_PROTOCOL_MAX_STR_LEN 0) (drop i b))) (\<lambda>(_, str). retC str))"

definition TC_CPE_CUSTOM_BLOCKS_MAX_SUPPORT_LEVEL :: pchar where "TC_CPE_CUSTOM_BLOCKS_MAX_SUPPORT_LEVEL = 1"

section \<open>Identification\<close>

definition finalize_player_identification ::
    "joinable_table \<Rightarrow> nat \<Rightarrow> tc_thread_pool_task_priority \<Rightarrow> int \<Rightarrow> (tc_server, unit) cm" where
  "finalize_player_identification J sid prio gen =
     bindC (getC (\<lambda>s. (info_server_name (hb_info (heartbeat_manager s)), motd s))) (\<lambda>(name, md).
     bindC (on_socket sid (tc_protocol_server_identification name md TC_PROTOCOL_USER_TYPE_STANDARD)) (\<lambda>identify_success.
     if \<not> identify_success then
       tc_server_kick_session J sid (Some ''Could not send server identification packet.'') (-1) False
     else thenC (tc_server_protocol_handler_cleanup sid None prio gen)
       (thenC (modifyC (\<lambda>s. s\<lparr>active_players := active_players s + 1\<rparr>))
       (bindC (tc_session_join J sid None prio gen False) (\<lambda>joined.
          thenC (whenC (\<not> joined) (tc_server_kick_session J sid (Some ''Failed to join default/lobby.'') gen True))
            (tc_session_release_action_lock sid))))))"

text \<open>A handler takes the action lock first and does nothing when its session has ended.\<close>

definition with_action_lock :: "nat \<Rightarrow> int \<Rightarrow> (tc_server, unit) cm \<Rightarrow> (tc_server, unit) cm" where
  "with_action_lock sid gen body = bindC (tc_session_aquire_action_lock sid gen) (\<lambda>ok. if \<not> ok then retC () else body)"

text \<open>The end of a handler: clean up, schedule the next task, release the lock.\<close>

definition cleanup_and_release ::
    "nat \<Rightarrow> tc_task \<Rightarrow> tc_thread_pool_task_priority \<Rightarrow> int \<Rightarrow> (tc_server, unit) cm" where
  "cleanup_and_release sid t prio gen =
     thenC (tc_server_protocol_handler_cleanup sid (Some t) prio gen) (tc_session_release_action_lock sid)"

definition identification_body :: "(cstring \<Rightarrow> cstring option) \<Rightarrow> joinable_table \<Rightarrow> nat
    \<Rightarrow> tc_thread_pool_task_priority \<Rightarrow> int \<Rightarrow> (tc_server, unit) cm" where
  "identification_body md5 J sid prio gen = bindC (get_session sid) (\<lambda>x.
     if authenticated_service x \<noteq> None then kick_and_release J sid ''Already Identified: Your client has a bug.''
     else bindC (packet_byte sid 0) (\<lambda>protocol_version.
       if protocol_version \<noteq> TC_PROTOCOL_VERSION then
         kick_and_release J sid ''Invalid Protocol Version: Please update your client.''
       else
       bindC (packet_string sid 1) (\<lambda>name.
       thenC (upd_session sid (\<lambda>x. x\<lparr>username := name\<rparr>))
       (bindC (packet_string sid (1 + TC_PROTOCOL_MAX_STR_LEN)) (\<lambda>key.
       bindC (getC heartbeat_manager) (\<lambda>hm.
       let (service, hm') = tc_heartbeat_manager_validate md5 hm (Some name) (Some key) in
       thenC (modifyC (\<lambda>s. s\<lparr>heartbeat_manager := hm'\<rparr>))
       (thenC (upd_session sid (\<lambda>x. x\<lparr>authenticated_service := service\<rparr>))
       (if service = None then kick_and_release J sid ''Could not validate your identity.''
        else bindC (packet_byte sid 129) (\<lambda>cpe.
          thenC (upd_session sid (\<lambda>x. x\<lparr>supports_cpe := (cpe = 0x42)\<rparr>))
          (thenC (if cpe = 0x42 then tc_server_protocol_handler_cleanup sid (Some HandleBeginCpeNegotiation) prio gen
                  else finalize_player_identification J sid prio gen)
           (tc_session_release_action_lock sid)))))))))))"

definition handle_player_identification :: "(cstring \<Rightarrow> cstring option) \<Rightarrow> joinable_table \<Rightarrow> nat
    \<Rightarrow> tc_thread_pool_task_priority \<Rightarrow> int \<Rightarrow> (tc_server, unit) cm" where
  "handle_player_identification md5 J sid prio gen = with_action_lock sid gen (identification_body md5 J sid prio gen)"

section \<open>Negotiation of extensions\<close>

text \<open>The loop that announces the extensions from number \<open>i\<close>; false when a packet could not be sent.\<close>

fun send_extentries :: "nat \<Rightarrow> tc_cpe_extension list \<Rightarrow> (tc_server, bool) cm" where
  "send_extentries sid [] = retC True"
| "send_extentries sid (e # es) = bindC (on_socket sid (tc_cpe_send_extentry (ext_name e) (ext_version e))) (\<lambda>ok.
     if ok then send_extentries sid es else retC False)"

definition begin_cpe_body ::
    "joinable_table \<Rightarrow> nat \<Rightarrow> tc_thread_pool_task_priority \<Rightarrow> int \<Rightarrow> (tc_server, unit) cm" where
  "begin_cpe_body J sid prio gen = bindC (get_session sid) (\<lambda>x.
     thenC (tc_assert (\<lambda>_. supports_cpe x))
     (bindC (on_socket sid (tc_cpe_send_extinfo (bytes_of ''TeleClassic26''))) (\<lambda>ok.
        if \<not> ok then kick_and_release J sid ''Could not send CPE extinfo packet.''
        else bindC (send_extentries sid tc_supported_extensions) (\<lambda>ok.
          if \<not> ok then kick_and_release J sid ''Could not send CPE extentry packet.''
          else cleanup_and_release sid ClientListenTask prio gen))))"

definition handle_begin_cpe_negotiation ::
    "joinable_table \<Rightarrow> nat \<Rightarrow> tc_thread_pool_task_priority \<Rightarrow> int \<Rightarrow> (tc_server, unit) cm" where
  "handle_begin_cpe_negotiation J sid prio gen = with_action_lock sid gen (begin_cpe_body J sid prio gen)"

definition extinfo_body ::
    "joinable_table \<Rightarrow> nat \<Rightarrow> tc_thread_pool_task_priority \<Rightarrow> int \<Rightarrow> (tc_server, unit) cm" where
  "extinfo_body J sid prio gen = bindC (get_session sid) (\<lambda>x.
     thenC (tc_assert (\<lambda>_. supports_cpe x))
     (if 0 \<le> sint (remaining_cpe_ext_packets x) then
        kick_and_release J sid ''Client cannot send more than 1 CPE extinfo packet.''
      else bindC (packet_string sid 0) (\<lambda>appname.
        bindC (packet_short sid TC_PROTOCOL_MAX_STR_LEN) (\<lambda>extension_count.
          thenC (upd_session sid (\<lambda>x. x\<lparr>remaining_cpe_ext_packets := extension_count\<rparr>))
            (cleanup_and_release sid ClientListenTask prio gen)))))"

definition handle_cpe_extinfo ::
    "joinable_table \<Rightarrow> nat \<Rightarrow> tc_thread_pool_task_priority \<Rightarrow> int \<Rightarrow> (tc_server, unit) cm" where
  "handle_cpe_extinfo J sid prio gen = with_action_lock sid gen (extinfo_body J sid prio gen)"

text \<open>\<open>pchar |= int\<close>: the sum is made at the width of \<open>int\<close> and cut to a \<open>pchar\<close>.\<close>

definition set_extension_version :: "int \<Rightarrow> pint32 \<Rightarrow> pchar list \<Rightarrow> pchar list" where
  "set_extension_version extension_index version vs =
     (let i = nat extension_index
      in vs[i div 4 := ucast ((scast (vs ! (i div 4)) :: pint32) OR push_bit (i mod 4 * 2) (version AND 0x3))])"

definition extentry_body ::
    "joinable_table \<Rightarrow> nat \<Rightarrow> tc_thread_pool_task_priority \<Rightarrow> int \<Rightarrow> (tc_server, unit) cm" where
  "extentry_body J sid prio gen = bindC (get_session sid) (\<lambda>x.
     thenC (tc_assert (\<lambda>_. supports_cpe x))
     (if remaining_cpe_ext_packets x = 0 then
        kick_and_release J sid ''Client has already sent all extension packets.''
      else bindC (packet_string sid 0) (\<lambda>extension_name.
        let extension_index = tc_cpe_get_extension_index extension_name in
        if extension_index < 0 then
          thenC (upd_session sid (\<lambda>x. x\<lparr>remaining_cpe_ext_packets := remaining_cpe_ext_packets x - 1\<rparr>))
            (cleanup_and_release sid ClientListenTask prio gen)
        else bindC (packet_int sid TC_PROTOCOL_MAX_STR_LEN) (\<lambda>client_version.
          let server_version = scast (ext_version (tc_supported_extensions ! nat extension_index)) :: pint32;
              version = (if sint client_version < sint server_version then client_version else server_version) in
          if sint version < 1 \<or> 3 < sint version then
            thenC (upd_session sid (\<lambda>x. x\<lparr>remaining_cpe_ext_packets := remaining_cpe_ext_packets x - 1\<rparr>))
              (kick_and_release J sid ''Invalid extension version: TeleClassic26 only supports extensions 1-3.'')
          else thenC (upd_session sid (\<lambda>x. x\<lparr>
                  ext_cpe_versions := set_extension_version extension_index version (ext_cpe_versions x),
                  remaining_cpe_ext_packets := remaining_cpe_ext_packets x - 1\<rparr>))
            (bindC (get_session sid) (\<lambda>y.
             if remaining_cpe_ext_packets y = 0 then
               if tc_session_get_extension_version y TC_CPE_CUSTOM_BLOCKS_EXTENSION_INDEX > 0 then
                 bindC (on_socket sid (tc_cpe_send_custom_block_support_level TC_CPE_CUSTOM_BLOCKS_MAX_SUPPORT_LEVEL)) (\<lambda>ok.
                   thenC (whenC (\<not> ok) (tc_server_kick_session J sid
                       (Some ''Could not send custom block support level packet.'') (-1) False))
                     (cleanup_and_release sid ClientListenTask prio gen))
               else thenC (finalize_player_identification J sid prio gen) (tc_session_release_action_lock sid)
             else cleanup_and_release sid ClientListenTask prio gen))))))"

definition handle_cpe_extentry ::
    "joinable_table \<Rightarrow> nat \<Rightarrow> tc_thread_pool_task_priority \<Rightarrow> int \<Rightarrow> (tc_server, unit) cm" where
  "handle_cpe_extentry J sid prio gen = with_action_lock sid gen (extentry_body J sid prio gen)"

definition custom_level_body ::
    "joinable_table \<Rightarrow> nat \<Rightarrow> tc_thread_pool_task_priority \<Rightarrow> int \<Rightarrow> (tc_server, unit) cm" where
  "custom_level_body J sid prio gen = bindC (get_session sid) (\<lambda>x.
     thenC (tc_assert (\<lambda>_. supports_cpe x))
     (bindC (packet_byte sid 0) (\<lambda>level.
        thenC (upd_session sid (\<lambda>x. x\<lparr>custom_block_support_level := level\<rparr>))
        (thenC (finalize_player_identification J sid prio gen) (tc_session_release_action_lock sid)))))"

definition handle_cpe_custom_block_support_level ::
    "joinable_table \<Rightarrow> nat \<Rightarrow> tc_thread_pool_task_priority \<Rightarrow> int \<Rightarrow> (tc_server, unit) cm" where
  "handle_cpe_custom_block_support_level J sid prio gen = with_action_lock sid gen (custom_level_body J sid prio gen)"

section \<open>Playing\<close>

definition set_block_body ::
    "joinable_table \<Rightarrow> nat \<Rightarrow> tc_thread_pool_task_priority \<Rightarrow> int \<Rightarrow> (tc_server, unit) cm" where
  "set_block_body J sid prio gen = bindC (get_session sid) (\<lambda>s.
     bindC (packet_short sid 0) (\<lambda>x. bindC (packet_short sid 2) (\<lambda>y. bindC (packet_short sid 4) (\<lambda>z.
     bindC (packet_byte sid 6) (\<lambda>mode.
     bindC (if tc_session_get_extension_version s TC_CPE_CUSTOM_BLOCKS_EXTENSION_INDEX > 0 then packet_short sid 7
            else bindC (packet_byte sid 7) (\<lambda>b. retC (scast b))) (\<lambda>block.
     case current_joinable s of
       None \<Rightarrow> kick_and_release J sid ''Client cannot currently set blocks.''
     | Some j \<Rightarrow> bindC (handle_set_block (J j) sid x y z mode block prio gen) (\<lambda>ok.
         if \<not> ok then kick_and_release J sid ''Failed to handle set block request.''
         else cleanup_and_release sid ClientListenTask prio gen)))))))"

definition handle_player_set_block ::
    "joinable_table \<Rightarrow> nat \<Rightarrow> tc_thread_pool_task_priority \<Rightarrow> int \<Rightarrow> (tc_server, unit) cm" where
  "handle_player_set_block J sid prio gen = with_action_lock sid gen (set_block_body J sid prio gen)"

definition position_update_body ::
    "joinable_table \<Rightarrow> nat \<Rightarrow> tc_thread_pool_task_priority \<Rightarrow> int \<Rightarrow> (tc_server, unit) cm" where
  "position_update_body J sid prio gen = bindC (get_session sid) (\<lambda>s.
     let offset = (if tc_session_get_extension_version s TC_CPE_CUSTOM_BLOCKS_EXTENSION_INDEX > 0 then 2 else 1) in
     bindC (packet_short sid offset) (\<lambda>x. bindC (packet_short sid (offset + 2)) (\<lambda>y.
     bindC (packet_short sid (offset + 4)) (\<lambda>z.
     bindC (packet_byte sid (offset + 6)) (\<lambda>heading. bindC (packet_byte sid (offset + 7)) (\<lambda>pitch.
     case current_joinable s of
       None \<Rightarrow> kick_and_release J sid ''Client cannot currently update their position and orientation.''
     | Some j \<Rightarrow> bindC (handle_position_update (J j) sid x y z heading pitch prio gen) (\<lambda>ok.
         if \<not> ok then kick_and_release J sid ''Failed to handle position and orientation update request.''
         else cleanup_and_release sid ClientListenTask prio gen)))))))"

definition handle_player_position_and_orientation_update ::
    "joinable_table \<Rightarrow> nat \<Rightarrow> tc_thread_pool_task_priority \<Rightarrow> int \<Rightarrow> (tc_server, unit) cm" where
  "handle_player_position_and_orientation_update J sid prio gen = with_action_lock sid gen (position_update_body J sid prio gen)"

text \<open>The function that a task of a session stands for.\<close>

definition session_task :: "(cstring \<Rightarrow> cstring option) \<Rightarrow> joinable_table \<Rightarrow> tc_task \<Rightarrow> nat
    \<Rightarrow> tc_thread_pool_task_priority \<Rightarrow> int \<Rightarrow> (tc_server, unit) cm" where
  "session_task md5 J t sid prio gen = (case t of
       ClientListenTask \<Rightarrow> tc_server_client_listen_task J sid prio gen
     | ShutdownClientTask \<Rightarrow> tc_server_shutdown_client_task J sid gen
     | HandleBeginCpeNegotiation \<Rightarrow> handle_begin_cpe_negotiation J sid prio gen
     | HandleCpeExtinfo \<Rightarrow> handle_cpe_extinfo J sid prio gen
     | HandleCpeExtentry \<Rightarrow> handle_cpe_extentry J sid prio gen
     | HandleCpeCustomBlockSupportLevel \<Rightarrow> handle_cpe_custom_block_support_level J sid prio gen
     | HandlePlayerIdentification \<Rightarrow> handle_player_identification md5 J sid prio gen
     | HandlePlayerSetBlock \<Rightarrow> handle_player_set_block J sid prio gen
     | HandlePlayerPositionUpdate \<Rightarrow> handle_player_position_and_orientation_update J sid prio gen
     | _ \<Rightarrow> retC ())"

section \<open>Tasks of a session that has ended\<close>

lemma with_action_lock_stale:
  assumes "sid < length (session_buffer s)" "\<not> action_locked (session_buffer s ! sid)"
    and "current_generation (session_buffer s ! sid) \<noteq> gen"
  shows "with_action_lock sid gen body s = Inr ((), s)"
  using assms by (simp add: with_action_lock_def tc_session_aquire_action_lock_def get_session_def run_simps)

lemma session_task_stale:
  assumes "sid < length (session_buffer s)" "\<not> action_locked (session_buffer s ! sid)"
    and "current_generation (session_buffer s ! sid) \<noteq> gen"
  shows "session_task md5 J t sid prio gen s = Inr ((), s)"
  using assms with_action_lock_stale [OF assms]
  by (cases t) (simp_all add: session_task_def handle_begin_cpe_negotiation_def handle_cpe_extinfo_def
      handle_cpe_extentry_def handle_cpe_custom_block_support_level_def handle_player_identification_def
      handle_player_set_block_def handle_player_position_and_orientation_update_def tc_server_client_listen_task_def
      tc_server_shutdown_client_task_def tc_server_kick_session_def tc_session_aquire_action_lock_def
      get_session_def run_simps)

lemma pint_inc_changes: "pint_inc g \<noteq> g"
proof
  assume "pint_inc g = g"
  then have "word_of_int (sint (word_of_int (g + 1) :: pint32)) = (word_of_int g :: pint32)"
    by (simp add: pint_inc_def)
  then have "word_of_int (g + 1) = (word_of_int g :: pint32)" by simp
  then show False by simp
qed

section \<open>Handlers are safe\<close>

lemma runs_packet_buffer [runs_rules]:
  "runs F (packet_buffer sid) s Q \<longleftrightarrow> (if sid < length (session_buffer s)
     then (case pending_packet_buffer (session_buffer s ! sid) of None \<Rightarrow> NullDereference \<in> F | Some b \<Rightarrow> Q b s)
     else OutOfBounds \<in> F)"
  by (simp add: packet_buffer_def runs_rules split: option.split)

lemmas packet_reads = packet_byte_def packet_short_def packet_int_def packet_string_def

lemma listening_session:
  assumes "listening sid prio s"
  shows "sid < 128" "length (session_buffer s) = 128" "socket_open (session_buffer s ! sid)"
    "session_wf (session_buffer s ! sid)" "server_inv {} {sid} s" "pool_ready (thread_pool s) prio"
  using assms server_invD(1) [of "{}" "{sid}" s] server_invD(8) [of "{}" "{sid}" s sid] by (auto simp: listening_def)

lemma listening_frame:
  assumes "listening sid prio s" "callback_frame s s'"
  shows "listening sid prio s'"
proof -
  note L = listening_session [OF assms(1)]
  have "socket_open (session_buffer s' ! sid)"
    by (rule callback_session [OF assms(2), of sid]) (use L in simp_all)
  with L callback_frame_inv [OF assms(2) L(5)] assms(2) show ?thesis
    by (simp add: listening_def callback_frame_def)
qed

lemma packet_size_bounds:
  "8 \<le> tc_packet_data_size TC_INBOUND_PACKET_PLAYER_SET_BLOCK x"
  "9 \<le> tc_packet_data_size TC_INBOUND_PACKET_POSITION_AND_ORIENTATION_UPDATE x"
  "0 < tc_session_get_extension_version x TC_CPE_CUSTOM_BLOCKS_EXTENSION_INDEX \<Longrightarrow>
     tc_packet_data_size TC_INBOUND_PACKET_PLAYER_SET_BLOCK x = 9"
  "0 < tc_session_get_extension_version x TC_CPE_CUSTOM_BLOCKS_EXTENSION_INDEX \<Longrightarrow>
     tc_packet_data_size TC_INBOUND_PACKET_POSITION_AND_ORIENTATION_UPDATE x = 10"
  "tc_packet_data_size 0x10 x = 66" "tc_packet_data_size 0x11 x = 68" "tc_packet_data_size 0x13 x = 1"
  "tc_packet_data_size TC_INBOUND_PACKET_PLAYER_IDENTIFICATION x = 130"
  by (simp_all add: tc_packet_data_size_def tc_packet_data_sizes_def TC_INBOUND_PACKET_PLAYER_SET_BLOCK_def
      TC_INBOUND_PACKET_POSITION_AND_ORIENTATION_UPDATE_def TC_INBOUND_PACKET_PLAYER_IDENTIFICATION_def)

lemma pending_packet:
  assumes "session_wf x" "pending_packet_opcode x = opc" "opc \<noteq> -1"
  obtains b where "pending_packet_buffer x = Some b" "length b = tc_packet_data_size opc x"
  using assms by (auto simp: session_wf_def)

lemma handler_opcode:
  "tc_packet_handlers opc = Some HandlePlayerSetBlock \<Longrightarrow> opc = TC_INBOUND_PACKET_PLAYER_SET_BLOCK"
  "tc_packet_handlers opc = Some HandlePlayerPositionUpdate \<Longrightarrow> opc = TC_INBOUND_PACKET_POSITION_AND_ORIENTATION_UPDATE"
  "tc_packet_handlers opc = Some HandleCpeExtinfo \<Longrightarrow> opc = 0x10"
  by (auto simp: tc_packet_handlers_def split: if_splits)

context joinable_contract
begin

lemma runs_with_action_lock:
  assumes inv: "server_inv {} {} s" and sid: "sid < 128" and pool: "pool_ready (thread_pool s) prio"
    and op: "current_generation (session_buffer s ! sid) = gen \<Longrightarrow> socket_open (session_buffer s ! sid)"
    and body: "\<And>t. listening sid prio t \<Longrightarrow> current_generation (session_buffer s ! sid) = gen \<Longrightarrow>
      session_buffer t ! sid = (session_buffer s ! sid)\<lparr>action_locked := True\<rparr> \<Longrightarrow> runs F body t (\<lambda>_. server_inv {} {})"
  shows "runs F (with_action_lock sid gen body) s (\<lambda>_. server_inv {} {})"
  unfolding with_action_lock_def
proof (rule runs_seq [OF runs_faults [OF runs_acquire [OF inv sid]]])
  fix ok t
  assume a: "if current_generation (session_buffer s ! sid) = gen
    then ok \<and> server_inv {} (insert sid {}) t \<and> t = s\<lparr>session_buffer := (session_buffer s)[sid := (session_buffer s ! sid)\<lparr>action_locked := True\<rparr>]\<rparr>
    else \<not> ok \<and> t = s"
  show "runs F (if \<not> ok then retC () else body) t (\<lambda>_. server_inv {} {})"
  proof (cases ok)
    case True
    with a have g: "current_generation (session_buffer s ! sid) = gen" and i: "server_inv {} {sid} t"
      and t: "t = s\<lparr>session_buffer := (session_buffer s)[sid := (session_buffer s ! sid)\<lparr>action_locked := True\<rparr>]\<rparr>"
      by (auto split: if_splits)
    have "listening sid prio t" using i op [OF g] sid pool server_invD(1) [OF inv] by (simp add: listening_def t)
    with body g sid server_invD(1) [OF inv] True show ?thesis by (simp add: t)
  qed (use a inv in \<open>auto simp: runs_retC split: if_splits\<close>)
qed simp_all

lemma runs_kick_listening:
  assumes "listening sid prio s"
  shows "runs F (kick_and_release J sid msg) s (\<lambda>_. server_inv {} {})"
  using runs_kick_and_release [of "{}" "{sid}" s sid msg] listening_session [OF assms]
  by (auto elim!: runs_mono [OF runs_faults])

lemma runs_cleanup_and_release:
  assumes "listening sid prio s"
  shows "runs F (cleanup_and_release sid t prio gen) s (\<lambda>_. server_inv {} {})"
proof -
  note L = listening_session [OF assms]
  let ?s = "s\<lparr>session_buffer := (session_buffer s)[sid := (session_buffer s ! sid)\<lparr>pending_packet_buffer := None,
      pending_packet_opcode := -1, pending_packet_buffer_size := 0\<rparr>]\<rparr>"
  have "listening sid prio ?s" by (rule listening_upd [OF assms]) (auto simp: session_wf_def)
  from runs_faults [OF runs_schedule_and_release [OF this]] L(1,2) show ?thesis
    by (simp add: cleanup_and_release_def tc_server_protocol_handler_cleanup_def runs_thenC runs_upd_session)
qed

text \<open>The call of a world, then the kick or the next round.\<close>

lemma runs_world_call:
  assumes "listening sid prio t" and "runs {} m t (\<lambda>_. callback_frame t)"
  shows "runs {} (bindC m (\<lambda>ok. if \<not> ok then kick_and_release J sid msg
    else cleanup_and_release sid ClientListenTask prio gen)) t (\<lambda>_. server_inv {} {})"
proof (rule runs_seq [OF assms(2)])
  fix ok t' assume "callback_frame t t'"
  with assms(1) have "listening sid prio t'" by (rule listening_frame)
  then show "runs {} (if \<not> ok then kick_and_release J sid msg
      else cleanup_and_release sid ClientListenTask prio gen) t' (\<lambda>_. server_inv {} {})"
    using runs_kick_listening runs_cleanup_and_release by (cases ok) auto
qed

lemma runs_set_block:
  assumes l: "listening sid prio t" and opc: "pending_packet_opcode (session_buffer t ! sid) = TC_INBOUND_PACKET_PLAYER_SET_BLOCK"
  shows "runs {} (set_block_body J sid prio gen) t (\<lambda>_. server_inv {} {})"
proof -
  note L = listening_session [OF l]
  obtain b where b: "pending_packet_buffer (session_buffer t ! sid) = Some b"
     "length b = tc_packet_data_size TC_INBOUND_PACKET_PLAYER_SET_BLOCK (session_buffer t ! sid)"
    using pending_packet [OF L(4) opc] by (auto simp: TC_INBOUND_PACKET_PLAYER_SET_BLOCK_def)
  have n: "8 \<le> length b" "0 < tc_session_get_extension_version (session_buffer t ! sid) TC_CPE_CUSTOM_BLOCKS_EXTENSION_INDEX \<Longrightarrow> length b = 9"
    using packet_size_bounds b(2) by simp_all
  note call = runs_world_call [OF l set_block_ok, unfolded runs_bindC]
  from runs_kick_listening [OF l] L(1,2) b(1) n show ?thesis
    by (auto simp: set_block_body_def packet_reads runs_rules tc_protocol_decode_short_def simp del: runs_if
        split: option.split intro!: call)
qed

lemma runs_position_update:
  assumes l: "listening sid prio t"
    and opc: "pending_packet_opcode (session_buffer t ! sid) = TC_INBOUND_PACKET_POSITION_AND_ORIENTATION_UPDATE"
  shows "runs {} (position_update_body J sid prio gen) t (\<lambda>_. server_inv {} {})"
proof -
  note L = listening_session [OF l]
  obtain b where b: "pending_packet_buffer (session_buffer t ! sid) = Some b"
     "length b = tc_packet_data_size TC_INBOUND_PACKET_POSITION_AND_ORIENTATION_UPDATE (session_buffer t ! sid)"
    using pending_packet [OF L(4) opc] by (auto simp: TC_INBOUND_PACKET_POSITION_AND_ORIENTATION_UPDATE_def)
  have n: "9 \<le> length b" "0 < tc_session_get_extension_version (session_buffer t ! sid) TC_CPE_CUSTOM_BLOCKS_EXTENSION_INDEX \<Longrightarrow> length b = 10"
    using packet_size_bounds b(2) by simp_all
  note call = runs_world_call [OF l position_ok, unfolded runs_bindC]
  from runs_kick_listening [OF l] L(1,2) b(1) n show ?thesis
    by (auto simp: position_update_body_def Let_def packet_reads runs_rules tc_protocol_decode_short_def simp del: runs_if
        split: option.split intro!: call)
qed

lemma runs_extinfo:
  assumes l: "listening sid prio t" and opc: "pending_packet_opcode (session_buffer t ! sid) = 0x10"
    and cpe: "supports_cpe (session_buffer t ! sid)"
  shows "runs {} (extinfo_body J sid prio gen) t (\<lambda>_. server_inv {} {})"
proof -
  note L = listening_session [OF l]
  obtain b where b: "pending_packet_buffer (session_buffer t ! sid) = Some b" "length b = 66"
    using pending_packet [OF L(4) opc] packet_size_bounds by auto
  have "listening sid prio (t\<lparr>session_buffer := (session_buffer t)[sid := (session_buffer t ! sid)\<lparr>remaining_cpe_ext_packets := n\<rparr>]\<rparr>)" for n
    by (rule listening_upd [OF l]) simp_all
  with runs_kick_listening [OF l] L(1,2) b cpe show ?thesis
    by (auto simp: extinfo_body_def packet_reads runs_rules tc_protocol_decode_short_def tc_protocol_decode_string_def
        TC_PROTOCOL_MAX_STR_LEN_def Let_def split_beta simp del: runs_if split: option.split intro!: runs_cleanup_and_release)
qed

lemma runs_on_socket_listening:
  assumes l: "listening sid prio t" and "safe_send m"
    and "\<And>a t'. listening sid prio t' \<Longrightarrow> Q a t'"
  shows "runs F (on_socket sid m) t Q"
proof -
  note L = listening_session [OF l]
  have "listening sid prio (t\<lparr>session_buffer := (session_buffer t)[sid := (session_buffer t ! sid)\<lparr>client_socket := k\<rparr>]\<rparr>)" for k
    by (rule listening_upd [OF l]) simp_all
  with L assms(2,3) show ?thesis by (intro runs_on_socket) simp_all
qed

lemma runs_send_extentries:
  assumes "listening sid prio t"
  shows "runs F (send_extentries sid es) t (\<lambda>_. listening sid prio)"
  using assms
proof (induction es arbitrary: t)
  case (Cons e es)
  have "runs F (on_socket sid (tc_cpe_send_extentry (ext_name e) (ext_version e))) t (\<lambda>_. listening sid prio)"
    by (rule runs_on_socket_listening [OF Cons.prems]) (simp_all add: safe_send_packets)
  from runs_seq [OF this, of "\<lambda>ok. if ok then send_extentries sid es else retC False"] Cons.IH show ?case
    by (auto simp: runs_retC)
qed (simp add: runs_retC)

lemma runs_begin_cpe:
  assumes l: "listening sid prio t" and cpe: "supports_cpe (session_buffer t ! sid)"
  shows "runs {} (begin_cpe_body J sid prio gen) t (\<lambda>_. server_inv {} {})"
proof -
  note L = listening_session [OF l]
  have ext: "runs {} (bindC (send_extentries sid tc_supported_extensions) (\<lambda>ok.
      if \<not> ok then kick_and_release J sid m else cleanup_and_release sid ClientListenTask prio gen)) t' (\<lambda>_. server_inv {} {})"
    if "listening sid prio t'" for t' m
    by (rule runs_seq [OF runs_send_extentries [OF that]])
      (auto intro: runs_kick_listening runs_cleanup_and_release)
  have "runs {} (on_socket sid (tc_cpe_send_extinfo (bytes_of ''TeleClassic26''))) t (\<lambda>_. listening sid prio)"
    by (rule runs_on_socket_listening [OF l]) (simp_all add: safe_send_packets)
  then have "runs {} (bindC (on_socket sid (tc_cpe_send_extinfo (bytes_of ''TeleClassic26''))) (\<lambda>ok.
        if \<not> ok then kick_and_release J sid m
        else bindC (send_extentries sid tc_supported_extensions) (\<lambda>ok.
          if \<not> ok then kick_and_release J sid m'
          else cleanup_and_release sid ClientListenTask prio gen))) t (\<lambda>_. server_inv {} {})" for m m'
    by (rule runs_seq) (simp add: runs_kick_listening ext)
  then show ?thesis using L(1,2) cpe
    unfolding begin_cpe_body_def runs_bindC [of _ "get_session _"] runs_get_session runs_thenC runs_tc_assert by simp
qed

lemma runs_safe_handlers:
  assumes "server_inv {} {} s" "sid < 128" "pool_ready (thread_pool s) prio" and x: "x = session_buffer s ! sid"
    and live: "current_generation x = gen \<Longrightarrow> socket_open x
       \<and> (t = HandleBeginCpeNegotiation \<or> tc_packet_handlers (pending_packet_opcode x) = Some t)
       \<and> (t = HandleBeginCpeNegotiation \<or> t = HandleCpeExtinfo \<longrightarrow> supports_cpe x)"
    and t: "t \<in> {HandlePlayerSetBlock, HandlePlayerPositionUpdate, HandleCpeExtinfo, HandleBeginCpeNegotiation}"
  shows "runs {} (session_task md5 J t sid prio gen) s (\<lambda>_. server_inv {} {})"
proof -
  have body: "runs {} (with_action_lock sid gen body) s (\<lambda>_. server_inv {} {})"
    if "\<And>u. listening sid prio u \<Longrightarrow> session_buffer u ! sid = x\<lparr>action_locked := True\<rparr> \<Longrightarrow>
        t = HandleBeginCpeNegotiation \<or> tc_packet_handlers (pending_packet_opcode x) = Some t \<Longrightarrow>
        t = HandleBeginCpeNegotiation \<or> t = HandleCpeExtinfo \<longrightarrow> supports_cpe x \<Longrightarrow>
        runs {} body u (\<lambda>_. server_inv {} {})" for body
    using live that unfolding x by (intro runs_with_action_lock [OF assms(1-3)]) blast+
  from t consider "t = HandlePlayerSetBlock" | "t = HandlePlayerPositionUpdate" | "t = HandleCpeExtinfo"
    | "t = HandleBeginCpeNegotiation" by auto
  then show ?thesis
  proof cases
    case 1
    then show ?thesis using handler_opcode(1)
      by (simp add: session_task_def handle_player_set_block_def) (intro body runs_set_block; simp)
  next
    case 2
    then show ?thesis using handler_opcode(2)
      by (simp add: session_task_def handle_player_position_and_orientation_update_def) (intro body runs_position_update; simp)
  next
    case 3
    then show ?thesis using handler_opcode(3)
      by (simp add: session_task_def handle_cpe_extinfo_def) (intro body runs_extinfo; simp)
  next
    case 4
    then show ?thesis
      by (simp add: session_task_def handle_begin_cpe_negotiation_def) (intro body runs_begin_cpe; simp)
  qed
qed

end

section \<open>Properties\<close>





section \<open>Extension versions\<close>

lemma version_bits:
  fixes w :: pchar and v :: pint32
  assumes "k < 4" "k' < 4"
  shows "signed_drop_bit (k' * 2) (scast (ucast ((scast w :: pint32) OR push_bit (k * 2) (v AND 3)) :: pchar) :: pint32) AND 3
    = (if k = k' then (signed_drop_bit (k * 2) (scast w :: pint32) AND 3) OR (v AND 3)
       else signed_drop_bit (k' * 2) (scast w :: pint32) AND 3)"
proof -
  have "k = 0 \<or> k = 1 \<or> k = 2 \<or> k = 3" "k' = 0 \<or> k' = 1 \<or> k' = 2 \<or> k' = 3" using assms by auto
  then show ?thesis by (elim disjE) (simp_all add: bit_table)
qed

lemma set_get_extension_version:
  assumes "length (ext_cpe_versions x) = 3" "0 \<le> i" "i < 10" "0 \<le> j" "j < 10"
  shows "tc_session_get_extension_version (x\<lparr>ext_cpe_versions := set_extension_version i v (ext_cpe_versions x)\<rparr>) j
    = (if j = i then tc_session_get_extension_version x j OR uint (v AND 3) else tc_session_get_extension_version x j)"
proof -
  let ?i = "nat i" and ?j = "nat j"
  have d: "?i div 4 < 3" "?j div 4 < 3" "?i mod 4 < 4" "?j mod 4 < 4" using assms by auto
  have e: "?i = ?j \<longleftrightarrow> ?i div 4 = ?j div 4 \<and> ?i mod 4 = ?j mod 4" by (metis div_mult_mod_eq)
  have e': "j = i \<longleftrightarrow> ?i = ?j" using assms by auto
  show ?thesis using assms d version_bits [OF d(3,4), of "ext_cpe_versions x ! (?i div 4)" v]
    by (auto simp: tc_session_get_extension_version_def set_extension_version_def Let_def TC_CPE_EXTENSION_MAX_SUPPORTED_def
        nth_list_update e e' uint_or)
qed

section \<open>Runs of the handlers\<close>

text \<open>The locked state in which the body of a handler runs.\<close>

definition locked_session :: "nat \<Rightarrow> tc_server \<Rightarrow> tc_server" where
  "locked_session sid s = s\<lparr>session_buffer := (session_buffer s)[sid := (session_buffer s ! sid)\<lparr>action_locked := True\<rparr>]\<rparr>"

lemma with_action_lock_run:
  assumes "server_inv {} {} s" "sid < 128" "current_generation (session_buffer s ! sid) = gen"
  shows "with_action_lock sid gen body s = body (locked_session sid s)"
  using server_invD(1) [OF assms(1)] server_invD(6) [OF assms(1,2)] assms(2,3)
  by (simp add: with_action_lock_def tc_session_aquire_action_lock_def get_session_def upd_session_def
      run_simps locked_session_def)

lemma locked_session_listening:
  assumes "server_inv {} {} s" "sid < 128" "socket_open (session_buffer s ! sid)" "pool_ready (thread_pool s) prio"
  shows "listening sid prio (locked_session sid s)"
    and "session_buffer (locked_session sid s) ! sid = (session_buffer s ! sid)\<lparr>action_locked := True\<rparr>"
    and "length (session_buffer (locked_session sid s)) = 128"
  using assms server_invD(1,8) [OF assms(1)] server_invD(6) [OF assms(1,2)]
  unfolding locked_session_def listening_def by (auto intro!: server_inv_upd [OF assms(1,2)])

lemma test_rig_join:
  assumes "join_router t = demo_router" "sid < length (session_buffer t)" "current_joinable (session_buffer t ! sid) = None"
  shows "tc_session_join (\<lambda>_. build_test_joinable (\<lambda>_ _ _ _. retC True)) sid None prio gen False t
    = Inr (True, t\<lparr>session_buffer := (session_buffer t)[sid := (session_buffer t ! sid)\<lparr>current_joinable := Some 0\<rparr>]\<rparr>)"
proof -
  have "t\<lparr>join_router := demo_router\<rparr> = t" using assms(1) by (cases t) simp
  with assms show ?thesis
    by (simp add: tc_session_join_def on_router_def tc_find_joinable_def run_simps demo_router_def
        get_session_def upd_session_def build_test_joinable_def)
qed

text \<open>A valid identification of a client that supports CPE.\<close>

lemma identification_cpe_run:
  assumes inv: "server_inv {} {} s" and sid: "sid < 128" and x: "x = session_buffer s ! sid" and op: "socket_open x"
    and gen: "current_generation x = gen" and pool: "pool_ready (thread_pool s) prio"
    and new: "authenticated_service x = None" and b: "pending_packet_buffer x = Some b" "length b = 130"
    and head: "b ! 0 = TC_PROTOCOL_VERSION" "b ! 129 = 0x42"
    and name: "tc_protocol_decode_string (replicate 64 0) (drop 1 b) = Inr (n, name)"
    and key: "tc_protocol_decode_string (replicate 64 0) (drop 65 b) = Inr (m, key)"
    and valid: "tc_heartbeat_manager_validate md5 (heartbeat_manager s) (Some name) (Some key) = (Some svc, hm)"
  shows "\<exists>p. tc_thread_schedule_next (thread_pool s) HandleBeginCpeNegotiation (Some ShutdownClientTask) (SessionArg sid) prio gen = Inr p
    \<and> handle_player_identification md5 J sid prio gen s = Inr ((), s\<lparr>heartbeat_manager := hm, thread_pool := p,
        session_buffer := (session_buffer s)[sid := x\<lparr>username := name, authenticated_service := Some svc, supports_cpe := True,
          pending_packet_buffer := None, pending_packet_opcode := -1, pending_packet_buffer_size := 0, action_locked := False\<rparr>]\<rparr>)"
proof -
  obtain p where p: "tc_thread_schedule_next (thread_pool s) HandleBeginCpeNegotiation (Some ShutdownClientTask) (SessionArg sid) prio gen = Inr p"
    using pool unfolding pool_ready_def by blast
  have n: "length (session_buffer s) = 128" using server_invD(1) [OF inv] .
  have "b \<noteq> []" using b(2) by auto
  then show ?thesis using p sid op new b head name key valid n
    by (simp add: handle_player_identification_def with_action_lock_run [OF inv sid gen [unfolded x]] identification_body_def
        locked_session_def x [symmetric] get_session_def upd_session_def packet_reads packet_buffer_def run_simps
        TC_PROTOCOL_MAX_STR_LEN_def server_schedule_next_def tc_server_protocol_handler_cleanup_def
        tc_session_release_action_lock_def)
qed

section \<open>More properties\<close>



text \<open>
  No login completes cleanly: the end of the identification releases the action lock and each
  of its callers releases it again, an unlock of a mutex that is not held; when the default world
  refuses the player, the kick that follows tries to take the lock that is held and the worker
  deadlocks. (The identification packet can be sent and the world's callback keeps the lock.)
\<close>

theorem login_releases_lock_twice:
  assumes "sid < length (session_buffer s)" and "x = session_buffer s ! sid" and "socket_open x"
    and "tc_protocol_server_identification (info_server_name (hb_info (heartbeat_manager s))) (motd s)
      TC_PROTOCOL_USER_TYPE_STANDARD (client_socket x) = Inr (True, k)"
    and "tc_session_join J sid None prio gen False
      (s\<lparr>session_buffer := (session_buffer s)[sid := x\<lparr>client_socket := k, pending_packet_buffer := None,
         pending_packet_opcode := -1, pending_packet_buffer_size := 0\<rparr>], active_players := active_players s + 1\<rparr>)
      = Inr (joined, s')"
    and "sid < length (session_buffer s')" and "action_locked (session_buffer s' ! sid)"
  shows "thenC (finalize_player_identification J sid prio gen) (tc_session_release_action_lock sid) s
    = Inl (if joined then UnlockNotHeld else SelfDeadlock)"
  using assms
  by (auto simp: finalize_player_identification_def on_socket_def get_session_def upd_session_def run_simps
      tc_server_protocol_handler_cleanup_def tc_server_kick_session_def tc_session_aquire_action_lock_def
      tc_session_release_action_lock_def)

theorem login_releases_lock_twice_witness:
  "thenC (finalize_player_identification (\<lambda>_. build_test_joinable (\<lambda>_ _ _ _. retC True)) 0 PRIORITY_HIGH 0)
     (tc_session_release_action_lock 0)
     (demo_server ((demo_session [])\<lparr>action_locked := True\<rparr>) (pool_of listen_pool)) = Inl UnlockNotHeld"
proof -
  let ?x = "(demo_session [])\<lparr>action_locked := True\<rparr>" and ?J = "\<lambda>_. build_test_joinable (\<lambda>_ _ _ _. retC True)"
  let ?s = "demo_server ?x (pool_of listen_pool)"
  have "\<not> isl (tc_protocol_server_identification (info_server_name sample_info) [] TC_PROTOCOL_USER_TYPE_STANDARD \<lparr>wire = [], send_script = []\<rparr>)"
    "fst (projr (tc_protocol_server_identification (info_server_name sample_info) [] TC_PROTOCOL_USER_TYPE_STANDARD \<lparr>wire = [], send_script = []\<rparr>))"
    by code_simp+
  then obtain k where k: "tc_protocol_server_identification (info_server_name sample_info) [] TC_PROTOCOL_USER_TYPE_STANDARD
      \<lparr>wire = [], send_script = []\<rparr> = Inr (True, k)"
    by (cases "tc_protocol_server_identification (info_server_name sample_info) [] TC_PROTOCOL_USER_TYPE_STANDARD \<lparr>wire = [], send_script = []\<rparr>")
      (auto simp: prod_eq_iff)
  have sock: "client_socket ?x = \<lparr>wire = [], send_script = []\<rparr>" by (simp add: demo_session_def new_session_def)
  have hm: "info_server_name (hb_info (heartbeat_manager ?s)) = info_server_name sample_info" "motd ?s = []"
    by (simp_all add: demo_server_def sample_manager_def heartbeat_manager_init_def)
  have j: "current_joinable ?x = None" by (simp add: demo_session_def new_session_def)
  have len: "length (session_buffer ?s) = 128" "join_router ?s = demo_router" by (simp_all add: demo_server_def)
  let ?t = "?s\<lparr>session_buffer := (session_buffer ?s)[0 := ?x\<lparr>client_socket := k, pending_packet_buffer := None,
         pending_packet_opcode := -1, pending_packet_buffer_size := 0\<rparr>], active_players := active_players ?s + 1\<rparr>"
  have join: "tc_session_join ?J 0 None PRIORITY_HIGH 0 False ?t
    = Inr (True, ?t\<lparr>session_buffer := (session_buffer ?t)[0 := (session_buffer ?t ! 0)\<lparr>current_joinable := Some 0\<rparr>]\<rparr>)"
    by (rule test_rig_join) (use len j in simp_all)
  have pos: "0 < length (session_buffer ?s)" using len(1) by linarith
  show ?thesis
    using login_releases_lock_twice [OF pos _ _ _ join, unfolded hm, OF _ _ k [folded sock]] pos
    by (simp add: demo_session_wf)
qed

text \<open>
  Extension versions share bytes without disturbing each other: storing a version 1 to 3 for an
  extension that has none makes \<open>tc_session_get_extension_version\<close> return it and leaves every other
  extension as it was; a second ExtEntry for the same extension is merged bit by bit with the first,
  so versions 1 and 2 together read as 3.
\<close>

theorem extension_version_stored:
  assumes "length (ext_cpe_versions x) = 3" and "0 \<le> i" and "i < 10" and "0 \<le> j" and "j < 10" and "j \<noteq> i"
    and "v \<in> {1, 2, 3}" and "y = x\<lparr>ext_cpe_versions := set_extension_version i v (ext_cpe_versions x)\<rparr>"
  shows "tc_session_get_extension_version y j = tc_session_get_extension_version x j
    \<and> (tc_session_get_extension_version x i = 0 \<longrightarrow> tc_session_get_extension_version y i = uint v)
    \<and> (tc_session_get_extension_version x i = 1 \<longrightarrow> v = 2 \<longrightarrow> tc_session_get_extension_version y i = 3)"
  using assms set_get_extension_version [OF assms(1-3), of i v] set_get_extension_version [OF assms(1-5), of v]
  by auto

theorem extension_version_stored_witness:
  "tc_session_get_extension_version (idle_session\<lparr>ext_cpe_versions := set_extension_version 9 2 [0, 0, 0]\<rparr>) 9 = 2
   \<and> tc_session_get_extension_version (idle_session\<lparr>ext_cpe_versions := set_extension_version 9 2 [0, 0, 0]\<rparr>) 8
     = tc_session_get_extension_version idle_session 8"
proof -
  have "tc_session_get_extension_version idle_session 9 = 0" "length (ext_cpe_versions idle_session) = 3"
    "ext_cpe_versions idle_session = [0, 0, 0]" by code_simp+
  with extension_version_stored [OF _ _ _ _ _ _ _ refl, of idle_session 9 8 2] show ?thesis by simp
qed

text \<open>
  The player count can drop below the number of players: a client that identifies itself with
  CPE support is authenticated at once, but counted only when the negotiation ends; when it leaves
  before that, the end of the session still takes one off \<open>active_players\<close>. The number is what the
  heartbeat reports.
\<close>

theorem player_count_drops:
  assumes "joinable_contract J" and "server_inv {} {} s" and "sid < 128" and "x = session_buffer s ! sid"
    and "socket_open x" and "current_generation x = gen" and "pool_ready (thread_pool s) prio"
    and "authenticated_service x = None" and "pending_packet_buffer x = Some b" and "length b = 130"
    and "b ! 0 = TC_PROTOCOL_VERSION" and "b ! 129 = 0x42"
    and "tc_protocol_decode_string (replicate 64 0) (drop 1 b) = Inr (n, name)"
    and "tc_protocol_decode_string (replicate 64 0) (drop 65 b) = Inr (m, key)"
    and "tc_heartbeat_manager_validate md5 (heartbeat_manager s) (Some name) (Some key) = (Some svc, hm)"
  shows "\<exists>s1 s2. handle_player_identification md5 J sid prio gen s = Inr ((), s1)
    \<and> username (session_buffer s1 ! sid) = name \<and> authenticated_service (session_buffer s1 ! sid) = Some svc
    \<and> active_players s1 = active_players s
    \<and> tc_server_shutdown_client_task J sid gen s1 = Inr ((), s2) \<and> active_players s2 = active_players s - 1"
proof -
  let ?y = "x\<lparr>username := name, authenticated_service := Some svc, supports_cpe := True,
          pending_packet_buffer := None, pending_packet_opcode := -1, pending_packet_buffer_size := 0, action_locked := False\<rparr>"
  obtain p where run: "handle_player_identification md5 J sid prio gen s = Inr ((), s\<lparr>heartbeat_manager := hm, thread_pool := p,
        session_buffer := (session_buffer s)[sid := ?y]\<rparr>)"
    using identification_cpe_run [OF assms(2-15)] by blast
  let ?s = "s\<lparr>heartbeat_manager := hm, thread_pool := p\<rparr>"
  let ?s1 = "s\<lparr>heartbeat_manager := hm, thread_pool := p, session_buffer := (session_buffer s)[sid := ?y]\<rparr>"
  note n = server_invD(1) [OF assms(2)]
  have wf: "length (ext_cpe_versions x) = 3" using server_invD(8) [OF assms(2,3)] assms(4,5) by (simp add: session_wf_def)
  have inv: "server_inv {} {} ?s" using assms(2) by simp
  have "server_inv {} {} (?s\<lparr>session_buffer := (session_buffer ?s)[sid := ?y]\<rparr>)"
    by (rule server_inv_upd [OF inv assms(3), of x]) (use assms(4,5) wf in \<open>auto simp: session_wf_def\<close>)
  then have inv1: "server_inv {} {} ?s1" by simp
  have y: "session_buffer ?s1 ! sid = ?y" using n assms(3) by simp
  obtain s2 where "tc_server_shutdown_client_task J sid gen ?s1 = Inr ((), s2)" "ended sid ?s1 s2"
    using joinable_contract.runs_shutdown_client [OF assms(1) inv1 assms(3), of gen] assms(5,6) y by (auto simp: runs_total)
  with run y show ?thesis by (auto simp: ended_def)
qed

definition demo_login :: cstring where
  "demo_login = TC_PROTOCOL_VERSION # bytes_of ''bob'' @ replicate 61 0x20 @ take 32 sample_key @ replicate 32 0x20 @ [0x42]"

definition demo_name :: cstring where "demo_name = bytes_of ''bob'' @ replicate 61 0"

lemma demo_login_fields:
  "length demo_login = 130" "demo_login ! 0 = TC_PROTOCOL_VERSION" "demo_login ! 129 = 0x42"
  "tc_protocol_decode_string (replicate 64 0) (drop 1 demo_login) = Inr (3, demo_name)"
  "tc_protocol_decode_string (replicate 64 0) (drop 65 demo_login) = Inr (32, sample_key)"
  "fst (tc_heartbeat_manager_validate sample_md5 sample_manager (Some demo_name) (Some sample_key)) = Some 0"
  by code_simp+

theorem player_count_drops_witness:
  "\<exists>s1 s2. handle_player_identification sample_md5 (\<lambda>_. build_test_joinable (\<lambda>_ _ _ _. retC True)) 0 PRIORITY_HIGH 0
       (demo_server ((demo_session [])\<lparr>pending_packet_opcode := 0, pending_packet_buffer := Some demo_login,
          pending_packet_buffer_size := 130\<rparr>) (pool_of listen_pool)) = Inr ((), s1)
     \<and> tc_server_shutdown_client_task (\<lambda>_. build_test_joinable (\<lambda>_ _ _ _. retC True)) 0 0 s1 = Inr ((), s2)
     \<and> active_players s2 = -1"
proof -
  let ?x = "(demo_session [])\<lparr>pending_packet_opcode := 0, pending_packet_buffer := Some demo_login, pending_packet_buffer_size := 130\<rparr>"
  let ?s = "demo_server ?x (pool_of listen_pool)"
  have h: "tc_packet_handlers 0 \<noteq> None" by code_simp
  have "tc_packet_data_size 0 ?x = 130" using packet_size_bounds(8) by (simp add: TC_INBOUND_PACKET_PLAYER_IDENTIFICATION_def)
  then have "session_wf ?x" using h by (simp add: session_wf_def demo_session_wf demo_login_fields)
  then have inv: "server_inv {} {} ?s" by (simp add: demo_server_inv demo_session_wf)
  have "priority (demo_task ClientListenTask (SessionArg 0)) = PRIORITY_HIGH" by (simp add: demo_task_def)
  then have r: "pool_ready (thread_pool ?s) PRIORITY_HIGH" using pool_ready_running [OF listen_pool_running] by simp
  have hm: "heartbeat_manager ?s = sample_manager" "active_players ?s = 0" by (simp_all add: demo_server_def)
  obtain m where m: "tc_heartbeat_manager_validate sample_md5 (heartbeat_manager ?s) (Some demo_name) (Some sample_key) = (Some 0, m)"
    using demo_login_fields(6) by (metis hm(1) prod.collapse)
  have x: "?x = session_buffer ?s ! 0" "socket_open ?x" "current_generation ?x = 0" "authenticated_service ?x = None"
      "pending_packet_buffer ?x = Some demo_login"
    by (simp_all add: demo_session_wf) (simp add: demo_session_def new_session_def)
  from player_count_drops [OF test_rig.joinable_contract_axioms inv _ x(1-3) r x(4,5) demo_login_fields(1-5) m] hm(2)
  show ?thesis by fastforce
qed

text \<open>
  A block change reaches the world as the client sent it: for a client without custom blocks
  whose packet has the coordinates in network order, the mode and the block, and whose coordinates
  are ones the decoder handles (bit 7 clear, or a number from -128 to -1), the handler calls
  \<open>handle_set_block\<close> of the session's world with exactly these values and, as the world answers,
  kicks the client or cleans up and listens again.
\<close>

theorem set_block_reaches_world:
  assumes "server_inv {} {} s" and "sid < 128" and "x = session_buffer s ! sid" and "current_generation x = gen"
    and "current_joinable x = Some j" and "tc_session_get_extension_version x TC_CPE_CUSTOM_BLOCKS_EXTENSION_INDEX = 0"
    and "pending_packet_buffer x = Some (short_bytes bx @ short_bytes by @ short_bytes bz @ [mode, block])"
    and "\<forall>c \<in> {bx, by, bz}. bit c 7 \<longrightarrow> drop_bit 8 c = 0xFF"
  shows "handle_player_set_block J sid prio gen s =
    bindC (handle_set_block (J j) sid bx by bz mode (scast block) prio gen) (\<lambda>ok.
      if \<not> ok then kick_and_release J sid ''Failed to handle set block request.''
      else cleanup_and_release sid ClientListenTask prio gen)
    (s\<lparr>session_buffer := (session_buffer s)[sid := x\<lparr>action_locked := True\<rparr>]\<rparr>)"
proof -
  have d: "tc_protocol_decode_short (short_bytes c @ rest) = Inr c" if "c \<in> {bx, by, bz}" for c rest
    using assms(8) that decode_short_bytes [of c] by (auto simp: tc_protocol_decode_short_def short_bytes_def split: if_splits)
  have l: "length (short_bytes c) = 2" for c by (simp add: short_bytes_def)
  have v: "\<not> 0 < tc_session_get_extension_version (x\<lparr>action_locked := True\<rparr>) TC_CPE_CUSTOM_BLOCKS_EXTENSION_INDEX"
  proof -
    have "tc_session_get_extension_version (x\<lparr>action_locked := True\<rparr>) i = tc_session_get_extension_version x i" for i
      by (simp add: tc_session_get_extension_version_def)
    then show ?thesis using assms(6) by simp
  qed
  show ?thesis using assms(2,5,7) server_invD(1) [OF assms(1)] d v
    by (simp add: handle_player_set_block_def with_action_lock_run [OF assms(1,2) assms(4) [unfolded assms(3)]]
        set_block_body_def locked_session_def assms(3) [symmetric] packet_reads packet_buffer_def get_session_def run_simps
        drop_append l nth_append)
qed

theorem set_block_reaches_world_witness:
  "handle_player_set_block (\<lambda>_. build_test_joinable (\<lambda>_ _ _ _. retC True)) 0 PRIORITY_HIGH 0
     (demo_server ((demo_session [])\<lparr>current_joinable := Some 0, pending_packet_opcode := 5,
        pending_packet_buffer := Some [0, 1, 0, 2, 0, 3, 1, 4], pending_packet_buffer_size := 8\<rparr>) (pool_of listen_pool))
   = bindC (handle_set_block (build_test_joinable (\<lambda>_ _ _ _. retC True)) 0 1 2 3 1 4 PRIORITY_HIGH 0) (\<lambda>ok.
       if \<not> ok then kick_and_release (\<lambda>_. build_test_joinable (\<lambda>_ _ _ _. retC True)) 0 ''Failed to handle set block request.''
       else cleanup_and_release 0 ClientListenTask PRIORITY_HIGH 0)
     (demo_server ((demo_session [])\<lparr>current_joinable := Some 0, pending_packet_opcode := 5,
        pending_packet_buffer := Some [0, 1, 0, 2, 0, 3, 1, 4], pending_packet_buffer_size := 8, action_locked := True\<rparr>) (pool_of listen_pool))"
proof -
  let ?x = "(demo_session [])\<lparr>current_joinable := Some 0, pending_packet_opcode := 5,
        pending_packet_buffer := Some [0, 1, 0, 2, 0, 3, 1, 4], pending_packet_buffer_size := 8\<rparr>"
  let ?s = "demo_server ?x (pool_of listen_pool)"
  have h: "tc_packet_handlers 5 \<noteq> None" by code_simp
  have v: "tc_session_get_extension_version ?x TC_CPE_CUSTOM_BLOCKS_EXTENSION_INDEX = 0"
    by (simp add: tc_session_get_extension_version_def demo_session_wf TC_CPE_EXTENSION_MAX_SUPPORTED_def
        TC_CPE_CUSTOM_BLOCKS_EXTENSION_INDEX_def)
  have "tc_packet_data_sizes 5 = 8" by code_simp
  with v have "tc_packet_data_size 5 ?x = 8" by (simp add: tc_packet_data_size_def)
  then have "session_wf ?x" using h by (simp add: session_wf_def demo_session_wf)
  then have inv: "server_inv {} {} ?s" by (simp add: demo_server_inv demo_session_wf)
  have b: "[0, 1, 0, 2, 0, 3, 1, 4 :: pchar] = short_bytes 1 @ short_bytes 2 @ short_bytes 3 @ [1, 4]"
    "\<forall>c \<in> {1, 2, 3 :: pint16}. bit c 7 \<longrightarrow> drop_bit 8 c = 0xFF" "scast (4 :: pchar) = (4 :: pint16)" by code_simp+
  have x: "?x = session_buffer ?s ! 0" by simp
  have up: "?s\<lparr>session_buffer := (session_buffer ?s)[0 := ?x\<lparr>action_locked := True\<rparr>]\<rparr>
    = demo_server (?x\<lparr>action_locked := True\<rparr>) (pool_of listen_pool)" by (simp add: demo_server_def)
  have f: "current_generation ?x = 0" "current_joinable ?x = Some 0"
    "pending_packet_buffer ?x = Some (short_bytes 1 @ short_bytes 2 @ short_bytes 3 @ [1, 4])"
    using b(1) by (simp_all add: demo_session_wf)
  show ?thesis
    using set_block_reaches_world [OF inv _ x f(1,2) v f(3) b(2), unfolded up b(3)] by simp
qed

end
