(* ===== verification/TC_Map_Cache.thy ===== *)
theory TC_Map_Cache
  imports TC_Map_File TC_Task_Backlog
begin

text \<open>
  The cache of loaded maps, \<^verbatim>\<open>src/map_cache.c\<close>: a doubly linked list of entries with a lock each,
  the tree that should lead from a name to its entry, loading on a worker and the clock eviction.
  Entries live on an explicit heap, so that a use of a freed entry is the fault \<open>UseAfterFree\<close>. A map
  is the first member of its entry, so a pointer to the map is the address of the entry. Reading a
  file and the sizes of the C structs are parameters; memory counters are words and wrap.
\<close>

section \<open>State\<close>

record tc_map_cache_entry =
  cached_map :: "tc_map option"
  entry_backlog :: tc_task_backlog
  entry_memory_usage :: psize
  open_count :: pint32
  is_referenced :: bool
  is_loaded :: bool
  entry_locked :: bool
  entry_key :: cstring
  entry_next :: "nat option"
  entry_prev :: "nat option"

text \<open>The cache with its heap of entries; \<open>outside\<close> is what the handlers of its users work on.\<close>

record 'x tc_map_cache =
  entry_at :: "nat \<Rightarrow> tc_map_cache_entry option"
  next_entry :: nat
  id_to_index :: "(cstring \<times> nat) list"
  cache_head :: "nat option"
  cache_tail :: "nat option"
  clock_hand :: "nat option"
  num_entries :: nat
  cache_readers :: nat
  cache_writer :: bool
  cache_memory_usage :: psize
  memory_usage_threshold :: psize
  outside :: 'x

definition tc_map_cache_init :: "bool \<Rightarrow> bool \<Rightarrow> psize \<Rightarrow> 'x \<Rightarrow> 'x tc_map_cache option" where
  "tc_map_cache_init tree_ok lock_ok threshold x =
     (if \<not> tree_ok \<or> \<not> lock_ok then None
      else Some \<lparr>entry_at = (\<lambda>_. None), next_entry = 0, id_to_index = [], cache_head = None, cache_tail = None,
        clock_hand = None, num_entries = 0, cache_readers = 0, cache_writer = False, cache_memory_usage = 0,
        memory_usage_threshold = threshold, outside = x\<rparr>)"

section \<open>Entries\<close>

definition load_entry :: "nat option \<Rightarrow> ('x tc_map_cache, tc_map_cache_entry) cm" where
  "load_entry p = (\<lambda>c. case p of None \<Rightarrow> Inl NullDereference
     | Some a \<Rightarrow> (case entry_at c a of None \<Rightarrow> Inl UseAfterFree | Some e \<Rightarrow> Inr (e, c)))"

definition upd_entry :: "nat option \<Rightarrow> (tc_map_cache_entry \<Rightarrow> tc_map_cache_entry) \<Rightarrow> ('x tc_map_cache, unit) cm" where
  "upd_entry p f = (\<lambda>c. case p of None \<Rightarrow> Inl NullDereference
     | Some a \<Rightarrow> (case entry_at c a of None \<Rightarrow> Inl UseAfterFree
                | Some e \<Rightarrow> Inr ((), c\<lparr>entry_at := (entry_at c)(a \<mapsto> f e)\<rparr>)))"

definition lock_entry :: "nat option \<Rightarrow> ('x tc_map_cache, unit) cm" where
  "lock_entry p = bindC (load_entry p) (\<lambda>e. if entry_locked e then faultC SelfDeadlock
     else upd_entry p (\<lambda>e. e\<lparr>entry_locked := True\<rparr>))"

definition unlock_entry :: "nat option \<Rightarrow> ('x tc_map_cache, unit) cm" where
  "unlock_entry p = bindC (load_entry p) (\<lambda>e. if entry_locked e then upd_entry p (\<lambda>e. e\<lparr>entry_locked := False\<rparr>)
     else faultC UnlockNotHeld)"

definition free_entry :: "nat \<Rightarrow> ('x tc_map_cache, unit) cm" where
  "free_entry a = bindC (load_entry (Some a)) (\<lambda>_. modifyC (\<lambda>c. c\<lparr>entry_at := (entry_at c)(a := None)\<rparr>))"

definition tc_map_cache_link_entry :: "nat \<Rightarrow> ('x tc_map_cache, unit) cm" where
  "tc_map_cache_link_entry e = bindC (getC cache_head) (\<lambda>h.
     thenC (case h of
         None \<Rightarrow> thenC (tc_assert (\<lambda>c. cache_tail c = None))
           (modifyC (\<lambda>c. c\<lparr>cache_head := Some e, cache_tail := Some e\<rparr>))
       | Some a \<Rightarrow> thenC (upd_entry (Some e) (\<lambda>x. x\<lparr>entry_next := Some a\<rparr>))
           (thenC (upd_entry (Some a) (\<lambda>x. x\<lparr>entry_prev := Some e\<rparr>))
             (modifyC (\<lambda>c. c\<lparr>cache_head := Some e\<rparr>))))
     (bindC (load_entry (Some e)) (\<lambda>x.
        modifyC (\<lambda>c. c\<lparr>cache_memory_usage := cache_memory_usage c + entry_memory_usage x,
                        num_entries := num_entries c + 1\<rparr>))))"

definition tc_map_cache_unlink_entry :: "nat \<Rightarrow> ('x tc_map_cache, unit) cm" where
  "tc_map_cache_unlink_entry e = bindC (load_entry (Some e)) (\<lambda>x.
     thenC (case entry_prev x of
         None \<Rightarrow> modifyC (\<lambda>c. c\<lparr>cache_head := entry_next x\<rparr>)
       | Some p \<Rightarrow> upd_entry (Some p) (\<lambda>y. y\<lparr>entry_next := entry_next x\<rparr>))
     (thenC (case entry_next x of
         None \<Rightarrow> modifyC (\<lambda>c. c\<lparr>cache_tail := entry_prev x\<rparr>)
       | Some n \<Rightarrow> upd_entry (Some n) (\<lambda>y. y\<lparr>entry_prev := entry_prev x\<rparr>))
     (thenC (modifyC (\<lambda>c. c\<lparr>cache_memory_usage := cache_memory_usage c - entry_memory_usage x,
                            num_entries := num_entries c - 1\<rparr>))
     (thenC (unlock_entry (Some e)) (free_entry e)))))"

text \<open>
  The loop of \<open>tc_map_cache_finalize\<close> over the list. \<open>tc_map_finalize\<close> reads the pointers of the
  map, which nobody has written before the map is loaded.
\<close>

partial_function (option) free_entries ::
    "nat option \<Rightarrow> 'x tc_map_cache \<Rightarrow> (fault + unit \<times> 'x tc_map_cache) option" where
  "free_entries p c =
     (case p of
        None \<Rightarrow> Some (Inr ((), c))
      | Some a \<Rightarrow>
          (case entry_at c a of
             None \<Rightarrow> Some (Inl UseAfterFree)
           | Some x \<Rightarrow>
               if cached_map x = None then Some (Inl Uninitialised)
               else free_entries (entry_next x) (c\<lparr>entry_at := (entry_at c)(a := None)\<rparr>)))"

definition tc_map_cache_finalize :: "'x tc_map_cache \<Rightarrow> (fault + unit \<times> 'x tc_map_cache) option" where
  "tc_map_cache_finalize c = free_entries (cache_head c) c"

section \<open>Eviction\<close>

text \<open>One iteration per remaining count; \<open>cur\<close> is \<open>current_entry\<close>.\<close>

fun evict_loop :: "nat \<Rightarrow> nat option \<Rightarrow> ('x tc_map_cache, unit) cm" where
  "evict_loop 0 cur = retC ()"
| "evict_loop (Suc n) cur = bindC (if cur = None then getC cache_tail else retC cur) (\<lambda>cur.
     thenC (lock_entry cur) (bindC (load_entry cur) (\<lambda>x.
       if \<not> is_loaded x then thenC (unlock_entry (entry_prev x)) (evict_loop n (entry_prev x))
       else if open_count x = 0 then
         if is_referenced x then
           thenC (upd_entry cur (\<lambda>x. x\<lparr>is_referenced := False\<rparr>)) (evict_loop n (entry_prev x))
         else if cached_map x = None then faultC Uninitialised
         else
           thenC (modifyC (\<lambda>c. c\<lparr>id_to_index := filter (\<lambda>(k, _). k \<noteq> entry_key x) (id_to_index c)\<rparr>))
           (thenC (tc_map_cache_unlink_entry (the cur))
           (thenC (modifyC (\<lambda>c. if clock_hand c = cur then c\<lparr>clock_hand := entry_prev x\<rparr> else c))
           (bindC (getC (\<lambda>c. cache_memory_usage c < memory_usage_threshold c)) (\<lambda>below.
              if below then modifyC (\<lambda>c. if clock_hand c = None then c\<lparr>clock_hand := cache_tail c\<rparr> else c)
              else evict_loop n (entry_prev x)))))
       else thenC (unlock_entry cur) (evict_loop n (entry_prev x)))))"

definition tc_map_cache_evict :: "('x tc_map_cache, unit) cm" where
  "tc_map_cache_evict = bindC (getC cache_head) (\<lambda>h.
     if h = None then retC ()
     else thenC (modifyC (\<lambda>c. if clock_hand c = None then c\<lparr>clock_hand := cache_head c\<rparr> else c))
       (bindC (getC num_entries) (\<lambda>n. bindC (getC cache_tail) (\<lambda>t. evict_loop n t))))"

section \<open>References\<close>

text \<open>Without the lock: the acquire and release handlers that the backlog calls.\<close>

definition tc_map_nolock_ref :: "nat \<Rightarrow> 'x tc_map_cache \<Rightarrow> 'x tc_map_cache" where
  "tc_map_nolock_ref a c = c\<lparr>entry_at := (entry_at c)(a := map_option
     (\<lambda>x. x\<lparr>open_count := open_count x + 1, is_referenced := True\<rparr>) (entry_at c a))\<rparr>"

definition tc_map_nolock_unref :: "nat \<Rightarrow> 'x tc_map_cache \<Rightarrow> 'x tc_map_cache" where
  "tc_map_nolock_unref a c = c\<lparr>entry_at := (entry_at c)(a := map_option
     (\<lambda>x. x\<lparr>open_count := open_count x - 1\<rparr>) (entry_at c a))\<rparr>"

definition tc_map_ref :: "nat \<Rightarrow> ('x tc_map_cache, unit) cm" where
  "tc_map_ref a = thenC (lock_entry (Some a))
     (thenC (upd_entry (Some a) (\<lambda>x. x\<lparr>open_count := open_count x + 1, is_referenced := True\<rparr>)) (unlock_entry (Some a)))"

definition tc_map_unref :: "nat \<Rightarrow> ('x tc_map_cache, unit) cm" where
  "tc_map_unref a = thenC (lock_entry (Some a))
     (thenC (upd_entry (Some a) (\<lambda>x. x\<lparr>open_count := open_count x - 1\<rparr>)) (unlock_entry (Some a)))"

section \<open>Opening a map\<close>

text \<open>
  The whole state: the pool and the cache as the world of the backlog's handlers, and the heap of
  backlog blocks. The argument of a load task carries the entry and the name.
\<close>

datatype 'c cache_context = UserContext 'c | LoadArgs cstring

type_synonym ('f, 'c, 'x) open_request = "('f, 'x tc_map_cache, 'c cache_context) tc_task_backlog_entry"

record ('f, 'c, 'x) cache_sys =
  sched :: "('f, nat, 'c cache_context, 'x tc_map_cache) sched_state"
  blocks :: "('f, 'c, 'x) open_request block_heap"

definition on_cache :: "('x tc_map_cache, 'a) cm \<Rightarrow> (('f, 'c, 'x) cache_sys, 'a) cm" where
  "on_cache m = (\<lambda>s. case m (sched_world (sched s)) of Inl f \<Rightarrow> Inl f
     | Inr (a, c) \<Rightarrow> Inr (a, s\<lparr>sched := (sched s)\<lparr>sched_world := c\<rparr>\<rparr>))"

definition on_sched :: "(('f, nat, 'c cache_context, 'x tc_map_cache) sched_state, 'a) cm \<Rightarrow> (('f, 'c, 'x) cache_sys, 'a) cm" where
  "on_sched m = (\<lambda>s. case m (sched s) of Inl f \<Rightarrow> Inl f | Inr (a, t) \<Rightarrow> Inr (a, s\<lparr>sched := t\<rparr>))"

definition on_blocks :: "(('f, 'c, 'x) open_request block_heap, 'a) cm \<Rightarrow> (('f, 'c, 'x) cache_sys, 'a) cm" where
  "on_blocks m = (\<lambda>s. case m (blocks s) of Inl f \<Rightarrow> Inl f | Inr (a, h) \<Rightarrow> Inr (a, s\<lparr>blocks := h\<rparr>))"

definition cache_reader_lock :: "('x tc_map_cache, unit) cm" where
  "cache_reader_lock = (\<lambda>c. if cache_writer c then Inl SelfDeadlock else Inr ((), c\<lparr>cache_readers := cache_readers c + 1\<rparr>))"

definition cache_reader_unlock :: "('x tc_map_cache, unit) cm" where
  "cache_reader_unlock = (\<lambda>c. if cache_readers c = 0 then Inl UnlockNotHeld else Inr ((), c\<lparr>cache_readers := cache_readers c - 1\<rparr>))"

definition cache_writer_lock :: "('x tc_map_cache, unit) cm" where
  "cache_writer_lock = (\<lambda>c. if cache_writer c \<or> cache_readers c > 0 then Inl SelfDeadlock else Inr ((), c\<lparr>cache_writer := True\<rparr>))"

definition cache_writer_unlock :: "('x tc_map_cache, unit) cm" where
  "cache_writer_unlock = (\<lambda>c. if cache_writer c then Inr ((), c\<lparr>cache_writer := False\<rparr>) else Inl UnlockNotHeld)"

text \<open>\<open>p_tree_lookup\<close> on \<open>id_to_index\<close>.\<close>

definition index_lookup :: "cstring \<Rightarrow> 'x tc_map_cache \<Rightarrow> nat option" where
  "index_lookup name c = map_of (id_to_index c) name"

definition backlog_push_entry :: "nat \<Rightarrow> ('f, 'c, 'x) open_request \<Rightarrow> (('f, 'c, 'x) cache_sys, bool) cm" where
  "backlog_push_entry e req = bindC (on_cache (load_entry (Some e))) (\<lambda>x.
     bindC (on_blocks (tc_task_backlog_push (entry_backlog x) req)) (\<lambda>(ok, b).
       thenC (on_cache (upd_entry (Some e) (\<lambda>x. x\<lparr>entry_backlog := b\<rparr>))) (retC ok)))"

definition tc_map_cache_open_from_entry ::
    "nat \<Rightarrow> ('f, 'c, 'x) open_request \<Rightarrow> tc_thread_pool_task_priority \<Rightarrow> (('f, 'c, 'x) cache_sys, unit) cm" where
  "tc_map_cache_open_from_entry e req current_priority =
     thenC (on_cache (lock_entry (Some e))) (bindC (on_cache (load_entry (Some e))) (\<lambda>x.
     thenC (if \<not> is_loaded x then thenC (backlog_push_entry e req) (retC ())
            else on_cache (upd_entry (Some e) (\<lambda>x. x\<lparr>open_count := open_count x + 1, is_referenced := True\<rparr>)))
     (thenC (on_cache (unlock_entry (Some e)))
       (on_sched (tc_task_backlog_invoke_handler req (Some tc_map_nolock_ref) (Some tc_map_nolock_ref) (Some e)
          current_priority)))))"

text \<open>The failure of an open request: its handler is called at once.\<close>

definition fail_open :: "('f, 'c, 'x) open_request \<Rightarrow> (('f, 'c, 'x) cache_sys, unit) cm" where
  "fail_open req = on_sched (tc_task_backlog_invoke_handler req None None (None :: nat option) PRIORITY_INVALID)"

text \<open>The fields of a new entry; the other memory of the entry is not initialised.\<close>

definition new_entry :: "psize \<Rightarrow> cstring \<Rightarrow> tc_map_cache_entry" where
  "new_entry entry_size name = \<lparr>cached_map = None, entry_backlog = tc_task_backlog_initialize,
     entry_memory_usage = entry_size, open_count = 0, is_referenced = True, is_loaded = False, entry_locked = False,
     entry_key = name, entry_next = None, entry_prev = None\<rparr>"

definition alloc_entry :: "psize \<Rightarrow> cstring \<Rightarrow> ('x tc_map_cache, nat) cm" where
  "alloc_entry entry_size name = bindC (getC next_entry) (\<lambda>a.
     thenC (modifyC (\<lambda>c. c\<lparr>entry_at := (entry_at c)(a \<mapsto> new_entry entry_size name), next_entry := a + 1\<rparr>)) (retC a))"

text \<open>
  The part under the writer lock after a second miss. \<open>mem\<close> gives the results of the four
  allocations: the entry, its lock, its key and the arguments of the load task. When the push of the
  request fails the new backlog has no block, so its \<open>tc_task_backlog_finalize\<close> frees nothing (lemma
  \<open>failed_push_leaves_empty\<close>).
\<close>

definition schedule_load :: "'f \<Rightarrow> psize \<Rightarrow> bool list \<Rightarrow> cstring \<Rightarrow> ('f, 'c, 'x) open_request
    \<Rightarrow> (('f, 'c, 'x) cache_sys, unit) cm" where
  "schedule_load load_task entry_size mem name req =
     (if \<not> list_all id mem then thenC (on_cache cache_writer_unlock) (fail_open req)
      else bindC (on_cache (alloc_entry entry_size name)) (\<lambda>e.
        bindC (backlog_push_entry e req) (\<lambda>pushed.
        if \<not> pushed then
          thenC (on_cache (free_entry e)) (thenC (on_cache cache_writer_unlock) (fail_open req))
        else
        thenC (on_cache (lock_entry (Some e)))
        (thenC (on_cache (tc_map_cache_link_entry e))
        (bindC (on_sched (on_pool (\<lambda>p. tc_thread_schedule_new p load_task
            \<lparr>args_result = e, args_context = LoadArgs name\<rparr> PRIORITY_BLOCKING (-1)))) (\<lambda>scheduled.
         if \<not> scheduled then
           thenC (on_cache (tc_map_cache_unlink_entry e))
           (thenC (on_cache (unlock_entry (Some e)))
           (thenC (on_cache (free_entry e)) (thenC (on_cache cache_writer_unlock) (fail_open req))))
         else thenC (on_cache (unlock_entry (Some e))) (on_cache cache_writer_unlock)))))))"

definition tc_map_cache_schedule_open :: "'f \<Rightarrow> psize \<Rightarrow> bool list \<Rightarrow> cstring \<Rightarrow> ('f, 'c, 'x) open_request
    \<Rightarrow> tc_thread_pool_task_priority \<Rightarrow> (('f, 'c, 'x) cache_sys, unit) cm" where
  "tc_map_cache_schedule_open load_task entry_size mem name req current_priority =
     thenC (on_cache cache_reader_lock) (bindC (on_cache (getC (index_lookup name))) (\<lambda>found.
     case found of
       Some e \<Rightarrow> thenC (tc_map_cache_open_from_entry e req current_priority) (on_cache cache_reader_unlock)
     | None \<Rightarrow>
         thenC (on_cache cache_reader_unlock)
         (thenC (on_cache cache_writer_lock) (bindC (on_cache (getC (index_lookup name))) (\<lambda>found.
          case found of
            Some e \<Rightarrow> thenC (tc_map_cache_open_from_entry e req current_priority) (on_cache cache_writer_unlock)
          | None \<Rightarrow> schedule_load load_task entry_size mem name req)))))"

text \<open>
  The load task. \<open>load\<close> is the outcome of \<open>tc_map_load\<close> on the file, \<open>usage\<close> the memory of a map.
\<close>

definition answer_backlog ::
    "nat \<Rightarrow> (nat \<Rightarrow> 'x tc_map_cache \<Rightarrow> 'x tc_map_cache) option \<Rightarrow> (nat \<Rightarrow> 'x tc_map_cache \<Rightarrow> 'x tc_map_cache) option
     \<Rightarrow> nat option \<Rightarrow> tc_thread_pool_task_priority \<Rightarrow> ('f, 'c, 'x) cache_sys \<Rightarrow> (fault + unit \<times> ('f, 'c, 'x) cache_sys) option" where
  "answer_backlog e aquire release result prio s =
     (case on_cache (load_entry (Some e)) s of
        Inl f \<Rightarrow> Some (Inl f)
      | Inr (x, s) \<Rightarrow>
          (case tc_task_schedule_backlog (blocks s) (entry_backlog x) aquire release result prio (sched s) of
             None \<Rightarrow> None
           | Some (Inl f) \<Rightarrow> Some (Inl f)
           | Some (Inr (_, t)) \<Rightarrow> Some (Inr ((), s\<lparr>sched := t\<rparr>))))"

definition evict_if_over :: "('x tc_map_cache, unit) cm" where
  "evict_if_over = thenC cache_writer_lock
     (thenC (bindC (getC (\<lambda>c. cache_memory_usage c > memory_usage_threshold c)) (\<lambda>over.
        if over then tc_map_cache_evict else retC ())) cache_writer_unlock)"

definition tc_map_cache_load_task :: "(cstring \<Rightarrow> fault + tc_map option) \<Rightarrow> (tc_map \<Rightarrow> psize) \<Rightarrow> nat \<Rightarrow> cstring
    \<Rightarrow> tc_thread_pool_task_priority \<Rightarrow> ('f, 'c, 'x) cache_sys \<Rightarrow> (fault + unit \<times> ('f, 'c, 'x) cache_sys) option" where
  "tc_map_cache_load_task load usage e name prio s0 =
     (case thenC (tc_assert (\<lambda>_. prio = PRIORITY_BLOCKING)) (on_cache (lock_entry (Some e))) s0 of
        Inl f \<Rightarrow> Some (Inl f)
      | Inr (_, s) \<Rightarrow>
          (case load name of
             Inl f \<Rightarrow> Some (Inl f)
           | Inr None \<Rightarrow>
               (case answer_backlog e None None None prio s of
                  None \<Rightarrow> None | Some (Inl f) \<Rightarrow> Some (Inl f)
                | Some (Inr (_, s)) \<Rightarrow> Some (on_cache (unlock_entry (Some e)) s))
           | Inr (Some m) \<Rightarrow>
               (case on_cache (upd_entry (Some e) (\<lambda>x. x\<lparr>cached_map := Some m, is_loaded := True,
                       entry_memory_usage := entry_memory_usage x + usage m\<rparr>)) s of
                  Inl f \<Rightarrow> Some (Inl f)
                | Inr (_, s) \<Rightarrow>
                    (case answer_backlog e (Some tc_map_nolock_ref) (Some tc_map_nolock_unref) (Some e) prio s of
                       None \<Rightarrow> None | Some (Inl f) \<Rightarrow> Some (Inl f)
                     | Some (Inr (_, s)) \<Rightarrow>
                         Some (thenC (on_cache (unlock_entry (Some e))) (on_cache evict_if_over) s)))))"

section \<open>The list of entries\<close>

text \<open>The cache's list is \<open>es\<close>: the links in both directions, head, tail and count.\<close>

definition linked :: "'x tc_map_cache \<Rightarrow> nat list \<Rightarrow> nat \<Rightarrow> bool" where
  "linked c es i \<longleftrightarrow> (\<exists>x. entry_at c (es ! i) = Some x
     \<and> entry_next x = (if Suc i < length es then Some (es ! Suc i) else None)
     \<and> entry_prev x = (if i = 0 then None else Some (es ! (i - 1))))"

definition cache_list :: "'x tc_map_cache \<Rightarrow> nat list \<Rightarrow> bool" where
  "cache_list c es \<longleftrightarrow> distinct es \<and> (\<forall>i < length es. linked c es i) \<and> num_entries c = length es
     \<and> cache_head c = (if es = [] then None else Some (hd es))
     \<and> cache_tail c = (if es = [] then None else Some (last es))"

text \<open>An entry without its links.\<close>

definition unlinked :: "tc_map_cache_entry \<Rightarrow> tc_map_cache_entry" where
  "unlinked x = x\<lparr>entry_next := None, entry_prev := None\<rparr>"

lemma unlinked_simps [simp]:
  "cached_map (unlinked x) = cached_map x" "entry_memory_usage (unlinked x) = entry_memory_usage x"
  "open_count (unlinked x) = open_count x" "is_referenced (unlinked x) = is_referenced x"
  "is_loaded (unlinked x) = is_loaded x" "entry_locked (unlinked x) = entry_locked x"
  "entry_key (unlinked x) = entry_key x" "unlinked (x\<lparr>entry_next := n\<rparr>) = unlinked x"
  "unlinked (x\<lparr>entry_prev := n\<rparr>) = unlinked x" "unlinked (unlinked x) = unlinked x"
  by (simp_all add: unlinked_def)

lemma link_entry_list:
  assumes l: "cache_list c es" and e: "entry_at c e = Some x" "e \<notin> set es" "entry_next x = None" "entry_prev x = None"
  shows "\<exists>c'. tc_map_cache_link_entry e c = Inr ((), c') \<and> cache_list c' (e # es)
    \<and> cache_memory_usage c' = cache_memory_usage c + entry_memory_usage x
    \<and> (\<forall>a. map_option unlinked (entry_at c' a) = map_option unlinked (entry_at c a))
    \<and> id_to_index c' = id_to_index c \<and> cache_writer c' = cache_writer c"
proof (cases es)
  case Nil
  then show ?thesis using l e
    by (auto simp: tc_map_cache_link_entry_def cache_list_def linked_def run_simps load_entry_def)
next
  case (Cons a as)
  have n: "a \<noteq> e" "distinct es" using e(2) l Cons by (auto simp: cache_list_def)
  have "linked c es 0" using l Cons by (auto simp: cache_list_def)
  then obtain y where y: "entry_at c a = Some y" "entry_prev y = None" "entry_next y = (if as = [] then None else Some (hd as))"
    using Cons by (cases as) (auto simp: linked_def)
  let ?c = "c\<lparr>entry_at := (entry_at c)(e \<mapsto> x\<lparr>entry_next := Some a\<rparr>, a \<mapsto> y\<lparr>entry_prev := Some e\<rparr>),
     cache_head := Some e, cache_memory_usage := cache_memory_usage c + entry_memory_usage x, num_entries := num_entries c + 1\<rparr>"
  have run: "tc_map_cache_link_entry e c = Inr ((), ?c)"
    using l e n y Cons by (simp add: tc_map_cache_link_entry_def cache_list_def run_simps load_entry_def upd_entry_def)
  have "linked ?c (e # es) i" if "i < length (e # es)" for i
  proof (cases i)
    case 0
    then show ?thesis using e n Cons by (simp add: linked_def)
  next
    case (Suc j)
    then have j: "j < length es" "linked c es j" using that l by (auto simp: cache_list_def)
    have ne: "es ! j \<noteq> e" using j(1) e(2) by (auto dest: nth_mem)
    show ?thesis
    proof (cases j)
      case 0
      with Suc y n Cons show ?thesis by (cases as) (auto simp: linked_def)
    next
      case (Suc k)
      have "es ! j \<noteq> a" using j(1) Suc Cons n(2) by (auto dest: nth_mem)
      with j(2) ne Suc \<open>i = Suc j\<close> show ?thesis by (auto simp: linked_def)
    qed
  qed
  then have "cache_list ?c (e # es)" using l e(2) Cons by (auto simp: cache_list_def)
  with run e(1) y(1) show ?thesis by (intro exI [of _ ?c]) simp
qed

lemma linked_split:
  assumes l: "\<forall>i < length (ys @ e # zs). linked c (ys @ e # zs) i"
  shows "\<exists>x. entry_at c e = Some x \<and> entry_prev x = (if ys = [] then None else Some (last ys))
      \<and> entry_next x = (if zs = [] then None else Some (hd zs))"
    and "j < length ys \<Longrightarrow> \<exists>x. entry_at c (ys ! j) = Some x \<and> entry_prev x = (if j = 0 then None else Some (ys ! (j - 1)))
      \<and> entry_next x = (if Suc j < length ys then Some (ys ! Suc j) else Some e)"
    and "j < length zs \<Longrightarrow> \<exists>x. entry_at c (zs ! j) = Some x \<and> entry_prev x = (if j = 0 then Some e else Some (zs ! (j - 1)))
      \<and> entry_next x = (if Suc j < length zs then Some (zs ! Suc j) else None)"
proof -
  show "\<exists>x. entry_at c e = Some x \<and> entry_prev x = (if ys = [] then None else Some (last ys))
      \<and> entry_next x = (if zs = [] then None else Some (hd zs))"
    using l [rule_format, of "length ys"]
    by (auto simp: linked_def nth_append last_conv_nth hd_conv_nth split: if_splits)
  show "\<exists>x. entry_at c (ys ! j) = Some x \<and> entry_prev x = (if j = 0 then None else Some (ys ! (j - 1)))
      \<and> entry_next x = (if Suc j < length ys then Some (ys ! Suc j) else Some e)" if "j < length ys"
  proof -
    have "(ys @ e # zs) ! Suc j = (if Suc j < length ys then ys ! Suc j else e)"
      using that by (cases "Suc j = length ys") (auto simp: nth_append)
    with l [rule_format, of j] that show ?thesis by (auto simp: linked_def nth_append split: if_splits)
  qed
  show "\<exists>x. entry_at c (zs ! j) = Some x \<and> entry_prev x = (if j = 0 then Some e else Some (zs ! (j - 1)))
      \<and> entry_next x = (if Suc j < length zs then Some (zs ! Suc j) else None)" if "j < length zs"
    using l [rule_format, of "length ys + Suc j"] that by (auto simp: linked_def nth_append nth_Cons split: if_splits nat.splits)
qed

text \<open>The heap after the two links around \<open>e\<close> have been set and \<open>e\<close> is freed.\<close>

definition without_entry :: "nat \<Rightarrow> tc_map_cache_entry \<Rightarrow> (nat \<Rightarrow> tc_map_cache_entry option) \<Rightarrow> nat \<Rightarrow> tc_map_cache_entry option" where
  "without_entry e x h = (\<lambda>a. if a = e then None else map_option (\<lambda>y.
     (if entry_prev x = Some a then (\<lambda>y. y\<lparr>entry_next := entry_next x\<rparr>) else id)
     ((if entry_next x = Some a then (\<lambda>y. y\<lparr>entry_prev := entry_prev x\<rparr>) else id) y)) (h a))"

lemma linked_without:
  assumes d: "distinct (ys @ e # zs)" and l: "\<forall>i < length (ys @ e # zs). linked c (ys @ e # zs) i"
    and x: "entry_at c e = Some x" and c': "entry_at c' = without_entry e x (entry_at c)" and j: "j < length (ys @ zs)"
  shows "linked c' (ys @ zs) j"
proof -
  have ep: "entry_prev x = (if ys = [] then None else Some (last ys))" and en: "entry_next x = (if zs = [] then None else Some (hd zs))"
    using linked_split(1) [OF l] x by auto
  show ?thesis
  proof (cases "j < length ys")
    case True
    then obtain y where y: "entry_at c (ys ! j) = Some y" "entry_prev y = (if j = 0 then None else Some (ys ! (j - 1)))"
      "entry_next y = (if Suc j < length ys then Some (ys ! Suc j) else Some e)" using linked_split(2) [OF l] by blast
    have "ys ! j \<in> set ys" using True by simp
    moreover have "e \<notin> set ys" "zs \<noteq> [] \<Longrightarrow> hd zs \<notin> set ys" using d by (auto simp: neq_Nil_conv)
    ultimately have "ys ! j \<noteq> e" "zs \<noteq> [] \<Longrightarrow> hd zs \<noteq> ys ! j" by metis+
    moreover have "last ys = ys ! j \<longleftrightarrow> Suc j = length ys"
    proof -
      have "last ys = ys ! (length ys - 1)" using True by (intro last_conv_nth) auto
      then show ?thesis using d True nth_eq_iff_index_eq [of ys "length ys - 1" j] by auto
    qed
    ultimately have "ys ! j \<noteq> e" "entry_next x \<noteq> Some (ys ! j)" "entry_prev x = Some (ys ! j) \<longleftrightarrow> Suc j = length ys"
      unfolding ep en using True by (cases "ys = []"; cases "zs = []"; simp)+
    then have "entry_at c' (ys ! j) = Some (if Suc j = length ys then y\<lparr>entry_next := entry_next x\<rparr> else y)"
      using y(1) by (simp add: c' without_entry_def)
    moreover have "(ys @ zs) ! Suc j = (if Suc j < length ys then ys ! Suc j else hd zs)" if "Suc j < length (ys @ zs)"
      using that True by (cases zs) (auto simp: nth_append less_Suc_eq)
    ultimately show ?thesis using y(2,3) True en by (auto simp: linked_def nth_append)
  next
    case False
    define k where "k = j - length ys"
    have k: "j = length ys + k" "k < length zs" using False j by (auto simp: k_def)
    then obtain y where y: "entry_at c (zs ! k) = Some y" "entry_prev y = (if k = 0 then Some e else Some (zs ! (k - 1)))"
      "entry_next y = (if Suc k < length zs then Some (zs ! Suc k) else None)" using linked_split(3) [OF l] by blast
    have "zs ! k \<in> set zs" using k by simp
    moreover have "e \<notin> set zs" "ys \<noteq> [] \<Longrightarrow> last ys \<notin> set zs" using d last_in_set by (auto simp del: last_in_set)
    ultimately have "zs ! k \<noteq> e" "ys \<noteq> [] \<Longrightarrow> last ys \<noteq> zs ! k" by metis+
    moreover have "hd zs = zs ! k \<longleftrightarrow> k = 0"
    proof -
      have "zs \<noteq> []" "hd zs = zs ! 0" using k by (auto intro: hd_conv_nth)
      then show ?thesis using d k nth_eq_iff_index_eq [of zs 0 k] by auto
    qed
    ultimately have "zs ! k \<noteq> e" "entry_prev x \<noteq> Some (zs ! k)" "entry_next x = Some (zs ! k) \<longleftrightarrow> k = 0"
      unfolding ep en using k by (cases "ys = []"; cases "zs = []"; simp)+
    then have "entry_at c' (zs ! k) = Some (if k = 0 then y\<lparr>entry_prev := entry_prev x\<rparr> else y)"
      using y(1) by (simp add: c' without_entry_def)
    moreover have "(ys @ zs) ! (j - 1) = (if k = 0 then last ys else zs ! (k - 1))" if "j \<noteq> 0"
      using that k by (auto simp: nth_append last_conv_nth)
    ultimately show ?thesis using y(2,3) k ep by (auto simp: linked_def nth_append)
  qed
qed

lemma unlink_entry_run:
  assumes x: "entry_at c e = Some x" "entry_locked x"
    and p: "\<forall>p. entry_prev x = Some p \<longrightarrow> p \<noteq> e \<and> entry_at c p \<noteq> None" and n: "\<forall>n. entry_next x = Some n \<longrightarrow> n \<noteq> e \<and> entry_at c n \<noteq> None"
  shows "\<exists>c'. tc_map_cache_unlink_entry e c = Inr ((), c') \<and> entry_at c' = without_entry e x (entry_at c)
    \<and> num_entries c' = num_entries c - 1 \<and> cache_memory_usage c' = cache_memory_usage c - entry_memory_usage x
    \<and> cache_head c' = (if entry_prev x = None then entry_next x else cache_head c)
    \<and> cache_tail c' = (if entry_next x = None then entry_prev x else cache_tail c)
    \<and> memory_usage_threshold c' = memory_usage_threshold c"
  using assms
  by (cases "entry_prev x"; cases "entry_next x")
    (auto simp: tc_map_cache_unlink_entry_def run_simps load_entry_def upd_entry_def unlock_entry_def free_entry_def
      without_entry_def fun_eq_iff option.map_ident option.map_id split: option.splits)

lemma unlink_entry_list:
  assumes l: "cache_list c es" and e: "e \<in> set es" "entry_at c e = Some x" "entry_locked x"
  shows "\<exists>c'. tc_map_cache_unlink_entry e c = Inr ((), c') \<and> cache_list c' (remove1 e es)
    \<and> cache_memory_usage c' = cache_memory_usage c - entry_memory_usage x \<and> entry_at c' = without_entry e x (entry_at c)
    \<and> memory_usage_threshold c' = memory_usage_threshold c"
proof -
  obtain ys zs where es: "es = ys @ e # zs" using e(1) by (meson split_list)
  have d: "distinct (ys @ e # zs)" and lk: "\<forall>i < length (ys @ e # zs). linked c (ys @ e # zs) i"
    and num: "num_entries c = length es" and ht: "cache_head c = Some (hd es)" "cache_tail c = Some (last es)"
    using l es by (auto simp: cache_list_def)
  have ep: "entry_prev x = (if ys = [] then None else Some (last ys))" and en: "entry_next x = (if zs = [] then None else Some (hd zs))"
    using linked_split(1) [OF lk] e(2) by auto
  have "entry_at c a \<noteq> None" if "a \<in> set es" for a
    using that lk unfolding es in_set_conv_nth by (auto simp: linked_def)
  then have "\<forall>p. entry_prev x = Some p \<longrightarrow> p \<noteq> e \<and> entry_at c p \<noteq> None" "\<forall>n. entry_next x = Some n \<longrightarrow> n \<noteq> e \<and> entry_at c n \<noteq> None"
    using ep en d es by (auto split: if_splits)
  from unlink_entry_run [OF e(2,3) this] obtain c' where c': "tc_map_cache_unlink_entry e c = Inr ((), c')"
    "entry_at c' = without_entry e x (entry_at c)" "num_entries c' = num_entries c - 1"
    "cache_memory_usage c' = cache_memory_usage c - entry_memory_usage x"
    "cache_head c' = (if entry_prev x = None then entry_next x else cache_head c)"
    "cache_tail c' = (if entry_next x = None then entry_prev x else cache_tail c)"
    "memory_usage_threshold c' = memory_usage_threshold c" by blast
  have r: "remove1 e es = ys @ zs" using d es by (simp add: remove1_append)
  have "cache_list c' (ys @ zs)"
    unfolding cache_list_def using d linked_without [OF d lk e(2) c'(2)] c'(3,5,6) num ht ep en es by auto
  with c'(1,2,4,7) r show ?thesis by auto
qed

section \<open>The cache as a list\<close>

text \<open>
  What the cache holds, from the most recently opened map to the least: the address and the entry
  without its links.
\<close>

definition holds :: "'x tc_map_cache \<Rightarrow> nat \<times> tc_map_cache_entry \<Rightarrow> bool" where
  "holds c p \<longleftrightarrow> map_option unlinked (entry_at c (fst p)) = Some (snd p)"

definition cache_abs :: "'x tc_map_cache \<Rightarrow> (nat \<times> tc_map_cache_entry) list \<Rightarrow> bool" where
  "cache_abs c L \<longleftrightarrow> cache_list c (map fst L) \<and> (\<forall>p \<in> set L. holds c p)"

lemma without_entry_holds:
  "a \<noteq> e \<Longrightarrow> map_option unlinked (without_entry e x h a) = map_option unlinked (h a)"
  by (cases "h a") (auto simp: without_entry_def)

lemma link_entry_abs:
  assumes abs: "cache_abs c L" and e: "entry_at c e = Some x" "e \<notin> fst ` set L" "entry_next x = None" "entry_prev x = None"
  shows "\<exists>c'. tc_map_cache_link_entry e c = Inr ((), c') \<and> cache_abs c' ((e, unlinked x) # L)
    \<and> cache_memory_usage c' = cache_memory_usage c + entry_memory_usage x
    \<and> id_to_index c' = id_to_index c \<and> cache_writer c' = cache_writer c"
proof -
  from abs have l: "cache_list c (map fst L)" and h: "\<forall>p \<in> set L. holds c p" by (auto simp: cache_abs_def)
  from link_entry_list [OF l e(1) _ e(3,4)] e(2) obtain c' where c': "tc_map_cache_link_entry e c = Inr ((), c')"
    "cache_list c' (e # map fst L)" "\<forall>a. map_option unlinked (entry_at c' a) = map_option unlinked (entry_at c a)"
    "cache_memory_usage c' = cache_memory_usage c + entry_memory_usage x" "id_to_index c' = id_to_index c"
    "cache_writer c' = cache_writer c" by auto
  have "holds c' p" if "p \<in> set ((e, unlinked x) # L)" for p
    using that h e(1) by (auto simp: holds_def c'(3) simp del: map_option_eq_Some)
  with c' show ?thesis by (auto simp: cache_abs_def)
qed

lemma unlink_entry_abs:
  assumes abs: "cache_abs c (ys @ (e, x) # zs)" and k: "entry_locked x"
  shows "\<exists>c'. tc_map_cache_unlink_entry e c = Inr ((), c') \<and> cache_abs c' (ys @ zs)
    \<and> cache_memory_usage c' = cache_memory_usage c - entry_memory_usage x
    \<and> memory_usage_threshold c' = memory_usage_threshold c"
proof -
  from abs have l: "cache_list c (map fst ys @ e # map fst zs)" and h: "\<forall>p \<in> set (ys @ (e, x) # zs). holds c p"
    by (auto simp: cache_abs_def)
  from h obtain y where y: "entry_at c e = Some y" "unlinked y = x" by (auto simp: holds_def)
  have d: "e \<notin> fst ` set ys" "e \<notin> fst ` set zs" using l by (auto simp: cache_list_def)
  from unlink_entry_list [OF l _ y(1)] k y(2) obtain c' where c': "tc_map_cache_unlink_entry e c = Inr ((), c')"
    "cache_list c' (remove1 e (map fst ys @ e # map fst zs))" "entry_at c' = without_entry e y (entry_at c)"
    "cache_memory_usage c' = cache_memory_usage c - entry_memory_usage y" "memory_usage_threshold c' = memory_usage_threshold c"
    by auto
  have "remove1 e (map fst ys @ e # map fst zs) = map fst (ys @ zs)" using d by (simp add: remove1_append)
  moreover have "holds c' p" if "p \<in> set (ys @ zs)" for p
  proof -
    have "fst p \<noteq> e" "holds c p" using that h d by auto
    then show ?thesis using without_entry_holds [of "fst p" e y "entry_at c"] by (simp add: holds_def c'(3))
  qed
  ultimately show ?thesis using c' y(2) by (auto simp: cache_abs_def)
qed

section \<open>The eviction as a pass over the list\<close>

text \<open>
  What the loop does to the entries, from the least recently opened one: open maps stay, a closed map
  loses its mark and stays locked, a closed map without a mark goes; the pass stops when the memory is
  below the threshold.
\<close>

fun evict_pass :: "psize \<Rightarrow> psize \<Rightarrow> (nat \<times> tc_map_cache_entry) list \<Rightarrow> (nat \<times> tc_map_cache_entry) list \<times> psize" where
  "evict_pass threshold mem [] = ([], mem)"
| "evict_pass threshold mem ((e, x) # xs) =
     (if open_count x \<noteq> 0 then let (ys, m) = evict_pass threshold mem xs in ((e, x) # ys, m)
      else if is_referenced x then
        let (ys, m) = evict_pass threshold mem xs in ((e, x\<lparr>entry_locked := True, is_referenced := False\<rparr>) # ys, m)
      else if mem - entry_memory_usage x < threshold then (xs, mem - entry_memory_usage x)
      else evict_pass threshold (mem - entry_memory_usage x) xs)"

text \<open>Entries the loop can work on: loaded and not locked by anyone.\<close>

definition ready :: "nat \<times> tc_map_cache_entry \<Rightarrow> bool" where
  "ready p \<longleftrightarrow> is_loaded (snd p) \<and> cached_map (snd p) \<noteq> None \<and> \<not> entry_locked (snd p)"

lemma cache_list_links:
  assumes "cache_list c (map fst ys @ e # zs)"
  shows "\<exists>y. entry_at c e = Some y \<and> entry_prev y = (if ys = [] then None else Some (fst (last ys)))"
  using linked_split(1) [of "map fst ys" e zs c] assms by (auto simp: cache_list_def last_map)

lemma upd_entry_abs:
  assumes abs: "cache_abs c (ys @ (e, x) # zs)"
    and f: "\<And>y. unlinked y = x \<Longrightarrow> unlinked (f y) = x'" "\<And>y. entry_next (f y) = entry_next y" "\<And>y. entry_prev (f y) = entry_prev y"
  shows "\<exists>c'. upd_entry (Some e) f c = Inr ((), c') \<and> cache_abs c' (ys @ (e, x') # zs)
    \<and> cache_memory_usage c' = cache_memory_usage c \<and> memory_usage_threshold c' = memory_usage_threshold c
    \<and> cache_tail c' = cache_tail c"
proof -
  from abs obtain y where y: "entry_at c e = Some y" "unlinked y = x" by (auto simp: cache_abs_def holds_def)
  have d: "e \<notin> fst ` set ys" "e \<notin> fst ` set zs" using abs by (auto simp: cache_abs_def cache_list_def)
  let ?c = "c\<lparr>entry_at := (entry_at c)(e \<mapsto> f y)\<rparr>"
  have "linked ?c es i = linked c es i" for es i using y f(2,3) by (auto simp: linked_def)
  then have "cache_list ?c (map fst (ys @ (e, x) # zs))" using abs by (simp add: cache_abs_def cache_list_def)
  moreover have "holds ?c p" if "p \<in> set (ys @ (e, x') # zs)" for p
  proof (cases "p = (e, x')")
    case False
    then have "fst p \<noteq> e" "holds c p" using that abs d by (auto simp: cache_abs_def)
    then show ?thesis by (simp add: holds_def)
  qed (simp add: holds_def y(2) f(1))
  ultimately show ?thesis using y(1) by (auto simp: upd_entry_def cache_abs_def)
qed

lemma cache_abs_frame [simp]:
  "cache_abs (c\<lparr>id_to_index := t\<rparr>) L = cache_abs c L" "cache_abs (c\<lparr>clock_hand := h\<rparr>) L = cache_abs c L"
  "cache_abs (c\<lparr>cache_writer := w\<rparr>) L = cache_abs c L" "cache_abs (c\<lparr>cache_readers := r\<rparr>) L = cache_abs c L"
  by (simp_all add: cache_abs_def cache_list_def holds_def linked_def cong: conj_cong)

lemma lock_entry_abs:
  assumes abs: "cache_abs c (ys @ (e, x) # zs)" and k: "\<not> entry_locked x"
  shows "\<exists>c' y. lock_entry (Some e) c = Inr ((), c') \<and> load_entry (Some e) c' = Inr (y, c')
    \<and> unlinked y = x\<lparr>entry_locked := True\<rparr> \<and> entry_prev y = (if ys = [] then None else Some (fst (last ys)))
    \<and> cache_abs c' (ys @ (e, x\<lparr>entry_locked := True\<rparr>) # zs)
    \<and> cache_memory_usage c' = cache_memory_usage c \<and> memory_usage_threshold c' = memory_usage_threshold c"
proof -
  from abs obtain y where y: "entry_at c e = Some y" "unlinked y = x" by (auto simp: cache_abs_def holds_def)
  have "unlinked (y\<lparr>entry_locked := True\<rparr>) = (unlinked y)\<lparr>entry_locked := True\<rparr>" for y by (simp add: unlinked_def)
  with upd_entry_abs [OF abs, of "\<lambda>y. y\<lparr>entry_locked := True\<rparr>" "x\<lparr>entry_locked := True\<rparr>"]
  obtain c' where c': "upd_entry (Some e) (\<lambda>y. y\<lparr>entry_locked := True\<rparr>) c = Inr ((), c')"
    "cache_abs c' (ys @ (e, x\<lparr>entry_locked := True\<rparr>) # zs)" "cache_memory_usage c' = cache_memory_usage c"
    "memory_usage_threshold c' = memory_usage_threshold c" by auto
  moreover have "lock_entry (Some e) c = Inr ((), c')"
    using y k c'(1) by (auto simp: lock_entry_def load_entry_def run_simps)
  moreover obtain z where z: "entry_at c' e = Some z" "unlinked z = x\<lparr>entry_locked := True\<rparr>"
    using c'(2) by (auto simp: cache_abs_def holds_def)
  moreover have "entry_prev z = (if ys = [] then None else Some (fst (last ys)))"
    using cache_list_links [of c' ys e "map fst zs"] c'(2) z(1) by (auto simp: cache_abs_def)
  ultimately show ?thesis by (auto simp: load_entry_def)
qed

lemma evict_loop_pass:
  assumes "cache_abs c (ys @ zs)" and "\<forall>p \<in> set ys. ready p"
  shows "\<exists>c'. evict_loop (length ys) (if ys = [] then None else Some (fst (last ys))) c = Inr ((), c')
    \<and> cache_abs c' (rev (fst (evict_pass (memory_usage_threshold c) (cache_memory_usage c) (rev ys))) @ zs)
    \<and> cache_memory_usage c' = snd (evict_pass (memory_usage_threshold c) (cache_memory_usage c) (rev ys))"
  using assms
proof (induction ys arbitrary: c zs rule: rev_induct)
  case (snoc p ys)
  obtain e x where p: "p = (e, x)" by (cases p)
  have x: "is_loaded x" "cached_map x \<noteq> None" "\<not> entry_locked x" using snoc.prems(2) by (auto simp: p ready_def)
  have r: "\<forall>p \<in> set ys. ready p" using snoc.prems(2) by simp
  let ?x = "x\<lparr>entry_locked := True\<rparr>"
  have "cache_abs c (ys @ (e, x) # zs)" using snoc.prems(1) by (simp add: p)
  from lock_entry_abs [OF this x(3)] obtain c1 y where c1: "lock_entry (Some e) c = Inr ((), c1)"
    "load_entry (Some e) c1 = Inr (y, c1)" "unlinked y = ?x" "entry_prev y = (if ys = [] then None else Some (fst (last ys)))"
    "cache_abs c1 (ys @ (e, ?x) # zs)" "cache_memory_usage c1 = cache_memory_usage c"
    "memory_usage_threshold c1 = memory_usage_threshold c" by blast
  have y: "is_loaded y" "cached_map y \<noteq> None" "entry_locked y" "open_count y = open_count x"
    "is_referenced y = is_referenced x" "entry_memory_usage y = entry_memory_usage x"
    using x arg_cong [OF c1(3), of is_loaded] arg_cong [OF c1(3), of cached_map] arg_cong [OF c1(3), of entry_locked]
      arg_cong [OF c1(3), of open_count] arg_cong [OF c1(3), of is_referenced] arg_cong [OF c1(3), of entry_memory_usage]
    by simp_all
  note step = c1(1,2,4) y p run_simps
  consider "open_count x \<noteq> 0" | "open_count x = 0" "is_referenced x" | "open_count x = 0" "\<not> is_referenced x" by blast
  then show ?case
  proof cases
    case 1
    have "unlinked (z\<lparr>entry_locked := False\<rparr>) = (unlinked z)\<lparr>entry_locked := False\<rparr>" for z by (simp add: unlinked_def)
    with upd_entry_abs [OF c1(5), of "\<lambda>y. y\<lparr>entry_locked := False\<rparr>" x] x(3)
    obtain c2 where c2: "upd_entry (Some e) (\<lambda>y. y\<lparr>entry_locked := False\<rparr>) c1 = Inr ((), c2)" "cache_abs c2 (ys @ (e, x) # zs)"
      "cache_memory_usage c2 = cache_memory_usage c1" "memory_usage_threshold c2 = memory_usage_threshold c1" by auto
    from snoc.IH [OF c2(2) r] show ?thesis using 1 c2 c1(6,7)
      by (auto simp: step unlock_entry_def split: prod.splits)
  next
    case 2
    have "unlinked (z\<lparr>is_referenced := False\<rparr>) = (unlinked z)\<lparr>is_referenced := False\<rparr>" for z by (simp add: unlinked_def)
    with upd_entry_abs [OF c1(5), of "\<lambda>y. y\<lparr>is_referenced := False\<rparr>" "?x\<lparr>is_referenced := False\<rparr>"]
    obtain c2 where c2: "upd_entry (Some e) (\<lambda>y. y\<lparr>is_referenced := False\<rparr>) c1 = Inr ((), c2)"
      "cache_abs c2 (ys @ (e, x\<lparr>entry_locked := True, is_referenced := False\<rparr>) # zs)"
      "cache_memory_usage c2 = cache_memory_usage c1" "memory_usage_threshold c2 = memory_usage_threshold c1" by auto
    from snoc.IH [OF c2(2) r] show ?thesis using 2 c2 c1(6,7) by (auto simp: step split: prod.splits)
  next
    case 3
    let ?c1 = "c1\<lparr>id_to_index := filter (\<lambda>(k, _). k \<noteq> entry_key y) (id_to_index c1)\<rparr>"
    have "cache_abs ?c1 (ys @ (e, ?x) # zs)" using c1(5) by simp
    from unlink_entry_abs [OF this] obtain c2 where c2: "tc_map_cache_unlink_entry e ?c1 = Inr ((), c2)"
      "cache_abs c2 (ys @ zs)" "cache_memory_usage c2 = cache_memory_usage c - entry_memory_usage x"
      "memory_usage_threshold c2 = memory_usage_threshold c" using c1(6,7) by auto
    let ?c3 = "if clock_hand c2 = Some e then c2\<lparr>clock_hand := entry_prev y\<rparr> else c2"
    have c3: "cache_abs ?c3 (ys @ zs)" "cache_memory_usage ?c3 = cache_memory_usage c - entry_memory_usage x"
      "memory_usage_threshold ?c3 = memory_usage_threshold c" using c2 by auto
    from snoc.IH [OF c3(1) r] show ?thesis using 3 c2(1) c3
      by (auto simp: step split: prod.splits)
  qed
qed (simp add: retC_def)

section \<open>Pinned maps\<close>

text \<open>The map and the count of an open entry are the same before and after.\<close>

definition pinned :: "nat \<Rightarrow> 'x tc_map_cache \<Rightarrow> 'x tc_map_cache \<Rightarrow> bool" where
  "pinned a c c' \<longleftrightarrow> (\<forall>x. entry_at c a = Some x \<and> open_count x \<noteq> 0 \<longrightarrow>
     (\<exists>x'. entry_at c' a = Some x' \<and> open_count x' = open_count x \<and> cached_map x' = cached_map x \<and> is_loaded x' = is_loaded x))"

definition pins :: "nat \<Rightarrow> ('x tc_map_cache, 'r) cm \<Rightarrow> bool" where
  "pins a m \<longleftrightarrow> (\<forall>c r c'. m c = Inr (r, c') \<longrightarrow> pinned a c c')"

lemma pinned_trans: "pinned a c c' \<Longrightarrow> pinned a c' c'' \<Longrightarrow> pinned a c c''"
  unfolding pinned_def by (metis (no_types))

lemma pins_bind: "pins a m \<Longrightarrow> (\<And>r. pins a (k r)) \<Longrightarrow> pins a (bindC m k)"
  unfolding pins_def bindC_def by (auto split: sum.splits) (metis pinned_trans)

lemma pins_then: "pins a m \<Longrightarrow> pins a k \<Longrightarrow> pins a (thenC m k)"
  unfolding thenC_def by (rule pins_bind)

lemma pins_basic:
  "pins a (retC r)" "pins a (getC g)" "pins a (load_entry q)" "pins a (faultC f)"
  "(\<And>c. entry_at (h c) = entry_at c) \<Longrightarrow> pins a (modifyC h)"
  by (auto simp: pins_def pinned_def run_simps load_entry_def split: option.splits)

lemma pins_upd:
  assumes "\<And>x. open_count (f x) = open_count x" "\<And>x. cached_map (f x) = cached_map x" "\<And>x. is_loaded (f x) = is_loaded x"
  shows "pins a (upd_entry q f)"
  using assms by (auto simp: pins_def pinned_def upd_entry_def split: option.splits)

lemma pins_if: "(b \<Longrightarrow> pins a m) \<Longrightarrow> (\<not> b \<Longrightarrow> pins a k) \<Longrightarrow> pins a (if b then m else k)"
  by simp

lemma pins_case: "pins a m \<Longrightarrow> (\<And>y. pins a (k y)) \<Longrightarrow> pins a (case q of None \<Rightarrow> m | Some y \<Rightarrow> k y)"
  by (cases q) auto

lemmas pins_intros = pins_bind pins_then pins_basic pins_if pins_case pins_upd

lemma pins_locks: "pins a (lock_entry q)" "pins a (unlock_entry q)"
  unfolding lock_entry_def unlock_entry_def by (intro pins_intros; simp)+

lemma pins_free: "a \<noteq> e \<Longrightarrow> pins a (free_entry e)"
  by (auto simp: pins_def pinned_def free_entry_def run_simps load_entry_def split: option.splits)

lemma pins_unlink: "a \<noteq> e \<Longrightarrow> pins a (tc_map_cache_unlink_entry e)"
  unfolding tc_map_cache_unlink_entry_def by (intro pins_intros pins_locks pins_free; simp)

text \<open>A step that reads a closed entry may do anything to it.\<close>

lemma pins_load:
  assumes "\<And>e x. q = Some e \<Longrightarrow> (e = a \<Longrightarrow> open_count x \<noteq> 0) \<Longrightarrow> pins a (k x)"
  shows "pins a (bindC (load_entry q) k)"
  unfolding pins_def
proof (intro allI impI)
  fix c r c'
  assume run: "bindC (load_entry q) k c = Inr (r, c')"
  then obtain e x where e: "q = Some e" "entry_at c e = Some x" "k x c = Inr (r, c')"
    by (auto simp: bindC_def load_entry_def split: option.splits)
  show "pinned a c c'"
  proof (cases "e = a \<and> open_count x = 0")
    case True
    then show ?thesis using e by (simp add: pinned_def)
  next
    case False
    then have "pins a (k x)" using e(1) assms by blast
    then show ?thesis using e(3) unfolding pins_def by blast
  qed
qed

lemma evict_loop_pins: "pins a (evict_loop n cur)"
proof (induction n arbitrary: cur)
  case (Suc n)
  show ?case
    unfolding evict_loop.simps
    apply (rule pins_bind)
     apply (intro pins_intros)
    apply (rule pins_then [OF pins_locks(1)], rule pins_load)
    apply (intro pins_intros pins_locks Suc.IH pins_unlink; auto)
    done
qed (simp add: pins_basic)

section \<open>Finalizing and opening\<close>

lemma free_entries_list:
  assumes "distinct es" and "\<forall>i < length es. \<exists>x. entry_at c (es ! i) = Some x \<and> cached_map x \<noteq> None
     \<and> entry_next x = (if Suc i < length es then Some (es ! Suc i) else None)"
  shows "free_entries (if es = [] then None else Some (hd es)) c
    = Some (Inr ((), c\<lparr>entry_at := (entry_at c) |` (- set es)\<rparr>))"
  using assms
proof (induction es arbitrary: c)
  case Nil
  then show ?case by (simp add: free_entries.simps)
next
  case (Cons e es)
  let ?c = "c\<lparr>entry_at := (entry_at c)(e := None)\<rparr>"
  have "\<exists>x. entry_at ?c (es ! i) = Some x \<and> cached_map x \<noteq> None
     \<and> entry_next x = (if Suc i < length es then Some (es ! Suc i) else None)" if "i < length es" for i
    using Cons.prems(2) [rule_format, of "Suc i"] Cons.prems(1) that by (auto simp: nth_eq_iff_index_eq)
  with Cons have IH: "free_entries (if es = [] then None else Some (hd es)) ?c
    = Some (Inr ((), ?c\<lparr>entry_at := (entry_at ?c) |` (- set es)\<rparr>))" by auto
  obtain x where x: "entry_at c e = Some x" "cached_map x \<noteq> None" "entry_next x = (if es = [] then None else Some (hd es))"
    using Cons.prems(2) [rule_format, of 0] by (cases es) auto
  have "((entry_at c)(e := None)) |` (- set es) = (entry_at c) |` (- set (e # es))"
    by (auto simp: restrict_map_def fun_eq_iff)
  with IH x show ?case by (subst free_entries.simps) simp
qed

text \<open>The push of a request into the backlog of a new entry.\<close>

lemma first_push:
  assumes "\<nexists>rest. malloc_script h = False # rest"
  shows "\<exists>b h'. tc_task_backlog_push tc_task_backlog_initialize req h = Inr ((True, b), h')"
  by (rule block_new_cases [of h]) (use assms in \<open>auto simp: push_simps tc_task_backlog_initialize_def\<close>)

lemma failed_push_leaves_empty:
  assumes "tc_task_backlog_push tc_task_backlog_initialize req h = Inr ((False, b), h')"
  shows "tc_task_backlog_finalize b h' = Some (Inr ((), h'))"
  using assms by (cases rule: block_new_cases [of h])
    (auto simp: push_simps tc_task_backlog_initialize_def tc_task_backlog_finalize_def free_blocks.simps)

text \<open>
  Everything \<open>tc_map_cache_schedule_open\<close> does when its allocations succeed and the name is not in
  the tree, up to the answer of the pool.
\<close>

definition open_inputs :: "('f, 'c, 'x) cache_sys \<Rightarrow> (nat \<times> tc_map_cache_entry) list \<Rightarrow> bool list \<Rightarrow> bool" where
  "open_inputs s L mem \<longleftrightarrow> cache_abs (sched_world (sched s)) L \<and> id_to_index (sched_world (sched s)) = []
     \<and> \<not> cache_writer (sched_world (sched s)) \<and> cache_readers (sched_world (sched s)) = 0
     \<and> next_entry (sched_world (sched s)) \<notin> fst ` set L \<and> list_all id mem
     \<and> (\<forall>rest. malloc_script (blocks s) \<noteq> False # rest)"

definition load_request :: "('f, 'c, 'x) cache_sys \<Rightarrow> cstring \<Rightarrow> (nat, 'c cache_context) tc_task_backlog_args" where
  "load_request s name = \<lparr>args_result = next_entry (sched_world (sched s)), args_context = LoadArgs name\<rparr>"

lemma schedule_open_run:
  fixes s :: "('f, 'c, 'x) cache_sys"
  assumes i: "open_inputs s L mem"
    and p: "tc_thread_schedule_new (sched_pool (sched s)) load_task (load_request s name) PRIORITY_BLOCKING (-1) = Inr (ok, p)"
  shows "\<exists>c1 x b h. cache_abs c1 ((next_entry (sched_world (sched s)), x) # L) \<and> id_to_index c1 = [] \<and> cache_writer c1
    \<and> entry_locked x \<and> entry_key x = name \<and> \<not> is_loaded x \<and> is_referenced x \<and> open_count x = 0
    \<and> tc_map_cache_schedule_open load_task entry_size mem name req prio s
      = (let s1 = s\<lparr>blocks := h, sched := (sched s)\<lparr>sched_world := c1, sched_pool := p\<rparr>\<rparr> in
         if ok then thenC (on_cache (unlock_entry (Some (next_entry (sched_world (sched s)))))) (on_cache cache_writer_unlock) s1
         else thenC (on_cache (tc_map_cache_unlink_entry (next_entry (sched_world (sched s)))))
           (thenC (on_cache (unlock_entry (Some (next_entry (sched_world (sched s))))))
           (thenC (on_cache (free_entry (next_entry (sched_world (sched s)))))
             (thenC (on_cache cache_writer_unlock) (fail_open req)))) s1)"
proof -
  define c e where "c = sched_world (sched s)" and "e = next_entry c"
  note I = i [unfolded open_inputs_def, folded c_def, folded e_def]
  obtain b h where b: "tc_task_backlog_push tc_task_backlog_initialize req (blocks s) = Inr ((True, b), h)"
    using first_push [of "blocks s" req] I by blast
  define x where "x = (new_entry entry_size name)\<lparr>entry_backlog := b, entry_locked := True\<rparr>"
  let ?c0 = "c\<lparr>cache_readers := 0, cache_writer := True, next_entry := Suc e, entry_at := (entry_at c)(e \<mapsto> x)\<rparr>"
  have "linked ?c0 (map fst L) i = linked c (map fst L) i" if "i < length L" for i
    using that I by (auto simp: linked_def)
  then have "cache_abs ?c0 L" using I by (auto simp: cache_abs_def cache_list_def holds_def)
  from link_entry_abs [OF this, of e x] I obtain c1 where c1: "tc_map_cache_link_entry e ?c0 = Inr ((), c1)"
    "cache_abs c1 ((e, unlinked x) # L)" "id_to_index c1 = []" "cache_writer c1" by (auto simp: x_def new_entry_def)
  have x: "entry_locked x" "entry_key x = name" "\<not> is_loaded x" "is_referenced x" "open_count x = 0"
    by (simp_all add: x_def new_entry_def)
  have "tc_map_cache_schedule_open load_task entry_size mem name req prio s
      = (let s1 = s\<lparr>blocks := h, sched := (sched s)\<lparr>sched_world := c1, sched_pool := p\<rparr>\<rparr> in
         if ok then thenC (on_cache (unlock_entry (Some e))) (on_cache cache_writer_unlock) s1
         else thenC (on_cache (tc_map_cache_unlink_entry e)) (thenC (on_cache (unlock_entry (Some e)))
           (thenC (on_cache (free_entry e)) (thenC (on_cache cache_writer_unlock) (fail_open req)))) s1)"
    using I b c1(1) p unfolding x_def
    by (simp add: tc_map_cache_schedule_open_def schedule_load_def backlog_push_entry_def alloc_entry_def
        on_cache_def on_blocks_def on_sched_def on_pool_def cache_reader_lock_def cache_reader_unlock_def
        cache_writer_lock_def index_lookup_def load_entry_def upd_entry_def lock_entry_def run_simps
        new_entry_def load_request_def Let_def c_def [symmetric] e_def [symmetric])
  with c1 x show ?thesis unfolding c_def [symmetric] e_def [symmetric]
    by (intro exI [of _ c1] exI [of _ "unlinked x"] exI [of _ h]) auto
qed

section \<open>A sample cache\<close>

text \<open>One loaded map that nobody has open, in a cache over its threshold.\<close>

definition sample_cached :: "pint32 \<Rightarrow> bool \<Rightarrow> tc_map_cache_entry" where
  "sample_cached n r = \<lparr>cached_map = Some demo_map, entry_backlog = tc_task_backlog_initialize, entry_memory_usage = 80,
     open_count = n, is_referenced = r, is_loaded = True, entry_locked = False, entry_key = bytes_of ''lobby'',
     entry_next = None, entry_prev = None\<rparr>"

definition sample_cache :: "tc_map_cache_entry \<Rightarrow> unit tc_map_cache" where
  "sample_cache x = \<lparr>entry_at = [0 \<mapsto> x], next_entry = 1, id_to_index = [], cache_head = Some 0, cache_tail = Some 0,
     clock_hand = None, num_entries = 1, cache_readers = 0, cache_writer = False, cache_memory_usage = 100,
     memory_usage_threshold = 50, outside = ()\<rparr>"

lemma sample_cache_abs: "cache_abs (sample_cache (sample_cached n r)) [(0, sample_cached n r)]"
  by (simp add: cache_abs_def cache_list_def linked_def holds_def sample_cache_def sample_cached_def unlinked_def)

lemma sample_ready: "ready (0, sample_cached n r)"
  by (simp add: ready_def sample_cached_def)

definition sample_cache_sys :: "(nat, nat, unit) cache_sys" where
  "sample_cache_sys = \<lparr>sched = \<lparr>sched_pool = pool_of demo_start, sched_world = sample_cache (sample_cached 1 True),
     sched_mallocs = [], live_args = 0\<rparr>, blocks = \<lparr>block_at = (\<lambda>_. None), next_address = 0, malloc_script = []\<rparr>\<rparr>"

definition sample_request :: "(nat, nat, unit) open_request" where
  "sample_request = \<lparr>success_handler = 1, failure_handler = (\<lambda>c g w. w), entry_context = UserContext 5,
     entry_priority = PRIORITY_LOW, entry_generation = 1\<rparr>"

lemma sample_open_inputs: "open_inputs sample_cache_sys [(0, sample_cached 1 True)] [True, True, True, True]"
  using sample_cache_abs [of 1 True]
  by (simp add: open_inputs_def sample_cache_sys_def) (simp add: sample_cache_def)

section \<open>Properties\<close>

text \<open>
  [C27] On a cache whose maps are loaded and unlocked, \<open>tc_map_cache_evict\<close> returns and has made one
  pass of the clock algorithm over the list from its tail: the linked structure on the heap holds
  exactly the list that the pass \<open>evict_pass\<close> leaves, and the counted memory is that of the pass.
\<close>

theorem evict_is_one_clock_pass:
  assumes abs: "cache_abs c L" and r: "\<forall>p \<in> set L. ready p"
  shows "\<exists>c'. tc_map_cache_evict c = Inr ((), c')
    \<and> cache_abs c' (rev (fst (evict_pass (memory_usage_threshold c) (cache_memory_usage c) (rev L))))
    \<and> cache_memory_usage c' = snd (evict_pass (memory_usage_threshold c) (cache_memory_usage c) (rev L))"
proof (cases "L = []")
  case True
  then show ?thesis using abs by (simp add: tc_map_cache_evict_def cache_abs_def cache_list_def run_simps)
next
  case False
  let ?c = "if clock_hand c = None then c\<lparr>clock_hand := cache_head c\<rparr> else c"
  have "cache_abs ?c (L @ [])" using abs by simp
  from evict_loop_pass [OF this r] False abs show ?thesis
    by (auto simp: tc_map_cache_evict_def cache_abs_def cache_list_def last_map run_simps split: if_splits)
qed

theorem evict_is_one_clock_pass_witness:
  "\<exists>c'. tc_map_cache_evict (sample_cache (sample_cached 0 False)) = Inr ((), c') \<and> cache_abs c' []
    \<and> cache_memory_usage c' = 20"
  using evict_is_one_clock_pass [OF sample_cache_abs [of 0 False]] sample_ready [of 0 False]
  by (simp add: sample_cache_def sample_cached_def)



text \<open>
  The eviction never unlocks a closed map whose mark it clears: after a pass over maps that are
  all closed and marked, the first \<open>tc_map_ref\<close> of any of them deadlocks.
\<close>

theorem eviction_leaves_maps_locked:
  assumes abs: "cache_abs c L" and r: "\<forall>p \<in> set L. ready p \<and> open_count (snd p) = 0 \<and> is_referenced (snd p)"
    and e: "e \<in> fst ` set L"
  shows "\<exists>c'. tc_map_cache_evict c = Inr ((), c') \<and> tc_map_ref e c' = Inl SelfDeadlock"
proof -
  have "L \<noteq> []" using e by auto
  let ?c = "if clock_hand c = None then c\<lparr>clock_hand := cache_head c\<rparr> else c"
  have pass: "fst (evict_pass t m xs) = map (\<lambda>(e, x). (e, x\<lparr>entry_locked := True, is_referenced := False\<rparr>)) xs"
    if "\<forall>p \<in> set xs. open_count (snd p) = 0 \<and> is_referenced (snd p)" for t m xs
    using that by (induction xs) (auto split: prod.splits)
  have "cache_abs ?c (L @ [])" "\<forall>p \<in> set L. ready p" using abs r by auto
  from evict_loop_pass [OF this] obtain c' where c': "evict_loop (length L) (Some (fst (last L))) ?c = Inr ((), c')"
    "cache_abs c' (rev (fst (evict_pass (memory_usage_threshold ?c) (cache_memory_usage ?c) (rev L))))"
    using \<open>L \<noteq> []\<close> by auto
  have run: "tc_map_cache_evict c = Inr ((), c')"
    using c'(1) abs \<open>L \<noteq> []\<close> by (auto simp: tc_map_cache_evict_def cache_abs_def cache_list_def last_map run_simps split: if_splits)
  obtain x where "(e, x) \<in> set L" using e by auto
  then have "(e, x\<lparr>entry_locked := True, is_referenced := False\<rparr>)
    \<in> set (rev (fst (evict_pass (memory_usage_threshold ?c) (cache_memory_usage ?c) (rev L))))"
    using pass [of "rev L"] r by force
  then have "holds c' (e, x\<lparr>entry_locked := True, is_referenced := False\<rparr>)"
    using c'(2) unfolding cache_abs_def by blast
  then obtain z where "entry_at c' e = Some z" "unlinked z = x\<lparr>entry_locked := True, is_referenced := False\<rparr>"
    by (auto simp: holds_def)
  moreover from this(2) have "entry_locked z" using unlinked_simps(6) [of z] by simp
  ultimately have "\<exists>x. entry_at c' e = Some x \<and> entry_locked x" by blast
  with run show ?thesis by (auto simp: tc_map_ref_def lock_entry_def load_entry_def run_simps)
qed

theorem eviction_leaves_maps_locked_witness:
  "\<exists>c'. tc_map_cache_evict (sample_cache (sample_cached 0 True)) = Inr ((), c') \<and> tc_map_ref 0 c' = Inl SelfDeadlock"
  using eviction_leaves_maps_locked [OF sample_cache_abs [of 0 True], of 0] sample_ready [of 0 True]
  by (simp add: sample_cached_def)

text \<open>
  \<open>tc_map_cache_evict\<close> unlocks the wrong entry when it meets a map that is still being loaded: with
  that map alone in the list there is no previous entry and the pass dereferences a null pointer.
\<close>

theorem evict_stops_at_loading_map:
  assumes abs: "cache_abs c [(e, x)]" and x: "\<not> is_loaded x" "\<not> entry_locked x"
  shows "tc_map_cache_evict c = Inl NullDereference"
proof -
  let ?c = "if clock_hand c = None then c\<lparr>clock_hand := cache_head c\<rparr> else c"
  have "cache_abs ?c ([] @ (e, x) # [])" using abs by simp
  from lock_entry_abs [OF this x(2)] obtain c1 y where c1: "lock_entry (Some e) ?c = Inr ((), c1)"
    "load_entry (Some e) c1 = Inr (y, c1)" "unlinked y = x\<lparr>entry_locked := True\<rparr>" "entry_prev y = None" by auto
  have "\<not> is_loaded y" using x(1) arg_cong [OF c1(3), of is_loaded] by simp
  with c1 abs show ?thesis
    by (auto simp: tc_map_cache_evict_def cache_abs_def cache_list_def run_simps unlock_entry_def load_entry_def split: if_splits)
qed

theorem evict_stops_at_loading_map_witness:
  "tc_map_cache_evict (sample_cache ((sample_cached 0 True)\<lparr>is_loaded := False\<rparr>)) = Inl NullDereference"
  by (rule evict_stops_at_loading_map [of _ 0 "(sample_cached 0 True)\<lparr>is_loaded := False\<rparr>"])
    (simp_all add: cache_abs_def cache_list_def linked_def holds_def sample_cache_def sample_cached_def unlinked_def)

text \<open>
  \<open>tc_map_cache_finalize\<close> terminates and frees every entry of the list exactly once, when every map
  is loaded.
\<close>

theorem cache_finalize_frees_all:
  assumes "cache_abs c L" and "\<forall>p \<in> set L. cached_map (snd p) \<noteq> None"
  shows "tc_map_cache_finalize c = Some (Inr ((), c\<lparr>entry_at := (entry_at c) |` (- fst ` set L)\<rparr>))"
proof -
  let ?es = "map fst L"
  have "\<exists>x. entry_at c (?es ! i) = Some x \<and> cached_map x \<noteq> None
     \<and> entry_next x = (if Suc i < length ?es then Some (?es ! Suc i) else None)" if i: "i < length ?es" for i
  proof -
    obtain x where x: "entry_at c (?es ! i) = Some x" "entry_next x = (if Suc i < length ?es then Some (?es ! Suc i) else None)"
      using assms(1) i unfolding cache_abs_def cache_list_def linked_def by blast
    have "L ! i \<in> set L" using i by simp
    then have "holds c (L ! i)" "cached_map (snd (L ! i)) \<noteq> None" using assms by (auto simp: cache_abs_def)
    then have "cached_map (unlinked x) \<noteq> None" using x(1) i by (simp add: holds_def)
    with x show ?thesis by auto
  qed
  from free_entries_list [of ?es c] this assms(1) show ?thesis
    by (auto simp: tc_map_cache_finalize_def cache_abs_def cache_list_def hd_map split: if_splits)
qed

theorem cache_finalize_frees_all_witness:
  "tc_map_cache_finalize (sample_cache (sample_cached 0 True))
    = Some (Inr ((), (sample_cache (sample_cached 0 True))\<lparr>entry_at := entry_at (sample_cache (sample_cached 0 True)) |` (- {0})\<rparr>))"
  using cache_finalize_frees_all [OF sample_cache_abs [of 0 True]] by (simp add: sample_cached_def)



text \<open>
  When the pool refuses the load task, which it does in every call after the server began to
  shut down, \<open>tc_map_cache_schedule_open\<close> uses the entry that \<open>tc_map_cache_unlink_entry\<close> has already
  freed.
\<close>

theorem refused_open_uses_freed_entry:
  fixes s :: "('f, 'c, 'x) cache_sys"
  assumes i: "open_inputs s L mem" and p: "shutdown (sched_pool (sched s))"
  shows "tc_map_cache_schedule_open load_task entry_size mem name req prio s = Inl UseAfterFree"
proof -
  let ?e = "next_entry (sched_world (sched s))"
  have "tc_thread_schedule_new (sched_pool (sched s)) load_task (load_request s name) PRIORITY_BLOCKING (-1)
    = Inr (False, sched_pool (sched s))" using p by (simp add: tc_thread_schedule_new_def)
  from schedule_open_run [OF i this, of entry_size req prio] obtain c1 x h where
    c1: "cache_abs c1 ((?e, x) # L)" "entry_locked x"
    and run: "tc_map_cache_schedule_open load_task entry_size mem name req prio s
      = thenC (on_cache (tc_map_cache_unlink_entry ?e)) (thenC (on_cache (unlock_entry (Some ?e)))
           (thenC (on_cache (free_entry ?e)) (thenC (on_cache cache_writer_unlock) (fail_open req))))
          (s\<lparr>blocks := h, sched := (sched s)\<lparr>sched_world := c1, sched_pool := sched_pool (sched s)\<rparr>\<rparr>)"
    by (auto simp: Let_def)
  have l: "cache_list c1 (?e # map fst L)" using c1(1) by (simp add: cache_abs_def)
  obtain z where z: "entry_at c1 ?e = Some z" "unlinked z = x" using c1(1) by (auto simp: cache_abs_def holds_def)
  have k: "entry_locked z" using z(2) c1(2) by auto
  from unlink_entry_list [OF l _ z(1) k] obtain c2 where "tc_map_cache_unlink_entry ?e c1 = Inr ((), c2)"
    "entry_at c2 = without_entry ?e z (entry_at c1)" by auto
  then show ?thesis using run by (simp add: on_cache_def unlock_entry_def load_entry_def without_entry_def run_simps)
qed

theorem refused_open_uses_freed_entry_witness:
  "tc_map_cache_schedule_open 3 64 [True, True, True, True] (bytes_of ''lobby'') sample_request PRIORITY_LOW
     (sample_cache_sys\<lparr>sched := (sched sample_cache_sys)\<lparr>sched_pool := pool_of demo_exited\<rparr>\<rparr>) = Inl UseAfterFree"
proof -
  have "shutdown (pool_of (demo_exited :: (nat, (nat, nat cache_context) tc_task_backlog_args) pool_system))" by code_simp
  then show ?thesis using sample_open_inputs
    by (intro refused_open_uses_freed_entry [where L = "[(0, sample_cached 1 True)]"]) (simp_all add: open_inputs_def)
qed

end
