(* ===== verification/TC_Api.thy ===== *)
theory TC_Api
  imports TC_Joinable TC_Map_Cache Complex_Main "HOL-Library.Log_Nat"
begin

text \<open>
  Sending a map to a client, \<^verbatim>\<open>src/api.c\<close>: the request, the compression on a worker once the map
  is loaded, the packets that describe the environment, and the task that sends one chunk of the
  compressed blocks and schedules itself again.

  The tasks run on the state of the map cache; what they need besides, the server with its sessions
  and sockets and the two structs they allocate, is the part \<open>outside\<close> of the cache. The pool they
  schedule on is that of the cache state. A task whose argument is a plain pointer carries it as
  the context. Handlers of the caller of \<open>tc_api_schedule_send_map\<close> are numbers; \<open>F\<close> gives what a
  failure handler does. An acquire or release handler changes the entry at once, without waiting for
  its lock.
\<close>

section \<open>Floats\<close>

text \<open>
  Single precision with rounding to the nearest, ties to even, for the magnitudes that occur here
  (no overflow, no subnormal results).
\<close>

definition round_half_even :: "rat \<Rightarrow> int" where
  "round_half_even q = (let f = \<lfloor>q\<rfloor>; d = q - of_int f
     in if d < 1 / 2 then f else if d > 1 / 2 then f + 1 else if even f then f else f + 1)"

definition scale :: "rat \<Rightarrow> int \<Rightarrow> rat" where
  "scale q e = (if e \<ge> 0 then q * 2 ^ nat e else q / 2 ^ nat (- e))"

definition float_round :: "rat \<Rightarrow> rat" where
  "float_round q =
     (if q \<le> 0 then 0
      else let (n, d) = quotient_of q; e = bitlen n - bitlen d - 24;
               e = (if scale q (- e) \<ge> 2 ^ 24 then e + 1 else e)
           in scale (of_int (round_half_even (scale q (- e)))) e)"

text \<open>The value of \<open>(pchar)((float)sent * 100.0f / (float)size)\<close>.\<close>

definition percent_of :: "nat \<Rightarrow> nat \<Rightarrow> pchar" where
  "percent_of sent whole = of_int \<lfloor>float_round (float_round (float_round (of_nat sent) * 100) / float_round (of_nat whole))\<rfloor>"

text \<open>
  \<open>(pint32)(f * 2^k)\<close> for a float given by its bits: the product is exact, the conversion cuts
  towards zero.
\<close>

definition float_scaled :: "pfloat \<Rightarrow> nat \<Rightarrow> pint32 outcome" where
  "float_scaled f k =
     (let ex = unat (drop_bit 23 f AND 0xFF); fr = uint (f AND 0x7FFFFF);
          m = (if ex = 0 then fr else 2 ^ 23 + fr); p = max 1 ex + k;
          v = (if p \<ge> 150 then m * 2 ^ (p - 150) else m div 2 ^ (150 - p));
          w = (if bit f 31 then - v else v)
      in if ex = 255 \<or> w < - (2 ^ 31) \<or> w \<ge> 2 ^ 31 then Inl BadConversion else Inr (of_int w))"

section \<open>State\<close>

datatype send_task =
    MapCacheLoadTask
  | OnMapLoadSuccess
  | SendMapTask2
  | SendBufferTask
  | SendBufferHandleFailure
  | ServerTask tc_task
  | ClientTask nat

datatype send_context = SendMapData nat | SendBufferData nat | ClientContext nat

text \<open>The \<open>tc_task_backlog_entry_t\<close> of the caller.\<close>

record client_request =
  req_success :: nat
  req_failure :: nat
  req_context :: nat
  req_priority :: tc_thread_pool_task_priority
  req_generation :: int

record tc_send_map_data =
  sd_session :: nat
  sd_file_name :: cstring
  sd_map :: "nat option"
  sd_schedule_info :: client_request
  sd_block_array_buffer :: send_buffer
  sd_block_array2_buffer :: send_buffer

record tc_send_buffer_task_data =
  send_map_data :: nat
  sent_count :: nat
  send_main_buffer :: bool

text \<open>\<open>map_readers\<close> counts the readers of the lock of each map.\<close>

record send_world =
  send_server :: tc_server
  map_data_at :: "nat \<Rightarrow> tc_send_map_data option"
  next_map_data :: nat
  buffer_data_at :: "nat \<Rightarrow> tc_send_buffer_task_data option"
  next_buffer_data :: nat
  map_readers :: "nat \<Rightarrow> nat"
  send_mallocs :: "bool list"

type_synonym send_sys = "(send_task, send_context, send_world) cache_sys"
type_synonym send_args = "(nat, send_context cache_context) tc_task_backlog_args"
type_synonym client_failures = "nat \<Rightarrow> nat \<Rightarrow> int \<Rightarrow> send_world tc_map_cache \<Rightarrow> send_world tc_map_cache"

definition plain_arg :: "send_context \<Rightarrow> send_args" where
  "plain_arg c = \<lparr>args_result = 0, args_context = UserContext c\<rparr>"

definition on_outside :: "(send_world, 'a) cm \<Rightarrow> (send_sys, 'a) cm" where
  "on_outside m = on_cache (\<lambda>c. case m (outside c) of Inl f \<Rightarrow> Inl f | Inr (a, w) \<Rightarrow> Inr (a, c\<lparr>outside := w\<rparr>))"

definition on_server :: "(tc_server, 'a) cm \<Rightarrow> (send_sys, 'a) cm" where
  "on_server m = on_outside (\<lambda>w. case m (send_server w) of Inl f \<Rightarrow> Inl f | Inr (a, s) \<Rightarrow> Inr (a, w\<lparr>send_server := s\<rparr>))"

definition load_map_data :: "nat \<Rightarrow> (send_sys, tc_send_map_data) cm" where
  "load_map_data d = on_outside (\<lambda>w. case map_data_at w d of None \<Rightarrow> Inl UseAfterFree | Some x \<Rightarrow> Inr (x, w))"

definition store_map_data :: "nat \<Rightarrow> tc_send_map_data option \<Rightarrow> (send_sys, unit) cm" where
  "store_map_data d x = on_outside (modifyC (\<lambda>w. w\<lparr>map_data_at := (map_data_at w)(d := x)\<rparr>))"

definition load_buffer_data :: "nat \<Rightarrow> (send_sys, tc_send_buffer_task_data) cm" where
  "load_buffer_data b = on_outside (\<lambda>w. case buffer_data_at w b of None \<Rightarrow> Inl UseAfterFree | Some x \<Rightarrow> Inr (x, w))"

definition store_buffer_data :: "nat \<Rightarrow> tc_send_buffer_task_data option \<Rightarrow> (send_sys, unit) cm" where
  "store_buffer_data b x = on_outside (modifyC (\<lambda>w. w\<lparr>buffer_data_at := (buffer_data_at w)(b := x)\<rparr>))"

definition send_malloc :: "(send_sys, bool) cm" where
  "send_malloc = on_outside (\<lambda>w. case send_mallocs w of [] \<Rightarrow> Inr (True, w) | ok # rest \<Rightarrow> Inr (ok, w\<lparr>send_mallocs := rest\<rparr>))"

text \<open>The lock of a map; nobody holds it for writing in the functions modelled here.\<close>

definition map_reader_lock :: "nat \<Rightarrow> (send_sys, unit) cm" where
  "map_reader_lock e = on_outside (modifyC (\<lambda>w. w\<lparr>map_readers := (map_readers w)(e := map_readers w e + 1)\<rparr>))"

definition map_reader_unlock :: "nat \<Rightarrow> (send_sys, unit) cm" where
  "map_reader_unlock e = on_outside (\<lambda>w. if map_readers w e = 0 then Inl UnlockNotHeld
     else Inr ((), w\<lparr>map_readers := (map_readers w)(e := map_readers w e - 1)\<rparr>))"

text \<open>The map an entry holds.\<close>

definition read_map :: "nat \<Rightarrow> (send_sys, tc_map) cm" where
  "read_map e = bindC (on_cache (load_entry (Some e))) (\<lambda>x. case cached_map x of None \<Rightarrow> faultC Uninitialised | Some m \<Rightarrow> retC m)"

definition need_map :: "tc_send_map_data \<Rightarrow> (send_sys, nat) cm" where
  "need_map x = (case sd_map x of None \<Rightarrow> faultC NullDereference | Some e \<Rightarrow> retC e)"

definition extension_version :: "nat \<Rightarrow> int \<Rightarrow> (send_sys, int) cm" where
  "extension_version sid i = on_server (bindC (get_session sid) (\<lambda>x. retC (tc_session_get_extension_version x i)))"

definition request_entry :: "client_failures \<Rightarrow> client_request \<Rightarrow> (send_task, send_context, send_world) open_request" where
  "request_entry F r = \<lparr>success_handler = ClientTask (req_success r),
     failure_handler = (\<lambda>c g w. case c of UserContext (ClientContext n) \<Rightarrow> F (req_failure r) n g w | _ \<Rightarrow> w),
     entry_context = UserContext (ClientContext (req_context r)), entry_priority = req_priority r,
     entry_generation = req_generation r\<rparr>"

section \<open>The end of a transfer\<close>

definition free_send_map_data :: "nat \<Rightarrow> (send_sys, unit) cm" where
  "free_send_map_data d = bindC (load_map_data d) (\<lambda>x.
     thenC (case sd_map x of None \<Rightarrow> retC () | Some e \<Rightarrow> on_cache (tc_map_unref e)) (store_map_data d None))"

definition handle_success :: "client_failures \<Rightarrow> nat \<Rightarrow> tc_thread_pool_task_priority \<Rightarrow> (send_sys, unit) cm" where
  "handle_success F d current_priority = bindC (load_map_data d) (\<lambda>x.
     thenC (on_server (tc_session_release_action_lock (sd_session x))) (bindC (need_map x) (\<lambda>e.
     thenC (map_reader_unlock e)
     (thenC (on_sched (tc_task_backlog_invoke_handler (request_entry F (sd_schedule_info x)) None
         (Some tc_map_nolock_unref) (Some e) current_priority))
       (free_send_map_data d)))))"

definition handle_failure :: "client_failures \<Rightarrow> nat \<Rightarrow> bool \<Rightarrow> (send_sys, unit) cm" where
  "handle_failure F d release_lock = bindC (load_map_data d) (\<lambda>x.
     thenC (whenC release_lock (on_server (tc_session_release_action_lock (sd_session x))))
     (thenC (case sd_map x of None \<Rightarrow> retC () | Some e \<Rightarrow> map_reader_unlock e)
     (thenC (fail_open (request_entry F (sd_schedule_info x))) (free_send_map_data d))))"

definition tc_send_buffer_handle_failure :: "client_failures \<Rightarrow> nat \<Rightarrow> (send_sys, unit) cm" where
  "tc_send_buffer_handle_failure F b = bindC (load_buffer_data b) (\<lambda>y.
     thenC (handle_failure F (send_map_data y) True) (store_buffer_data b None))"

section \<open>Sending a chunk\<close>

definition TC_CPE_BLOCK_DEFINITIONS_EXTENSION_INDEX :: int where "TC_CPE_BLOCK_DEFINITIONS_EXTENSION_INDEX = 1"
definition TC_CPE_EXTENDED_BLOCKS_EXTENSION_INDEX :: int where "TC_CPE_EXTENDED_BLOCKS_EXTENSION_INDEX = 2"
definition TC_CPE_FASTMAP_EXTENSION_INDEX :: int where "TC_CPE_FASTMAP_EXTENSION_INDEX = 5"
definition TC_CPE_ENV_MAP_APPEARANCE_EXTENSION_INDEX :: int where "TC_CPE_ENV_MAP_APPEARANCE_EXTENSION_INDEX = 6"
definition TC_CPE_ENV_MAP_WEATHER_TYPE_EXTENSION_INDEX :: int where "TC_CPE_ENV_MAP_WEATHER_TYPE_EXTENSION_INDEX = 7"
definition TC_CPE_ENV_MAP_COLORS_EXTENSION_INDEX :: int where "TC_CPE_ENV_MAP_COLORS_EXTENSION_INDEX = 8"
definition TC_CPE_ENV_MAP_ASPECT_EXTENSION_INDEX :: int where "TC_CPE_ENV_MAP_ASPECT_EXTENSION_INDEX = 9"

definition send_schedule_next :: "send_task \<Rightarrow> send_task \<Rightarrow> send_context \<Rightarrow> tc_thread_pool_task_priority \<Rightarrow> int \<Rightarrow> (send_sys, unit) cm" where
  "send_schedule_next next_task shutdown_task c prio gen = on_sched (\<lambda>t.
     case tc_thread_schedule_next (sched_pool t) next_task (Some shutdown_task) (plain_arg c) prio gen of
       Inl f \<Rightarrow> Inl f
     | Inr p \<Rightarrow> Inr ((), t\<lparr>sched_pool := p\<rparr>))"

text \<open>The 1024 bytes of \<open>current_chunk\<close> and their length; \<open>memcpy\<close> reads the buffer.\<close>

definition next_chunk :: "send_buffer \<Rightarrow> nat \<Rightarrow> (nat \<times> cstring) outcome" where
  "next_chunk buf sent =
     (let chunk_length = min 1024 (sb_size buf - sent)
      in if chunk_length = 0 then Inr (0, replicate 1024 0)
         else case sb_data buf of
                None \<Rightarrow> Inl NullDereference
              | Some bs \<Rightarrow>
                  if length bs < sent + chunk_length then Inl OutOfBounds
                  else Inr (chunk_length, take chunk_length (drop sent bs) @ replicate (1024 - chunk_length) 0))"

definition percent_complete :: "bool \<Rightarrow> bool \<Rightarrow> nat \<Rightarrow> nat \<Rightarrow> pchar outcome" where
  "percent_complete ext main sent whole =
     (if ext then Inr (if main then 0 else 1)
      else if whole = 0 then Inl BadConversion
      else Inr (percent_of sent whole))"

definition selected_buffer :: "tc_send_map_data \<Rightarrow> bool \<Rightarrow> send_buffer" where
  "selected_buffer x main = (if main then sd_block_array_buffer x else sd_block_array2_buffer x)"

text \<open>The part of the task after a chunk of \<open>l\<close> bytes was sent; \<open>n\<close> is the size of the buffer.\<close>

definition after_chunk :: "client_failures \<Rightarrow> nat \<Rightarrow> tc_send_buffer_task_data \<Rightarrow> tc_send_map_data \<Rightarrow> nat \<Rightarrow> nat
    \<Rightarrow> tc_thread_pool_task_priority \<Rightarrow> int \<Rightarrow> (send_sys, unit) cm" where
  "after_chunk F b y x l n prio gen =
     thenC (store_buffer_data b (Some (y\<lparr>sent_count := sent_count y + l\<rparr>)))
       (if sent_count y + l \<ge> n then
          bindC (need_map x) (\<lambda>e. bindC (read_map e) (\<lambda>m.
          if send_main_buffer y \<and> block_array2 m \<noteq> None then
            thenC (store_buffer_data b (Some (y\<lparr>sent_count := 0, send_main_buffer := False\<rparr>)))
              (send_schedule_next SendBufferTask SendBufferHandleFailure (SendBufferData b) (req_priority (sd_schedule_info x)) gen)
          else
            bindC (on_server (on_socket (sd_session x)
                (tc_protocol_send_level_finalize (x_size m) (y_size m) (z_size m)))) (\<lambda>finalized.
            thenC (if \<not> finalized then handle_failure F (send_map_data y) True
                   else handle_success F (send_map_data y) prio)
              (store_buffer_data b None))))
        else send_schedule_next SendBufferTask SendBufferHandleFailure (SendBufferData b) (req_priority (sd_schedule_info x)) gen)"

definition tc_send_buffer_task :: "client_failures \<Rightarrow> nat \<Rightarrow> tc_thread_pool_task_priority \<Rightarrow> int \<Rightarrow> (send_sys, unit) cm" where
  "tc_send_buffer_task F b prio gen = bindC (load_buffer_data b) (\<lambda>y.
     bindC (load_map_data (send_map_data y)) (\<lambda>x.
     thenC (tc_assert (\<lambda>_. prio = req_priority (sd_schedule_info x)))
     (let buf = selected_buffer x (send_main_buffer y) in
     bindC (liftC (next_chunk buf (sent_count y))) (\<lambda>(chunk_length, current_chunk).
     bindC (extension_version (sd_session x) TC_CPE_EXTENDED_BLOCKS_EXTENSION_INDEX) (\<lambda>v.
     bindC (liftC (percent_complete (v > 0) (send_main_buffer y) (sent_count y) (sb_size buf))) (\<lambda>percent.
     bindC (on_server (on_socket (sd_session x)
         (tc_protocol_send_level_data_chunk (of_nat chunk_length) current_chunk percent))) (\<lambda>sent.
     if \<not> sent then thenC (handle_failure F (send_map_data y) True) (store_buffer_data b None)
     else after_chunk F b y x chunk_length (sb_size buf) prio gen)))))))"

section \<open>The environment of the map\<close>

definition TC_CPE_MAP_ENV_PROPERTY_SIDE_BLOCK :: pchar where "TC_CPE_MAP_ENV_PROPERTY_SIDE_BLOCK = 0"
definition TC_CPE_MAP_ENV_PROPERTY_EDGE_BLOCK :: pchar where "TC_CPE_MAP_ENV_PROPERTY_EDGE_BLOCK = 1"
definition TC_CPE_MAP_ENV_PROPERTY_EDGE_HEIGHT :: pchar where "TC_CPE_MAP_ENV_PROPERTY_EDGE_HEIGHT = 2"
definition TC_CPE_MAP_ENV_PROPERTY_CLOUDS_HEIGHT :: pchar where "TC_CPE_MAP_ENV_PROPERTY_CLOUDS_HEIGHT = 3"
definition TC_CPE_MAP_ENV_PROPERTY_MAX_VIEW_DISTANCE :: pchar where "TC_CPE_MAP_ENV_PROPERTY_MAX_VIEW_DISTANCE = 4"
definition TC_CPE_MAP_ENV_PROPERTY_CLOUDS_SPEED :: pchar where "TC_CPE_MAP_ENV_PROPERTY_CLOUDS_SPEED = 5"
definition TC_CPE_MAP_ENV_PROPERTY_WEATHER_SPEED :: pchar where "TC_CPE_MAP_ENV_PROPERTY_WEATHER_SPEED = 6"
definition TC_CPE_MAP_ENV_PROPERTY_WEATHER_FADE :: pchar where "TC_CPE_MAP_ENV_PROPERTY_WEATHER_FADE = 7"
definition TC_CPE_MAP_ENV_PROPERTY_USE_EXPONENTIAL_FOG :: pchar where "TC_CPE_MAP_ENV_PROPERTY_USE_EXPONENTIAL_FOG = 8"
definition TC_CPE_MAP_ENV_PROPERTY_SIDE_OFFSET :: pchar where "TC_CPE_MAP_ENV_PROPERTY_SIDE_OFFSET = 9"
definition TC_CPE_ENV_COLOR_SKY :: pchar where "TC_CPE_ENV_COLOR_SKY = 0"
definition TC_CPE_ENV_COLOR_CLOUD :: pchar where "TC_CPE_ENV_COLOR_CLOUD = 1"
definition TC_CPE_ENV_COLOR_FOG :: pchar where "TC_CPE_ENV_COLOR_FOG = 2"
definition TC_CPE_ENV_COLOR_AMBIENT :: pchar where "TC_CPE_ENV_COLOR_AMBIENT = 3"
definition TC_CPE_ENV_COLOR_SUNLIGHT :: pchar where "TC_CPE_ENV_COLOR_SUNLIGHT = 4"

text \<open>A string argument that may be a null pointer, and a float that is converted.\<close>

definition with_string :: "cstring option \<Rightarrow> (cstring \<Rightarrow> (psocket, bool) cm) \<Rightarrow> (psocket, bool) cm" where
  "with_string u k = (case u of None \<Rightarrow> faultC NullDereference | Some url \<Rightarrow> k url)"

definition send_float_property :: "pchar \<Rightarrow> pfloat \<Rightarrow> nat \<Rightarrow> (psocket, bool) cm" where
  "send_float_property property f k = bindC (liftC (float_scaled f k)) (\<lambda>v. tc_cpe_send_set_map_env_property property v)"

text \<open>
  The packets of the four parts of \<open>tc_send_map_task2\<close>, in order. A promotion of \<open>pchar\<close> and
  \<open>pint16\<close> to \<open>pint32\<close> sign-extends.
\<close>

definition aspect_packets :: "tc_map \<Rightarrow> tc_map_env_aspect_extension \<Rightarrow> (psocket, bool) cm list" where
  "aspect_packets m a =
     [(case env_appearance_extension m of
         None \<Rightarrow> faultC NullDereference
       | Some ap \<Rightarrow> with_string (ap_texture_url ap) tc_cpe_send_set_texture_url),
      tc_cpe_send_set_map_env_property TC_CPE_MAP_ENV_PROPERTY_SIDE_BLOCK (scast (as_side_block a)),
      tc_cpe_send_set_map_env_property TC_CPE_MAP_ENV_PROPERTY_EDGE_BLOCK (scast (as_edge_block a)),
      tc_cpe_send_set_map_env_property TC_CPE_MAP_ENV_PROPERTY_EDGE_HEIGHT (as_edge_height a),
      tc_cpe_send_set_map_env_property TC_CPE_MAP_ENV_PROPERTY_CLOUDS_HEIGHT (as_clouds_height a),
      send_float_property TC_CPE_MAP_ENV_PROPERTY_CLOUDS_SPEED (as_clouds_speed a) 8,
      send_float_property TC_CPE_MAP_ENV_PROPERTY_WEATHER_SPEED (as_weather_speed a) 8,
      send_float_property TC_CPE_MAP_ENV_PROPERTY_WEATHER_FADE (as_weather_fade a) 7,
      tc_cpe_send_set_map_env_property TC_CPE_MAP_ENV_PROPERTY_USE_EXPONENTIAL_FOG (scast (as_use_exponential_fog a)),
      tc_cpe_send_set_map_env_property TC_CPE_MAP_ENV_PROPERTY_SIDE_OFFSET (as_side_offset a)]"

definition appearance_fallback_packets :: "tc_map_env_appearance_extension \<Rightarrow> (psocket, bool) cm list" where
  "appearance_fallback_packets ap =
     [with_string (ap_texture_url ap) tc_cpe_send_set_texture_url,
      tc_cpe_send_set_map_env_property TC_CPE_MAP_ENV_PROPERTY_SIDE_BLOCK (scast (ap_side_block ap)),
      tc_cpe_send_set_map_env_property TC_CPE_MAP_ENV_PROPERTY_EDGE_BLOCK (scast (ap_edge_block ap)),
      tc_cpe_send_set_map_env_property TC_CPE_MAP_ENV_PROPERTY_EDGE_HEIGHT (scast (ap_side_level ap)),
      tc_cpe_send_set_map_env_property TC_CPE_MAP_ENV_PROPERTY_CLOUDS_HEIGHT (scast (ap_cloud_level ap)),
      tc_cpe_send_set_map_env_property TC_CPE_MAP_ENV_PROPERTY_MAX_VIEW_DISTANCE (scast (ap_maximum_view_distance ap))]"

definition send_color :: "pchar \<Rightarrow> tc_map_color_config \<Rightarrow> (psocket, bool) cm" where
  "send_color field c = tc_cpe_send_set_env_color field (cc_red c) (cc_green c) (cc_blue c)"

definition color_packets :: "tc_map_env_colors_extension \<Rightarrow> (psocket, bool) cm list" where
  "color_packets ec =
     [send_color TC_CPE_ENV_COLOR_SKY (ec_sky ec), send_color TC_CPE_ENV_COLOR_CLOUD (ec_cloud ec),
      send_color TC_CPE_ENV_COLOR_FOG (ec_fog ec), send_color TC_CPE_ENV_COLOR_AMBIENT (ec_ambient ec),
      send_color TC_CPE_ENV_COLOR_SUNLIGHT (ec_sunlight ec)]"

text \<open>
  Each part gives whether the task goes on: a required extension is there and every packet was
  sent (\<open>HANDLE_FAILURE\<close> returns at the first that was not).
\<close>

definition send_packets :: "nat \<Rightarrow> (psocket, bool) cm list \<Rightarrow> (send_sys, bool) cm" where
  "send_packets sid ps = on_server (on_socket sid (send_all ps))"

definition send_initialize :: "tc_send_map_data \<Rightarrow> tc_map \<Rightarrow> (send_sys, bool) cm" where
  "send_initialize x m = bindC (extension_version (sd_session x) TC_CPE_FASTMAP_EXTENSION_INDEX) (\<lambda>v.
     if v > 0 then
       thenC (tc_assert (\<lambda>_. sb_size (sd_block_array_buffer x) \<le> 2 ^ 31 - 1))
         (send_packets (sd_session x) [tc_protocol_send_level_initialize2 (of_nat (block_array_count m))])
     else send_packets (sd_session x) [tc_protocol_send_level_initialize])"

definition send_appearance :: "nat \<Rightarrow> tc_map \<Rightarrow> tc_map_env_appearance_extension \<Rightarrow> (send_sys, bool) cm" where
  "send_appearance sid m ap = bindC (extension_version sid TC_CPE_ENV_MAP_APPEARANCE_EXTENSION_INDEX) (\<lambda>client_version.
     bindC (if sint (ap_extension_version ap) > client_version then
              bindC (extension_version sid TC_CPE_ENV_MAP_ASPECT_EXTENSION_INDEX) (\<lambda>v.
                if v \<le> 0 then retC False else send_packets sid (appearance_fallback_packets ap))
            else retC True) (\<lambda>ok.
     if \<not> ok then retC False
     else if client_version = 2 then
       send_packets sid [with_string (ap_texture_url ap) (\<lambda>url. tc_cpe_send_env_map_appearance2 url
         (ap_side_block ap) (ap_edge_block ap) (ap_side_level ap) (ap_cloud_level ap) (ap_maximum_view_distance ap))]
     else thenC (tc_assert (\<lambda>_. client_version = 1))
       (send_packets sid [with_string (ap_texture_url ap) (\<lambda>url. tc_cpe_send_env_map_appearance1 url
         (ap_side_block ap) (ap_edge_block ap) (ap_side_level ap))])))"

definition send_environment :: "nat \<Rightarrow> tc_map \<Rightarrow> (send_sys, bool) cm" where
  "send_environment sid m =
     (case env_aspect_extension m of
        Some a \<Rightarrow> bindC (extension_version sid TC_CPE_ENV_MAP_ASPECT_EXTENSION_INDEX) (\<lambda>v.
          if v \<le> 0 then retC False else send_packets sid (aspect_packets m a))
      | None \<Rightarrow> (case env_appearance_extension m of None \<Rightarrow> retC True | Some ap \<Rightarrow> send_appearance sid m ap))"

definition send_weather :: "nat \<Rightarrow> tc_map \<Rightarrow> (send_sys, bool) cm" where
  "send_weather sid m =
     (case env_weather_extension m of None \<Rightarrow> retC True
      | Some we \<Rightarrow> bindC (extension_version sid TC_CPE_ENV_MAP_WEATHER_TYPE_EXTENSION_INDEX) (\<lambda>v.
          if v \<le> 0 then retC False else send_packets sid [tc_cpe_send_env_set_weather_type (we_weather_type we)]))"

definition send_colors :: "nat \<Rightarrow> tc_map \<Rightarrow> (send_sys, bool) cm" where
  "send_colors sid m =
     (case env_colors_extension m of None \<Rightarrow> retC True
      | Some ec \<Rightarrow> bindC (extension_version sid TC_CPE_ENV_MAP_COLORS_EXTENSION_INDEX) (\<lambda>v.
          if v \<le> 0 then retC False else send_packets sid (color_packets ec)))"

definition check_block_definitions :: "nat \<Rightarrow> tc_map \<Rightarrow> (send_sys, bool) cm" where
  "check_block_definitions sid m =
     (case block_definition_extensions m of None \<Rightarrow> retC True
      | Some _ \<Rightarrow> bindC (extension_version sid TC_CPE_BLOCK_DEFINITIONS_EXTENSION_INDEX) (\<lambda>v. retC (v > 0)))"

definition tc_send_map_task2 :: "client_failures \<Rightarrow> nat \<Rightarrow> tc_thread_pool_task_priority \<Rightarrow> int \<Rightarrow> (send_sys, unit) cm" where
  "tc_send_map_task2 F d prio gen = bindC (load_map_data d) (\<lambda>x.
     thenC (tc_assert (\<lambda>_. prio = req_priority (sd_schedule_info x)))
     (bindC (on_server (tc_session_aquire_action_lock (sd_session x) gen)) (\<lambda>ok.
     if \<not> ok then retC ()
     else bindC (need_map x) (\<lambda>e. bindC (read_map e) (\<lambda>m.
       bindC (send_all [send_initialize x m, send_environment (sd_session x) m, send_weather (sd_session x) m,
           send_colors (sd_session x) m, check_block_definitions (sd_session x) m, send_malloc]) (\<lambda>ok.
       if \<not> ok then handle_failure F d True
       else bindC (on_outside (getC next_buffer_data)) (\<lambda>b.
         thenC (on_outside (modifyC (\<lambda>w. w\<lparr>next_buffer_data := b + 1\<rparr>)))
         (thenC (store_buffer_data b (Some \<lparr>send_map_data = d, sent_count = 0, send_main_buffer = True\<rparr>))
           (send_schedule_next SendBufferTask SendBufferHandleFailure (SendBufferData b) (req_priority (sd_schedule_info x)) gen)))))))))"

section \<open>Loading and scheduling\<close>

definition compress_blocks :: "zlib \<Rightarrow> nat \<Rightarrow> cstring option \<Rightarrow> nat \<Rightarrow> (send_sys, bool \<times> send_buffer) cm" where
  "compress_blocks z sid arr n = bindC (extension_version sid TC_CPE_FASTMAP_EXTENSION_INDEX) (\<lambda>v.
     case arr of
       None \<Rightarrow> faultC NullDereference
     | Some bs \<Rightarrow>
         if length bs < n then faultC OutOfBounds
         else if v > 0 then bindC send_malloc (\<lambda>ok. retC (tc_deflate_byte_array z ok (take n bs)))
         else bindC send_malloc (\<lambda>ok1. if \<not> ok1 then retC (tc_gzip_byte_array z False False (take n bs))
           else bindC send_malloc (\<lambda>ok2. retC (tc_gzip_byte_array z True ok2 (take n bs)))))"

definition on_map_load_success ::
    "client_failures \<Rightarrow> zlib \<Rightarrow> nat \<Rightarrow> nat \<Rightarrow> tc_thread_pool_task_priority \<Rightarrow> int \<Rightarrow> (send_sys, unit) cm" where
  "on_map_load_success F z e d prio gen = bindC (load_map_data d) (\<lambda>x.
     thenC (store_map_data d (Some (x\<lparr>sd_map := Some e\<rparr>)))
     (thenC (tc_assert (\<lambda>_. prio = PRIORITY_BLOCKING))
     (thenC (map_reader_lock e) (bindC (read_map e) (\<lambda>m.
     bindC (compress_blocks z (sd_session x) (block_array m) (block_array_count m)) (\<lambda>(ok, buf).
     thenC (store_map_data d (Some (x\<lparr>sd_map := Some e, sd_block_array_buffer := buf\<rparr>)))
     (if \<not> ok then thenC (handle_failure F d False) (on_sched free_args)
      else bindC (if block_array2 m = None then retC (True, sd_block_array2_buffer x)
        else bindC (extension_version (sd_session x) TC_CPE_EXTENDED_BLOCKS_EXTENSION_INDEX) (\<lambda>v.
          if v \<le> 0 then retC (False, sd_block_array2_buffer x)
          else compress_blocks z (sd_session x) (block_array2 m) (block_array2_count m))) (\<lambda>(ok2, buf2).
      thenC (store_map_data d (Some (x\<lparr>sd_map := Some e, sd_block_array_buffer := buf, sd_block_array2_buffer := buf2\<rparr>)))
      (if \<not> ok2 then thenC (handle_failure F d False) (on_sched free_args)
       else bindC (on_sched (on_pool (\<lambda>p. tc_thread_schedule_new p SendMapTask2 (plain_arg (SendMapData d))
           (req_priority (sd_schedule_info x)) gen))) (\<lambda>scheduled.
         thenC (whenC (\<not> scheduled) (handle_failure F d False)) (on_sched free_args)))))))))))"

text \<open>As the failure handler of the load: the map is still null, so only the struct is freed.\<close>

definition handle_map_load_failure :: "client_failures \<Rightarrow> send_context cache_context \<Rightarrow> int
    \<Rightarrow> send_world tc_map_cache \<Rightarrow> send_world tc_map_cache" where
  "handle_map_load_failure F context gen c =
     (case context of
        UserContext (SendMapData d) \<Rightarrow>
          (case map_data_at (outside c) d of
             None \<Rightarrow> c
           | Some x \<Rightarrow>
               let r = sd_schedule_info x; c' = F (req_failure r) (req_context r) (req_generation r) c
               in c'\<lparr>outside := (outside c')\<lparr>map_data_at := (map_data_at (outside c'))(d := None)\<rparr>\<rparr>)
      | _ \<Rightarrow> c)"

definition load_map_schedule_info :: "client_failures \<Rightarrow> nat \<Rightarrow> int \<Rightarrow> (send_task, send_context, send_world) open_request" where
  "load_map_schedule_info F d gen = \<lparr>success_handler = OnMapLoadSuccess, failure_handler = handle_map_load_failure F,
     entry_context = UserContext (SendMapData d), entry_priority = PRIORITY_BLOCKING, entry_generation = gen\<rparr>"

text \<open>
  \<open>pre_loaded_map\<close> is the entry of the map, if one is given; \<open>entry_size\<close> and \<open>mem\<close> are those of
  \<open>tc_map_cache_schedule_open\<close>.
\<close>

definition tc_api_schedule_send_map :: "client_failures \<Rightarrow> psize \<Rightarrow> bool list \<Rightarrow> nat \<Rightarrow> cstring \<Rightarrow> nat option
    \<Rightarrow> client_request \<Rightarrow> tc_thread_pool_task_priority \<Rightarrow> (send_sys, bool) cm" where
  "tc_api_schedule_send_map F entry_size mem sid file_name pre_loaded_map info current_priority =
     bindC send_malloc (\<lambda>ok. if \<not> ok then retC False
     else bindC (on_outside (getC next_map_data)) (\<lambda>d.
       thenC (on_outside (modifyC (\<lambda>w. w\<lparr>next_map_data := d + 1\<rparr>)))
       (thenC (store_map_data d (Some \<lparr>sd_session = sid, sd_file_name = file_name, sd_map = None, sd_schedule_info = info,
            sd_block_array_buffer = empty_buffer, sd_block_array2_buffer = empty_buffer\<rparr>))
       (thenC (case pre_loaded_map of
            Some e \<Rightarrow> on_sched (tc_task_backlog_invoke_handler (load_map_schedule_info F d (req_generation info))
              (Some tc_map_nolock_ref) (Some tc_map_nolock_unref) (Some e) current_priority)
          | None \<Rightarrow> tc_map_cache_schedule_open MapCacheLoadTask entry_size mem file_name
              (load_map_schedule_info F d (req_generation info)) current_priority)
         (retC True)))))"

section \<open>Running the tasks\<close>

definition wld :: "send_sys \<Rightarrow> send_world" where
  "wld s = outside (sched_world (sched s))"

definition set_wld :: "send_world \<Rightarrow> send_sys \<Rightarrow> send_sys" where
  "set_wld w s = s\<lparr>sched := (sched s)\<lparr>sched_world := (sched_world (sched s))\<lparr>outside := w\<rparr>\<rparr>\<rparr>"

definition set_pool :: "(send_task, send_args) tc_thread_pool \<Rightarrow> send_sys \<Rightarrow> send_sys" where
  "set_pool p s = s\<lparr>sched := (sched s)\<lparr>sched_pool := p\<rparr>\<rparr>"

definition entry_of :: "send_sys \<Rightarrow> nat \<Rightarrow> tc_map_cache_entry option" where
  "entry_of s e = entry_at (sched_world (sched s)) e"

definition set_entry :: "nat \<Rightarrow> tc_map_cache_entry \<Rightarrow> send_sys \<Rightarrow> send_sys" where
  "set_entry e x s = s\<lparr>sched := (sched s)\<lparr>sched_world := (sched_world (sched s))\<lparr>
     entry_at := (entry_at (sched_world (sched s)))(e \<mapsto> x)\<rparr>\<rparr>\<rparr>"

definition sys_pool :: "send_sys \<Rightarrow> (send_task, send_args) tc_thread_pool" where
  "sys_pool s = sched_pool (sched s)"

lemma lens_simps [simp]:
  "wld (set_wld w s) = w" "set_wld (wld s) s = s" "set_wld w (set_wld w' s) = set_wld w s"
  "wld (set_pool p s) = wld s" "sys_pool (set_wld w s) = sys_pool s" "sys_pool (set_pool p s) = p"
  "set_pool p (set_wld w s) = set_wld w (set_pool p s)" "set_pool p (set_pool q s) = set_pool p s"
  "entry_of (set_wld w s) = entry_of s" "entry_of (set_pool p s) = entry_of s" "wld (set_entry e x s) = wld s"
  "entry_of (set_entry e x s) = (entry_of s)(e \<mapsto> x)" "sys_pool (set_entry e x s) = sys_pool s"
  "set_entry e x (set_wld w s) = set_wld w (set_entry e x s)" "set_entry e x (set_pool p s) = set_pool p (set_entry e x s)"
  "set_entry e x (set_entry e y s) = set_entry e x s"
  by (simp_all add: wld_def set_wld_def set_pool_def sys_pool_def entry_of_def set_entry_def fun_eq_iff)

lemma lens_mallocs [simp]:
  "sched_mallocs (sched (set_wld w s)) = sched_mallocs (sched s)" "sched_mallocs (sched (set_pool p s)) = sched_mallocs (sched s)"
  "sched_mallocs (sched (set_entry e x s)) = sched_mallocs (sched s)"
  by (simp_all add: set_wld_def set_pool_def set_entry_def)

named_theorems send_rules "backward rules for the steps of a transfer"

lemma runs_on_outside [send_rules]: "runs F (on_outside m) s Q \<longleftrightarrow> runs F m (wld s) (\<lambda>a w. Q a (set_wld w s))"
  by (simp add: runs_def on_outside_def on_cache_def wld_def set_wld_def split: sum.splits prod.splits)

lemma runs_on_server [send_rules]:
  "runs F (on_server m) s Q \<longleftrightarrow> runs F m (send_server (wld s)) (\<lambda>a t. Q a (set_wld ((wld s)\<lparr>send_server := t\<rparr>) s))"
  unfolding on_server_def runs_on_outside by (simp add: runs_def split: sum.splits prod.splits)

lemma runs_load_map_data [send_rules]:
  "runs F (load_map_data d) s Q \<longleftrightarrow> (case map_data_at (wld s) d of None \<Rightarrow> UseAfterFree \<in> F | Some x \<Rightarrow> Q x s)"
  unfolding load_map_data_def runs_on_outside by (simp add: runs_def split: option.split)

lemma runs_load_buffer_data [send_rules]:
  "runs F (load_buffer_data d) s Q \<longleftrightarrow> (case buffer_data_at (wld s) d of None \<Rightarrow> UseAfterFree \<in> F | Some x \<Rightarrow> Q x s)"
  unfolding load_buffer_data_def runs_on_outside by (simp add: runs_def split: option.split)

lemma runs_store [send_rules]:
  "runs F (store_map_data d x) s Q \<longleftrightarrow> Q () (set_wld ((wld s)\<lparr>map_data_at := (map_data_at (wld s))(d := x)\<rparr>) s)"
  "runs F (store_buffer_data b y) s Q \<longleftrightarrow> Q () (set_wld ((wld s)\<lparr>buffer_data_at := (buffer_data_at (wld s))(b := y)\<rparr>) s)"
  by (simp_all add: store_map_data_def store_buffer_data_def runs_on_outside runs_modifyC)

lemma runs_reader_unlock [send_rules]:
  "runs F (map_reader_unlock e) s Q \<longleftrightarrow> (if map_readers (wld s) e = 0 then UnlockNotHeld \<in> F
     else Q () (set_wld ((wld s)\<lparr>map_readers := (map_readers (wld s))(e := map_readers (wld s) e - 1)\<rparr>) s))"
  unfolding map_reader_unlock_def runs_on_outside by (simp add: runs_def)

lemma runs_on_entry [send_rules]:
  "runs F (on_cache (load_entry (Some e))) s Q \<longleftrightarrow> (case entry_of s e of None \<Rightarrow> UseAfterFree \<in> F | Some x \<Rightarrow> Q x s)"
  "runs F (on_cache (upd_entry (Some e) f)) s R
    \<longleftrightarrow> (case entry_of s e of None \<Rightarrow> UseAfterFree \<in> F | Some x \<Rightarrow> R () (set_entry e (f x) s))"
  by (simp_all add: runs_def on_cache_def load_entry_def upd_entry_def entry_of_def set_entry_def split: option.split)

lemma on_cache_seq: "on_cache (bindC m k) = bindC (on_cache m) (\<lambda>a. on_cache (k a))" "on_cache (thenC m n) = thenC (on_cache m) (on_cache n)"
  "on_cache (faultC f) = faultC f" "on_cache (if b then m else n) = (if b then on_cache m else on_cache n)"
  by (rule ext, simp add: on_cache_def run_simps split: sum.splits)+

lemma runs_unref [send_rules]:
  "runs F (on_cache (tc_map_unref e)) s Q \<longleftrightarrow> (case entry_of s e of None \<Rightarrow> UseAfterFree \<in> F
     | Some x \<Rightarrow> if entry_locked x then SelfDeadlock \<in> F
         else Q () (set_entry e (x\<lparr>open_count := open_count x - 1\<rparr>) s))"
proof -
  have u: "x\<lparr>open_count := n, entry_locked := False\<rparr> = x\<lparr>open_count := n\<rparr>" if "\<not> entry_locked x" for x :: tc_map_cache_entry and n
    using that by (cases x) simp
  show ?thesis by (cases "entry_of s e")
    (auto simp: u tc_map_unref_def lock_entry_def unlock_entry_def on_cache_seq runs_rules send_rules)
qed

lemma runs_schedule_next [send_rules]:
  "runs F (send_schedule_next f sf c prio gen) s Q \<longleftrightarrow>
     (case tc_thread_schedule_next (sys_pool s) f (Some sf) (plain_arg c) prio gen of
        Inl x \<Rightarrow> x \<in> F | Inr p \<Rightarrow> Q () (set_pool p s))"
  unfolding send_schedule_next_def by (simp add: runs_def on_sched_def sys_pool_def set_pool_def split: sum.splits)

lemma runs_read_map [send_rules]:
  "runs F (read_map e) s Q \<longleftrightarrow> (case entry_of s e of None \<Rightarrow> UseAfterFree \<in> F
     | Some x \<Rightarrow> (case cached_map x of None \<Rightarrow> Uninitialised \<in> F | Some m \<Rightarrow> Q m s))"
  by (simp add: read_map_def runs_rules send_rules split: option.split)

lemma runs_extension_version [send_rules]:
  "runs F (extension_version sid i) s Q \<longleftrightarrow> (if sid < length (session_buffer (send_server (wld s)))
     then Q (tc_session_get_extension_version (session_buffer (send_server (wld s)) ! sid) i) s else OutOfBounds \<in> F)"
  unfolding extension_version_def by (simp add: runs_on_server) (simp add: runs_def get_session_def run_simps)

section \<open>A transfer\<close>

text \<open>On a socket that accepts everything a packet goes onto the wire as a whole.\<close>

lemma short_code: "ucast (signed_drop_bit 8 d) = (ucast (drop_bit 8 d) :: pchar)" "ucast (d AND 0xFF) = (ucast d :: pchar)" for d :: pint16
  using short_bytes_code [of d] by (simp_all add: short_bytes_def)

lemmas socket_simps = tc_protocol_send_byte_def tc_protocol_send_short_def tc_protocol_send_datachunk_def p_socket_send_def
  packet_bytes_def by_byte_def short_bytes_def short_code run_simps Let_def

lemma chunk_sent:
  assumes "send_script k = []" and "length c = 1024"
  shows "tc_protocol_send_level_data_chunk l c q k = Inr (True, k\<lparr>wire := wire k @ packet_bytes (LevelDataChunk l c q)\<rparr>)"
  using assms by (simp add: tc_protocol_send_level_data_chunk_def socket_simps)

lemma finalize_sent:
  assumes "send_script k = []"
  shows "tc_protocol_send_level_finalize x y z k = Inr (True, k\<lparr>wire := wire k @ packet_bytes (LevelFinalize x y z)\<rparr>)"
  using assms by (simp add: tc_protocol_send_level_finalize_def socket_simps)

text \<open>
  The state in the middle of a transfer to an idle socket: \<open>out\<close> is what the client has received
  before, \<open>n\<close> the open count of the map.
\<close>

definition sending :: "nat \<Rightarrow> nat \<Rightarrow> tc_send_map_data \<Rightarrow> nat \<Rightarrow> tc_map \<Rightarrow> bool \<Rightarrow> pint32 \<Rightarrow> nat \<Rightarrow> cstring \<Rightarrow> nat \<Rightarrow> bool \<Rightarrow> send_sys \<Rightarrow> bool" where
  "sending b d x e m ext n r out sent main s \<longleftrightarrow>
     map_data_at (wld s) d = Some x \<and> buffer_data_at (wld s) b = Some \<lparr>send_map_data = d, sent_count = sent, send_main_buffer = main\<rparr>
     \<and> sd_map x = Some e
     \<and> (\<exists>ent. entry_of s e = Some ent \<and> cached_map ent = Some m \<and> \<not> entry_locked ent \<and> open_count ent = n)
     \<and> map_readers (wld s) e = r \<and> sched_mallocs (sched s) = []
     \<and> sd_session x < length (session_buffer (send_server (wld s)))
     \<and> (let y = session_buffer (send_server (wld s)) ! sd_session x in
          socket_open y \<and> action_locked y \<and> send_script (client_socket y) = [] \<and> wire (client_socket y) = out
          \<and> (tc_session_get_extension_version y TC_CPE_EXTENDED_BLOCKS_EXTENSION_INDEX > 0) = ext)"

text \<open>A pool that takes a continuation of the running task, as it does while not shutting down.\<close>

definition relay :: "tc_thread_pool_task_priority \<Rightarrow> (send_task, send_args) tc_thread_pool \<Rightarrow> bool" where
  "relay prio p \<longleftrightarrow> (\<forall>f sf a g. \<exists>q. tc_thread_schedule_next p f sf a prio g = Inr q)
     \<and> (\<forall>f a g. \<exists>q. tc_thread_schedule_next2 p (Some f) a prio g = Inr (True, q))"

definition chunk_packet :: "bool \<Rightarrow> bool \<Rightarrow> nat \<Rightarrow> cstring \<Rightarrow> packet" where
  "chunk_packet ext main sent bs =
     (let c = take 1024 (drop sent bs) in LevelDataChunk (of_nat (length c)) (c @ replicate (1024 - length c) 0)
        (if ext then (if main then 0 else 1) else percent_of sent (length bs)))"

text \<open>What the client takes from a chunk packet.\<close>

fun chunk_payload :: "packet \<Rightarrow> cstring" where
  "chunk_payload (LevelDataChunk l c q) = take (unat l) c"
| "chunk_payload _ = []"

lemma chunk_payload: "chunk_payload (chunk_packet ext main sent bs) = take 1024 (drop sent bs)"
  by (simp add: chunk_packet_def Let_def unat_of_nat take_bit_nat_eq_self min_def)


lemma runs_on_socket_eq:
  "runs F (on_socket sid m) t Q \<longleftrightarrow>
     (if sid \<ge> length (session_buffer t) then OutOfBounds \<in> F
      else if \<not> socket_open (session_buffer t ! sid) then UseAfterFree \<in> F
      else case m (client_socket (session_buffer t ! sid)) of
             Inl f \<Rightarrow> f \<in> F
           | Inr (a, k) \<Rightarrow> Q a (t\<lparr>session_buffer := (session_buffer t)[sid := (session_buffer t ! sid)\<lparr>client_socket := k\<rparr>]\<rparr>))"
  by (auto simp: on_socket_def runs_rules split: sum.splits)

lemma next_chunk_run:
  assumes "sb_data buf = Some bs" "sb_size buf = length bs" "sent < length bs"
  shows "next_chunk buf sent = Inr (length (take 1024 (drop sent bs)),
    take 1024 (drop sent bs) @ replicate (1024 - length (take 1024 (drop sent bs))) 0)"
  using assms by (auto simp: next_chunk_def Let_def min_def)

lemma percent_run:
  assumes "0 < length bs"
  shows "percent_complete ext main sent (length bs)
    = Inr (if ext then (if main then 0 else 1) else percent_of sent (length bs))"
  using assms by (simp add: percent_complete_def)

text \<open>The session after some bytes went to its socket.\<close>

definition sent_to :: "nat \<Rightarrow> cstring \<Rightarrow> send_world \<Rightarrow> send_world" where
  "sent_to sid bytes w = (let t = send_server w; y = session_buffer t ! sid; k = client_socket y in
     w\<lparr>send_server := t\<lparr>session_buffer := (session_buffer t)[sid := y\<lparr>client_socket := k\<lparr>wire := wire k @ bytes\<rparr>\<rparr>]\<rparr>\<rparr>)"

lemma sent_to_simps [simp]:
  "map_data_at (sent_to sid bs w) = map_data_at w" "buffer_data_at (sent_to sid bs w) = buffer_data_at w"
  "map_readers (sent_to sid bs w) = map_readers w"
  "length (session_buffer (send_server (sent_to sid bs w))) = length (session_buffer (send_server w))"
  by (simp_all add: sent_to_def Let_def)

lemma buffer_task_sends:
  assumes st: "sending b d x e m ext n r out sent main s" and prio: "prio = req_priority (sd_schedule_info x)"
    and bs: "sb_data (selected_buffer x main) = Some bs" "sb_size (selected_buffer x main) = length bs" "sent < length bs"
  shows "runs F (tc_send_buffer_task C b prio gen) s Q \<longleftrightarrow>
    runs F (after_chunk C b \<lparr>send_map_data = d, sent_count = sent, send_main_buffer = main\<rparr> x (length (take 1024 (drop sent bs)))
      (length bs) prio gen) (set_wld (sent_to (sd_session x) (packet_bytes (chunk_packet ext main sent bs)) (wld s)) s) Q"
proof -
  note S = st [unfolded sending_def Let_def]
  have k: "length (take 1024 (drop sent bs) @ replicate (1024 - length (take 1024 (drop sent bs))) 0) = 1024" by simp
  have l: "0 < length bs" using bs(3) by auto
  show ?thesis
    unfolding tc_send_buffer_task_def Let_def
    using S prio bs
    by (simp add: runs_rules send_rules next_chunk_run [OF bs] percent_run [OF l]
        runs_on_socket_eq chunk_sent [OF _ k] chunk_packet_def sent_to_def Let_def del: length_take length_drop)
qed

lemma sending_sent:
  assumes "sending b d x e m ext n r out sent main s"
  shows "sending b d x e m ext n r (out @ bytes) sent main (set_wld (sent_to (sd_session x) bytes (wld s)) s)"
  using assms unfolding sending_def Let_def
  by (auto simp: sent_to_def Let_def tc_session_get_extension_version_def)

text \<open>The state after the pool took the success handler of the caller.\<close>

definition handed :: "(send_task, send_args) tc_thread_pool \<Rightarrow> send_sys \<Rightarrow> send_sys" where
  "handed q s = s\<lparr>sched := (sched s)\<lparr>live_args := live_args (sched s) + 1, sched_pool := q\<rparr>\<rparr>"

lemma handed_simps [simp]: "wld (handed q s) = wld s" "entry_of (handed q s) = entry_of s" "sys_pool (handed q s) = q"
  by (simp_all add: handed_def wld_def entry_of_def sys_pool_def fun_eq_iff)

lemma relay_valid: "relay prio p \<Longrightarrow> prio \<noteq> PRIORITY_INVALID"
  by (auto simp: relay_def tc_thread_schedule_next2_def pool_enqueue_def split: if_splits)

definition client_args :: "tc_send_map_data \<Rightarrow> nat \<Rightarrow> send_args" where
  "client_args x e = \<lparr>args_result = e, args_context = UserContext (ClientContext (req_context (sd_schedule_info x)))\<rparr>"

lemma runs_hand_over:
  assumes "relay prio (sys_pool s)" "sched_mallocs (sched s) = []" "prio = req_priority (sd_schedule_info x)"
    and "\<And>q. tc_thread_schedule_next2 (sys_pool s) (Some (ClientTask (req_success (sd_schedule_info x)))) (client_args x e) prio
        (req_generation (sd_schedule_info x)) = Inr (True, q) \<Longrightarrow> Q () (handed q s)"
  shows "runs F (on_sched (tc_task_backlog_invoke_handler (request_entry C (sd_schedule_info x)) None rel (Some e) prio)) s Q"
proof -
  obtain q where q: "tc_thread_schedule_next2 (sys_pool s) (Some (ClientTask (req_success (sd_schedule_info x)))) (client_args x e) prio
        (req_generation (sd_schedule_info x)) = Inr (True, q)" using assms(1) unfolding relay_def by blast
  have "on_sched (tc_task_backlog_invoke_handler (request_entry C (sd_schedule_info x)) None rel (Some e) prio) s = Inr ((), handed q s)"
    using q assms(2,3) relay_valid [OF assms(1)]
    by (simp add: on_sched_def tc_task_backlog_invoke_handler_def alloc_args_def request_entry_def call_handler_def
        schedule_continuation_def on_pool_def sys_pool_def client_args_def handed_def run_simps)
  then show ?thesis using assms(4) [OF q] by (simp add: runs_def)
qed

section \<open>Rounds\<close>

lemma round_middle:
  assumes st: "sending b d x e m ext n r out sent main s" and prio: "prio = req_priority (sd_schedule_info x)"
    and bs: "sb_data (selected_buffer x main) = Some bs" "sb_size (selected_buffer x main) = length bs" "sent + 1024 < length bs"
    and pool: "relay prio (sys_pool s)"
  shows "runs {} (tc_send_buffer_task C b prio gen) s
    (\<lambda>_. sending b d x e m ext n r (out @ packet_bytes (chunk_packet ext main sent bs)) (sent + 1024) main)"
proof -
  let ?s = "set_wld (sent_to (sd_session x) (packet_bytes (chunk_packet ext main sent bs)) (wld s)) s"
  have l: "sent < length bs" "length (take 1024 (drop sent bs)) = 1024" using bs(3) by auto
  have q: "\<exists>q. tc_thread_schedule_next (sys_pool s) SendBufferTask (Some SendBufferHandleFailure) (plain_arg (SendBufferData b)) prio gen = Inr q"
    using pool unfolding relay_def by blast
  show ?thesis
    unfolding buffer_task_sends [OF st prio bs(1,2) l(1)] l(2)
    using sending_sent [OF st, of "packet_bytes (chunk_packet ext main sent bs)"] q bs(3) prio
    by (auto simp: after_chunk_def runs_rules send_rules sending_def Let_def)
qed

lemma round_switch:
  assumes st: "sending b d x e m ext n r out sent True s" and prio: "prio = req_priority (sd_schedule_info x)"
    and bs: "sb_data (sd_block_array_buffer x) = Some bs" "sb_size (sd_block_array_buffer x) = length bs" "sent < length bs" "length bs \<le> sent + 1024"
    and pool: "relay prio (sys_pool s)" and m: "block_array2 m \<noteq> None"
  shows "runs {} (tc_send_buffer_task C b prio gen) s
    (\<lambda>_. sending b d x e m ext n r (out @ packet_bytes (chunk_packet ext True sent bs)) 0 False)"
proof -
  let ?s = "set_wld (sent_to (sd_session x) (packet_bytes (chunk_packet ext True sent bs)) (wld s)) s"
  have b': "sb_data (selected_buffer x True) = Some bs" "sb_size (selected_buffer x True) = length bs" using bs by (simp_all add: selected_buffer_def)
  have l: "length bs \<le> sent + length (take 1024 (drop sent bs))" using bs(3,4) by auto
  have q: "\<exists>q. tc_thread_schedule_next (sys_pool s) SendBufferTask (Some SendBufferHandleFailure) (plain_arg (SendBufferData b)) prio gen = Inr q"
    using pool unfolding relay_def by blast
  show ?thesis
    unfolding buffer_task_sends [OF st prio b' bs(3)]
    using sending_sent [OF st, of "packet_bytes (chunk_packet ext True sent bs)"] q l m prio
    by (auto simp: after_chunk_def runs_rules send_rules sending_def need_map_def Let_def simp del: length_take)
qed

text \<open>The transfer is over: both structs are freed, the locks released, and the caller's task is queued.\<close>

definition finished :: "nat \<Rightarrow> nat \<Rightarrow> tc_send_map_data \<Rightarrow> nat \<Rightarrow> tc_map \<Rightarrow> pint32 \<Rightarrow> nat \<Rightarrow> cstring
    \<Rightarrow> (send_task, send_args) tc_thread_pool \<Rightarrow> send_sys \<Rightarrow> bool" where
  "finished b d x e m n r out p s \<longleftrightarrow> map_data_at (wld s) d = None \<and> buffer_data_at (wld s) b = None
     \<and> (\<exists>ent. entry_of s e = Some ent \<and> cached_map ent = Some m \<and> open_count ent = n) \<and> map_readers (wld s) e = r
     \<and> (let y = session_buffer (send_server (wld s)) ! sd_session x in
          \<not> action_locked y \<and> socket_open y \<and> wire (client_socket y) = out)
     \<and> tc_thread_schedule_next2 p (Some (ClientTask (req_success (sd_schedule_info x)))) (client_args x e)
         (req_priority (sd_schedule_info x)) (req_generation (sd_schedule_info x)) = Inr (True, sys_pool s)"

lemma runs_release_lock [send_rules]:
  "runs F (tc_session_release_action_lock sid) t Q \<longleftrightarrow>
     (if sid \<ge> length (session_buffer t) then OutOfBounds \<in> F
      else if action_locked (session_buffer t ! sid)
      then Q () (t\<lparr>session_buffer := (session_buffer t)[sid := (session_buffer t ! sid)\<lparr>action_locked := False\<rparr>]\<rparr>)
      else UnlockNotHeld \<in> F)"
  by (simp add: tc_session_release_action_lock_def runs_rules)

lemma round_last:
  assumes st: "sending b d x e m ext n r out sent main s" and prio: "prio = req_priority (sd_schedule_info x)"
    and bs: "sb_data (selected_buffer x main) = Some bs" "sb_size (selected_buffer x main) = length bs" "sent < length bs" "length bs \<le> sent + 1024"
    and pool: "relay prio (sys_pool s)" and m: "main \<longrightarrow> block_array2 m = None" and r: "0 < r"
  shows "runs {} (tc_send_buffer_task C b prio gen) s
    (\<lambda>_. finished b d x e m (n - 1) (r - 1)
       (out @ packet_bytes (chunk_packet ext main sent bs) @ packet_bytes (LevelFinalize (x_size m) (y_size m) (z_size m))) (sys_pool s))"
proof -
  let ?s = "set_wld (sent_to (sd_session x) (packet_bytes (chunk_packet ext main sent bs)) (wld s)) s"
  have l: "length bs \<le> sent + length (take 1024 (drop sent bs))" using bs(3,4) by auto
  have main: "\<not> (main \<and> block_array2 m \<noteq> None)" using m by auto
  show ?thesis
    unfolding buffer_task_sends [OF st prio bs(1,2,3)]
    using sending_sent [OF st, of "packet_bytes (chunk_packet ext main sent bs)"] l main prio r pool
    by (auto simp: after_chunk_def handle_success_def free_send_map_data_def runs_rules send_rules sending_def need_map_def Let_def
        runs_on_socket_eq finalize_sent finished_def intro!: runs_hand_over simp del: length_take)
qed

text \<open>
  The rounds of a transfer: each time a worker takes the task it works with the pool as it is then.
\<close>

fun send_rounds :: "client_failures \<Rightarrow> nat \<Rightarrow> tc_thread_pool_task_priority \<Rightarrow> int
    \<Rightarrow> (send_task, send_args) tc_thread_pool list \<Rightarrow> send_sys \<Rightarrow> send_sys outcome" where
  "send_rounds C b prio gen [] s = Inr s"
| "send_rounds C b prio gen (p # ps) s =
     (case tc_send_buffer_task C b prio gen (set_pool p s) of
        Inl f \<Rightarrow> Inl f
      | Inr (_, s') \<Rightarrow> send_rounds C b prio gen ps s')"

lemma send_rounds_append:
  "send_rounds C b prio gen (ps @ qs) s = (case send_rounds C b prio gen ps s of Inl f \<Rightarrow> Inl f | Inr s' \<Rightarrow> send_rounds C b prio gen qs s')"
  by (induction ps arbitrary: s) (auto split: sum.splits)

lemma sending_pool [simp]: "sending b d x e m ext n r out sent main (set_pool p s) = sending b d x e m ext n r out sent main s"
  by (simp add: sending_def)

lemma rounds_middle:
  assumes "sending b d x e m ext n r out sent main s" and prio: "prio = req_priority (sd_schedule_info x)"
    and bs: "sb_data (selected_buffer x main) = Some bs" "sb_size (selected_buffer x main) = length bs" "sent + 1024 * length pools < length bs"
    and "\<forall>p \<in> set pools. relay prio p"
  shows "\<exists>s' ps. send_rounds C b prio gen pools s = Inr s'
    \<and> sending b d x e m ext n r (out @ concat (map packet_bytes ps)) (sent + 1024 * length pools) main s'
    \<and> concat (map chunk_payload ps) = take (1024 * length pools) (drop sent bs) \<and> length ps = length pools"
  using assms(1,5,6)
proof (induction pools arbitrary: s sent out)
  case Nil
  then show ?case by (intro exI [of _ s] exI [of _ "[]"]) simp
next
  case (Cons p pools)
  have st: "sending b d x e m ext n r out sent main (set_pool p s)" and pool: "relay prio (sys_pool (set_pool p s))"
    and l: "sent + 1024 < length bs" using Cons.prems by auto
  let ?q = "chunk_packet ext main sent bs"
  from round_middle [OF st prio bs(1,2) l pool, of C gen] obtain s1 where s1: "tc_send_buffer_task C b prio gen (set_pool p s) = Inr ((), s1)"
    "sending b d x e m ext n r (out @ packet_bytes ?q) (sent + 1024) main s1" by (auto simp: runs_total)
  have "sent + 1024 + 1024 * length pools < length bs" "\<forall>p \<in> set pools. relay prio p" using Cons.prems by auto
  from Cons.IH [OF s1(2) this] obtain s' ps where s': "send_rounds C b prio gen pools s1 = Inr s'"
    "sending b d x e m ext n r ((out @ packet_bytes ?q) @ concat (map packet_bytes ps)) (sent + 1024 + 1024 * length pools) main s'"
    "concat (map chunk_payload ps) = take (1024 * length pools) (drop (sent + 1024) bs)" "length ps = length pools" by blast
  have "take 1024 (drop sent bs) @ take (1024 * length pools) (drop (sent + 1024) bs) = take (1024 + 1024 * length pools) (drop sent bs)"
    by (simp add: take_add add.commute)
  with s1(1) s' show ?case
    by (intro exI [of _ s'] exI [of _ "?q # ps"]) (simp add: chunk_payload add.assoc)
qed

text \<open>The number of chunks of a buffer, and that many pools split into the last one and those before.\<close>

definition chunk_count :: "cstring \<Rightarrow> nat" where
  "chunk_count bs = (length bs + 1023) div 1024"

lemma chunk_count_split:
  assumes "bs \<noteq> []" and "length pools = chunk_count bs"
  obtains ps p where "pools = ps @ [p]" "1024 * length ps < length bs" "length bs \<le> 1024 * length ps + 1024"
proof -
  have "length pools \<noteq> 0" using assms by (cases bs) (auto simp: chunk_count_def)
  then obtain ps p where ps: "pools = ps @ [p]" by (cases pools rule: rev_cases) auto
  have "length ps + 1 = (length bs + 1023) div 1024" using assms(2) ps by (simp add: chunk_count_def)
  then have "1024 * length ps < length bs" "length bs \<le> 1024 * length ps + 1024" by linarith+
  with ps that show thesis by blast
qed

text \<open>All rounds of one buffer but the last step.\<close>

lemma rounds_buffer:
  assumes st: "sending b d x e m ext n r out 0 main s" and prio: "prio = req_priority (sd_schedule_info x)"
    and bs: "sb_data (selected_buffer x main) = Some bs" "sb_size (selected_buffer x main) = length bs" "bs \<noteq> []"
    and pools: "length pools = chunk_count bs" "\<forall>p \<in> set pools. relay prio p"
  shows "\<exists>s' ps sent. send_rounds C b prio gen (butlast pools) s = Inr s' \<and> relay prio (last pools) \<and> pools \<noteq> []
    \<and> sending b d x e m ext n r (out @ concat (map packet_bytes ps)) sent main s' \<and> sent < length bs \<and> length bs \<le> sent + 1024
    \<and> concat (map chunk_payload ps) @ chunk_payload (chunk_packet ext main sent bs) = bs \<and> length ps = chunk_count bs - 1"
proof -
  from chunk_count_split [OF bs(3) pools(1)] obtain qs q where q: "pools = qs @ [q]" "1024 * length qs < length bs"
    "length bs \<le> 1024 * length qs + 1024" .
  have "0 + 1024 * length qs < length bs" "\<forall>p \<in> set qs. relay prio p" using q pools(2) by auto
  from rounds_middle [OF st prio bs(1,2) this, of C gen] obtain s' ps where s': "send_rounds C b prio gen qs s = Inr s'"
    "sending b d x e m ext n r (out @ concat (map packet_bytes ps)) (0 + 1024 * length qs) main s'"
    "concat (map chunk_payload ps) = take (1024 * length qs) (drop 0 bs)" "length ps = length qs" by blast
  have "take 1024 (drop (1024 * length qs) bs) = drop (1024 * length qs) bs" using q(3) by simp
  then have "concat (map chunk_payload ps) @ chunk_payload (chunk_packet ext main (1024 * length qs) bs) = bs"
    using s'(3) by (simp add: chunk_payload)
  with s' q pools show ?thesis
    by (intro exI [of _ s'] exI [of _ ps] exI [of _ "1024 * length qs"]) auto
qed

lemma send_rounds_last:
  assumes "pools \<noteq> []" "send_rounds C b prio gen (butlast pools) s = Inr s1"
    and "runs {} (tc_send_buffer_task C b prio gen) (set_pool (last pools) s1) Q"
  shows "\<exists>s'. send_rounds C b prio gen pools s = Inr s' \<and> Q () s'"
proof -
  have "send_rounds C b prio gen (butlast pools @ [last pools]) s = send_rounds C b prio gen [last pools] s1"
    unfolding send_rounds_append using assms(2) by simp
  then show ?thesis using assms(1,3) by (auto simp: runs_total)
qed

lemma rounds_last_buffer:
  assumes st: "sending b d x e m ext n r out 0 main s" and prio: "prio = req_priority (sd_schedule_info x)"
    and bs: "sb_data (selected_buffer x main) = Some bs" "sb_size (selected_buffer x main) = length bs" "bs \<noteq> []"
    and pools: "length pools = chunk_count bs" "\<forall>p \<in> set pools. relay prio p"
    and m: "main \<longrightarrow> block_array2 m = None" and r: "0 < r"
  shows "\<exists>s' ps. send_rounds C b prio gen pools s = Inr s'
    \<and> finished b d x e m (n - 1) (r - 1)
        (out @ concat (map packet_bytes ps) @ packet_bytes (LevelFinalize (x_size m) (y_size m) (z_size m))) (last pools) s'
    \<and> concat (map chunk_payload ps) = bs \<and> length ps = length pools"
proof -
  from rounds_buffer [OF st prio bs pools, of C gen] obtain s1 ps sent where s1: "send_rounds C b prio gen (butlast pools) s = Inr s1"
    "relay prio (last pools)" "pools \<noteq> []" "sending b d x e m ext n r (out @ concat (map packet_bytes ps)) sent main s1"
    "sent < length bs" "length bs \<le> sent + 1024"
    "concat (map chunk_payload ps) @ chunk_payload (chunk_packet ext main sent bs) = bs" "length ps = chunk_count bs - 1" by blast
  have "runs {} (tc_send_buffer_task C b prio gen) (set_pool (last pools) s1)
    (\<lambda>_. finished b d x e m (n - 1) (r - 1) ((out @ concat (map packet_bytes ps)) @ packet_bytes (chunk_packet ext main sent bs)
       @ packet_bytes (LevelFinalize (x_size m) (y_size m) (z_size m))) (sys_pool (set_pool (last pools) s1)))"
    using s1(2,4) by (intro round_last [OF _ prio bs(1,2) s1(5,6) _ m r]) simp_all
  from send_rounds_last [OF s1(3,1) this] obtain s' where "send_rounds C b prio gen pools s = Inr s'"
    "finished b d x e m (n - 1) (r - 1) (out @ concat (map packet_bytes (ps @ [chunk_packet ext main sent bs]))
       @ packet_bytes (LevelFinalize (x_size m) (y_size m) (z_size m))) (last pools) s'" by auto
  moreover have "length (ps @ [chunk_packet ext main sent bs]) = length pools" using s1(3,8) pools(1) by (cases pools) auto
  moreover have "concat (map chunk_payload (ps @ [chunk_packet ext main sent bs])) = bs" using s1(7) by simp
  ultimately show ?thesis by blast
qed

lemma rounds_first_buffer:
  assumes st: "sending b d x e m ext n r out 0 True s" and prio: "prio = req_priority (sd_schedule_info x)"
    and bs: "sb_data (sd_block_array_buffer x) = Some bs" "sb_size (sd_block_array_buffer x) = length bs" "bs \<noteq> []"
    and pools: "length pools = chunk_count bs" "\<forall>p \<in> set pools. relay prio p" and m: "block_array2 m \<noteq> None"
  shows "\<exists>s' ps. send_rounds C b prio gen pools s = Inr s'
    \<and> sending b d x e m ext n r (out @ concat (map packet_bytes ps)) 0 False s'
    \<and> concat (map chunk_payload ps) = bs \<and> length ps = length pools"
proof -
  have b': "sb_data (selected_buffer x True) = Some bs" "sb_size (selected_buffer x True) = length bs" using bs by (simp_all add: selected_buffer_def)
  from rounds_buffer [OF st prio b' bs(3) pools, of C gen] obtain s1 ps sent where s1: "send_rounds C b prio gen (butlast pools) s = Inr s1"
    "relay prio (last pools)" "pools \<noteq> []" "sending b d x e m ext n r (out @ concat (map packet_bytes ps)) sent True s1"
    "sent < length bs" "length bs \<le> sent + 1024"
    "concat (map chunk_payload ps) @ chunk_payload (chunk_packet ext True sent bs) = bs" "length ps = chunk_count bs - 1" by blast
  have "runs {} (tc_send_buffer_task C b prio gen) (set_pool (last pools) s1)
    (\<lambda>_. sending b d x e m ext n r ((out @ concat (map packet_bytes ps)) @ packet_bytes (chunk_packet ext True sent bs)) 0 False)"
    using s1(2,4) by (intro round_switch [OF _ prio bs(1,2) s1(5,6) _ m]) simp_all
  from send_rounds_last [OF s1(3,1) this] obtain s' where "send_rounds C b prio gen pools s = Inr s'"
    "sending b d x e m ext n r (out @ concat (map packet_bytes (ps @ [chunk_packet ext True sent bs]))) 0 False s'" by auto
  moreover have "length (ps @ [chunk_packet ext True sent bs]) = length pools" using s1(3,8) pools(1) by (cases pools) auto
  moreover have "concat (map chunk_payload (ps @ [chunk_packet ext True sent bs])) = bs" using s1(7) by simp
  ultimately show ?thesis by blast
qed

lemma chunk_count_pos: "bs \<noteq> [] \<Longrightarrow> 0 < chunk_count bs"
  by (cases bs) (auto simp: chunk_count_def)

section \<open>From the loaded map to the first chunk\<close>

text \<open>
  A transfer whose map is in memory while no chunk has been sent: \<open>lk\<close> is the map pointer of the
  struct, null before \<open>on_map_load_success\<close>.
\<close>

definition prepared :: "nat \<Rightarrow> tc_send_map_data \<Rightarrow> nat \<Rightarrow> tc_map \<Rightarrow> pint32 \<Rightarrow> nat \<Rightarrow> cstring \<Rightarrow> tc_session \<Rightarrow> send_sys \<Rightarrow> bool" where
  "prepared d x e m n r out y s \<longleftrightarrow> map_data_at (wld s) d = Some x
     \<and> (\<exists>ent. entry_of s e = Some ent \<and> cached_map ent = Some m \<and> \<not> entry_locked ent \<and> open_count ent = n)
     \<and> map_readers (wld s) e = r \<and> sched_mallocs (sched s) = [] \<and> send_mallocs (wld s) = []
     \<and> sd_session x < length (session_buffer (send_server (wld s)))
     \<and> y = session_buffer (send_server (wld s)) ! sd_session x
     \<and> socket_open y \<and> \<not> action_locked y \<and> send_script (client_socket y) = [] \<and> wire (client_socket y) = out"

lemma prepared_pool [simp]: "prepared d x e m n r out y (set_pool p s) = prepared d x e m n r out y s"
  by (simp add: prepared_def)

lemma runs_send_malloc [send_rules]: "send_mallocs (wld s) = [] \<Longrightarrow> runs F send_malloc s Q \<longleftrightarrow> Q True s"
  unfolding send_malloc_def runs_on_outside by (simp add: runs_def)

lemma runs_reader_lock [send_rules]: "runs F (map_reader_lock e) s Q
    \<longleftrightarrow> Q () (set_wld ((wld s)\<lparr>map_readers := (map_readers (wld s))(e := map_readers (wld s) e + 1)\<rparr>) s)"
  by (simp add: map_reader_lock_def runs_on_outside runs_modifyC)

lemma runs_free_args: "runs F (on_sched free_args) s Q \<longleftrightarrow> Q () (s\<lparr>sched := (sched s)\<lparr>live_args := live_args (sched s) - 1\<rparr>\<rparr>)"
  by (simp add: runs_def on_sched_def free_args_def run_simps)

lemma runs_schedule_new [send_rules]:
  "runs F (on_sched (on_pool (\<lambda>p. tc_thread_schedule_new p f a prio gen))) s Q \<longleftrightarrow>
     (case tc_thread_schedule_new (sys_pool s) f a prio gen of Inl x \<Rightarrow> x \<in> F | Inr (ok, p) \<Rightarrow> Q ok (set_pool p s))"
  by (simp add: runs_def on_sched_def on_pool_def sys_pool_def set_pool_def split: sum.splits)

text \<open>A map without a second array and without extensions, and a client without \<open>FastMap\<close>.\<close>

definition plain_map :: "tc_map \<Rightarrow> cstring \<Rightarrow> bool" where
  "plain_map m bl \<longleftrightarrow> block_array m = Some bl \<and> block_array_count m = length bl \<and> block_array2 m = None
     \<and> env_aspect_extension m = None \<and> env_appearance_extension m = None \<and> env_weather_extension m = None
     \<and> env_colors_extension m = None \<and> block_definition_extensions m = None"

lemma load_success_prepares:
  assumes st: "prepared d x e m n r out y s" and m: "plain_map m bl"
    and fast: "tc_session_get_extension_version y TC_CPE_FASTMAP_EXTENSION_INDEX \<le> 0"
    and gz: "tc_gzip_byte_array z True True bl = (True, buf)"
    and pool: "tc_thread_schedule_new (sys_pool s) SendMapTask2 (plain_arg (SendMapData d)) (req_priority (sd_schedule_info x)) gen = Inr (True, p)"
  shows "runs {} (on_map_load_success C z e d PRIORITY_BLOCKING gen) s
    (\<lambda>_ s'. prepared d (x\<lparr>sd_map := Some e, sd_block_array_buffer := buf\<rparr>) e m n (r + 1) out y s' \<and> sys_pool s' = p)"
proof -
  obtain ent where ent: "entry_of s e = Some ent" "cached_map ent = Some m" using st by (auto simp: prepared_def)
  have f: "\<not> 0 < tc_session_get_extension_version (session_buffer (send_server (wld s)) ! sd_session x) TC_CPE_FASTMAP_EXTENSION_INDEX"
    using fast st by (simp add: prepared_def)
  have "sd_block_array2_buffer x = b2 \<Longrightarrow> x\<lparr>sd_map := Some e, sd_block_array_buffer := buf, sd_block_array2_buffer := b2\<rparr>
    = x\<lparr>sd_map := Some e, sd_block_array_buffer := buf\<rparr>" for b2 by (cases x) simp
  then have b2: "x\<lparr>sd_map := Some e, sd_block_array_buffer := buf, sd_block_array2_buffer := sd_block_array2_buffer x\<rparr>
    = x\<lparr>sd_map := Some e, sd_block_array_buffer := buf\<rparr>" by blast
  show ?thesis
    using st ent f gz pool m
    by (simp add: on_map_load_success_def compress_blocks_def runs_rules send_rules runs_free_args plain_map_def b2 prepared_def)
       (auto simp: wld_def entry_of_def sys_pool_def set_pool_def set_wld_def)
qed

lemma task2_starts:
  assumes st: "prepared d x e m n r out y s" and m: "plain_map m bl" and map: "sd_map x = Some e" and gen: "current_generation y = gen"
    and fast: "tc_session_get_extension_version y TC_CPE_FASTMAP_EXTENSION_INDEX \<le> 0"
    and pool: "relay (req_priority (sd_schedule_info x)) (sys_pool s)"
  shows "runs {} (tc_send_map_task2 C d (req_priority (sd_schedule_info x)) gen) s
    (\<lambda>_. sending (next_buffer_data (wld s)) d x e m (tc_session_get_extension_version y TC_CPE_EXTENDED_BLOCKS_EXTENSION_INDEX > 0)
       n r (out @ packet_bytes LevelInitialize) 0 True)"
proof -
  obtain ent where ent: "entry_of s e = Some ent" "cached_map ent = Some m" "\<not> entry_locked ent" "open_count ent = n"
    using st by (auto simp: prepared_def)
  have q: "\<exists>q. tc_thread_schedule_next (sys_pool s) SendBufferTask (Some SendBufferHandleFailure)
      (plain_arg (SendBufferData (next_buffer_data (wld s)))) (req_priority (sd_schedule_info x)) gen = Inr q"
    using pool unfolding relay_def by blast
  have init: "tc_protocol_send_level_initialize k = Inr (True, k\<lparr>wire := wire k @ packet_bytes LevelInitialize\<rparr>)"
    if "send_script k = []" for k using that by (simp add: tc_protocol_send_level_initialize_def socket_simps)
  have v: "tc_session_get_extension_version (a\<lparr>action_locked := l\<rparr>) i = tc_session_get_extension_version a i"
    "tc_session_get_extension_version (a\<lparr>client_socket := k\<rparr>) i = tc_session_get_extension_version a i" for a l k i
    by (simp_all add: tc_session_get_extension_version_def)
  show ?thesis
    using st m ent q map gen fast
    by (auto simp: tc_send_map_task2_def tc_session_aquire_action_lock_def send_initialize_def send_environment_def send_weather_def
        send_colors_def check_block_definitions_def send_packets_def need_map_def plain_map_def prepared_def sending_def v init
        runs_rules send_rules run_simps runs_on_socket_eq Let_def)
qed

section \<open>A sample transfer\<close>

definition sample_send_data :: "nat option \<Rightarrow> tc_send_map_data" where
  "sample_send_data e = \<lparr>sd_session = 0, sd_file_name = bytes_of ''lobby'', sd_map = e,
     sd_schedule_info = \<lparr>req_success = 1, req_failure = 2, req_context = 3, req_priority = PRIORITY_HIGH, req_generation = 0\<rparr>,
     sd_block_array_buffer = (if e = None then empty_buffer else \<lparr>sb_data = Some [4, 5, 6], sb_size = 3\<rparr>),
     sd_block_array2_buffer = empty_buffer\<rparr>"

definition sample_plain_map :: tc_map where
  "sample_plain_map = demo_map\<lparr>block_array2 := None, block_array2_count := 0\<rparr>"

definition sample_client :: "bool \<Rightarrow> tc_session" where
  "sample_client locked = (demo_session [])\<lparr>action_locked := locked, ext_cpe_versions := [0, 0, 4], current_generation := 0\<rparr>"

definition sample_send :: "tc_map \<Rightarrow> nat option \<Rightarrow> bool \<Rightarrow> send_sys" where
  "sample_send m e locked = \<lparr>sched = \<lparr>sched_pool = pool_of demo_start,
       sched_world = \<lparr>entry_at = [0 \<mapsto> (sample_cached 1 True)\<lparr>cached_map := Some m\<rparr>], next_entry = 1, id_to_index = [],
         cache_head = Some 0, cache_tail = Some 0, clock_hand = None, num_entries = 1, cache_readers = 0, cache_writer = False,
         cache_memory_usage = 100, memory_usage_threshold = 500,
         outside = \<lparr>send_server = demo_server (sample_client locked) (pool_of demo_start), map_data_at = [0 \<mapsto> sample_send_data e],
           next_map_data = 1, buffer_data_at = (if locked then [0 \<mapsto> \<lparr>send_map_data = 0, sent_count = 0, send_main_buffer = True\<rparr>] else Map.empty),
           next_buffer_data = 1, map_readers = (\<lambda>_. if e = None then 0 else 1), send_mallocs = []\<rparr>\<rparr>,
       sched_mallocs = [], live_args = 0\<rparr>,
     blocks = \<lparr>block_at = (\<lambda>_. None), next_address = 0, malloc_script = []\<rparr>\<rparr>"

definition relay_pool :: "(send_task, send_args) tc_thread_pool" where
  "relay_pool = pool_of (demo_running SendBufferTask (plain_arg (SendBufferData 0)))"

lemma relay_pool: "relay PRIORITY_HIGH relay_pool"
proof -
  let ?f = SendBufferTask and ?x = "plain_arg (SendBufferData 0)"
  have w: "0 < length (workers (demo_running ?f ?x))" "workers (demo_running ?f ?x) ! 0 = Running (demo_task ?f ?x) False"
    "priority (demo_task ?f ?x) = PRIORITY_HIGH" "\<not> shutdown (pool_of (demo_running ?f ?x))" by code_simp+
  note c = continuation_total [OF demo_running_reachable w(1,2)]
  show ?thesis unfolding relay_def relay_pool_def
  proof (intro conjI allI)
    fix f sf a g
    show "\<exists>q. tc_thread_schedule_next (pool_of (demo_running ?f ?x)) f sf a PRIORITY_HIGH g = Inr q"
      using c [of f sf a g None] w(3) by simp
    show "\<exists>q. tc_thread_schedule_next2 (pool_of (demo_running ?f ?x)) (Some f) a PRIORITY_HIGH g = Inr (True, q)"
      using c [of f None a g "Some f"] w(3,4) by auto
  qed
qed

lemmas sample_send_simps = sample_send_def sample_send_data_def sample_client_def sample_cached_def demo_server_def demo_session_def
  new_session_def idle_session_def wld_def entry_of_def

lemma sample_sending:
  "sending 0 0 (sample_send_data (Some 0)) 0 sample_plain_map False 1 1 [] 0 True (sample_send sample_plain_map (Some 0) True)"
  by (simp add: sending_def sample_send_simps tc_session_get_extension_version_def TC_CPE_EXTENDED_BLOCKS_EXTENSION_INDEX_def
      TC_CPE_EXTENSION_MAX_SUPPORTED_def)

lemma sample_prepared:
  "prepared 0 (sample_send_data e) 0 m 1 (if e = None then 0 else 1) [] (sample_client False) (sample_send m e False)"
  by (simp add: prepared_def sample_send_simps)

section \<open>Properties\<close>

text \<open>
  [C30] A map reaches the client completely: on a socket that accepts what it is given, and with a
  pool that takes continuations, the buffer task run again and again ends after as many rounds as
  the two compressed buffers have chunks of 1024 bytes. The client has then received one chunk
  packet per round whose payloads are exactly the first buffer followed by the second, then the
  packet that finalizes the level; both structs are freed, the lock of the session and of the map
  are released and the caller's task is queued.
\<close>

theorem map_transfer_complete:
  assumes st: "sending b d x e m ext n r out 0 True s" and r: "0 < r"
    and bs: "sb_data (sd_block_array_buffer x) = Some bs" "sb_size (sd_block_array_buffer x) = length bs" "bs \<noteq> []"
    and bs2: "block_array2 m \<noteq> None \<longrightarrow>
        sb_data (sd_block_array2_buffer x) = Some bs2 \<and> sb_size (sd_block_array2_buffer x) = length bs2 \<and> bs2 \<noteq> []"
    and pools: "length pools = chunk_count bs + (if block_array2 m = None then 0 else chunk_count bs2)"
      "\<forall>p \<in> set pools. relay (req_priority (sd_schedule_info x)) p"
  shows "\<exists>s' ps. send_rounds C b (req_priority (sd_schedule_info x)) gen pools s = Inr s'
    \<and> finished b d x e m (n - 1) (r - 1)
        (out @ concat (map packet_bytes ps) @ packet_bytes (LevelFinalize (x_size m) (y_size m) (z_size m))) (last pools) s'
    \<and> concat (map chunk_payload ps) = bs @ (if block_array2 m = None then [] else bs2) \<and> length ps = length pools"
proof (cases "block_array2 m = None")
  case True
  have b': "sb_data (selected_buffer x True) = Some bs" "sb_size (selected_buffer x True) = length bs" using bs by (simp_all add: selected_buffer_def)
  show ?thesis using rounds_last_buffer [OF st refl b' bs(3) _ pools(2) _ r, of C gen] pools(1) True by simp
next
  case False
  let ?prio = "req_priority (sd_schedule_info x)" and ?n = "chunk_count bs"
  have b2: "sb_data (selected_buffer x False) = Some bs2" "sb_size (selected_buffer x False) = length bs2" "bs2 \<noteq> []"
    using bs2 False by (simp_all add: selected_buffer_def)
  have l: "length (take ?n pools) = chunk_count bs" "length (drop ?n pools) = chunk_count bs2" using pools(1) False by simp_all
  have p: "\<forall>p \<in> set (take ?n pools). relay ?prio p" "\<forall>p \<in> set (drop ?n pools). relay ?prio p"
    using pools(2) by (auto dest: in_set_takeD in_set_dropD)
  from rounds_first_buffer [OF st refl bs l(1) p(1) False, of C gen] obtain s1 ps where
    s1: "send_rounds C b ?prio gen (take ?n pools) s = Inr s1" "concat (map chunk_payload ps) = bs" "length ps = ?n"
    and st1: "sending b d x e m ext n r (out @ concat (map packet_bytes ps)) 0 False s1" using l(1) by auto
  from rounds_last_buffer [OF st1 refl b2 l(2) p(2) _ r, of C gen] obtain s' qs where
    s': "send_rounds C b ?prio gen (drop ?n pools) s1 = Inr s'" "finished b d x e m (n - 1) (r - 1) ((out @ concat (map packet_bytes ps))
        @ concat (map packet_bytes qs) @ packet_bytes (LevelFinalize (x_size m) (y_size m) (z_size m))) (last (drop ?n pools)) s'"
    "concat (map chunk_payload qs) = bs2" "length qs = length (drop ?n pools)" by auto
  have "send_rounds C b ?prio gen (take ?n pools @ drop ?n pools) s = Inr s'" unfolding send_rounds_append using s1(1) s'(1) by simp
  moreover have "last (drop ?n pools) = last pools" using chunk_count_pos [OF b2(3)] l(2) by (intro last_drop) simp
  ultimately show ?thesis using s1(2,3) s'(2-4) l False
    by (intro exI [of _ s'] exI [of _ "ps @ qs"]) (auto simp: pools(1))
qed


theorem map_transfer_complete_witness:
  "\<exists>s' ps. send_rounds (\<lambda>_ _ _ c. c) 0 PRIORITY_HIGH 0 [relay_pool] (sample_send sample_plain_map (Some 0) True) = Inr s'
    \<and> map_data_at (wld s') 0 = None \<and> concat (map chunk_payload ps) = [4, 5, 6]
    \<and> wire (client_socket (session_buffer (send_server (wld s')) ! 0)) = concat (map packet_bytes ps) @ packet_bytes (LevelFinalize 2 3 4)"
  using map_transfer_complete [OF sample_sending, of "[4, 5, 6]" "[]" "[relay_pool]" "\<lambda>_ _ _ c. c" 0] relay_pool
  by (auto simp: sample_send_data_def sample_plain_map_def demo_map_def empty_map_def chunk_count_def finished_def Let_def)

text \<open>
  A map with the aspect extension but without the appearance extension crashes the server: with
  a client that supports \<open>EnvMapAspect\<close>, \<open>tc_send_map_task2\<close> reads the texture of the appearance
  extension through a null pointer.
\<close>

theorem aspect_without_appearance_crashes:
  assumes st: "prepared d x e m n r out y s" and map: "sd_map x = Some e" and gen: "current_generation y = gen"
    and v: "tc_session_get_extension_version y TC_CPE_FASTMAP_EXTENSION_INDEX \<le> 0"
      "tc_session_get_extension_version y TC_CPE_ENV_MAP_ASPECT_EXTENSION_INDEX > 0"
    and m: "env_aspect_extension m \<noteq> None" "env_appearance_extension m = None"
  shows "tc_send_map_task2 C d (req_priority (sd_schedule_info x)) gen s = Inl NullDereference"
proof -
  obtain ent a where ent: "entry_of s e = Some ent" "cached_map ent = Some m" "env_aspect_extension m = Some a"
    using st m(1) by (auto simp: prepared_def)
  have init: "tc_protocol_send_level_initialize k = Inr (True, k\<lparr>wire := wire k @ packet_bytes LevelInitialize\<rparr>)"
    if "send_script k = []" for k using that by (simp add: tc_protocol_send_level_initialize_def socket_simps)
  have u: "tc_session_get_extension_version (z\<lparr>action_locked := l\<rparr>) i = tc_session_get_extension_version z i"
    "tc_session_get_extension_version (z\<lparr>client_socket := k\<rparr>) i = tc_session_get_extension_version z i" for z l k i
    by (simp_all add: tc_session_get_extension_version_def)
  have "runs {NullDereference} (tc_send_map_task2 C d (req_priority (sd_schedule_info x)) gen) s (\<lambda>_ _. False)"
    using st ent map gen v m(2)
    by (auto simp: tc_send_map_task2_def tc_session_aquire_action_lock_def send_initialize_def send_environment_def send_packets_def
        need_map_def prepared_def aspect_packets_def u init runs_rules send_rules run_simps runs_on_socket_eq Let_def)
  then show ?thesis by (auto simp: runs_def split: sum.splits)
qed

theorem aspect_without_appearance_crashes_witness:
  "tc_send_map_task2 (\<lambda>_ _ _ c. c) 0 PRIORITY_HIGH 0
     (sample_send (sample_plain_map\<lparr>env_aspect_extension := Some sample_aspect\<rparr>) (Some 0) False) = Inl NullDereference"
proof -
  have "tc_session_get_extension_version (sample_client False) TC_CPE_FASTMAP_EXTENSION_INDEX \<le> 0"
    "tc_session_get_extension_version (sample_client False) TC_CPE_ENV_MAP_ASPECT_EXTENSION_INDEX > 0" by code_simp+
  then show ?thesis
    using aspect_without_appearance_crashes [OF sample_prepared [of "Some 0" "sample_plain_map\<lparr>env_aspect_extension := Some sample_aspect\<rparr>"], of 0]
    by (simp add: sample_send_data_def sample_client_def sample_plain_map_def demo_map_def empty_map_def)
qed

text \<open>
  A client that leaves before its map is sent keeps the map in memory for ever: when the
  generation of the session has changed, \<open>tc_send_map_task2\<close> returns at once, with the reader lock
  of the map still held, the reference not given back and the struct not freed, and the caller is
  never told.
\<close>

theorem abandoned_transfer_leaks:
  assumes st: "prepared d x e m n r out y s" and gen: "current_generation y \<noteq> gen"
  shows "tc_send_map_task2 C d (req_priority (sd_schedule_info x)) gen s = Inr ((), s)"
proof -
  have "runs {} (tc_send_map_task2 C d (req_priority (sd_schedule_info x)) gen) s (\<lambda>_ s'. s' = s)"
    using st gen by (auto simp: tc_send_map_task2_def tc_session_aquire_action_lock_def prepared_def runs_rules send_rules)
  then show ?thesis by (simp add: runs_total)
qed

theorem abandoned_transfer_leaks_witness:
  "tc_send_map_task2 (\<lambda>_ _ _ c. c) 0 PRIORITY_HIGH 5 (sample_send sample_plain_map (Some 0) False)
     = Inr ((), sample_send sample_plain_map (Some 0) False)"
  using abandoned_transfer_leaks [OF sample_prepared [of "Some 0" sample_plain_map], of 5]
  by (simp add: sample_send_data_def sample_client_def)

end
