(* ===== verification/TC_Lobby.thy ===== *)
theory TC_Lobby
  imports TC_Api
begin

text \<open>
  The lobby world that \<^verbatim>\<open>src/main.c\<close> registers: joining it sends the lobby's map, and when the map is
  there the player is moved to its spawn and listened to again.
\<close>

section \<open>The handlers\<close>

definition test_handle_map_send_failure :: "joinable_table \<Rightarrow> nat \<Rightarrow> int \<Rightarrow> (send_sys, unit) cm" where
  "test_handle_map_send_failure J sid gen = on_server (tc_server_kick_session J sid (Some ''Failed to send map.'') gen False)"

definition send_spawn :: "tc_map \<Rightarrow> (psocket, bool) cm" where
  "send_spawn m = (let p = tc_spawn_position_to_player_position (spawn m)
     in tc_protocol_send_set_player_position_and_orientation (-1) (pp_x p) (pp_y p) (pp_z p) (pp_heading p) (pp_pitch p) False)"

text \<open>The results of \<open>tc_session_aquire_action_lock\<close> and of the send are not looked at.\<close>

definition test_handle_map_send_success :: "nat \<Rightarrow> nat \<Rightarrow> tc_thread_pool_task_priority \<Rightarrow> int \<Rightarrow> (send_sys, unit) cm" where
  "test_handle_map_send_success e sid prio gen =
     thenC (map_reader_lock e)
     (thenC (on_server (tc_session_aquire_action_lock sid gen))
     (bindC (read_map e) (\<lambda>m.
     thenC (on_server (on_socket sid (send_spawn m)))
     (thenC (on_server (tc_session_release_action_lock sid))
     (thenC (map_reader_unlock e)
     (thenC (send_schedule_next (ServerTask ClientListenTask) (ServerTask ShutdownClientTask) (ClientContext sid) prio gen)
       (on_sched free_args)))))))"

text \<open>The task and failure handler are number 0 of the callers of \<open>tc_api_schedule_send_map\<close>.\<close>

definition lobby_request :: "nat \<Rightarrow> int \<Rightarrow> client_request" where
  "lobby_request sid gen = \<lparr>req_success = 0, req_failure = 0, req_context = sid, req_priority = PRIORITY_MEDIUM, req_generation = gen\<rparr>"

definition test_attempt_join :: "client_failures \<Rightarrow> psize \<Rightarrow> bool list \<Rightarrow> nat \<Rightarrow> tc_thread_pool_task_priority \<Rightarrow> int \<Rightarrow> (send_sys, bool) cm" where
  "test_attempt_join F entry_size mem sid current_priority gen =
     tc_api_schedule_send_map F entry_size mem sid (bytes_of ''./classic_worlds/lobby.cw'') None (lobby_request sid gen) current_priority"

section \<open>Lemmas\<close>

lemma spawn_sent:
  assumes "send_script k = []"
  shows "\<exists>bytes. send_spawn m k = Inr (True, k\<lparr>wire := wire k @ bytes\<rparr>) \<and> length bytes = 16"
  using assms
  by (simp add: send_spawn_def tc_protocol_send_set_player_position_and_orientation_def send_position_def socket_simps)
    (rule exI, rule conjI, rule refl, simp)

text \<open>A session in the state between two tasks, with a map whose lock nobody holds for writing.\<close>

definition lobby_state :: "nat \<Rightarrow> nat \<Rightarrow> tc_map \<Rightarrow> tc_session \<Rightarrow> nat \<Rightarrow> send_sys \<Rightarrow> bool" where
  "lobby_state e sid m y r s \<longleftrightarrow> (\<exists>ent. entry_of s e = Some ent \<and> cached_map ent = Some m) \<and> map_readers (wld s) e = r
     \<and> sid < length (session_buffer (send_server (wld s))) \<and> y = session_buffer (send_server (wld s)) ! sid
     \<and> socket_open y \<and> \<not> action_locked y \<and> send_script (client_socket y) = []"

lemma lobby_simps:
  "wld (s\<lparr>sched := (sched s)\<lparr>live_args := n\<rparr>\<rparr>) = wld s" "sys_pool (s\<lparr>sched := (sched s)\<lparr>live_args := n\<rparr>\<rparr>) = sys_pool s"
  "entry_of (s\<lparr>sched := (sched s)\<lparr>live_args := n\<rparr>\<rparr>) = entry_of s"
  by (simp_all add: wld_def sys_pool_def entry_of_def fun_eq_iff)

text \<open>The sample client in a slot whose generation is 0.\<close>

lemma sample_lobby: "lobby_state 0 0 sample_plain_map (sample_client False) 1 (set_pool p (sample_send sample_plain_map (Some 0) False))"
  by (simp add: lobby_state_def) (simp add: sample_send_simps)

section \<open>Properties\<close>

text \<open>
  The lobby's success handler moves the player to the spawn: for a session of the expected
  generation it returns, the client has received one packet, the locks are as before and the listening
  task is queued. The packet has 16 bytes: each coordinate is sent as four, where the protocol without
  extended positions has two.
\<close>

theorem lobby_success_moves_player:
  assumes st: "lobby_state e sid m y r s" and gen: "current_generation y = gen" and pool: "relay prio (sys_pool s)"
  shows "\<exists>s' bytes. test_handle_map_send_success e sid prio gen s = Inr ((), s') \<and> length bytes = 16
    \<and> lobby_state e sid m (y\<lparr>client_socket := (client_socket y)\<lparr>wire := wire (client_socket y) @ bytes\<rparr>\<rparr>) r s'
    \<and> tc_thread_schedule_next (sys_pool s) (ServerTask ClientListenTask) (Some (ServerTask ShutdownClientTask))
        (plain_arg (ClientContext sid)) prio gen = Inr (sys_pool s')"
proof -
  obtain ent bytes where ent: "entry_of s e = Some ent" "cached_map ent = Some m" and l: "length bytes = 16"
    and b: "send_spawn m (client_socket y) = Inr (True, (client_socket y)\<lparr>wire := wire (client_socket y) @ bytes\<rparr>)"
    using st spawn_sent [of "client_socket y" m] by (auto simp: lobby_state_def)
  obtain q where q: "tc_thread_schedule_next (sys_pool s) (ServerTask ClientListenTask) (Some (ServerTask ShutdownClientTask))
        (plain_arg (ClientContext sid)) prio gen = Inr q" using pool unfolding relay_def by blast
  have al: "y\<lparr>action_locked := False\<rparr> = y" using st by (cases y) (simp add: lobby_state_def)
  let ?y = "y\<lparr>client_socket := (client_socket y)\<lparr>wire := wire (client_socket y) @ bytes\<rparr>\<rparr>"
  have "?y\<lparr>action_locked := False\<rparr> = ?y" using al by (cases y) simp
  then have "runs {} (test_handle_map_send_success e sid prio gen) s (\<lambda>_ s'. lobby_state e sid m ?y r s' \<and> sys_pool s' = q)"
    using st gen ent b q by (auto simp: test_handle_map_send_success_def tc_session_aquire_action_lock_def lobby_state_def
        runs_rules send_rules runs_on_socket_eq runs_free_args lobby_simps)
  with l q show ?thesis by (auto simp: runs_total)
qed

theorem lobby_success_moves_player_witness:
  "\<exists>s' bytes. test_handle_map_send_success 0 0 PRIORITY_HIGH 0 (set_pool relay_pool (sample_send sample_plain_map (Some 0) False)) = Inr ((), s')
    \<and> length bytes = 16 \<and> wire (client_socket (session_buffer (send_server (wld s')) ! 0)) = bytes"
proof -
  let ?s = "set_pool relay_pool (sample_send sample_plain_map (Some 0) False)" and ?y = "sample_client False"
  have y: "current_generation ?y = 0" "wire (client_socket ?y) = []"
    by (simp_all add: sample_client_def demo_session_def new_session_def)
  have p: "relay PRIORITY_HIGH (sys_pool ?s)" using relay_pool by simp
  obtain s' bytes where r: "test_handle_map_send_success 0 0 PRIORITY_HIGH 0 ?s = Inr ((), s')" "length bytes = 16"
    and l: "lobby_state 0 0 sample_plain_map (?y\<lparr>client_socket := (client_socket ?y)\<lparr>wire := wire (client_socket ?y) @ bytes\<rparr>\<rparr>) 1 s'"
    using lobby_success_moves_player [OF sample_lobby y(1) p] by blast
  from l have "session_buffer (send_server (wld s')) ! 0 = ?y\<lparr>client_socket := (client_socket ?y)\<lparr>wire := bytes\<rparr>\<rparr>"
    unfolding lobby_state_def by (simp add: y)
  with r show ?thesis by auto
qed

text \<open>
  The handler does not check that it got the lock: when the session has meanwhile ended and its
  slot serves another client, the handler sends the packet to that client and then releases a lock it
  does not hold.
\<close>

theorem stale_success_releases_foreign_lock:
  assumes st: "lobby_state e sid m y r s" and gen: "current_generation y \<noteq> gen"
  shows "test_handle_map_send_success e sid prio gen s = Inl UnlockNotHeld"
proof -
  obtain ent bytes where ent: "entry_of s e = Some ent" "cached_map ent = Some m"
    and b: "send_spawn m (client_socket y) = Inr (True, (client_socket y)\<lparr>wire := wire (client_socket y) @ bytes\<rparr>)"
    using st spawn_sent [of "client_socket y" m] by (auto simp: lobby_state_def)
  have "runs {UnlockNotHeld} (test_handle_map_send_success e sid prio gen) s (\<lambda>_ _. False)"
    using st gen ent b by (auto simp: test_handle_map_send_success_def tc_session_aquire_action_lock_def lobby_state_def
        runs_rules send_rules runs_on_socket_eq)
  then show ?thesis by (auto simp: runs_def split: sum.splits)
qed


theorem stale_success_releases_foreign_lock_witness:
  "test_handle_map_send_success 0 0 PRIORITY_HIGH 7 (set_pool relay_pool (sample_send sample_plain_map (Some 0) False)) = Inl UnlockNotHeld"
  by (rule stale_success_releases_foreign_lock [OF sample_lobby]) (simp add: sample_client_def)

end
