(* ===== verification/TC_Lifecycle.thy ===== *)
theory TC_Lifecycle
  imports TC_Server
begin

text \<open>
  The life of the server's resources: \<open>tc_server_init\<close>, \<open>tc_server_start\<close>, \<open>tc_server_finalize\<close>
  (\<^verbatim>\<open>src/server.c\<close>), the creation and finalisation of the thread pool and of the heartbeat manager,
  and \<open>run_server\<close> (\<^verbatim>\<open>src/main.c\<close>), as operations on a ledger of what is allocated. The state
  machines behind the resources are those of the other theories; here they appear through what
  joining their threads needs: a worker returns after the pool was stopped, the heartbeat thread
  after the manager was started and stopped. Joining a thread that never returns is the fault
  \<open>SelfDeadlock\<close>, freeing what is not allocated \<open>UseAfterFree\<close>.
\<close>

section \<open>The ledger\<close>

datatype resource =
    ServerStruct
  | SocketAddress
  | ListenerSocket
  | PoolLock
  | PoolCondition
  | Worker nat
  | HeartbeatLock
  | StartCondition
  | AuthTree
  | HeartbeatThread
  | CacheTree
  | CacheLock
  | RouterLock
  | ServerLock
  | ActionLock nat

text \<open>
  \<open>outcomes\<close> says which of the next fallible calls succeed; an exhausted list succeeds. The field
  \<open>started\<close> of a new server is what the memory held.
\<close>

record life =
  live :: "resource list"
  outcomes :: "bool list"
  started :: bool
  pool_threads :: nat
  pool_stopped :: bool
  heartbeat_started :: bool
  heartbeat_stopped :: bool

definition attempt :: "(life, bool) cm" where
  "attempt = (\<lambda>s. case outcomes s of [] \<Rightarrow> Inr (True, s) | ok # rest \<Rightarrow> Inr (ok, s\<lparr>outcomes := rest\<rparr>))"

definition acquire :: "resource \<Rightarrow> (life, bool) cm" where
  "acquire r = bindC attempt (\<lambda>ok. if ok then thenC (modifyC (\<lambda>s. s\<lparr>live := r # live s\<rparr>)) (retC True) else retC False)"

definition release :: "resource \<Rightarrow> (life, unit) cm" where
  "release r = (\<lambda>s. if r \<in> set (live s) then Inr ((), s\<lparr>live := remove1 r (live s)\<rparr>) else Inl UseAfterFree)"

primrec release_all :: "resource list \<Rightarrow> (life, unit) cm" where
  "release_all [] = retC ()"
| "release_all (r # rs) = thenC (release r) (release_all rs)"

text \<open>A loop that creates one resource after the other; the result is how many it got.\<close>

fun acquire_each :: "resource list \<Rightarrow> (life, nat) cm" where
  "acquire_each [] = retC 0"
| "acquire_each (r # rs) = bindC (acquire r) (\<lambda>ok. if ok then bindC (acquire_each rs) (\<lambda>n. retC (Suc n)) else retC 0)"

section \<open>Thread pool and heartbeat manager\<close>

text \<open>\<open>ideal\<close> is \<open>p_uthread_ideal_count()\<close>.\<close>

definition pool_create :: "nat \<Rightarrow> nat \<Rightarrow> (life, bool) cm" where
  "pool_create ideal reserved =
     (if reserved \<ge> ideal then retC False
      else let n = min (ideal - reserved) TC_THREADS_MAX_THREADS in
        thenC (modifyC (\<lambda>s. s\<lparr>pool_threads := n\<rparr>))
        (bindC (acquire PoolLock) (\<lambda>ok. if \<not> ok then retC False
        else bindC (acquire PoolCondition) (\<lambda>ok. if \<not> ok then thenC (release PoolLock) (retC False)
        else thenC (modifyC (\<lambda>s. s\<lparr>pool_stopped := False\<rparr>))
          (bindC (acquire_each (map Worker [0..<n])) (\<lambda>i.
           if i < n then thenC (release_all ([PoolLock, PoolCondition] @ map Worker [0..<i])) (retC False)
           else retC True))))))"

definition pool_stop :: "(life, unit) cm" where
  "pool_stop = modifyC (\<lambda>s. s\<lparr>pool_stopped := True\<rparr>)"

definition tc_thread_pool_finalize :: "(life, unit) cm" where
  "tc_thread_pool_finalize = bindC (getC pool_stopped) (\<lambda>st. bindC (getC pool_threads) (\<lambda>n.
     if \<not> st \<and> n > 0 then faultC SelfDeadlock
     else release_all (map Worker [0..<n] @ [PoolLock, PoolCondition])))"

definition heartbeat_create :: "(life, bool) cm" where
  "heartbeat_create = thenC (modifyC (\<lambda>s. s\<lparr>heartbeat_started := False, heartbeat_stopped := False\<rparr>))
     (bindC (acquire HeartbeatLock) (\<lambda>ok. if \<not> ok then retC False
      else bindC (acquire StartCondition) (\<lambda>ok. if \<not> ok then thenC (release HeartbeatLock) (retC False)
      else bindC (acquire AuthTree) (\<lambda>ok. if \<not> ok then thenC (release_all [HeartbeatLock, StartCondition]) (retC False)
      else bindC (acquire HeartbeatThread) (\<lambda>ok.
        if \<not> ok then thenC (release_all [HeartbeatLock, AuthTree, StartCondition]) (retC False) else retC True)))))"

definition tc_heartbeat_manager_finalize :: "(life, unit) cm" where
  "tc_heartbeat_manager_finalize = bindC (getC (\<lambda>s. heartbeat_started s \<and> heartbeat_stopped s)) (\<lambda>returned.
     if \<not> returned then faultC SelfDeadlock
     else release_all [HeartbeatThread, AuthTree, HeartbeatLock, StartCondition])"

definition cache_create :: "(life, bool) cm" where
  "cache_create = bindC (acquire CacheTree) (\<lambda>ok. if \<not> ok then retC False
     else bindC (acquire CacheLock) (\<lambda>ok. if \<not> ok then thenC (release CacheTree) (retC False) else retC True))"

text \<open>Without entries, as during initialisation and when no map was opened.\<close>

definition cache_finalize :: "(life, unit) cm" where
  "cache_finalize = release_all [CacheTree, CacheLock]"

section \<open>The server\<close>

definition free_listener :: "(life, unit) cm" where
  "free_listener = release_all [ListenerSocket, SocketAddress]"

text \<open>What every failure after the thread pool begins with.\<close>

definition undo_pool :: "(life, unit) cm" where
  "undo_pool = thenC pool_stop (thenC tc_thread_pool_finalize free_listener)"

text \<open>The initialisation from the map cache on.\<close>

definition init_rest :: "(life, bool) cm" where
  "init_rest = bindC cache_create (\<lambda>ok. if \<not> ok then thenC undo_pool (thenC tc_heartbeat_manager_finalize (retC False))
     else bindC (acquire RouterLock) (\<lambda>ok. if \<not> ok then
         thenC undo_pool (thenC tc_heartbeat_manager_finalize (thenC cache_finalize (retC False)))
     else bindC (acquire ServerLock) (\<lambda>ok. if \<not> ok then
         thenC undo_pool (thenC tc_heartbeat_manager_finalize (thenC cache_finalize (thenC (release RouterLock) (retC False))))
     else bindC (acquire_each (map ActionLock [0..<TC_SERVER_MAX_SESSIONS])) (\<lambda>i. if i < TC_SERVER_MAX_SESSIONS then
         thenC undo_pool (thenC tc_heartbeat_manager_finalize (thenC cache_finalize (thenC (release RouterLock)
           (thenC (release_all (map ActionLock [0..<i] @ [ServerLock])) (retC False)))))
     else retC True))))"

definition tc_server_init :: "nat \<Rightarrow> nat \<Rightarrow> (life, bool) cm" where
  "tc_server_init ideal reserved =
     bindC (acquire SocketAddress) (\<lambda>ok. if \<not> ok then retC False
     else bindC (acquire ListenerSocket) (\<lambda>ok. if \<not> ok then thenC (release SocketAddress) (retC False)
     else bindC attempt (\<lambda>bound. if \<not> bound then thenC free_listener (retC False)
     else bindC (pool_create ideal reserved) (\<lambda>ok. if \<not> ok then thenC free_listener (retC False)
     else bindC heartbeat_create (\<lambda>ok. if \<not> ok then thenC undo_pool (retC False)
     else init_rest)))))"

text \<open>\<open>p_socket_listen\<close> and the scheduling of the listener task are the two calls that can fail.\<close>

definition life_server_start :: "(life, bool) cm" where
  "life_server_start = bindC (getC started) (\<lambda>st. if st then retC False
     else bindC attempt (\<lambda>listening. if \<not> listening then retC False
     else bindC attempt (\<lambda>scheduled. if \<not> scheduled then thenC (release ListenerSocket) (retC False)
     else thenC (modifyC (\<lambda>s. s\<lparr>heartbeat_started := True, started := True\<rparr>)) (retC True))))"

definition life_server_stop :: "(life, unit) cm" where
  "life_server_stop = bindC (getC started) (\<lambda>st. whenC st
     (thenC (modifyC (\<lambda>s. s\<lparr>heartbeat_stopped := True\<rparr>)) pool_stop))"

definition tc_server_finalize :: "(life, unit) cm" where
  "tc_server_finalize = bindC (getC started) (\<lambda>st.
     thenC (whenC st life_server_stop)
     (thenC tc_thread_pool_finalize
     (thenC tc_heartbeat_manager_finalize
     (thenC (release_all [SocketAddress, ListenerSocket, ServerLock])
     (thenC (release RouterLock)
     (thenC cache_finalize
       (release_all (map ActionLock [0..<TC_SERVER_MAX_SESSIONS]))))))))"

section \<open>The program\<close>

text \<open>
  The console loop ends at the line \<open>quit\<close>; at the end of the input \<open>fgets\<close> fails and leaves the
  buffer as it is, so the loop never ends.
\<close>

fun console :: "string list \<Rightarrow> unit option" where
  "console [] = None"
| "console (line # rest) = (if line = ''quit'' @ [CHR 0x0A] then Some () else console rest)"

definition run_server :: "nat \<Rightarrow> string list \<Rightarrow> life \<Rightarrow> (fault + bool \<times> life) option" where
  "run_server ideal input s =
     (case acquire ServerStruct s of
        Inl f \<Rightarrow> Some (Inl f)
      | Inr (ok, s) \<Rightarrow>
          if \<not> ok then Some (Inr (False, s))
          else (case tc_server_init ideal 2 s of
                  Inl f \<Rightarrow> Some (Inl f)
                | Inr (ok, s) \<Rightarrow>
                    if \<not> ok then Some (thenC (release ServerStruct) (retC False) s)
                    else (case life_server_start s of
                            Inl f \<Rightarrow> Some (Inl f)
                          | Inr (ok, s) \<Rightarrow>
                              if \<not> ok then Some (thenC tc_server_finalize (thenC (release ServerStruct) (retC False)) s)
                              else (case console input of
                                      None \<Rightarrow> None
                                    | Some _ \<Rightarrow> Some (thenC tc_server_finalize (thenC (release ServerStruct) (retC True)) s)))))"

section \<open>What is acquired and released\<close>

lemma run_acquire:
  "outcomes s = [] \<Longrightarrow> acquire r s = Inr (True, s\<lparr>live := r # live s\<rparr>)"
  "outcomes s = True # os \<Longrightarrow> acquire r s = Inr (True, s\<lparr>live := r # live s, outcomes := os\<rparr>)"
  "outcomes s = False # os \<Longrightarrow> acquire r s = Inr (False, s\<lparr>outcomes := os\<rparr>)"
  by (simp_all add: acquire_def attempt_def run_simps)

lemma run_acquire_each:
  "outcomes s = [] \<Longrightarrow> acquire_each rs s = Inr (length rs, s\<lparr>live := rev rs @ live s\<rparr>)"
  by (induction rs arbitrary: s) (simp_all add: run_acquire run_simps)

lemma run_acquire_each_some:
  "outcomes s = replicate k True @ False # os \<Longrightarrow> k < length rs \<Longrightarrow>
     acquire_each rs s = Inr (k, s\<lparr>live := rev (take k rs) @ live s, outcomes := os\<rparr>)"
proof (induction rs arbitrary: s k)
  case (Cons r rs)
  then show ?case by (cases k) (simp_all add: run_acquire run_simps)
qed simp

lemma run_acquire_each_all:
  "outcomes s = replicate (length rs) True @ os \<Longrightarrow>
     acquire_each rs s = Inr (length rs, s\<lparr>live := rev rs @ live s, outcomes := os\<rparr>)"
  by (induction rs arbitrary: s) (simp_all add: run_acquire run_simps)

text \<open>Releasing distinct resources that are all allocated leaves the others.\<close>

lemma run_release_all:
  assumes "distinct rs" "distinct (live s)" "set rs \<subseteq> set (live s)"
  shows "release_all rs s = Inr ((), s\<lparr>live := filter (\<lambda>r. r \<notin> set rs) (live s)\<rparr>)"
  using assms
proof (induction rs arbitrary: s)
  case (Cons r rs)
  let ?s = "s\<lparr>live := remove1 r (live s)\<rparr>"
  have "release_all rs ?s = Inr ((), ?s\<lparr>live := filter (\<lambda>q. q \<notin> set rs) (live ?s)\<rparr>)"
    using Cons.prems by (intro Cons.IH) auto
  with Cons.prems show ?case
    by (auto simp: release_def run_simps distinct_remove1_removeAll removeAll_filter_not_eq intro!: arg_cong [of _ _ "\<lambda>l. s\<lparr>live := l\<rparr>"] filter_cong)
qed (simp add: run_simps)


text \<open>Everything a running server owns, in the order it was allocated.\<close>

definition listener_resources :: "resource list" where
  "listener_resources = [SocketAddress, ListenerSocket]"

definition pool_resources :: "nat \<Rightarrow> resource list" where
  "pool_resources n = [PoolLock, PoolCondition] @ map Worker [0..<n]"

definition heartbeat_resources :: "resource list" where
  "heartbeat_resources = [HeartbeatLock, StartCondition, AuthTree, HeartbeatThread]"

definition rest_resources :: "resource list" where
  "rest_resources = [CacheTree, CacheLock, RouterLock, ServerLock] @ map ActionLock [0..<TC_SERVER_MAX_SESSIONS]"

definition workers_for :: "nat \<Rightarrow> nat" where
  "workers_for ideal = min (ideal - 2) TC_THREADS_MAX_THREADS"

text \<open>A fresh process: nothing allocated; \<open>g\<close> is what the memory of the new server holds at \<open>started\<close>.\<close>

definition fresh :: "bool \<Rightarrow> bool list \<Rightarrow> life" where
  "fresh g os = \<lparr>live = [], outcomes = os, started = g, pool_threads = 0, pool_stopped = False,
     heartbeat_started = False, heartbeat_stopped = False\<rparr>"

lemma init_succeeds:
  assumes "2 < ideal" "outcomes s = []" "distinct (live s)"
  shows "tc_server_init ideal 2 s = Inr (True, s\<lparr>live := rev (listener_resources @ pool_resources (workers_for ideal)
      @ heartbeat_resources @ rest_resources) @ live s, pool_threads := workers_for ideal, pool_stopped := False,
      heartbeat_started := False, heartbeat_stopped := False\<rparr>)"
  using assms
  by (simp add: tc_server_init_def init_rest_def pool_create_def heartbeat_create_def cache_create_def attempt_def run_simps run_acquire
      run_acquire_each listener_resources_def pool_resources_def heartbeat_resources_def rest_resources_def workers_for_def Let_def del: min_less_iff_conj)

lemma release_all_append: "thenC (release_all rs) (release_all qs) = release_all (rs @ qs)"
proof (induction rs)
  case Nil
  then show ?case by (rule ext) (simp add: run_simps)
next
  case (Cons r rs)
  have "thenC (release_all (r # rs)) (release_all qs) = thenC (release r) (thenC (release_all rs) (release_all qs))"
    by (rule ext) (simp add: run_simps split: sum.splits)
  then show ?case by (simp add: Cons.IH)
qed

lemma release_one: "release r = release_all [r]"
  by (rule ext) (simp add: run_simps split: sum.splits)

lemma release_all_frame: "release_all rs s = Inr (u, t) \<Longrightarrow> \<exists>l. t = s\<lparr>live := l\<rparr>"
proof (induction rs arbitrary: s)
  case Nil
  then show ?case by (intro exI [of _ "live s"]) (simp add: run_simps)
next
  case (Cons r rs)
  then have "release_all rs (s\<lparr>live := remove1 r (live s)\<rparr>) = Inr (u, t)"
    by (auto simp: run_simps release_def split: if_splits)
  from Cons.IH [OF this] show ?case by auto
qed

lemma heartbeat_joins_after:
  assumes "heartbeat_started s" "heartbeat_stopped s"
  shows "thenC (release_all rs) (thenC tc_heartbeat_manager_finalize k) s
    = thenC (release_all rs) (thenC (release_all [HeartbeatThread, AuthTree, HeartbeatLock, StartCondition]) k) s"
proof (cases "release_all rs s")
  case (Inr p)
  then obtain l where "release_all rs s = Inr ((), s\<lparr>live := l\<rparr>)" using release_all_frame by (cases p) fastforce
  then show ?thesis using assms by (simp add: run_simps tc_heartbeat_manager_finalize_def del: release_all.simps)
qed (simp add: run_simps)

lemma thenC_assoc: "thenC (thenC m k) n = thenC m (thenC k n)"
  by (rule ext) (simp add: run_simps split: sum.splits)

lemma finalize_frees_all:
  assumes "started s" "heartbeat_started s" "pool_threads s = n"
    and l: "live s = rev (listener_resources @ pool_resources n @ heartbeat_resources @ rest_resources) @ [ServerStruct]"
  shows "tc_server_finalize s = Inr ((), s\<lparr>live := [ServerStruct], heartbeat_stopped := True, pool_stopped := True\<rparr>)"
proof -
  let ?s = "s\<lparr>heartbeat_stopped := True, pool_stopped := True\<rparr>"
  let ?rs = "(map Worker [0..<n] @ [PoolLock, PoolCondition]) @ [HeartbeatThread, AuthTree, HeartbeatLock, StartCondition]
    @ [SocketAddress, ListenerSocket, ServerLock] @ [RouterLock] @ [CacheTree, CacheLock]
    @ map ActionLock [0..<TC_SERVER_MAX_SESSIONS]"
  note R = listener_resources_def pool_resources_def heartbeat_resources_def rest_resources_def
  have d: "distinct (live s)" "distinct ?rs" "set ?rs \<subseteq> set (live s)" unfolding l
    by (auto simp: R distinct_map inj_on_def)
  have "filter (\<lambda>r. r \<notin> set ?rs) (live s) = [ServerStruct]"
    unfolding l by (auto simp: R rev_map [symmetric] filter_empty_conv)
  then have "release_all ?rs ?s = Inr ((), ?s\<lparr>live := [ServerStruct]\<rparr>)"
    using run_release_all [of ?rs ?s] d by simp
  moreover have "tc_server_finalize s = release_all ?rs ?s"
  proof -
    have "tc_server_finalize s = thenC (release_all (map Worker [0..<n] @ [PoolLock, PoolCondition])) (thenC tc_heartbeat_manager_finalize
        (thenC (release_all [SocketAddress, ListenerSocket, ServerLock]) (thenC (release RouterLock) (thenC cache_finalize
        (release_all (map ActionLock [0..<TC_SERVER_MAX_SESSIONS])))))) ?s"
      using assms(1,3) by (simp add: tc_server_finalize_def life_server_stop_def pool_stop_def tc_thread_pool_finalize_def
          bindC_def [of _ "\<lambda>st. bindC _ _"] run_simps)
    also have "\<dots> = release_all ?rs ?s"
      using assms(2) by (subst heartbeat_joins_after) (simp_all only: release_one cache_finalize_def release_all_append, simp_all)
    finally show ?thesis .
  qed
  ultimately show ?thesis by simp
qed

section \<open>Failures during initialisation\<close>

lemma pool_create_runs:
  assumes "2 < ideal"
  shows "outcomes s = replicate (2 + workers_for ideal) True @ os \<Longrightarrow>
      pool_create ideal 2 s = Inr (True, s\<lparr>live := rev (pool_resources (workers_for ideal)) @ live s, outcomes := os,
        pool_threads := workers_for ideal, pool_stopped := False\<rparr>)"
    and "outcomes s = replicate k True @ False # os \<Longrightarrow> k < 2 + workers_for ideal \<Longrightarrow> distinct (live s) \<Longrightarrow>
      set (live s) \<inter> set (pool_resources (workers_for ideal)) = {} \<Longrightarrow>
      \<exists>s'. pool_create ideal 2 s = Inr (False, s') \<and> live s' = live s"
proof -
  let ?n = "workers_for ideal"
  show "pool_create ideal 2 s = Inr (True, s\<lparr>live := rev (pool_resources ?n) @ live s, outcomes := os,
        pool_threads := ?n, pool_stopped := False\<rparr>)" if "outcomes s = replicate (2 + ?n) True @ os"
    using that assms run_acquire_each_all [of _ "map Worker [0..<?n]" os]
    by (simp add: pool_create_def workers_for_def [symmetric] pool_resources_def run_simps run_acquire Let_def)
  show "\<exists>s'. pool_create ideal 2 s = Inr (False, s') \<and> live s' = live s"
    if o: "outcomes s = replicate k True @ False # os" and k: "k < 2 + ?n" and d: "distinct (live s)"
      and x: "set (live s) \<inter> set (pool_resources ?n) = {}"
  proof -
    consider "k = 0" | "k = 1" | j where "k = 2 + j" "j < ?n" using k
      by (metis One_nat_def add_2_eq_Suc less_2_cases_iff linorder_not_less nat_add_left_cancel_less ordered_cancel_comm_monoid_diff_class.add_diff_inverse)
    then show ?thesis
    proof cases
      case 3
      let ?t = "s\<lparr>pool_threads := ?n, pool_stopped := False, live := rev (map Worker [0..<j]) @ PoolCondition # PoolLock # live s, outcomes := os\<rparr>"
      have "release_all ([PoolLock, PoolCondition] @ map Worker [0..<j]) ?t
        = Inr ((), ?t\<lparr>live := filter (\<lambda>r. r \<notin> set ([PoolLock, PoolCondition] @ map Worker [0..<j])) (live ?t)\<rparr>)"
        using d x 3(2) by (intro run_release_all) (auto simp: pool_resources_def distinct_map inj_on_def)
      moreover have "filter (\<lambda>r. r \<notin> set ([PoolLock, PoolCondition] @ map Worker [0..<j])) (live ?t) = live s"
        using x 3(2) by (auto simp: pool_resources_def rev_map [symmetric] filter_empty_conv filter_id_conv)
      ultimately show ?thesis using 3 o assms run_acquire_each_some [of _ j os "map Worker [0..<?n]"]
        by (auto simp: pool_create_def workers_for_def [symmetric] run_simps run_acquire Let_def take_map simp del: release_all.simps)
    qed (use o assms in \<open>auto simp: pool_create_def workers_for_def [symmetric] run_simps run_acquire release_def Let_def\<close>)
  qed
qed

lemma heartbeat_create_runs:
  "outcomes s = replicate 4 True @ os \<Longrightarrow> heartbeat_create s
    = Inr (True, s\<lparr>live := rev heartbeat_resources @ live s, outcomes := os, heartbeat_started := False, heartbeat_stopped := False\<rparr>)"
  "outcomes s = replicate k True @ False # os \<Longrightarrow> k < 4 \<Longrightarrow> \<exists>os'. heartbeat_create s
    = Inr (False, s\<lparr>heartbeat_started := False, heartbeat_stopped := False, outcomes := os'\<rparr>)"
  by (simp add: heartbeat_create_def heartbeat_resources_def run_simps run_acquire eval_nat_numeral)
    (drule less_4_cases, auto simp: heartbeat_create_def run_simps run_acquire release_def eval_nat_numeral)

text \<open>The resources of the parts that are up when the heartbeat manager is created.\<close>

definition base_resources :: "nat \<Rightarrow> resource list" where
  "base_resources n = listener_resources @ pool_resources n"

lemma undo_pool_runs:
  assumes l: "live s = X @ rev (base_resources n) @ L" and d: "distinct (live s)" and n: "pool_threads s = n"
  shows "undo_pool s = Inr ((), s\<lparr>live := X @ L, pool_stopped := True\<rparr>)"
proof -
  let ?s = "s\<lparr>pool_stopped := True\<rparr>"
  let ?rs = "(map Worker [0..<n] @ [PoolLock, PoolCondition]) @ [ListenerSocket, SocketAddress]"
  note R = base_resources_def listener_resources_def pool_resources_def
  have "undo_pool s = thenC (release_all (map Worker [0..<n] @ [PoolLock, PoolCondition])) (release_all [ListenerSocket, SocketAddress]) ?s"
    using n by (simp add: undo_pool_def free_listener_def pool_stop_def tc_thread_pool_finalize_def run_simps del: release_all.simps)
  also have "\<dots> = release_all ?rs ?s" unfolding release_all_append ..
  also have "\<dots> = Inr ((), ?s\<lparr>live := filter (\<lambda>r. r \<notin> set ?rs) (live ?s)\<rparr>)"
    using d by (intro run_release_all) (auto simp: l R distinct_map inj_on_def)
  also have "filter (\<lambda>r. r \<notin> set ?rs) (live ?s) = X @ L"
  proof -
    have "set ?rs = set (base_resources n)" by (auto simp: R)
    moreover have "set X \<inter> set (base_resources n) = {}" "set L \<inter> set (base_resources n) = {}" using d by (auto simp: l)
    ultimately have "filter (\<lambda>r. r \<notin> set ?rs) X = X" "filter (\<lambda>r. r \<notin> set ?rs) L = L" "filter (\<lambda>r. r \<notin> set ?rs) (rev (base_resources n)) = []"
      unfolding filter_id_conv filter_empty_conv by auto
    then show ?thesis by (simp add: l del: set_append)
  qed
  finally show ?thesis by simp
qed

lemma undo_hangs:
  assumes "live t = (Y @ rev heartbeat_resources) @ rev (base_resources n) @ L" "distinct (live t)" "pool_threads t = n"
      "\<not> heartbeat_started t"
  shows "(case undo_pool t of Inl f \<Rightarrow> Inl f | Inr (a, s') \<Rightarrow> thenC tc_heartbeat_manager_finalize m s') = Inl SelfDeadlock"
  using undo_pool_runs [OF assms(1-3)] assms(4) by (simp add: run_simps tc_heartbeat_manager_finalize_def)

lemma init_rest_hangs:
  assumes o: "outcomes s = replicate k True @ False # os" and k: "k < 4 + TC_SERVER_MAX_SESSIONS"
    and l: "live s = rev heartbeat_resources @ rev (base_resources n) @ L" and n: "pool_threads s = n"
    and d: "distinct (live s)" "set (live s) \<inter> set rest_resources = {}" and h: "\<not> heartbeat_started s"
  shows "init_rest s = Inl SelfDeadlock"
proof -
  consider "k < 4" | j where "k = 4 + j" "j < TC_SERVER_MAX_SESSIONS" using k
    by (metis linorder_not_less nat_add_left_cancel_less ordered_cancel_comm_monoid_diff_class.add_diff_inverse)
  then show ?thesis
  proof cases
    case 1
    note I = init_rest_def cache_create_def run_acquire run_simps release_def eval_nat_numeral rest_resources_def
    from less_4_cases [OF 1] consider "k = 0" | "k = 1" | "k = 2" | "k = 3" by blast
    then show ?thesis
    proof cases
      case 1
      with o l d h n show ?thesis by (auto simp: I intro!: undo_hangs [where Y = "[]"])
    next
      case 2
      with o l d h n show ?thesis by (auto simp: I intro!: undo_hangs [where Y = "[]"])
    next
      case 3
      with o l d h n show ?thesis by (auto simp: I intro!: undo_hangs [where Y = "[CacheLock, CacheTree]"])
    next
      case 4
      with o l d h n show ?thesis by (auto simp: I intro!: undo_hangs [where Y = "[RouterLock, CacheLock, CacheTree]"])
    qed
  next
    case 2
    let ?ls = "map ActionLock [0..<TC_SERVER_MAX_SESSIONS]" and ?Y = "rev (map ActionLock [0..<j]) @ [ServerLock, RouterLock, CacheLock, CacheTree]"
    let ?t = "s\<lparr>live := ?Y @ live s, outcomes := os\<rparr>"
    have o': "outcomes s = True # True # True # True # replicate j True @ False # os" using o 2(1) by (simp add: eval_nat_numeral)
    have al: "\<forall>i < j. ActionLock i \<notin> set (live s)" "distinct (map ActionLock [0..<j])" using d(2) 2(2)
      by (auto simp: rest_resources_def distinct_map inj_on_def)
    have "init_rest s = (case undo_pool ?t of Inl f \<Rightarrow> Inl f | Inr (a, s') \<Rightarrow> thenC tc_heartbeat_manager_finalize
        (thenC cache_finalize (thenC (release RouterLock) (thenC (release_all (map ActionLock [0..<j] @ [ServerLock])) (retC False)))) s')"
      using o' 2(2) run_acquire_each_some [of _ j os ?ls]
      by (simp add: init_rest_def cache_create_def run_acquire run_simps take_map)
    also have "\<dots> = Inl SelfDeadlock"
    proof (rule undo_hangs)
      show "live ?t = (?Y @ rev heartbeat_resources) @ rev (base_resources n) @ L" by (simp add: l)
      show "distinct (live ?t)" using d al by (auto simp: rest_resources_def)
    qed (use n h in simp_all)
    finally show ?thesis .
  qed
qed

lemma init_after_listener:
  assumes "outcomes s = True # True # True # os"
  shows "tc_server_init ideal 2 s = bindC (pool_create ideal 2) (\<lambda>ok. if \<not> ok then thenC free_listener (retC False)
     else bindC heartbeat_create (\<lambda>ok. if \<not> ok then thenC undo_pool (retC False) else init_rest))
     (s\<lparr>live := ListenerSocket # SocketAddress # live s, outcomes := os\<rparr>)"
  using assms by (simp add: tc_server_init_def attempt_def run_acquire run_simps)

lemmas resource_lists = base_resources_def listener_resources_def pool_resources_def heartbeat_resources_def rest_resources_def

text \<open>The three places where the initialisation can fail after the listener is bound.\<close>

lemma pool_failure_cleans_up:
  assumes i: "2 < ideal" and o: "outcomes s = replicate (3 + j) True @ False # os" and l: "live s = [ServerStruct]"
    and j: "j < 2 + workers_for ideal"
  shows "\<exists>s'. tc_server_init ideal 2 s = Inr (False, s') \<and> live s' = live s"
proof -
  let ?s = "s\<lparr>live := ListenerSocket # SocketAddress # live s, outcomes := replicate j True @ False # os\<rparr>"
  have o': "outcomes s = True # True # True # replicate j True @ False # os" using o by (simp add: eval_nat_numeral)
  obtain s' where "pool_create ideal 2 ?s = Inr (False, s')" "live s' = live ?s"
    using pool_create_runs(2) [OF i, of ?s j os] j by (auto simp: resource_lists l)
  then show ?thesis by (auto simp: init_after_listener [OF o'] run_simps free_listener_def release_def l)
qed

lemma init_after_pool:
  assumes i: "2 < ideal" and o: "outcomes s = replicate (5 + workers_for ideal) True @ os"
  shows "tc_server_init ideal 2 s = bindC heartbeat_create (\<lambda>ok. if \<not> ok then thenC undo_pool (retC False) else init_rest)
    (s\<lparr>live := rev (base_resources (workers_for ideal)) @ live s, outcomes := os, pool_threads := workers_for ideal, pool_stopped := False\<rparr>)"
proof -
  let ?n = "workers_for ideal"
  have o': "outcomes s = True # True # True # replicate (2 + ?n) True @ os"
    using o by (simp add: eval_nat_numeral)
  have "pool_create ideal 2 (s\<lparr>live := ListenerSocket # SocketAddress # live s, outcomes := replicate (2 + ?n) True @ os\<rparr>)
    = Inr (True, s\<lparr>live := rev (base_resources ?n) @ live s, outcomes := os, pool_threads := ?n, pool_stopped := False\<rparr>)"
    using pool_create_runs(1) [OF i] by (simp add: base_resources_def listener_resources_def)
  then show ?thesis by (simp add: init_after_listener [OF o'] run_simps)
qed

lemma heartbeat_failure_cleans_up:
  assumes i: "2 < ideal" and o: "outcomes s = replicate (5 + workers_for ideal + j) True @ False # os" and l: "live s = [ServerStruct]"
    and j: "j < 4"
  shows "\<exists>s'. tc_server_init ideal 2 s = Inr (False, s') \<and> live s' = live s"
proof -
  let ?n = "workers_for ideal"
  let ?t = "s\<lparr>live := rev (base_resources ?n) @ live s, outcomes := replicate j True @ False # os, pool_threads := ?n, pool_stopped := False\<rparr>"
  have o': "outcomes s = replicate (5 + ?n) True @ replicate j True @ False # os" using o by (simp add: replicate_add)
  obtain os' where hb: "heartbeat_create ?t = Inr (False, ?t\<lparr>heartbeat_started := False, heartbeat_stopped := False, outcomes := os'\<rparr>)"
    using heartbeat_create_runs(2) [of ?t j os] j by auto
  have "undo_pool (?t\<lparr>heartbeat_started := False, heartbeat_stopped := False, outcomes := os'\<rparr>)
    = Inr ((), ?t\<lparr>heartbeat_started := False, heartbeat_stopped := False, outcomes := os', live := [] @ live s, pool_stopped := True\<rparr>)"
    by (rule undo_pool_runs [where n = ?n]) (auto simp: l resource_lists distinct_map inj_on_def)
  with hb show ?thesis by (auto simp: init_after_pool [OF i o'] run_simps)
qed

lemma late_failure_hangs:
  assumes i: "2 < ideal" and o: "outcomes s = replicate (9 + workers_for ideal + j) True @ False # os" and l: "live s = [ServerStruct]"
    and j: "j < 4 + TC_SERVER_MAX_SESSIONS"
  shows "tc_server_init ideal 2 s = Inl SelfDeadlock"
proof -
  let ?n = "workers_for ideal"
  let ?t = "s\<lparr>live := rev (base_resources ?n) @ live s, outcomes := replicate 4 True @ replicate j True @ False # os, pool_threads := ?n, pool_stopped := False\<rparr>"
  let ?u = "?t\<lparr>live := rev heartbeat_resources @ live ?t, outcomes := replicate j True @ False # os, heartbeat_started := False, heartbeat_stopped := False\<rparr>"
  have "9 + ?n + j = (5 + ?n) + (4 + j)" by simp
  with o have o': "outcomes s = replicate (5 + ?n) True @ replicate 4 True @ replicate j True @ False # os"
    by (simp only: replicate_add append_assoc)
  have hb: "heartbeat_create ?t = Inr (True, ?u)" by (rule heartbeat_create_runs(1)) simp
  have "init_rest ?u = Inl SelfDeadlock"
    by (rule init_rest_hangs [of _ j os ?n "live s"]) (use j in \<open>auto simp: l resource_lists distinct_map inj_on_def\<close>)
  with hb show ?thesis by (simp add: init_after_pool [OF i o'] run_simps)
qed

section \<open>Properties\<close>





text \<open>
  A server that does not start cannot be finalised: when \<open>tc_server_start\<close> fails on an initialised
  server, or refuses because the uninitialised field \<open>started\<close> of the new server happens not to be
  zero, the call of \<open>tc_server_finalize\<close> that \<open>run_server\<close> then makes waits forever, for the workers
  of a pool nobody stopped or for the heartbeat thread nobody started.
\<close>

theorem failed_start_never_finalizes:
  assumes "life_server_start s = Inr (False, s')" and "\<not> heartbeat_started s" and "\<not> pool_stopped s" and "0 < pool_threads s"
    and l: "live s = rev (listener_resources @ pool_resources (pool_threads s) @ heartbeat_resources @ rest_resources) @ [ServerStruct]"
  shows "tc_server_finalize s' = Inl SelfDeadlock"
proof (cases "started s")
  case False
  then have "\<not> started s'" "\<not> pool_stopped s'" "0 < pool_threads s'"
    using assms(1,3,4) by (auto simp: life_server_start_def attempt_def release_def run_simps split: list.splits if_splits)
  then show ?thesis by (simp add: tc_server_finalize_def tc_thread_pool_finalize_def run_simps)
next
  case True
  then have s': "s' = s" using assms(1) by (simp add: life_server_start_def run_simps)
  let ?n = "pool_threads s" and ?s = "s\<lparr>heartbeat_stopped := True, pool_stopped := True\<rparr>"
  have "release_all (map Worker [0..<?n] @ [PoolLock, PoolCondition]) ?s
    = Inr ((), ?s\<lparr>live := filter (\<lambda>r. r \<notin> set (map Worker [0..<?n] @ [PoolLock, PoolCondition])) (live ?s)\<rparr>)"
    by (rule run_release_all) (auto simp: l listener_resources_def pool_resources_def heartbeat_resources_def rest_resources_def distinct_map inj_on_def)
  then show ?thesis using True assms(2)
    by (simp add: s' tc_server_finalize_def tc_thread_pool_finalize_def tc_heartbeat_manager_finalize_def life_server_stop_def
        pool_stop_def run_simps del: release_all.simps)
qed

definition idle_server :: "bool \<Rightarrow> bool list \<Rightarrow> life" where
  "idle_server g os = (fresh g os)\<lparr>pool_threads := 1,
     live := rev (listener_resources @ pool_resources 1 @ heartbeat_resources @ rest_resources) @ [ServerStruct]\<rparr>"

theorem failed_start_never_finalizes_witness:
  "life_server_start (idle_server False [False]) = Inr (False, (idle_server False [False])\<lparr>outcomes := []\<rparr>)
   \<and> tc_server_finalize ((idle_server False [False])\<lparr>outcomes := []\<rparr>) = Inl SelfDeadlock"
proof -
  have "life_server_start (idle_server False [False]) = Inr (False, (idle_server False [False])\<lparr>outcomes := []\<rparr>)"
    by (simp add: life_server_start_def attempt_def run_simps idle_server_def fresh_def)
  with failed_start_never_finalizes [OF this] show ?thesis by (simp add: idle_server_def fresh_def)
qed

end
