(* ===== verification/TC_Log.thy ===== *)
theory TC_Log
  imports TC_Prelude
begin

text \<open>
  \<^verbatim>\<open>src/log.c\<close>: the table of 32 callbacks, the levels, the optional lock, and \<open>log_log\<close>, which writes
  an event to the standard error and to every callback of a high enough level. What is written is
  the output of the model; the two time stamps that \<open>strftime\<close> makes of the time and the text that
  \<open>vfprintf\<close> makes of the format and its arguments are parts of the event. Colours are not compiled in.
\<close>

section \<open>State\<close>

definition MAX_CALLBACKS :: nat where "MAX_CALLBACKS = 32"

definition LOG_INFO :: int where "LOG_INFO = 2"

datatype log_fn = FileCallback | UserCallback nat

record Callback =
  cb_fn :: log_fn
  cb_udata :: nat
  cb_level :: int

record log_event =
  ev_text :: string
  ev_file :: string
  ev_line :: int
  ev_level :: int
  ev_clock :: string
  ev_date :: string

datatype log_output =
    LockCall nat bool nat
  | Written "nat option" string
  | UserCalled nat nat log_event

record logger =
  log_lock :: "nat option"
  lock_udata :: nat
  log_level :: int
  log_quiet :: bool
  callbacks :: "Callback option list"
  log_out :: "log_output list"

text \<open>The static struct starts as zeros.\<close>

definition initial_logger :: logger where
  "initial_logger = \<lparr>log_lock = None, lock_udata = 0, log_level = 0, log_quiet = False,
     callbacks = replicate MAX_CALLBACKS None, log_out = []\<rparr>"

definition level_strings :: "string list" where
  "level_strings = [''TRACE'', ''DEBUG'', ''INFO'', ''WARN'', ''ERROR'', ''FATAL'']"

definition log_level_string :: "int \<Rightarrow> string outcome" where
  "log_level_string l = (if 0 \<le> l \<and> nat l < length level_strings then Inr (level_strings ! nat l) else Inl OutOfBounds)"

section \<open>Operations\<close>

definition log_set_lock :: "nat option \<Rightarrow> nat \<Rightarrow> logger \<Rightarrow> logger" where
  "log_set_lock fn udata L = L\<lparr>log_lock := fn, lock_udata := udata\<rparr>"

definition log_set_level :: "int \<Rightarrow> logger \<Rightarrow> logger" where
  "log_set_level l L = L\<lparr>log_level := l\<rparr>"

definition log_set_quiet :: "bool \<Rightarrow> logger \<Rightarrow> logger" where
  "log_set_quiet enable L = L\<lparr>log_quiet := enable\<rparr>"

text \<open>The first free place of the table; the result is 0 or -1.\<close>

fun first_free :: "Callback option list \<Rightarrow> nat \<Rightarrow> nat option" where
  "first_free [] i = None"
| "first_free (c # cs) i = (if c = None then Some i else first_free cs (Suc i))"

definition log_add_callback :: "log_fn \<Rightarrow> nat \<Rightarrow> int \<Rightarrow> logger \<Rightarrow> int \<times> logger" where
  "log_add_callback fn udata l L =
     (case first_free (callbacks L) 0 of
        Some i \<Rightarrow> (0, L\<lparr>callbacks := (callbacks L)[i := Some \<lparr>cb_fn = fn, cb_udata = udata, cb_level = l\<rparr>]\<rparr>)
      | None \<Rightarrow> (- 1, L))"

definition log_add_fp :: "nat \<Rightarrow> int \<Rightarrow> logger \<Rightarrow> int \<times> logger" where
  "log_add_fp fp l L = log_add_callback FileCallback fp l L"

definition emit :: "log_output \<Rightarrow> (logger, unit) cm" where
  "emit x = modifyC (\<lambda>L. L\<lparr>log_out := log_out L @ [x]\<rparr>)"

definition set_locked :: "bool \<Rightarrow> (logger, unit) cm" where
  "set_locked on = bindC (getC log_lock) (\<lambda>fn. bindC (getC lock_udata) (\<lambda>u.
     case fn of None \<Rightarrow> retC () | Some f \<Rightarrow> emit (LockCall f on u)))"

text \<open>The format \<open>%s %-5s %s:%d: \<close> with the text and a newline.\<close>

definition log_line :: "string \<Rightarrow> string \<Rightarrow> log_event \<Rightarrow> string" where
  "log_line time level ev = time @ '' '' @ level @ replicate (5 - length level) CHR 0x20 @ '' '' @ ev_file ev @ '':''
     @ decimal (ev_line ev) @ '': '' @ ev_text ev @ [CHR 0x0A]"

definition write_event :: "nat option \<Rightarrow> string \<Rightarrow> log_event \<Rightarrow> (logger, unit) cm" where
  "write_event stream time ev = bindC (liftC (log_level_string (ev_level ev))) (\<lambda>l. emit (Written stream (log_line time l ev)))"

definition stdout_callback :: "log_event \<Rightarrow> (logger, unit) cm" where
  "stdout_callback ev = write_event None (ev_clock ev) ev"

definition file_callback :: "nat \<Rightarrow> log_event \<Rightarrow> (logger, unit) cm" where
  "file_callback fp ev = write_event (Some fp) (ev_date ev) ev"

text \<open>The loop over the table stops at the first free place.\<close>

fun call_callbacks :: "Callback option list \<Rightarrow> log_event \<Rightarrow> (logger, unit) cm" where
  "call_callbacks (Some cb # cs) ev =
     thenC (whenC (ev_level ev \<ge> cb_level cb)
       (case cb_fn cb of FileCallback \<Rightarrow> file_callback (cb_udata cb) ev | UserCallback f \<Rightarrow> emit (UserCalled f (cb_udata cb) ev)))
     (call_callbacks cs ev)"
| "call_callbacks _ ev = retC ()"

definition log_log :: "log_event \<Rightarrow> (logger, unit) cm" where
  "log_log ev =
     thenC (set_locked True)
     (thenC (bindC (getC (\<lambda>L. \<not> log_quiet L \<and> ev_level ev \<ge> log_level L)) (\<lambda>loud. whenC loud (stdout_callback ev)))
     (thenC (bindC (getC callbacks) (\<lambda>cs. call_callbacks cs ev))
       (set_locked False)))"

section \<open>Lemmas\<close>

text \<open>The table holds \<open>cs\<close> from its start and is free after that.\<close>

definition registered :: "logger \<Rightarrow> Callback list \<Rightarrow> bool" where
  "registered L cs \<longleftrightarrow> length cs \<le> MAX_CALLBACKS \<and> callbacks L = map Some cs @ replicate (MAX_CALLBACKS - length cs) None"

lemma initial_registered: "registered initial_logger []"
  by (simp add: registered_def initial_logger_def)

lemma first_free_registered:
  "first_free (map Some cs @ replicate k None) i = (if k = 0 then None else Some (i + length cs))"
  by (induction cs arbitrary: i) (cases k; simp)+

lemma add_registered:
  assumes "registered L cs"
  shows "log_add_callback fn u l L =
     (if length cs < MAX_CALLBACKS
      then (0, L\<lparr>callbacks := map Some (cs @ [\<lparr>cb_fn = fn, cb_udata = u, cb_level = l\<rparr>])
                 @ replicate (MAX_CALLBACKS - Suc (length cs)) None\<rparr>) else (- 1, L))"
proof (cases "length cs < MAX_CALLBACKS")
  case True
  then obtain k where k: "MAX_CALLBACKS - length cs = Suc k" "MAX_CALLBACKS - Suc (length cs) = k" by (cases "MAX_CALLBACKS - length cs") auto
  have "first_free (map Some cs @ replicate (Suc k) None) 0 = Some (length cs)" unfolding first_free_registered by simp
  with k True assms show ?thesis by (simp add: log_add_callback_def registered_def list_update_append)
next
  case False
  then show ?thesis using assms first_free_registered [of cs 0 0] by (auto simp: log_add_callback_def registered_def)
qed

text \<open>What one callback makes of an event.\<close>

definition sink_output :: "string \<Rightarrow> log_event \<Rightarrow> Callback \<Rightarrow> log_output list" where
  "sink_output level ev cb = (if ev_level ev < cb_level cb then []
     else [case cb_fn cb of FileCallback \<Rightarrow> Written (Some (cb_udata cb)) (log_line (ev_date ev) level ev)
           | UserCallback f \<Rightarrow> UserCalled f (cb_udata cb) ev])"

lemma call_callbacks_output:
  assumes "log_level_string (ev_level ev) = Inr lv"
  shows "call_callbacks (map Some cs @ replicate k None) ev L = Inr ((), L\<lparr>log_out := log_out L @ concat (map (sink_output lv ev) cs)\<rparr>)"
proof (induction cs arbitrary: L)
  case Nil
  show ?case by (cases k) (simp_all add: run_simps)
next
  case (Cons c cs)
  then show ?case using assms
    by (cases "cb_fn c") (simp_all add: run_simps sink_output_def file_callback_def write_event_def emit_def)
qed

section \<open>Properties\<close>

text \<open>
  An event of a valid level is written once to every place that asked for its level, in the order
  of registration, between one call of the lock function to lock and one to unlock; the logger is
  otherwise unchanged.
\<close>

theorem log_reaches_every_sink:
  assumes L: "registered L cs" and lv: "log_level_string (ev_level ev) = Inr lv"
  shows "log_log ev L = Inr ((), L\<lparr>log_out := log_out L
      @ (case log_lock L of None \<Rightarrow> [] | Some f \<Rightarrow> [LockCall f True (lock_udata L)])
      @ (if log_quiet L \<or> ev_level ev < log_level L then [] else [Written None (log_line (ev_clock ev) lv ev)])
      @ concat (map (sink_output lv ev) cs)
      @ (case log_lock L of None \<Rightarrow> [] | Some f \<Rightarrow> [LockCall f False (lock_udata L)])\<rparr>)"
  using L lv by (cases "log_lock L"; cases "log_quiet L \<or> ev_level ev < log_level L")
    (auto simp: log_log_def set_locked_def emit_def run_simps stdout_callback_def write_event_def registered_def
      call_callbacks_output [OF lv])

definition sample_event :: log_event where
  "sample_event = \<lparr>ev_text = ''Initializing...'', ev_file = ''main.c'', ev_line = 216, ev_level = LOG_INFO,
     ev_clock = ''12:00:00'', ev_date = ''2026-01-01 12:00:00''\<rparr>"

theorem log_reaches_every_sink_witness:
  "\<exists>L. log_log sample_event (snd (log_add_fp 3 LOG_INFO initial_logger)) = Inr ((), L)
    \<and> log_out L = [Written None (''12:00:00 INFO  main.c:216: Initializing...'' @ [CHR 0x0A]),
        Written (Some 3) (''2026-01-01 12:00:00 INFO  main.c:216: Initializing...'' @ [CHR 0x0A])]"
proof -
  let ?c = "\<lparr>cb_fn = FileCallback, cb_udata = 3, cb_level = LOG_INFO\<rparr>"
  let ?L = "initial_logger\<lparr>callbacks := map Some [?c] @ replicate 31 None\<rparr>"
  have L: "snd (log_add_fp 3 LOG_INFO initial_logger) = ?L"
    unfolding log_add_fp_def add_registered [OF initial_registered] by (simp add: MAX_CALLBACKS_def)
  have r: "registered ?L [?c]" by (simp add: registered_def MAX_CALLBACKS_def)
  have l: "log_level_string (ev_level sample_event) = Inr ''INFO''"
    by (simp add: sample_event_def LOG_INFO_def log_level_string_def level_strings_def)
  have o: "log_line (ev_clock sample_event) ''INFO'' sample_event = ''12:00:00 INFO  main.c:216: Initializing...'' @ [CHR 0x0A]"
    "log_line (ev_date sample_event) ''INFO'' sample_event = ''2026-01-01 12:00:00 INFO  main.c:216: Initializing...'' @ [CHR 0x0A]"
    by code_simp+
  show ?thesis unfolding L log_reaches_every_sink [OF r l] sink_output_def o
    by (simp add: initial_logger_def sample_event_def LOG_INFO_def)
qed

text \<open>
  Thirty-two callbacks can be registered, in this order, and the next one is refused and changes
  nothing.
\<close>

theorem log_table_full:
  assumes "registered L cs"
  shows "case log_add_callback fn u l L of
      (r, L') \<Rightarrow> if length cs < 32 then r = 0 \<and> registered L' (cs @ [\<lparr>cb_fn = fn, cb_udata = u, cb_level = l\<rparr>]) else r = - 1 \<and> L' = L"
  unfolding add_registered [OF assms] using assms by (auto simp: registered_def MAX_CALLBACKS_def)

theorem log_table_full_witness:
  "fst (log_add_callback FileCallback 0 2 initial_logger) = 0"
  using log_table_full [OF initial_registered, of FileCallback 0 2] by (simp split: prod.splits)

end
