(* ===== verification/TC_Main.thy ===== *)
theory TC_Main
  imports TC_Lifecycle TC_Log
begin

text \<open>
  \<open>main\<close> of \<^verbatim>\<open>src/main.c\<close>: the directory and the file of the log, \<open>run_server\<close>, and the exit status. The
  environment gives the outcomes of the calls of the operating system; the libraries' own
  initialisation has no effect on the model.
\<close>

section \<open>The program\<close>

record environment =
  logs_exists :: bool
  logs_created :: bool
  local_date :: "(int \<times> int \<times> int) option"
  log_opened :: "nat option"
  ideal_threads :: nat
  console_input :: "string list"

text \<open>From \<open>tm_year\<close>, \<open>tm_mon\<close> and \<open>tm_mday\<close>.\<close>

definition log_file_name :: "int \<Rightarrow> int \<Rightarrow> int \<Rightarrow> string" where
  "log_file_name year mon mday = snprintf 32
     (''logs/'' @ decimal (year + 1900) @ ''-'' @ decimal (mon + 1) @ ''-'' @ decimal mday @ ''.log'')"

text \<open>\<open>nmemb * size\<close> is computed in \<open>psize\<close>, so it wraps.\<close>

definition p_calloc_wrapper :: "(psize \<Rightarrow> 'p option) \<Rightarrow> psize \<Rightarrow> psize \<Rightarrow> 'p option" where
  "p_calloc_wrapper p_malloc0 nmemb sz = p_malloc0 (nmemb * sz)"

definition main_program :: "environment \<Rightarrow> logger \<times> life \<Rightarrow> (fault + int \<times> logger \<times> life) option" where
  "main_program env st = (case st of (L, s) \<Rightarrow>
     if \<not> logs_exists env \<and> \<not> logs_created env then Some (Inr (1, L, s))
     else (case local_date env of
        None \<Rightarrow> Some (Inr (1, L, s))
      | Some (year, mon, mday) \<Rightarrow>
          (case log_opened env of
             None \<Rightarrow> Some (Inr (1, L, s))
           | Some fp \<Rightarrow>
               let L = snd (log_add_fp fp LOG_INFO L)
               in (case run_server (ideal_threads env) (console_input env) s of
                     None \<Rightarrow> None
                   | Some (Inl f) \<Rightarrow> Some (Inl f)
                   | Some (Inr (server_success, s)) \<Rightarrow> Some (Inr (0, L, s))))))"

section \<open>Lemmas\<close>

lemma decimal_nat_nonempty: "decimal_nat n \<noteq> []"
  by (subst decimal_nat.simps) simp

section \<open>Properties\<close>

text \<open>
  The exit status says only whether the log could be opened: with a log file the program ends with
  status 0 whenever \<open>run_server\<close> returns, also when the server could not be created.
\<close>

theorem exit_status_ignores_server:
  assumes "logs_exists env \<or> logs_created env" and "local_date env \<noteq> None" and "log_opened env = Some fp"
    and "run_server (ideal_threads env) (console_input env) s = Some (Inr (ok, s'))"
  shows "main_program env (L, s) = Some (Inr (0, snd (log_add_fp fp LOG_INFO L), s'))"
  using assms by (auto simp: main_program_def Let_def)

definition sample_environment :: environment where
  "sample_environment = \<lparr>logs_exists = False, logs_created = True, local_date = Some (126, 0, 1), log_opened = Some 3,
     ideal_threads = 8, console_input = []\<rparr>"

theorem exit_status_ignores_server_witness:
  "run_server 8 [] (fresh False [False]) = Some (Inr (False, fresh False []))
   \<and> main_program sample_environment (initial_logger, fresh False [False])
     = Some (Inr (0, snd (log_add_fp 3 LOG_INFO initial_logger), fresh False []))"
proof -
  have r: "run_server 8 [] (fresh False [False]) = Some (Inr (False, fresh False []))"
    by (simp add: run_server_def run_acquire fresh_def)
  with exit_status_ignores_server [of sample_environment 3 "fresh False [False]" False "fresh False []" initial_logger]
  show ?thesis by (simp add: sample_environment_def)
qed

text \<open>The name of the log file is not cut for any date of the years 1900 to 9999.\<close>

theorem log_file_name_fits:
  assumes "0 \<le> year" "year < 8100" "0 \<le> mon" "mon < 12" "0 < mday" "mday < 32"
  shows "log_file_name year mon mday = ''logs/'' @ decimal (year + 1900) @ ''-'' @ decimal (mon + 1) @ ''-'' @ decimal mday @ ''.log''"
proof -
  have "length (decimal (year + 1900)) \<le> 4" "length (decimal (mon + 1)) \<le> 2" "length (decimal mday) \<le> 2"
    using assms decimal_short [of "year + 1900" 3] decimal_short [of "mon + 1" 1] decimal_short [of mday 1] by simp_all
  then show ?thesis by (simp add: log_file_name_def snprintf_def)
qed

theorem log_file_name_fits_witness: "log_file_name 126 0 1 = ''logs/2026-1-1.log''"
  unfolding log_file_name_fits [of 126 0 1, simplified] by code_simp

end
