(* ===== verification/TC_Tree_Base.thy ===== *)
theory TC_Tree_Base
  imports TC_Prelude
begin

text \<open>
  What the three kinds of search tree of plibsys have in common (\<^verbatim>\<open>plibsys-master/src/ptree-bst.c\<close>,
  \<^verbatim>\<open>ptree-rb.c\<close> and \<^verbatim>\<open>ptree-avl.c\<close> repeat it): the node, the search for a key, the replacement of a
  node with two children by the one before it, and the frame of insertion and removal.

  A node is the base node with its two subtrees, key and value, and a mark of the kind of tree: a
  balance factor or a colour. The parent pointers are a path: the place of a node in the tree is the
  list of its ancestors from the parent up, each with the subtree on its other side, so that
  walking up with \<^verbatim>\<open>node->parent\<close> is walking along the list and \<^verbatim>\<open>parent->base.left == node\<close> is the
  question which constructor the first element has.
\<close>

section \<open>Nodes and places\<close>

datatype ('k, 'v, 'm) tree_node =
    NULL
  | PTreeBaseNode (node_left: "('k, 'v, 'm) tree_node") (node_key: 'k) (node_value: 'v) (node_mark: 'm)
      (node_right: "('k, 'v, 'm) tree_node")

datatype ('k, 'v, 'm) ancestor =
    From_Left 'k 'v 'm "('k, 'v, 'm) tree_node"
  | From_Right "('k, 'v, 'm) tree_node" 'k 'v 'm

type_synonym ('k, 'v, 'm) place = "('k, 'v, 'm) ancestor list"

fun plug :: "('k, 'v, 'm) tree_node \<Rightarrow> ('k, 'v, 'm) place \<Rightarrow> ('k, 'v, 'm) tree_node" where
  "plug t [] = t"
| "plug t (From_Left k v m r # p) = plug (PTreeBaseNode t k v m r) p"
| "plug t (From_Right l k v m # p) = plug (PTreeBaseNode l k v m t) p"

section \<open>Insertion and removal\<close>

text \<open>The search loop: from the node at a place down to the node with an equal key, or to \<open>NULL\<close>.\<close>

fun tree_search ::
    "('k \<Rightarrow> 'k \<Rightarrow> int) \<Rightarrow> 'k \<Rightarrow> ('k, 'v, 'm) tree_node \<Rightarrow> ('k, 'v, 'm) place
     \<Rightarrow> ('k, 'v, 'm) tree_node \<times> ('k, 'v, 'm) place" where
  "tree_search cmp key NULL p = (NULL, p)"
| "tree_search cmp key (PTreeBaseNode l k v m r) p =
     (let cmp_result = cmp key k
      in if cmp_result < 0 then tree_search cmp key l (From_Left k v m r # p)
         else if cmp_result > 0 then tree_search cmp key r (From_Right l k v m # p)
         else (PTreeBaseNode l k v m r, p))"

text \<open>
  What an operation returns, the new root, and the keys and values it gives to the destroy
  functions; \<open>kd\<close> and \<open>vd\<close> say whether those are set.
\<close>

record ('k, 'v, 'm) tree_result =
  res_ok :: bool
  res_root :: "('k, 'v, 'm) tree_node"
  res_keys :: "'k list"
  res_values :: "'v list"

text \<open>An insertion: \<open>leaf\<close> is the mark of the new node, \<open>balance\<close> what is done after linking it.\<close>

definition insert_with ::
    "'m \<Rightarrow> (('k, 'v, 'm) tree_node \<Rightarrow> ('k, 'v, 'm) place \<Rightarrow> ('k, 'v, 'm) tree_node outcome)
     \<Rightarrow> bool \<Rightarrow> ('k \<Rightarrow> 'k \<Rightarrow> int) \<Rightarrow> bool \<Rightarrow> bool \<Rightarrow> 'k \<Rightarrow> 'v \<Rightarrow> ('k, 'v, 'm) tree_node \<Rightarrow> ('k, 'v, 'm) tree_result outcome" where
  "insert_with leaf balance malloc_ok cmp kd vd key val root =
     (case tree_search cmp key root [] of
        (PTreeBaseNode l k v m r, p) \<Rightarrow>
          Inr \<lparr>res_ok = False, res_root = plug (PTreeBaseNode l key val m r) p,
               res_keys = (if kd then [k] else []), res_values = (if vd then [v] else [])\<rparr>
      | (NULL, p) \<Rightarrow>
          if \<not> malloc_ok then Inr \<lparr>res_ok = False, res_root = root, res_keys = [], res_values = []\<rparr>
          else (case balance (PTreeBaseNode NULL key val leaf NULL) p of
                  Inl f \<Rightarrow> Inl f
                | Inr t \<Rightarrow> Inr \<lparr>res_ok = True, res_root = t, res_keys = [], res_values = []\<rparr>))"

text \<open>The loop \<^verbatim>\<open>while (prev_node->right != NULL)\<close>.\<close>

fun tree_rightmost :: "('k, 'v, 'm) tree_node \<Rightarrow> ('k, 'v, 'm) place \<Rightarrow> ('k, 'v, 'm) tree_node \<times> ('k, 'v, 'm) place" where
  "tree_rightmost (PTreeBaseNode l k v m (PTreeBaseNode l' k' v' m' r')) p =
     tree_rightmost (PTreeBaseNode l' k' v' m' r') (From_Right l k v m # p)"
| "tree_rightmost t p = (t, p)"

text \<open>
  The node to free and its place, after the step that moves the key and the value of the node
  before into a node with two children.
\<close>

definition tree_unlink :: "('k, 'v, 'm) tree_node \<Rightarrow> ('k, 'v, 'm) place \<Rightarrow> ('k, 'v, 'm) tree_node \<times> ('k, 'v, 'm) place" where
  "tree_unlink cur p =
     (case cur of
        PTreeBaseNode (PTreeBaseNode ll lk lv lm lr) k v m r \<Rightarrow>
          if r \<noteq> NULL
          then let prev = fst (tree_rightmost (PTreeBaseNode ll lk lv lm lr) [])
               in tree_rightmost (PTreeBaseNode ll lk lv lm lr) (From_Left (node_key prev) (node_value prev) m r # p)
          else (cur, p)
      | _ \<Rightarrow> (cur, p))"

definition only_child :: "('k, 'v, 'm) tree_node \<Rightarrow> ('k, 'v, 'm) tree_node" where
  "only_child cur = (if node_left cur = NULL then node_right cur else node_left cur)"

text \<open>A removal: \<open>rebalance\<close> is what is done with the node to free at its place, and gives the new root.\<close>

definition remove_with ::
    "(('k, 'v, 'm) tree_node \<Rightarrow> ('k, 'v, 'm) place \<Rightarrow> ('k, 'v, 'm) tree_node outcome)
     \<Rightarrow> ('k \<Rightarrow> 'k \<Rightarrow> int) \<Rightarrow> bool \<Rightarrow> bool \<Rightarrow> 'k \<Rightarrow> ('k, 'v, 'm) tree_node \<Rightarrow> ('k, 'v, 'm) tree_result outcome" where
  "remove_with rebalance cmp kd vd key root =
     (case tree_search cmp key root [] of
        (NULL, _) \<Rightarrow> Inr \<lparr>res_ok = False, res_root = root, res_keys = [], res_values = []\<rparr>
      | (cur, p) \<Rightarrow>
          (case tree_unlink cur p of
             (cur, p) \<Rightarrow>
               (case rebalance cur p of
                  Inl f \<Rightarrow> Inl f
                | Inr t \<Rightarrow> Inr \<lparr>res_ok = True, res_root = t,
                     res_keys = (if kd then [node_key cur] else []),
                     res_values = (if vd then [node_value cur] else [])\<rparr>)))"

section \<open>Entries in order\<close>

fun inorder :: "('k, 'v, 'm) tree_node \<Rightarrow> ('k \<times> 'v) list" where
  "inorder NULL = []"
| "inorder (PTreeBaseNode l k v m r) = inorder l @ (k, v) # inorder r"

fun tree_height :: "('k, 'v, 'm) tree_node \<Rightarrow> nat" where
  "tree_height NULL = 0"
| "tree_height (PTreeBaseNode l k v m r) = Suc (max (tree_height l) (tree_height r))"

fun before :: "('k, 'v, 'm) place \<Rightarrow> ('k \<times> 'v) list" where
  "before [] = []"
| "before (From_Left k v m r # p) = before p"
| "before (From_Right l k v m # p) = before p @ inorder l @ [(k, v)]"

fun after :: "('k, 'v, 'm) place \<Rightarrow> ('k \<times> 'v) list" where
  "after [] = []"
| "after (From_Left k v m r # p) = (k, v) # inorder r @ after p"
| "after (From_Right l k v m # p) = after p"

definition same_order :: "('k, 'v, 'm) place \<Rightarrow> ('k, 'v, 'm) place \<Rightarrow> bool" where
  "same_order p q \<longleftrightarrow> before p = before q \<and> after p = after q"

lemma inorder_plug: "inorder (plug t p) = before p @ inorder t @ after p"
  by (induction t p rule: plug.induct) simp_all

lemma place_append:
  "plug t (p @ q) = plug (plug t p) q" "before (p @ q) = before q @ before p" "after (p @ q) = after p @ after q"
  by (induction t p rule: plug.induct) simp_all

lemma search_plug: "tree_search cmp key t p = (t', p') \<Longrightarrow> plug t' p' = plug t p"
  by (induction cmp key t p rule: tree_search.induct) (auto simp: Let_def split: if_splits)

lemma search_found: "tree_search cmp key t p = (PTreeBaseNode l k v m r, p') \<Longrightarrow> cmp key k = 0"
  by (induction cmp key t p rule: tree_search.induct) (auto simp: Let_def split: if_splits)

lemma rightmost_append: "tree_rightmost t (q @ p) = (fst (tree_rightmost t q), snd (tree_rightmost t q) @ p)"
  by (induction t q rule: tree_rightmost.induct) simp_all

lemma rightmost_plug:
  "tree_rightmost t p = (t', p') \<Longrightarrow> t \<noteq> NULL \<Longrightarrow>
   plug t' p' = plug t p \<and> after p' = after p \<and> t' \<noteq> NULL \<and> node_right t' = NULL"
  by (induction t p rule: tree_rightmost.induct) auto

lemma rightmost_ok:
  assumes "t \<noteq> NULL"
  obtains l k v m q where "tree_rightmost t [] = (PTreeBaseNode l k v m NULL, q)"
    "plug (PTreeBaseNode l k v m NULL) q = t" "after q = []"
    "\<And>p. tree_rightmost t p = (PTreeBaseNode l k v m NULL, q @ p)"
proof -
  obtain t' q where q: "tree_rightmost t [] = (t', q)"
    by (cases "tree_rightmost t []")
  with rightmost_plug [OF q assms] obtain l k v m where "t' = PTreeBaseNode l k v m NULL"
    by (cases t') auto
  then show ?thesis
    using rightmost_plug [OF q assms] q rightmost_append [of t "[]"] by (intro that) auto
qed

text \<open>The node to free is the node itself, which lacks a child, or the last one of its left subtree.\<close>

lemma unlink_cases:
  obtains "l = NULL \<or> r = NULL" "tree_unlink (PTreeBaseNode l k v m r) p = (PTreeBaseNode l k v m r, p)"
  | a ak av am q where "l \<noteq> NULL" "r \<noteq> NULL" "plug (PTreeBaseNode a ak av am NULL) q = l" "after q = []"
    "tree_unlink (PTreeBaseNode l k v m r) p = (PTreeBaseNode a ak av am NULL, q @ From_Left ak av m r # p)"
proof (cases "l = NULL \<or> r = NULL")
  case True
  then have "tree_unlink (PTreeBaseNode l k v m r) p = (PTreeBaseNode l k v m r, p)"
    by (auto simp: tree_unlink_def split: tree_node.split)
  with True show ?thesis by (rule that(1))
next
  case False
  then obtain a ak av am q where q: "tree_rightmost l [] = (PTreeBaseNode a ak av am NULL, q)"
      "plug (PTreeBaseNode a ak av am NULL) q = l" "after q = []"
      "tree_rightmost l (From_Left ak av m r # p) = (PTreeBaseNode a ak av am NULL, q @ From_Left ak av m r # p)"
    using rightmost_ok [of l] by metis
  then have "tree_unlink (PTreeBaseNode l k v m r) p = (PTreeBaseNode a ak av am NULL, q @ From_Left ak av m r # p)"
    using False by (auto simp: tree_unlink_def split: tree_node.split)
  with q(2,3) False show ?thesis by (intro that(2)) auto
qed

lemma unlink_order:
  assumes "tree_unlink (PTreeBaseNode l k v m r) p = (cur, p')"
  shows "before p' @ inorder (only_child cur) @ after p' = before p @ inorder l @ inorder r @ after p \<and> cur \<noteq> NULL"
proof (rule unlink_cases [of l r k v m p])
  fix a ak av am q
  assume "plug (PTreeBaseNode a ak av am NULL) q = l" "after q = []"
    "tree_unlink (PTreeBaseNode l k v m r) p = (PTreeBaseNode a ak av am NULL, q @ From_Left ak av m r # p)"
  then show ?thesis
    using assms inorder_plug [of "PTreeBaseNode a ak av am NULL" q] by (auto simp: only_child_def place_append)
qed (use assms in \<open>auto simp: only_child_def\<close>)

text \<open>
  When the removed node has two children, the key that is given to the destroy function is the one
  that was moved into that node and is still in the tree; the key that was asked for is not.
\<close>

lemma remove_destroys_kept_key:
  assumes "tree_search cmp key t [] = (PTreeBaseNode l k v m r, p)" "l \<noteq> NULL" "r \<noteq> NULL"
    and "remove_with rebalance cmp True vd key t = Inr res"
    and order: "\<And>cur p' t'. rebalance cur p' = Inr t' \<Longrightarrow> inorder t' = before p' @ inorder (only_child cur) @ after p'"
  shows "\<exists>k'. res_keys res = [k'] \<and> k' \<in> fst ` set (inorder (res_root res)) \<and> k' \<in> fst ` set (inorder l)"
proof (rule unlink_cases [of l r k v m p])
  fix a ak av am q
  assume q: "plug (PTreeBaseNode a ak av am NULL) q = l" "after q = []"
    "tree_unlink (PTreeBaseNode l k v m r) p = (PTreeBaseNode a ak av am NULL, q @ From_Left ak av m r # p)"
  obtain t' where t': "rebalance (PTreeBaseNode a ak av am NULL) (q @ From_Left ak av m r # p) = Inr t'" "res_keys res = [ak]"
      "res_root res = t'"
    using assms(1,4) q(3) by (auto simp: remove_with_def split: sum.splits)
  have "(ak, av) \<in> set (inorder l)"
    using inorder_plug [of "PTreeBaseNode a ak av am NULL" q] q(1) by auto
  then show ?thesis
    using t' order [OF t'(1)] by (force simp: place_append)
qed (use assms in auto)

section \<open>Keys in order\<close>

text \<open>What the tree needs of a comparison function: keys that compare as 0 are interchangeable.\<close>

locale key_order =
  fixes cmp :: "'k \<Rightarrow> 'k \<Rightarrow> int"
  assumes cmp_sym: "cmp a b < 0 \<longleftrightarrow> 0 < cmp b a"
    and cmp_trans: "cmp a b \<le> 0 \<Longrightarrow> cmp b c \<le> 0 \<Longrightarrow> cmp a c \<le> 0"
begin

lemma cmp_refl [simp]: "cmp a a = 0"
  using cmp_sym [of a a] by linarith

lemma cmp_eq_sym: "cmp a b = 0 \<longleftrightarrow> cmp b a = 0"
  using cmp_sym [of a b] cmp_sym [of b a] by linarith

lemma cmp_less_trans:
  "cmp a b < 0 \<Longrightarrow> cmp b c \<le> 0 \<Longrightarrow> cmp a c < 0" "cmp a b \<le> 0 \<Longrightarrow> cmp b c < 0 \<Longrightarrow> cmp a c < 0"
  using cmp_trans [of a b c] cmp_trans [of b c a] cmp_trans [of c a b] cmp_sym [of a c] cmp_sym [of a b] cmp_sym [of b c]
    cmp_sym [of c a] cmp_sym [of b a] cmp_sym [of c b] by linarith+

definition in_order :: "('k \<times> 'v) list \<Rightarrow> bool" where
  "in_order xs \<longleftrightarrow> sorted_wrt (\<lambda>x y. cmp (fst x) (fst y) < 0) xs"

lemma search_place:
  assumes "tree_search cmp key t p = (t', p')" "in_order (inorder t)"
    and "\<forall>x \<in> set (before p). 0 < cmp key (fst x)" "\<forall>x \<in> set (after p). cmp key (fst x) < 0"
  shows "(\<forall>x \<in> set (before p'). 0 < cmp key (fst x)) \<and> (\<forall>x \<in> set (after p'). cmp key (fst x) < 0)"
  using assms
proof (induction t arbitrary: p)
  case (PTreeBaseNode l k v m r)
  then have lr: "in_order (inorder l)" "in_order (inorder r)"
    "\<forall>x \<in> set (inorder l). cmp (fst x) k < 0" "\<forall>x \<in> set (inorder r). cmp k (fst x) < 0"
    by (auto simp: in_order_def sorted_wrt_append)
  consider "cmp key k < 0" | "0 < cmp key k" | "cmp key k = 0"
    by linarith
  then show ?case
  proof cases
    case 1
    then have "\<forall>x \<in> set (inorder r). cmp key (fst x) < 0"
      using lr(4) cmp_less_trans(1) by fastforce
    moreover have "tree_search cmp key l (From_Left k v m r # p) = (t', p')"
      using PTreeBaseNode.prems(1) 1 by simp
    ultimately show ?thesis
      using 1 PTreeBaseNode.prems(3,4) by (intro PTreeBaseNode.IH(1) [of "From_Left k v m r # p", OF _ lr(1)]) auto
  next
    case 2
    then have "\<forall>x \<in> set (inorder l). 0 < cmp key (fst x)"
      using lr(3) cmp_less_trans(1) by (fastforce simp: cmp_sym [symmetric])
    moreover have "tree_search cmp key r (From_Right l k v m # p) = (t', p')"
      using PTreeBaseNode.prems(1) 2 by simp
    ultimately show ?thesis
      using 2 PTreeBaseNode.prems(3,4) by (intro PTreeBaseNode.IH(2) [of "From_Right l k v m # p", OF _ lr(2)]) auto
  next
    case 3
    then show ?thesis
      using PTreeBaseNode.prems by (simp add: Let_def)
  qed
qed simp

lemma found_sides:
  assumes "in_order (inorder (PTreeBaseNode l k v m r))" "cmp key k = 0"
  shows "\<forall>x \<in> set (inorder l). 0 < cmp key (fst x)" "\<forall>x \<in> set (inorder r). cmp key (fst x) < 0"
proof -
  have eq: "cmp k key \<le> 0" "cmp key k \<le> 0"
    using assms(2) cmp_eq_sym [of key k] by auto
  show "\<forall>x \<in> set (inorder l). 0 < cmp key (fst x)"
    using assms(1) cmp_less_trans(1) [OF _ eq(1)]
    by (auto simp: in_order_def sorted_wrt_append cmp_sym [symmetric])
  show "\<forall>x \<in> set (inorder r). cmp key (fst x) < 0"
    using assms(1) cmp_less_trans(2) [OF eq(2)] by (auto simp: in_order_def sorted_wrt_append)
qed

text \<open>
  The keys lower and higher than a key, and the entries with an equal one. A search splits the
  tree into these.
\<close>

definition lower :: "'k \<Rightarrow> ('k \<times> 'v) list \<Rightarrow> ('k \<times> 'v) list" where
  "lower key = filter (\<lambda>x. 0 < cmp key (fst x))"

definition higher :: "'k \<Rightarrow> ('k \<times> 'v) list \<Rightarrow> ('k \<times> 'v) list" where
  "higher key = filter (\<lambda>x. cmp key (fst x) < 0)"

definition equals :: "'k \<Rightarrow> ('k \<times> 'v) list \<Rightarrow> ('k \<times> 'v) list" where
  "equals key = filter (\<lambda>x. cmp key (fst x) = 0)"

lemma split_append:
  "lower key (xs @ ys) = lower key xs @ lower key ys" "higher key (xs @ ys) = higher key xs @ higher key ys"
  "equals key (xs @ ys) = equals key xs @ equals key ys"
  by (simp_all add: lower_def higher_def equals_def)

lemma split_lower:
  assumes "\<forall>x \<in> set xs. 0 < cmp key (fst x)"
  shows "lower key xs = xs" "higher key xs = []" "equals key xs = []"
  using assms by (auto simp: lower_def higher_def equals_def filter_id_conv filter_empty_conv)

lemma split_higher:
  assumes "\<forall>x \<in> set xs. cmp key (fst x) < 0"
  shows "lower key xs = []" "higher key xs = xs" "equals key xs = []"
  using assms by (auto simp: lower_def higher_def equals_def filter_id_conv filter_empty_conv)

lemma split_equal:
  assumes "cmp key k = 0"
  shows "lower key ((k, v) # xs) = lower key xs" "higher key ((k, v) # xs) = higher key xs"
    "equals key ((k, v) # xs) = (k, v) # equals key xs"
  using assms by (simp_all add: lower_def higher_def equals_def)

lemma search_splits:
  assumes "tree_search cmp key t [] = (t', p)" "in_order (inorder t)"
  shows "inorder t = before p @ inorder t' @ after p"
    and "lower key (inorder t) = before p @ (if t' = NULL then [] else inorder (node_left t'))"
    and "higher key (inorder t) = (if t' = NULL then [] else inorder (node_right t')) @ after p"
    and "equals key (inorder t) = (if t' = NULL then [] else [(node_key t', node_value t')])"
proof -
  show eq: "inorder t = before p @ inorder t' @ after p"
    using search_plug [OF assms(1)] inorder_plug [of t' p] by simp
  have sides: "\<forall>x \<in> set (before p). 0 < cmp key (fst x)" "\<forall>x \<in> set (after p). cmp key (fst x) < 0"
    using search_place [OF assms] by simp_all
  have t: "lower key (inorder t') = (if t' = NULL then [] else inorder (node_left t'))
      \<and> higher key (inorder t') = (if t' = NULL then [] else inorder (node_right t'))
      \<and> equals key (inorder t') = (if t' = NULL then [] else [(node_key t', node_value t')])"
  proof (cases t')
    case (PTreeBaseNode l k v m r)
    have "in_order (inorder (PTreeBaseNode l k v m r))"
      using assms(2) unfolding eq PTreeBaseNode by (simp add: in_order_def sorted_wrt_append)
    moreover have "cmp key k = 0"
      using search_found [of cmp key t "[]" l k v m r p] assms(1) PTreeBaseNode by simp
    ultimately show ?thesis
      using found_sides [of l k v m r key] PTreeBaseNode
      by (simp add: split_append split_equal split_lower split_higher)
  qed (simp add: lower_def higher_def equals_def)
  show "lower key (inorder t) = before p @ (if t' = NULL then [] else inorder (node_left t'))"
    "higher key (inorder t) = (if t' = NULL then [] else inorder (node_right t')) @ after p"
    "equals key (inorder t) = (if t' = NULL then [] else [(node_key t', node_value t')])"
    unfolding eq split_append using t split_lower [OF sides(1)] split_higher [OF sides(2)] by simp_all
qed

lemma in_order_update:
  assumes "in_order xs"
  shows "in_order (lower key xs @ (key, val) # higher key xs)" "in_order (lower key xs @ higher key xs)"
  using assms cmp_less_trans(1)
  by (fastforce simp: in_order_def lower_def higher_def sorted_wrt_append sorted_wrt_filter cmp_sym [symmetric])+

text \<open>
  Insertion and removal, given what balancing does: the new tree has the lower keys, the new key
  and the higher keys, and an equal key is replaced in its node; removal leaves the other keys.
\<close>

lemma insert_with_ok:
  fixes t :: "('k, 'v, 'm) tree_node"
  assumes "in_order (inorder t)"
    and new: "\<And>p. tree_search cmp key t [] = (NULL, p) \<Longrightarrow>
      \<exists>t'. balance (PTreeBaseNode NULL key val leaf NULL) p = Inr t' \<and> I t' \<and> inorder t' = before p @ (key, val) # after p"
    and old: "\<And>l k v m r p. tree_search cmp key t [] = (PTreeBaseNode l k v m r, p) \<Longrightarrow> I (plug (PTreeBaseNode l key val m r) p)"
  defines "xs \<equiv> inorder t"
  shows "\<exists>res. insert_with leaf balance True cmp kd vd key val t = Inr res \<and> I (res_root res)
    \<and> inorder (res_root res) = lower key xs @ (key, val) # higher key xs \<and> (res_ok res \<longleftrightarrow> equals key xs = [])
    \<and> res_keys res = (if kd then map fst (equals key xs) else [])
    \<and> res_values res = (if vd then map snd (equals key xs) else [])"
proof -
  obtain t' p where search: "tree_search cmp key t [] = (t', p)"
    by (cases "tree_search cmp key t []")
  note splits = search_splits [OF search assms(1)]
  show ?thesis
  proof (cases t')
    case NULL
    then show ?thesis
      using new [of p] splits(2-) search by (auto simp: insert_with_def xs_def)
  next
    case (PTreeBaseNode l k v m r)
    then show ?thesis
      using old [of l k v m r p] splits(2-) search by (simp add: insert_with_def xs_def inorder_plug)
  qed
qed

lemma remove_with_ok:
  fixes t :: "('k, 'v, 'm) tree_node"
  assumes "in_order (inorder t)" "I t"
    and reb: "\<And>l k v m r p cur p'. tree_search cmp key t [] = (PTreeBaseNode l k v m r, p) \<Longrightarrow>
      tree_unlink (PTreeBaseNode l k v m r) p = (cur, p') \<Longrightarrow>
      \<exists>t'. rebalance cur p' = Inr t' \<and> I t' \<and> inorder t' = before p' @ inorder (only_child cur) @ after p'"
  defines "xs \<equiv> inorder t"
  shows "\<exists>res. remove_with rebalance cmp kd vd key t = Inr res \<and> I (res_root res)
    \<and> inorder (res_root res) = lower key xs @ higher key xs \<and> (res_ok res \<longleftrightarrow> equals key xs \<noteq> [])"
proof -
  obtain t' p where search: "tree_search cmp key t [] = (t', p)"
    by (cases "tree_search cmp key t []")
  note splits = search_splits [OF search assms(1)]
  show ?thesis
  proof (cases t')
    case NULL
    then show ?thesis
      using splits search assms(2) by (simp add: remove_with_def xs_def)
  next
    case (PTreeBaseNode l k v m r)
    obtain cur p' where unlink: "tree_unlink (PTreeBaseNode l k v m r) p = (cur, p')"
      by (cases "tree_unlink (PTreeBaseNode l k v m r) p")
    then show ?thesis
      using reb [OF search [unfolded PTreeBaseNode] unlink] unlink_order [OF unlink] search splits(2-) PTreeBaseNode
      by (auto simp: remove_with_def xs_def)
  qed
qed

end

end
