(* ===== verification/TC_AVL.thy ===== *)
theory TC_AVL
  imports TC_Tree_Base
begin

text \<open>
  AVL trees, \<^verbatim>\<open>plibsys-master/src/ptree-avl.c\<close>, in which the server records the keys that were used. The
  mark of a node is its balance factor. A rotation maps the subtree of \<^verbatim>\<open>node->parent\<close> to the subtree
  that takes its place.
\<close>

section \<open>Rotations\<close>

type_synonym ('k, 'v) avl_node = "('k, 'v, int) tree_node"

abbreviation balance_factor :: "('k, 'v) avl_node \<Rightarrow> int" where
  "balance_factor \<equiv> node_mark"

fun pp_tree_avl_rotate_left :: "('k, 'v) avl_node \<Rightarrow> ('k, 'v) avl_node outcome" where
  "pp_tree_avl_rotate_left (PTreeBaseNode a pk pv pb (PTreeBaseNode b k v bal c)) =
     (let bal = bal + 1 in Inr (PTreeBaseNode (PTreeBaseNode a pk pv (- bal) b) k v bal c))"
| "pp_tree_avl_rotate_left _ = Inl NullDereference"

fun pp_tree_avl_rotate_right :: "('k, 'v) avl_node \<Rightarrow> ('k, 'v) avl_node outcome" where
  "pp_tree_avl_rotate_right (PTreeBaseNode (PTreeBaseNode a k v bal b) pk pv pb c) =
     (let bal = bal - 1 in Inr (PTreeBaseNode a k v bal (PTreeBaseNode b pk pv (- bal) c)))"
| "pp_tree_avl_rotate_right _ = Inl NullDereference"

text \<open>The balance factors of the two children after a double rotation, from the one of \<^verbatim>\<open>tmp_node\<close>.\<close>

definition double_balance :: "int \<Rightarrow> int \<times> int" where
  "double_balance tmp = (if tmp = 1 then (0, - 1) else if tmp = - 1 then (1, 0) else (0, 0))"

fun pp_tree_avl_rotate_left_right :: "('k, 'v) avl_node \<Rightarrow> ('k, 'v) avl_node outcome" where
  "pp_tree_avl_rotate_left_right (PTreeBaseNode (PTreeBaseNode a k v bal (PTreeBaseNode b tk tv tb c)) pk pv pb d) =
     (case double_balance tb of (lb, rb) \<Rightarrow>
        Inr (PTreeBaseNode (PTreeBaseNode a k v lb b) tk tv 0 (PTreeBaseNode c pk pv rb d)))"
| "pp_tree_avl_rotate_left_right _ = Inl NullDereference"

fun pp_tree_avl_rotate_right_left :: "('k, 'v) avl_node \<Rightarrow> ('k, 'v) avl_node outcome" where
  "pp_tree_avl_rotate_right_left (PTreeBaseNode a pk pv pb (PTreeBaseNode (PTreeBaseNode b tk tv tb c) k v bal d)) =
     (case double_balance tb of (lb, rb) \<Rightarrow>
        Inr (PTreeBaseNode (PTreeBaseNode a pk pv lb b) tk tv 0 (PTreeBaseNode c k v rb d)))"
| "pp_tree_avl_rotate_right_left _ = Inl NullDereference"

section \<open>Balancing after an insertion\<close>

text \<open>\<open>t\<close> is \<^verbatim>\<open>node\<close> with what hangs below it, and the result the root of the whole tree.\<close>

fun pp_tree_avl_balance_insert :: "('k, 'v) avl_node \<Rightarrow> ('k, 'v, int) place \<Rightarrow> ('k, 'v) avl_node outcome" where
  "pp_tree_avl_balance_insert t [] = Inr t"
| "pp_tree_avl_balance_insert t (From_Left k v b r # p) =
     (if b = 1
      then case (if balance_factor t = - 1 then pp_tree_avl_rotate_left_right (PTreeBaseNode t k v b r)
                 else pp_tree_avl_rotate_right (PTreeBaseNode t k v b r)) of
             Inl f \<Rightarrow> Inl f
           | Inr t \<Rightarrow> Inr (plug t p)
      else if b = - 1 then Inr (plug (PTreeBaseNode t k v 0 r) p)
      else pp_tree_avl_balance_insert (PTreeBaseNode t k v 1 r) p)"
| "pp_tree_avl_balance_insert t (From_Right l k v b # p) =
     (if b = - 1
      then case (if balance_factor t = 1 then pp_tree_avl_rotate_right_left (PTreeBaseNode l k v b t)
                 else pp_tree_avl_rotate_left (PTreeBaseNode l k v b t)) of
             Inl f \<Rightarrow> Inl f
           | Inr t \<Rightarrow> Inr (plug t p)
      else if b = 1 then Inr (plug (PTreeBaseNode l k v 0 t) p)
      else pp_tree_avl_balance_insert (PTreeBaseNode l k v (- 1) t) p)"

section \<open>Balancing after a removal\<close>

text \<open>
  Here the rotations turn the sibling of \<^verbatim>\<open>node\<close> up and leave \<^verbatim>\<open>node\<close> where it is below its parent,
  so the loop only changes the place of \<^verbatim>\<open>node\<close>: \<^verbatim>\<open>node\<close> itself is not looked at, and \<open>NULL\<close> stands for
  it in the rotations. \<open>rotated_left\<close> and \<open>rotated_right\<close> read the place of \<^verbatim>\<open>node\<close> off their result.
\<close>

fun rotated_left :: "('k, 'v) avl_node outcome \<Rightarrow> ('k, 'v, int) place outcome" where
  "rotated_left (Inr (PTreeBaseNode (PTreeBaseNode _ pk pv pb pr) k v b r)) =
     Inr [From_Left pk pv pb pr, From_Left k v b r]"
| "rotated_left (Inl f) = Inl f"
| "rotated_left _ = Inl NullDereference"

fun rotated_right :: "('k, 'v) avl_node outcome \<Rightarrow> ('k, 'v, int) place outcome" where
  "rotated_right (Inr (PTreeBaseNode l k v b (PTreeBaseNode pl pk pv pb _))) =
     Inr [From_Right pl pk pv pb, From_Right l k v b]"
| "rotated_right (Inl f) = Inl f"
| "rotated_right _ = Inl NullDereference"

definition append_outcome :: "'a list outcome \<Rightarrow> 'a list outcome \<Rightarrow> 'a list outcome" where
  "append_outcome x y = (case x of Inl f \<Rightarrow> Inl f | Inr xs \<Rightarrow> (case y of Inl f \<Rightarrow> Inl f | Inr ys \<Rightarrow> Inr (xs @ ys)))"

fun pp_tree_avl_balance_remove :: "('k, 'v, int) place \<Rightarrow> ('k, 'v, int) place outcome" where
  "pp_tree_avl_balance_remove [] = Inr []"
| "pp_tree_avl_balance_remove (From_Left k v b r # p) =
     (if b = - 1
      then (if r = NULL then Inl NullDereference
            else let sibling_balance = balance_factor r;
                     parent = PTreeBaseNode NULL k v b r;
                     rotated = rotated_left (if sibling_balance = 1 then pp_tree_avl_rotate_right_left parent
                                             else pp_tree_avl_rotate_left parent)
                 in append_outcome rotated (if sibling_balance = 0 then Inr p else pp_tree_avl_balance_remove p))
      else if b = 0 then Inr (From_Left k v (- 1) r # p)
      else append_outcome (Inr [From_Left k v 0 r]) (pp_tree_avl_balance_remove p))"
| "pp_tree_avl_balance_remove (From_Right l k v b # p) =
     (if b = 1
      then (if l = NULL then Inl NullDereference
            else let sibling_balance = balance_factor l;
                     parent = PTreeBaseNode l k v b NULL;
                     rotated = rotated_right (if sibling_balance = - 1 then pp_tree_avl_rotate_left_right parent
                                              else pp_tree_avl_rotate_right parent)
                 in append_outcome rotated (if sibling_balance = 0 then Inr p else pp_tree_avl_balance_remove p))
      else if b = 0 then Inr (From_Right l k v 1 # p)
      else append_outcome (Inr [From_Right l k v 0]) (pp_tree_avl_balance_remove p))"

section \<open>Insertion and removal\<close>

definition p_tree_avl_insert ::
    "bool \<Rightarrow> ('k \<Rightarrow> 'k \<Rightarrow> int) \<Rightarrow> bool \<Rightarrow> bool \<Rightarrow> 'k \<Rightarrow> 'v \<Rightarrow> ('k, 'v) avl_node \<Rightarrow> ('k, 'v, int) tree_result outcome" where
  "p_tree_avl_insert = insert_with 0 pp_tree_avl_balance_insert"

text \<open>
  A node without children is balanced for before it is unlinked, and one with a child after its
  child took its place: the place is the same.
\<close>

definition p_tree_avl_remove ::
    "('k \<Rightarrow> 'k \<Rightarrow> int) \<Rightarrow> bool \<Rightarrow> bool \<Rightarrow> 'k \<Rightarrow> ('k, 'v) avl_node \<Rightarrow> ('k, 'v, int) tree_result outcome" where
  "p_tree_avl_remove = remove_with (\<lambda>cur p. map_sum id (plug (only_child cur)) (pp_tree_avl_balance_remove p))"

section \<open>The invariant of an AVL tree\<close>

text \<open>The balance factor is the height of the left subtree minus that of the right one.\<close>

definition balanced :: "int \<Rightarrow> nat \<Rightarrow> nat \<Rightarrow> bool" where
  "balanced b hl hr \<longleftrightarrow> b = int hl - int hr \<and> \<bar>b\<bar> \<le> 1"

fun avl :: "('k, 'v) avl_node \<Rightarrow> bool" where
  "avl NULL \<longleftrightarrow> True"
| "avl (PTreeBaseNode l k v b r) \<longleftrightarrow> avl l \<and> avl r \<and> balanced b (tree_height l) (tree_height r)"

text \<open>A place for a subtree of height \<open>h\<close> in a tree that satisfies the invariant.\<close>

fun place_ok :: "nat \<Rightarrow> ('k, 'v, int) place \<Rightarrow> bool" where
  "place_ok h [] \<longleftrightarrow> True"
| "place_ok h (From_Left k v b r # p) \<longleftrightarrow>
     avl r \<and> balanced b h (tree_height r) \<and> place_ok (Suc (max h (tree_height r))) p"
| "place_ok h (From_Right l k v b # p) \<longleftrightarrow>
     avl l \<and> balanced b (tree_height l) h \<and> place_ok (Suc (max (tree_height l) h)) p"

lemma avl_plug: "avl (plug t p) \<longleftrightarrow> avl t \<and> place_ok (tree_height t) p"
  by (induction t p rule: plug.induct) auto

lemma avl_height_0 [simp]: "tree_height t = 0 \<longleftrightarrow> t = NULL"
  by (cases t) simp_all

section \<open>Rotations restore the invariant\<close>

lemma balanced_cases: "balanced b hl hr \<longleftrightarrow>
    b = 1 \<and> hl = Suc hr \<or> b = 0 \<and> hl = hr \<or> b = - 1 \<and> hr = Suc hl"
  by (auto simp: balanced_def)

lemma avl_tall: "tree_height t = Suc h \<Longrightarrow> \<exists>l k v b r. t = PTreeBaseNode l k v b r"
  by (cases t) auto

text \<open>
  The left child is two higher than the right one: the rotations of the two cases bring the
  tree back to balance, and to the height it had before, unless the left child was itself
  balanced, which happens only when a removal made the right child lower.
\<close>

lemma rotate_right_ok:
  assumes "avl t" "avl r" "tree_height t = Suc (Suc (tree_height r))" "balance_factor t \<noteq> - 1"
  shows "\<exists>t'. pp_tree_avl_rotate_right (PTreeBaseNode t k v b r) = Inr t' \<and> avl t'
    \<and> inorder t' = inorder t @ (k, v) # inorder r
    \<and> tree_height t' = (if balance_factor t = 0 then Suc (tree_height t) else tree_height t)"
proof -
  obtain a tk tv tb c where "t = PTreeBaseNode a tk tv tb c"
    using avl_tall [OF assms(3)] by blast
  then show ?thesis
    using assms by (auto simp: balanced_cases Let_def)
qed

lemma rotate_left_ok:
  assumes "avl t" "avl l" "tree_height t = Suc (Suc (tree_height l))" "balance_factor t \<noteq> 1"
  shows "\<exists>t'. pp_tree_avl_rotate_left (PTreeBaseNode l k v b t) = Inr t' \<and> avl t'
    \<and> inorder t' = inorder l @ (k, v) # inorder t
    \<and> tree_height t' = (if balance_factor t = 0 then Suc (tree_height t) else tree_height t)"
proof -
  obtain a tk tv tb c where "t = PTreeBaseNode a tk tv tb c"
    using avl_tall [OF assms(3)] by blast
  then show ?thesis
    using assms by (auto simp: balanced_cases Let_def)
qed

lemma rotate_left_right_ok:
  assumes "avl t" "avl r" "tree_height t = Suc (Suc (tree_height r))" "balance_factor t = - 1"
  shows "\<exists>t'. pp_tree_avl_rotate_left_right (PTreeBaseNode t k v b r) = Inr t' \<and> avl t'
    \<and> inorder t' = inorder t @ (k, v) # inorder r \<and> tree_height t' = tree_height t"
proof -
  obtain a tk tv tb c where t: "t = PTreeBaseNode a tk tv tb c"
    using avl_tall [OF assms(3)] by blast
  then have "tree_height c = Suc (tree_height r)"
    using assms by (auto simp: balanced_cases)
  then obtain d ck cv cb e where "c = PTreeBaseNode d ck cv cb e"
    using avl_tall by blast
  then show ?thesis
    using assms t by (auto simp: balanced_cases double_balance_def)
qed

lemma rotate_right_left_ok:
  assumes "avl t" "avl l" "tree_height t = Suc (Suc (tree_height l))" "balance_factor t = 1"
  shows "\<exists>t'. pp_tree_avl_rotate_right_left (PTreeBaseNode l k v b t) = Inr t' \<and> avl t'
    \<and> inorder t' = inorder l @ (k, v) # inorder t \<and> tree_height t' = tree_height t"
proof -
  obtain a tk tv tb c where t: "t = PTreeBaseNode a tk tv tb c"
    using avl_tall [OF assms(3)] by blast
  then have "tree_height a = Suc (tree_height l)"
    using assms by (auto simp: balanced_cases)
  then obtain d ak av ab e where "a = PTreeBaseNode d ak av ab e"
    using avl_tall by blast
  then show ?thesis
    using assms t by (auto simp: balanced_cases double_balance_def)
qed

section \<open>Balancing restores the invariant\<close>

text \<open>
  After an insertion the subtree at a place is one higher than the place was made for. It is not
  balanced itself unless it is the new leaf.
\<close>

lemma balance_insert_ok:
  "\<lbrakk>avl t; tree_height t = Suc h; place_ok h p; balance_factor t \<noteq> 0 \<or> h = 0\<rbrakk> \<Longrightarrow>
   \<exists>t'. pp_tree_avl_balance_insert t p = Inr t' \<and> avl t' \<and> inorder t' = before p @ inorder t @ after p"
proof (induction t p arbitrary: h rule: pp_tree_avl_balance_insert.induct)
  case (1 t)
  then show ?case by simp
next
  case (2 t k v b r p)
  from 2(4) have r: "avl r" "balanced b h (tree_height r)" "place_ok (Suc (max h (tree_height r))) p"
    by simp_all
  consider "b = 1" "h = Suc (tree_height r)" | "b = - 1" "tree_height r = Suc h" | "b = 0" "tree_height r = h"
    using r(2) by (auto simp: balanced_cases)
  then show ?case
  proof cases
    case 1
    then have h: "tree_height t = Suc (Suc (tree_height r))" "balance_factor t \<noteq> 0"
      using 2 by simp_all
    then have "\<exists>t'. (if balance_factor t = - 1 then pp_tree_avl_rotate_left_right (PTreeBaseNode t k v b r)
                 else pp_tree_avl_rotate_right (PTreeBaseNode t k v b r)) = Inr t' \<and> avl t'
        \<and> inorder t' = inorder t @ (k, v) # inorder r \<and> tree_height t' = tree_height t"
      using rotate_left_right_ok [OF 2(2) r(1) h(1)] rotate_right_ok [OF 2(2) r(1) h(1)] by auto
    then show ?thesis
      using 1 r(3) h(1) by (auto simp: inorder_plug avl_plug)
  next
    case 2
    then show ?thesis
      using "2.prems" r by (auto simp: inorder_plug avl_plug balanced_cases)
  next
    case 3
    then show ?thesis
      using "2.IH" [of "Suc h"] "2.prems" r by (auto simp: balanced_cases)
  qed
next
  case (3 t l k v b p)
  from 3(4) have l: "avl l" "balanced b (tree_height l) h" "place_ok (Suc (max (tree_height l) h)) p"
    by simp_all
  consider "b = - 1" "h = Suc (tree_height l)" | "b = 1" "tree_height l = Suc h" | "b = 0" "tree_height l = h"
    using l(2) by (auto simp: balanced_cases)
  then show ?case
  proof cases
    case 1
    then have h: "tree_height t = Suc (Suc (tree_height l))" "balance_factor t \<noteq> 0"
      using 3 by simp_all
    then have "\<exists>t'. (if balance_factor t = 1 then pp_tree_avl_rotate_right_left (PTreeBaseNode l k v b t)
                 else pp_tree_avl_rotate_left (PTreeBaseNode l k v b t)) = Inr t' \<and> avl t'
        \<and> inorder t' = inorder l @ (k, v) # inorder t \<and> tree_height t' = tree_height t"
      using rotate_right_left_ok [OF 3(2) l(1) h(1)] rotate_left_ok [OF 3(2) l(1) h(1)] by auto
    then show ?thesis
      using 1 l(3) h(1) by (auto simp: inorder_plug avl_plug)
  next
    case 2
    then show ?thesis
      using "3.prems" l by (auto simp: inorder_plug avl_plug balanced_cases)
  next
    case 3
    then show ?thesis
      using "3.IH" [of "Suc h"] "3.prems" l by (auto simp: balanced_cases)
  qed
qed

text \<open>
  After a removal the subtree at a place is one lower than the place was made for. Each step
  leaves the next one a place that is one lower, or one that fits.
\<close>

text \<open>The height of the tree that has a subtree of height \<open>h\<close> at a place.\<close>

fun place_height :: "nat \<Rightarrow> ('k, 'v, int) place \<Rightarrow> nat" where
  "place_height h [] = h"
| "place_height h (From_Left k v b r # p) = place_height (Suc (max h (tree_height r))) p"
| "place_height h (From_Right l k v b # p) = place_height (Suc (max (tree_height l) h)) p"

lemma place_ok_append: "place_ok h (p @ q) \<longleftrightarrow> place_ok h p \<and> place_ok (place_height h p) q"
  by (induction h p rule: place_height.induct) simp_all

lemma rotated_left_ok:
  assumes "avl r" "tree_height r = Suc (Suc h)"
  shows "\<exists>q. rotated_left (if balance_factor r = 1 then pp_tree_avl_rotate_right_left (PTreeBaseNode NULL k v b r)
                            else pp_tree_avl_rotate_left (PTreeBaseNode NULL k v b r)) = Inr q
    \<and> place_ok h q \<and> before q = [] \<and> after q = (k, v) # inorder r
    \<and> place_height h q = (if balance_factor r = 0 then Suc (tree_height r) else tree_height r)"
proof -
  obtain a rk rv rb c where r: "r = PTreeBaseNode a rk rv rb c"
    using avl_tall [OF assms(2)] by blast
  show ?thesis
  proof (cases "rb = 1")
    case True
    then have "tree_height a = Suc h"
      using assms r by (auto simp: balanced_cases)
    then obtain d ak av ab e where "a = PTreeBaseNode d ak av ab e"
      using avl_tall by blast
    then show ?thesis
      using assms r True by (auto simp: balanced_cases double_balance_def)
  next
    case False
    then show ?thesis
      using assms r by (auto simp: balanced_cases Let_def)
  qed
qed

lemma rotated_right_ok:
  assumes "avl l" "tree_height l = Suc (Suc h)"
  shows "\<exists>q. rotated_right (if balance_factor l = - 1 then pp_tree_avl_rotate_left_right (PTreeBaseNode l k v b NULL)
                            else pp_tree_avl_rotate_right (PTreeBaseNode l k v b NULL)) = Inr q
    \<and> place_ok h q \<and> after q = [] \<and> before q = inorder l @ [(k, v)]
    \<and> place_height h q = (if balance_factor l = 0 then Suc (tree_height l) else tree_height l)"
proof -
  obtain a lk lv lb c where l: "l = PTreeBaseNode a lk lv lb c"
    using avl_tall [OF assms(2)] by blast
  show ?thesis
  proof (cases "lb = - 1")
    case True
    then have "tree_height c = Suc h"
      using assms l by (auto simp: balanced_cases)
    then obtain d ck cv cb e where "c = PTreeBaseNode d ck cv cb e"
      using avl_tall by blast
    then show ?thesis
      using assms l True by (auto simp: balanced_cases double_balance_def)
  next
    case False
    then show ?thesis
      using assms l by (auto simp: balanced_cases Let_def)
  qed
qed

lemma balance_remove_ok:
  "place_ok (Suc h) p \<Longrightarrow>
   \<exists>q. pp_tree_avl_balance_remove p = Inr q \<and> place_ok h q \<and> same_order q p"
proof (induction p arbitrary: h)
  case Nil
  then show ?case by (simp add: same_order_def)
next
  case (Cons anc p)
  have rest: "\<exists>q'. (if bal = 0 then Inr p else pp_tree_avl_balance_remove p) = Inr q'
      \<and> place_ok (if bal = 0 then Suc n else n) q' \<and> same_order q' p"
    if "place_ok (Suc n) p" for n and bal :: int
    using Cons.IH [OF that] that by (auto simp: same_order_def)
  show ?case
  proof (cases anc)
    case (From_Left k v b r)
    then have r: "avl r" "balanced b (Suc h) (tree_height r)" "place_ok (Suc (max (Suc h) (tree_height r))) p"
      using Cons.prems by simp_all
    consider "b = - 1" "tree_height r = Suc (Suc h)" | "b = 0" "tree_height r = Suc h" | "b = 1" "tree_height r = h"
      using r(2) by (auto simp: balanced_cases)
    then show ?thesis
    proof cases
      case 1
      then show ?thesis
        using rotated_left_ok [OF r(1) 1(2), of k v b] rest [of "tree_height r" "balance_factor r"] r From_Left
        by (auto simp: append_outcome_def place_ok_append same_order_def place_append)
    qed (use r rest [of "Suc h" 1] From_Left in \<open>auto simp: balanced_cases same_order_def append_outcome_def\<close>)
  next
    case (From_Right l k v b)
    then have l: "avl l" "balanced b (tree_height l) (Suc h)" "place_ok (Suc (max (tree_height l) (Suc h))) p"
      using Cons.prems by simp_all
    consider "b = 1" "tree_height l = Suc (Suc h)" | "b = 0" "tree_height l = Suc h" | "b = - 1" "tree_height l = h"
      using l(2) by (auto simp: balanced_cases)
    then show ?thesis
    proof cases
      case 1
      then show ?thesis
        using rotated_right_ok [OF l(1) 1(2), of k v b] rest [of "tree_height l" "balance_factor l"] l From_Right
        by (auto simp: append_outcome_def place_ok_append same_order_def place_append)
    qed (use l rest [of "Suc h" 1] From_Right in \<open>auto simp: balanced_cases same_order_def append_outcome_def\<close>)
  qed
qed

lemma plug_height: "tree_height (plug t p) = place_height (tree_height t) p"
  by (induction t p rule: plug.induct) simp_all

lemma unlink_avl:
  assumes "avl (PTreeBaseNode l k v m r)" "place_ok (tree_height (PTreeBaseNode l k v m r)) p"
    and "tree_unlink (PTreeBaseNode l k v m r) p = (cur, p')"
  shows "avl (only_child cur) \<and> place_ok (Suc (tree_height (only_child cur))) p'"
proof (rule unlink_cases [of l r k v m p])
  fix a ak av ab q
  assume q: "plug (PTreeBaseNode a ak av ab NULL) q = l" "after q = []"
    "tree_unlink (PTreeBaseNode l k v m r) p = (PTreeBaseNode a ak av ab NULL, q @ From_Left ak av m r # p)"
  then have "avl (PTreeBaseNode a ak av ab NULL)" "place_ok (Suc (tree_height a)) q"
      "place_height (Suc (tree_height a)) q = tree_height l"
    using assms(1) avl_plug [of "PTreeBaseNode a ak av ab NULL" q] plug_height [of "PTreeBaseNode a ak av ab NULL" q] by auto
  then show ?thesis
    using assms q(3) by (auto simp: only_child_def place_ok_append)
qed (use assms in \<open>auto simp: only_child_def\<close>)

section \<open>What insertion and removal do\<close>

context key_order
begin

lemma avl_insert_ok:
  fixes t :: "('k, 'v) avl_node"
  assumes "avl t" "in_order (inorder t)"
  defines "xs \<equiv> inorder t"
  shows "\<exists>res. p_tree_avl_insert True cmp kd vd key val t = Inr res \<and> avl (res_root res)
    \<and> inorder (res_root res) = lower key xs @ (key, val) # higher key xs \<and> (res_ok res \<longleftrightarrow> equals key xs = [])
    \<and> res_keys res = (if kd then map fst (equals key xs) else [])
    \<and> res_values res = (if vd then map snd (equals key xs) else [])"
  unfolding p_tree_avl_insert_def xs_def
proof (rule insert_with_ok [where I = avl, OF assms(2)])
  fix p assume s: "tree_search cmp key t [] = (NULL, p)"
  let ?leaf = "PTreeBaseNode NULL key val 0 NULL"
  have "avl ?leaf" "tree_height ?leaf = Suc 0" "balance_factor ?leaf \<noteq> 0 \<or> 0 = (0::nat)"
    by (simp_all add: balanced_def)
  then show "\<exists>t'. pp_tree_avl_balance_insert ?leaf p = Inr t' \<and> avl t' \<and> inorder t' = before p @ (key, val) # after p"
    using balance_insert_ok [of ?leaf 0 p] assms(1) search_plug [OF s] avl_plug [of NULL p] by auto
next
  fix l k v m r p assume s: "tree_search cmp key t [] = (PTreeBaseNode l k v m r, p)"
  then show "avl (plug (PTreeBaseNode l key val m r) p)"
    using assms(1) search_plug [OF s] avl_plug [of "PTreeBaseNode l k v m r" p] by (simp add: avl_plug)
qed

lemma avl_remove_ok:
  fixes t :: "('k, 'v) avl_node"
  assumes "avl t" "in_order (inorder t)"
  defines "xs \<equiv> inorder t"
  shows "\<exists>res. p_tree_avl_remove cmp kd vd key t = Inr res \<and> avl (res_root res)
    \<and> inorder (res_root res) = lower key xs @ higher key xs \<and> (res_ok res \<longleftrightarrow> equals key xs \<noteq> [])"
  unfolding p_tree_avl_remove_def xs_def
proof (rule remove_with_ok [where I = avl, OF assms(2,1)])
  fix l k v m r p cur p'
  assume s: "tree_search cmp key t [] = (PTreeBaseNode l k v m r, p)" and u: "tree_unlink (PTreeBaseNode l k v m r) p = (cur, p')"
  have "avl (only_child cur)" "place_ok (Suc (tree_height (only_child cur))) p'"
    using unlink_avl [OF _ _ u] assms(1) search_plug [OF s] avl_plug [of "PTreeBaseNode l k v m r" p] by simp_all
  then show "\<exists>t'. map_sum id (plug (only_child cur)) (pp_tree_avl_balance_remove p') = Inr t' \<and> avl t'
      \<and> inorder t' = before p' @ inorder (only_child cur) @ after p'"
    using balance_remove_ok [of "tree_height (only_child cur)" p'] by (auto simp: avl_plug inorder_plug same_order_def)
qed

end

section \<open>Height\<close>

text \<open>A tree of height \<open>h\<close> has at least \<open>2 ^ (h div 2) - 1\<close> nodes, so searches take logarithmically many steps.\<close>

lemma avl_height_bound: "avl t \<Longrightarrow> 2 ^ (tree_height t div 2) \<le> Suc (length (inorder t))"
proof (induction t)
  case (PTreeBaseNode l k v b r)
  have half: "(2::nat) ^ (Suc m div 2) \<le> 2 ^ (m div 2) + 2 ^ (n div 2)" if "m \<le> Suc n" for m n :: nat
  proof -
    have "Suc m div 2 \<le> Suc (min m n div 2)"
      using that by (cases "m \<le> n") (auto simp: min_def intro: div_le_mono)
    then have "(2::nat) ^ (Suc m div 2) \<le> 2 * 2 ^ (min m n div 2)"
      using power_increasing [of "Suc m div 2" "Suc (min m n div 2)" "2::nat"] by simp
    moreover have "(2::nat) ^ (min m n div 2) \<le> 2 ^ (m div 2)" "(2::nat) ^ (min m n div 2) \<le> 2 ^ (n div 2)"
      by (simp_all add: div_le_mono)
    ultimately show ?thesis by linarith
  qed
  have IH: "2 ^ (tree_height l div 2) \<le> Suc (length (inorder l))" "2 ^ (tree_height r div 2) \<le> Suc (length (inorder r))"
    using PTreeBaseNode by simp_all
  have "tree_height l \<le> Suc (tree_height r)" "tree_height r \<le> Suc (tree_height l)"
    using PTreeBaseNode.prems by (auto simp: balanced_cases)
  then show ?case
    using half [of "tree_height l" "tree_height r"] half [of "tree_height r" "tree_height l"] IH
    by (auto simp: max_def)
qed simp

end
