(* ===== verification/TC_RB.thy ===== *)
theory TC_RB
  imports TC_Tree_Base
begin

text \<open>
  Red-black trees, \<^verbatim>\<open>plibsys-master/src/ptree-rb.c\<close>, which the map cache keeps its names in. The mark of
  a node is its colour. A rotation maps the subtree of its node to the subtree that takes its place.
\<close>

section \<open>Colours and rotations\<close>

datatype PTreeRBColor = P_TREE_RB_COLOR_RED | P_TREE_RB_COLOR_BLACK

abbreviation RED :: PTreeRBColor where "RED \<equiv> P_TREE_RB_COLOR_RED"
abbreviation BLACK :: PTreeRBColor where "BLACK \<equiv> P_TREE_RB_COLOR_BLACK"

type_synonym ('k, 'v) rb_node = "('k, 'v, PTreeRBColor) tree_node"
type_synonym ('k, 'v) rb_place = "('k, 'v, PTreeRBColor) place"

definition pp_tree_rb_is_black :: "('k, 'v) rb_node \<Rightarrow> bool" where
  "pp_tree_rb_is_black node = (case node of NULL \<Rightarrow> True | PTreeBaseNode _ _ _ c _ \<Rightarrow> c = BLACK)"

text \<open>\<^verbatim>\<open>pp_tree_rb_is_red\<close> dereferences its node, so the callers below ask whether there is one.\<close>

definition pp_tree_rb_is_red :: "('k, 'v) rb_node \<Rightarrow> bool" where
  "pp_tree_rb_is_red node = (node_mark node = RED)"

fun paint :: "PTreeRBColor \<Rightarrow> ('k, 'v) rb_node \<Rightarrow> ('k, 'v) rb_node" where
  "paint c NULL = NULL"
| "paint c (PTreeBaseNode l k v _ r) = PTreeBaseNode l k v c r"

fun pp_tree_rb_rotate_left :: "('k, 'v) rb_node \<Rightarrow> ('k, 'v) rb_node outcome" where
  "pp_tree_rb_rotate_left (PTreeBaseNode a k v c (PTreeBaseNode b tk tv tc d)) =
     Inr (PTreeBaseNode (PTreeBaseNode a k v c b) tk tv tc d)"
| "pp_tree_rb_rotate_left _ = Inl NullDereference"

fun pp_tree_rb_rotate_right :: "('k, 'v) rb_node \<Rightarrow> ('k, 'v) rb_node outcome" where
  "pp_tree_rb_rotate_right (PTreeBaseNode (PTreeBaseNode a tk tv tc b) k v c d) =
     Inr (PTreeBaseNode a tk tv tc (PTreeBaseNode b k v c d))"
| "pp_tree_rb_rotate_right _ = Inl NullDereference"

section \<open>Balancing after an insertion\<close>

fun ancestor_black :: "('k, 'v, PTreeRBColor) ancestor \<Rightarrow> bool" where
  "ancestor_black (From_Left k v c r) = (c = BLACK)"
| "ancestor_black (From_Right l k v c) = (c = BLACK)"

text \<open>
  The parent with its subtrees, after case 4 turned a red node between it and its parent outwards:
  to the left when the parent is a left child, to the right when it is a right child.
\<close>

fun turned_left :: "('k, 'v) rb_node \<Rightarrow> ('k, 'v, PTreeRBColor) ancestor \<Rightarrow> ('k, 'v) rb_node outcome" where
  "turned_left t (From_Left k v c r) = Inr (PTreeBaseNode t k v c r)"
| "turned_left t (From_Right l k v c) = pp_tree_rb_rotate_left (PTreeBaseNode l k v c t)"

fun turned_right :: "('k, 'v) rb_node \<Rightarrow> ('k, 'v, PTreeRBColor) ancestor \<Rightarrow> ('k, 'v) rb_node outcome" where
  "turned_right t (From_Right l k v c) = Inr (PTreeBaseNode l k v c t)"
| "turned_right t (From_Left k v c r) = pp_tree_rb_rotate_right (PTreeBaseNode t k v c r)"

text \<open>The node \<open>t\<close> below its parent, painted black.\<close>

fun black_parent :: "('k, 'v) rb_node \<Rightarrow> ('k, 'v, PTreeRBColor) ancestor \<Rightarrow> ('k, 'v) rb_node" where
  "black_parent t (From_Left k v c r) = PTreeBaseNode t k v BLACK r"
| "black_parent t (From_Right l k v c) = PTreeBaseNode l k v BLACK t"

fun pp_tree_rb_balance_insert :: "('k, 'v) rb_node \<Rightarrow> ('k, 'v) rb_place \<Rightarrow> ('k, 'v) rb_node outcome" where
  "pp_tree_rb_balance_insert t [] = Inr (paint BLACK t)"
| "pp_tree_rb_balance_insert t [par] = (if ancestor_black par then Inr (plug t [par]) else Inl NullDereference)"
| "pp_tree_rb_balance_insert t (par # From_Left gk gv gc uncle # p) =
     (if ancestor_black par then Inr (plug t (par # From_Left gk gv gc uncle # p))
      else if uncle \<noteq> NULL \<and> pp_tree_rb_is_red uncle
      then pp_tree_rb_balance_insert (PTreeBaseNode (black_parent t par) gk gv RED (paint BLACK uncle)) p
      else case turned_left t par of
             Inl f \<Rightarrow> Inl f
           | Inr par \<Rightarrow>
               (case pp_tree_rb_rotate_right (PTreeBaseNode (paint BLACK par) gk gv RED uncle) of
                  Inl f \<Rightarrow> Inl f
                | Inr t \<Rightarrow> Inr (plug t p)))"
| "pp_tree_rb_balance_insert t (par # From_Right uncle gk gv gc # p) =
     (if ancestor_black par then Inr (plug t (par # From_Right uncle gk gv gc # p))
      else if uncle \<noteq> NULL \<and> pp_tree_rb_is_red uncle
      then pp_tree_rb_balance_insert (PTreeBaseNode (paint BLACK uncle) gk gv RED (black_parent t par)) p
      else case turned_right t par of
             Inl f \<Rightarrow> Inl f
           | Inr par \<Rightarrow>
               (case pp_tree_rb_rotate_left (PTreeBaseNode uncle gk gv RED (paint BLACK par)) of
                  Inl f \<Rightarrow> Inl f
                | Inr t \<Rightarrow> Inr (plug t p)))"

section \<open>Balancing after a removal\<close>

text \<open>
  The loop changes only the place of \<^verbatim>\<open>node\<close>. One turn on a left child with the sibling \<open>s\<close>, after case
  2: the new ancestors of \<^verbatim>\<open>node\<close> up to where its parent was, and whether the loop goes on above.
\<close>

fun remove_left :: "'k \<Rightarrow> 'v \<Rightarrow> PTreeRBColor \<Rightarrow> ('k, 'v) rb_node \<Rightarrow> (('k, 'v) rb_place \<times> bool) outcome" where
  "remove_left k v c NULL = Inl NullDereference"
| "remove_left k v c (PTreeBaseNode sl sk sv sc sr) =
     (if pp_tree_rb_is_black sl \<and> pp_tree_rb_is_black sr
      then (if c = BLACK then Inr ([From_Left k v c (PTreeBaseNode sl sk sv RED sr)], True)
            else Inr ([From_Left k v BLACK (PTreeBaseNode sl sk sv RED sr)], False))
      else case (if pp_tree_rb_is_black sr then pp_tree_rb_rotate_right (PTreeBaseNode (paint BLACK sl) sk sv RED sr)
                 else Inr (PTreeBaseNode sl sk sv sc sr)) of
             Inl f \<Rightarrow> Inl f
           | Inr NULL \<Rightarrow> Inl NullDereference
           | Inr (PTreeBaseNode sl sk sv sc sr) \<Rightarrow>
               if sr = NULL then Inl NullDereference
               else Inr ([From_Left k v BLACK sl, From_Left sk sv c (paint BLACK sr)], False))"

fun remove_right :: "'k \<Rightarrow> 'v \<Rightarrow> PTreeRBColor \<Rightarrow> ('k, 'v) rb_node \<Rightarrow> (('k, 'v) rb_place \<times> bool) outcome" where
  "remove_right k v c NULL = Inl NullDereference"
| "remove_right k v c (PTreeBaseNode sl sk sv sc sr) =
     (if pp_tree_rb_is_black sl \<and> pp_tree_rb_is_black sr
      then (if c = BLACK then Inr ([From_Right (PTreeBaseNode sl sk sv RED sr) k v c], True)
            else Inr ([From_Right (PTreeBaseNode sl sk sv RED sr) k v BLACK], False))
      else case (if pp_tree_rb_is_black sl then pp_tree_rb_rotate_left (PTreeBaseNode sl sk sv RED (paint BLACK sr))
                 else Inr (PTreeBaseNode sl sk sv sc sr)) of
             Inl f \<Rightarrow> Inl f
           | Inr NULL \<Rightarrow> Inl NullDereference
           | Inr (PTreeBaseNode sl sk sv sc sr) \<Rightarrow>
               if sl = NULL then Inl NullDereference
               else Inr ([From_Right sr k v BLACK, From_Right (paint BLACK sl) sk sv c], False))"

text \<open>
  Case 2 turns a red sibling up and the parent red, below it. With a red parent the turn ends
  the loop, so that \<open>remove_left k v RED\<close> never says to go on.
\<close>

fun pp_tree_rb_balance_remove :: "('k, 'v) rb_place \<Rightarrow> ('k, 'v) rb_place outcome" where
  "pp_tree_rb_balance_remove [] = Inr []"
| "pp_tree_rb_balance_remove (From_Left k v c s # p) =
     (if s = NULL then Inl NullDereference
      else if pp_tree_rb_is_red s
      then (case remove_left k v RED (node_left s) of
              Inl f \<Rightarrow> Inl f
            | Inr (q, _) \<Rightarrow> Inr (q @ From_Left (node_key s) (node_value s) BLACK (node_right s) # p))
      else (case remove_left k v c s of
              Inl f \<Rightarrow> Inl f
            | Inr (q, continue) \<Rightarrow>
                if continue then map_sum id ((@) q) (pp_tree_rb_balance_remove p) else Inr (q @ p)))"
| "pp_tree_rb_balance_remove (From_Right s k v c # p) =
     (if s = NULL then Inl NullDereference
      else if pp_tree_rb_is_red s
      then (case remove_right k v RED (node_right s) of
              Inl f \<Rightarrow> Inl f
            | Inr (q, _) \<Rightarrow> Inr (q @ From_Right (node_left s) (node_key s) (node_value s) BLACK # p))
      else (case remove_right k v c s of
              Inl f \<Rightarrow> Inl f
            | Inr (q, continue) \<Rightarrow>
                if continue then map_sum id ((@) q) (pp_tree_rb_balance_remove p) else Inr (q @ p)))"

section \<open>Insertion and removal\<close>

definition p_tree_rb_insert ::
    "bool \<Rightarrow> ('k \<Rightarrow> 'k \<Rightarrow> int) \<Rightarrow> bool \<Rightarrow> bool \<Rightarrow> 'k \<Rightarrow> 'v \<Rightarrow> ('k, 'v) rb_node \<Rightarrow> ('k, 'v, PTreeRBColor) tree_result outcome" where
  "p_tree_rb_insert = insert_with RED pp_tree_rb_balance_insert"

text \<open>A black node without children is balanced for; the child of a black node is painted black.\<close>

definition rb_unlink :: "('k, 'v) rb_node \<Rightarrow> ('k, 'v) rb_place \<Rightarrow> ('k, 'v) rb_node outcome" where
  "rb_unlink cur p =
     (let child = only_child cur
      in case (if child = NULL \<and> pp_tree_rb_is_black cur then pp_tree_rb_balance_remove p else Inr p) of
           Inl f \<Rightarrow> Inl f
         | Inr p \<Rightarrow> Inr (plug (if pp_tree_rb_is_black cur then paint BLACK child else child) p))"

definition p_tree_rb_remove ::
    "('k \<Rightarrow> 'k \<Rightarrow> int) \<Rightarrow> bool \<Rightarrow> bool \<Rightarrow> 'k \<Rightarrow> ('k, 'v) rb_node \<Rightarrow> ('k, 'v, PTreeRBColor) tree_result outcome" where
  "p_tree_rb_remove = remove_with rb_unlink"

section \<open>The invariant of a red-black tree\<close>

fun black_height :: "('k, 'v) rb_node \<Rightarrow> nat" where
  "black_height NULL = 0"
| "black_height (PTreeBaseNode l k v c r) = (if c = BLACK then Suc (black_height l) else black_height l)"

text \<open>The children of a red node are black, and all ways down pass as many black nodes.\<close>

fun rb :: "('k, 'v) rb_node \<Rightarrow> bool" where
  "rb NULL \<longleftrightarrow> True"
| "rb (PTreeBaseNode l k v c r) \<longleftrightarrow> rb l \<and> rb r \<and> black_height l = black_height r
     \<and> (c = RED \<longrightarrow> pp_tree_rb_is_black l \<and> pp_tree_rb_is_black r)"

definition rb_tree :: "('k, 'v) rb_node \<Rightarrow> bool" where
  "rb_tree t \<longleftrightarrow> rb t \<and> pp_tree_rb_is_black t"

definition parent_black :: "('k, 'v) rb_place \<Rightarrow> bool" where
  "parent_black p \<longleftrightarrow> (case p of [] \<Rightarrow> False | par # _ \<Rightarrow> ancestor_black par)"

text \<open>A place for a subtree of black height \<open>h\<close>; a red subtree needs a black parent as well.\<close>

fun rb_place_ok :: "nat \<Rightarrow> ('k, 'v) rb_place \<Rightarrow> bool" where
  "rb_place_ok h [] \<longleftrightarrow> True"
| "rb_place_ok h (From_Left k v c r # p) \<longleftrightarrow> rb r \<and> black_height r = h
     \<and> (c = RED \<longrightarrow> pp_tree_rb_is_black r \<and> parent_black p) \<and> rb_place_ok (if c = BLACK then Suc h else h) p"
| "rb_place_ok h (From_Right l k v c # p) \<longleftrightarrow> rb l \<and> black_height l = h
     \<and> (c = RED \<longrightarrow> pp_tree_rb_is_black l \<and> parent_black p) \<and> rb_place_ok (if c = BLACK then Suc h else h) p"

lemma is_black_simps [simp]:
  "pp_tree_rb_is_black NULL" "pp_tree_rb_is_black (PTreeBaseNode l k v c r) \<longleftrightarrow> c = BLACK"
  by (simp_all add: pp_tree_rb_is_black_def)

lemma not_black: "\<not> pp_tree_rb_is_black t \<longleftrightarrow> t \<noteq> NULL \<and> node_mark t = RED"
  by (cases t) (auto intro: PTreeRBColor.exhaust)

lemma color_cases: "c \<noteq> BLACK \<longleftrightarrow> c = RED" "c \<noteq> RED \<longleftrightarrow> c = BLACK"
  by (cases c; simp)+

lemma parent_black_simps [simp]: "\<not> parent_black []" "parent_black (par # p) \<longleftrightarrow> ancestor_black par"
  by (simp_all add: parent_black_def)

lemma rb_tree_plug:
  "rb_tree (plug t p) \<longleftrightarrow> rb t \<and> rb_place_ok (black_height t) p \<and> (\<not> pp_tree_rb_is_black t \<longrightarrow> parent_black p)"
proof (induction t p rule: plug.induct)
  case (2 t k v c r p)
  then show ?case by (cases c) (auto simp: rb_tree_def)
next
  case (3 t l k v c p)
  then show ?case by (cases c) (auto simp: rb_tree_def)
qed (auto simp: rb_tree_def)

lemma paint_black [simp]:
  "rb t \<Longrightarrow> rb (paint BLACK t)" "pp_tree_rb_is_black (paint BLACK t)" "inorder (paint c t) = inorder t"
  "black_height (paint BLACK t) = (if pp_tree_rb_is_black t then black_height t else Suc (black_height t))"
  by (cases t; auto)+

section \<open>Balancing restores the invariant\<close>

lemma node_red: "\<not> pp_tree_rb_is_black t \<Longrightarrow> \<exists>l k v r. t = PTreeBaseNode l k v RED r"
  by (cases t) (auto simp: color_cases)

text \<open>The parent \<open>par\<close> of a red node is red itself, and so its own parent is black.\<close>

lemma red_parent:
  assumes "rb_place_ok h (par # From_Left gk gv gc uncle # p)" "\<not> ancestor_black par"
  shows "gc = BLACK" "rb uncle" "black_height uncle = h" "rb_place_ok (Suc h) p"
  using assms by (cases par; auto simp: color_cases)+

lemma red_parent_right:
  assumes "rb_place_ok h (par # From_Right uncle gk gv gc # p)" "\<not> ancestor_black par"
  shows "gc = BLACK" "rb uncle" "black_height uncle = h" "rb_place_ok (Suc h) p"
  using assms by (cases par; auto simp: color_cases)+

lemma black_parent_ok:
  assumes "rb t" "rb_place_ok (black_height t) (par # p)" "\<not> ancestor_black par"
  shows "rb (black_parent t par)" "black_height (black_parent t par) = Suc (black_height t)"
    "before (par # p) @ inorder t @ after (par # p) = before p @ inorder (black_parent t par) @ after p"
  using assms by (cases par; auto)+

text \<open>Cases 4 and 5: the two rotations, with a black uncle.\<close>

lemma turn_left_ok:
  assumes "rb t" "\<not> pp_tree_rb_is_black t" "rb_place_ok (black_height t) (par # From_Left gk gv gc uncle # p)"
    "\<not> ancestor_black par" "pp_tree_rb_is_black uncle"
  shows "\<exists>par' t'. turned_left t par = Inr par'
    \<and> pp_tree_rb_rotate_right (PTreeBaseNode (paint BLACK par') gk gv RED uncle) = Inr t' \<and> rb t' \<and> pp_tree_rb_is_black t'
    \<and> black_height t' = Suc (black_height t)
    \<and> before p @ inorder t' @ after p
      = before (par # From_Left gk gv gc uncle # p) @ inorder t @ after (par # From_Left gk gv gc uncle # p)"
  using assms node_red [OF assms(2)] by (cases par) (auto simp: color_cases)

lemma turn_right_ok:
  assumes "rb t" "\<not> pp_tree_rb_is_black t" "rb_place_ok (black_height t) (par # From_Right uncle gk gv gc # p)"
    "\<not> ancestor_black par" "pp_tree_rb_is_black uncle"
  shows "\<exists>par' t'. turned_right t par = Inr par'
    \<and> pp_tree_rb_rotate_left (PTreeBaseNode uncle gk gv RED (paint BLACK par')) = Inr t' \<and> rb t' \<and> pp_tree_rb_is_black t'
    \<and> black_height t' = Suc (black_height t)
    \<and> before p @ inorder t' @ after p
      = before (par # From_Right uncle gk gv gc # p) @ inorder t @ after (par # From_Right uncle gk gv gc # p)"
  using assms node_red [OF assms(2)] by (cases par) (auto simp: color_cases)

lemma rb_balance_insert_ok:
  "\<lbrakk>rb t; \<not> pp_tree_rb_is_black t; rb_place_ok (black_height t) p\<rbrakk> \<Longrightarrow>
   \<exists>t'. pp_tree_rb_balance_insert t p = Inr t' \<and> rb_tree t' \<and> inorder t' = before p @ inorder t @ after p"
proof (induction t p rule: pp_tree_rb_balance_insert.induct)
  case (1 t)
  then show ?case by (simp add: rb_tree_def)
next
  case (2 t par)
  then show ?case by (cases par) (auto simp: rb_tree_def color_cases)
next
  case (3 t par gk gv gc uncle p)
  let ?p = "par # From_Left gk gv gc uncle # p"
  consider "ancestor_black par" | "\<not> ancestor_black par" "\<not> pp_tree_rb_is_black uncle" | "\<not> ancestor_black par" "pp_tree_rb_is_black uncle"
    by blast
  then show ?case
  proof cases
    case 1
    then show ?thesis
      using "3.prems" rb_tree_plug [of t ?p] by (simp add: inorder_plug)
  next
    case 2
    let ?t = "PTreeBaseNode (black_parent t par) gk gv RED (paint BLACK uncle)"
    note gp = red_parent [OF "3.prems"(3) 2(1)] and bp = black_parent_ok [OF "3.prems"(1,3) 2(1)]
    have "rb ?t" "rb_place_ok (black_height ?t) p" "pp_tree_rb_is_black (black_parent t par)"
      using gp bp 2 by (cases par; simp)+
    moreover have "uncle \<noteq> NULL \<and> pp_tree_rb_is_red uncle"
      using 2(2) by (cases uncle) (auto simp: pp_tree_rb_is_red_def color_cases)
    ultimately show ?thesis
      using "3.IH"(1) 2 bp(3) by (auto simp: not_black)
  next
    case 3
    then have "\<not> (uncle \<noteq> NULL \<and> pp_tree_rb_is_red uncle)"
      by (cases uncle) (auto simp: pp_tree_rb_is_red_def)
    then show ?thesis
      using turn_left_ok [OF "3.prems" 3] red_parent [OF "3.prems"(3) 3(1)] 3
      by (auto simp: rb_tree_plug inorder_plug simp del: before.simps after.simps)
  qed
next
  case (4 t par uncle gk gv gc p)
  let ?p = "par # From_Right uncle gk gv gc # p"
  consider "ancestor_black par" | "\<not> ancestor_black par" "\<not> pp_tree_rb_is_black uncle" | "\<not> ancestor_black par" "pp_tree_rb_is_black uncle"
    by blast
  then show ?case
  proof cases
    case 1
    then show ?thesis
      using "4.prems" rb_tree_plug [of t ?p] by (simp add: inorder_plug)
  next
    case 2
    let ?t = "PTreeBaseNode (paint BLACK uncle) gk gv RED (black_parent t par)"
    note gp = red_parent_right [OF "4.prems"(3) 2(1)] and bp = black_parent_ok [OF "4.prems"(1,3) 2(1)]
    have "rb ?t" "rb_place_ok (black_height ?t) p" "pp_tree_rb_is_black (black_parent t par)"
      using gp bp 2 by (cases par; simp)+
    moreover have "uncle \<noteq> NULL \<and> pp_tree_rb_is_red uncle"
      using 2(2) by (cases uncle) (auto simp: pp_tree_rb_is_red_def color_cases)
    ultimately show ?thesis
      using "4.IH"(1) 2 bp(3) by (auto simp: not_black)
  next
    case 3
    then have "\<not> (uncle \<noteq> NULL \<and> pp_tree_rb_is_red uncle)"
      by (cases uncle) (auto simp: pp_tree_rb_is_red_def)
    then show ?thesis
      using turn_right_ok [OF "4.prems" 3] red_parent_right [OF "4.prems"(3) 3(1)] 3
      by (auto simp: rb_tree_plug inorder_plug simp del: before.simps after.simps)
  qed
qed

text \<open>
  A turn of the loop after a removal, for a subtree of black height \<open>h\<close> at a place made for one more:
  it makes a place that fits above which nothing changes, or one that is again one too high.
\<close>

definition turn_ok :: "nat \<Rightarrow> PTreeRBColor \<Rightarrow> ('k, 'v) rb_place \<Rightarrow> bool \<Rightarrow> bool" where
  "turn_ok h c q continue \<longleftrightarrow>
     (continue \<longrightarrow> c = BLACK \<and> (\<forall>p. rb_place_ok (Suc h) p \<longrightarrow> rb_place_ok h (q @ p)))
     \<and> (\<not> continue \<longrightarrow> (\<forall>p. (c = RED \<longrightarrow> parent_black p) \<longrightarrow> rb_place_ok (if c = BLACK then Suc (Suc h) else Suc h) p
          \<longrightarrow> rb_place_ok h (q @ p)))"

lemma remove_left_ok:
  assumes "rb s" "pp_tree_rb_is_black s" "black_height s = Suc h"
  shows "\<exists>q continue. remove_left k v c s = Inr (q, continue) \<and> turn_ok h c q continue \<and> before q = [] \<and> after q = (k, v) # inorder s"
proof -
  obtain sl sk sv sr where s: "s = PTreeBaseNode sl sk sv BLACK sr"
    using assms by (cases s) auto
  consider "pp_tree_rb_is_black sl" "pp_tree_rb_is_black sr" | "\<not> pp_tree_rb_is_black sr"
    | "pp_tree_rb_is_black sr" "\<not> pp_tree_rb_is_black sl"
    by blast
  then show ?thesis
  proof cases
    case 1
    then have "\<exists>q. remove_left k v c s = Inr (q, c = BLACK) \<and> turn_ok h c q (c = BLACK) \<and> before q = [] \<and> after q = (k, v) # inorder s"
      using assms s by (cases c) (simp_all add: turn_ok_def)
    then show ?thesis by blast
  next
    case 2
    then have "\<exists>q. remove_left k v c s = Inr (q, False) \<and> turn_ok h c q False \<and> before q = [] \<and> after q = (k, v) # inorder s"
      using assms s node_red [OF 2] by (cases c) (auto simp: turn_ok_def)
    then show ?thesis by blast
  next
    case 3
    then have "\<exists>q. remove_left k v c s = Inr (q, False) \<and> turn_ok h c q False \<and> before q = [] \<and> after q = (k, v) # inorder s"
      using assms s node_red [OF 3(2)] by (cases c) (auto simp: turn_ok_def)
    then show ?thesis by blast
  qed
qed

lemma remove_right_ok:
  assumes "rb s" "pp_tree_rb_is_black s" "black_height s = Suc h"
  shows "\<exists>q continue. remove_right k v c s = Inr (q, continue) \<and> turn_ok h c q continue \<and> after q = [] \<and> before q = inorder s @ [(k, v)]"
proof -
  obtain sl sk sv sr where s: "s = PTreeBaseNode sl sk sv BLACK sr"
    using assms by (cases s) auto
  consider "pp_tree_rb_is_black sl" "pp_tree_rb_is_black sr" | "\<not> pp_tree_rb_is_black sl"
    | "pp_tree_rb_is_black sl" "\<not> pp_tree_rb_is_black sr"
    by blast
  then show ?thesis
  proof cases
    case 1
    then have "\<exists>q. remove_right k v c s = Inr (q, c = BLACK) \<and> turn_ok h c q (c = BLACK) \<and> after q = [] \<and> before q = inorder s @ [(k, v)]"
      using assms s by (cases c) (simp_all add: turn_ok_def)
    then show ?thesis by blast
  next
    case 2
    then have "\<exists>q. remove_right k v c s = Inr (q, False) \<and> turn_ok h c q False \<and> after q = [] \<and> before q = inorder s @ [(k, v)]"
      using assms s node_red [OF 2] by (cases c) (auto simp: turn_ok_def)
    then show ?thesis by blast
  next
    case 3
    then have "\<exists>q. remove_right k v c s = Inr (q, False) \<and> turn_ok h c q False \<and> after q = [] \<and> before q = inorder s @ [(k, v)]"
      using assms s node_red [OF 3(2)] by (cases c) (auto simp: turn_ok_def)
    then show ?thesis by blast
  qed
qed

lemma rb_balance_remove_ok:
  "rb_place_ok (Suc h) p \<Longrightarrow>
   \<exists>q. pp_tree_rb_balance_remove p = Inr q \<and> rb_place_ok h q \<and> same_order q p"
proof (induction p arbitrary: h)
  case Nil
  then show ?case by (simp add: same_order_def)
next
  case (Cons anc p)
  show ?case
  proof (cases anc)
    case (From_Left k v c s)
    then have s: "rb s" "black_height s = Suc h" "s \<noteq> NULL" "c = RED \<longrightarrow> pp_tree_rb_is_black s \<and> parent_black p"
        "rb_place_ok (if c = BLACK then Suc (Suc h) else Suc h) p"
      using Cons.prems by auto
    show ?thesis
    proof (cases "pp_tree_rb_is_black s")
      case True
      obtain q continue where q: "remove_left k v c s = Inr (q, continue)" "turn_ok h c q continue"
          "before q = []" "after q = (k, v) # inorder s"
        using remove_left_ok [OF s(1) True s(2)] by blast
      have "\<not> pp_tree_rb_is_red s"
        using True s(3) by (cases s) (auto simp: pp_tree_rb_is_red_def)
      then show ?thesis
        using q s(3-) From_Left Cons.IH [of "Suc h"]
        by (cases continue) (auto simp: turn_ok_def same_order_def place_append)
    next
      case False
      then obtain sl sk sv sr where r: "s = PTreeBaseNode sl sk sv RED sr"
        using node_red by blast
      then obtain q continue where q: "remove_left k v RED sl = Inr (q, continue)" "turn_ok h RED q continue"
          "before q = []" "after q = (k, v) # inorder sl"
        using remove_left_ok [of sl h k v RED] s(1,2) by auto
      have "c = BLACK" "\<not> continue"
        using False s(4) q(2) by (auto simp: turn_ok_def color_cases)
      then show ?thesis
        using q s(1,2,5) r From_Left by (auto simp: pp_tree_rb_is_red_def turn_ok_def same_order_def place_append)
    qed
  next
    case (From_Right s k v c)
    then have s: "rb s" "black_height s = Suc h" "s \<noteq> NULL" "c = RED \<longrightarrow> pp_tree_rb_is_black s \<and> parent_black p"
        "rb_place_ok (if c = BLACK then Suc (Suc h) else Suc h) p"
      using Cons.prems by auto
    show ?thesis
    proof (cases "pp_tree_rb_is_black s")
      case True
      obtain q continue where q: "remove_right k v c s = Inr (q, continue)" "turn_ok h c q continue"
          "after q = []" "before q = inorder s @ [(k, v)]"
        using remove_right_ok [OF s(1) True s(2)] by blast
      have "\<not> pp_tree_rb_is_red s"
        using True s(3) by (cases s) (auto simp: pp_tree_rb_is_red_def)
      then show ?thesis
        using q s(3-) From_Right Cons.IH [of "Suc h"]
        by (cases continue) (auto simp: turn_ok_def same_order_def place_append)
    next
      case False
      then obtain sl sk sv sr where r: "s = PTreeBaseNode sl sk sv RED sr"
        using node_red by blast
      then obtain q continue where q: "remove_right k v RED sr = Inr (q, continue)" "turn_ok h RED q continue"
          "after q = []" "before q = inorder sr @ [(k, v)]"
        using remove_right_ok [of sr h k v RED] s(1,2) by auto
      have "c = BLACK" "\<not> continue"
        using False s(4) q(2) by (auto simp: turn_ok_def color_cases)
      then show ?thesis
        using q s(1,2,5) r From_Right by (auto simp: pp_tree_rb_is_red_def turn_ok_def same_order_def place_append)
    qed
  qed
qed

section \<open>What insertion and removal do\<close>

lemma unlink_rb:
  assumes "rb_tree (plug (PTreeBaseNode l k v m r) p)" "tree_unlink (PTreeBaseNode l k v m r) p = (cur, p')"
  shows "rb_tree (plug cur p') \<and> cur \<noteq> NULL \<and> (node_left cur = NULL \<or> node_right cur = NULL)"
proof (rule unlink_cases [of l r k v m p])
  fix a ak av am q
  assume q: "plug (PTreeBaseNode a ak av am NULL) q = l"
    "tree_unlink (PTreeBaseNode l k v m r) p = (PTreeBaseNode a ak av am NULL, q @ From_Left ak av m r # p)"
  then have "rb_tree (plug (PTreeBaseNode l ak av m r) p)"
    using assms(1) by (simp add: rb_tree_plug)
  then show ?thesis
    using assms(2) q by (auto simp: place_append)
qed (use assms in auto)

lemma rb_unlink_ok:
  assumes "rb_tree (plug cur p)" "cur \<noteq> NULL" "node_left cur = NULL \<or> node_right cur = NULL"
  shows "\<exists>t'. rb_unlink cur p = Inr t' \<and> rb_tree t' \<and> inorder t' = before p @ inorder (only_child cur) @ after p"
proof -
  obtain l k v c r where cur: "cur = PTreeBaseNode l k v c r" "l = NULL \<or> r = NULL"
    using assms(2,3) by (cases cur) auto
  have ok: "rb cur" "rb_place_ok (black_height cur) p" "c = RED \<longrightarrow> parent_black p"
    using assms(1) cur by (auto simp: rb_tree_plug)
  show ?thesis
  proof (cases "only_child cur = NULL")
    case True
    then have lr: "l = NULL" "r = NULL"
      using cur by (auto simp: only_child_def split: if_splits)
    show ?thesis
    proof (cases "c = BLACK")
      case c: True
      then show ?thesis
        using rb_balance_remove_ok [of 0 p] ok cur lr
        by (auto simp: rb_unlink_def only_child_def rb_tree_plug inorder_plug same_order_def)
    next
      case False
      then show ?thesis
        using ok cur lr by (simp add: rb_unlink_def only_child_def rb_tree_plug inorder_plug)
    qed
  next
    case False
    then have child: "rb (only_child cur)" "black_height (only_child cur) = 0" "c = RED \<longrightarrow> pp_tree_rb_is_black (only_child cur)"
      using ok(1) cur by (auto simp: only_child_def)
    then have "\<not> pp_tree_rb_is_black (only_child cur)"
      using False by (cases "only_child cur") auto
    then show ?thesis
      using child ok cur False by (auto simp: rb_unlink_def Let_def rb_tree_plug inorder_plug color_cases only_child_def)
  qed
qed

context key_order
begin

lemma rb_insert_ok:
  fixes t :: "('k, 'v) rb_node"
  assumes "rb_tree t" "in_order (inorder t)"
  defines "xs \<equiv> inorder t"
  shows "\<exists>res. p_tree_rb_insert True cmp kd vd key val t = Inr res \<and> rb_tree (res_root res)
    \<and> inorder (res_root res) = lower key xs @ (key, val) # higher key xs \<and> (res_ok res \<longleftrightarrow> equals key xs = [])
    \<and> res_keys res = (if kd then map fst (equals key xs) else [])
    \<and> res_values res = (if vd then map snd (equals key xs) else [])"
  unfolding p_tree_rb_insert_def xs_def
proof (rule insert_with_ok [where I = rb_tree, OF assms(2)])
  fix p assume s: "tree_search cmp key t [] = (NULL, p)"
  then show "\<exists>t'. pp_tree_rb_balance_insert (PTreeBaseNode NULL key val RED NULL) p = Inr t' \<and> rb_tree t'
      \<and> inorder t' = before p @ (key, val) # after p"
    using rb_balance_insert_ok [of "PTreeBaseNode NULL key val RED NULL" p] assms(1) search_plug [OF s] rb_tree_plug [of NULL p]
    by simp
next
  fix l k v m r p assume s: "tree_search cmp key t [] = (PTreeBaseNode l k v m r, p)"
  then show "rb_tree (plug (PTreeBaseNode l key val m r) p)"
    using assms(1) search_plug [OF s] rb_tree_plug [of "PTreeBaseNode l k v m r" p] by (simp add: rb_tree_plug)
qed

lemma rb_remove_ok:
  fixes t :: "('k, 'v) rb_node"
  assumes "rb_tree t" "in_order (inorder t)"
  defines "xs \<equiv> inorder t"
  shows "\<exists>res. p_tree_rb_remove cmp kd vd key t = Inr res \<and> rb_tree (res_root res)
    \<and> inorder (res_root res) = lower key xs @ higher key xs \<and> (res_ok res \<longleftrightarrow> equals key xs \<noteq> [])"
  unfolding p_tree_rb_remove_def xs_def
proof (rule remove_with_ok [where I = rb_tree, OF assms(2,1)])
  fix l k v m r p cur p'
  assume s: "tree_search cmp key t [] = (PTreeBaseNode l k v m r, p)" and u: "tree_unlink (PTreeBaseNode l k v m r) p = (cur, p')"
  show "\<exists>t'. rb_unlink cur p' = Inr t' \<and> rb_tree t' \<and> inorder t' = before p' @ inorder (only_child cur) @ after p'"
    using unlink_rb [OF _ u] rb_unlink_ok [of cur p'] assms(1) search_plug [OF s] by simp
qed

end

section \<open>Height\<close>

lemma rb_height: "rb t \<Longrightarrow> tree_height t \<le> 2 * black_height t + (if pp_tree_rb_is_black t then 0 else 1)"
proof (induction t)
  case (PTreeBaseNode l k v c r)
  then show ?case by (cases c) (auto split: if_splits)
qed simp

lemma rb_size: "rb t \<Longrightarrow> 2 ^ black_height t \<le> Suc (length (inorder t))"
  by (induction t) auto

text \<open>Half the height of a tree is at most the logarithm of its size.\<close>

lemma rb_height_bound:
  assumes "rb_tree t"
  shows "2 ^ (tree_height t div 2) \<le> Suc (length (inorder t))"
proof -
  have "tree_height t div 2 \<le> black_height t"
    using assms rb_height [of t] by (simp add: rb_tree_def)
  then have "(2::nat) ^ (tree_height t div 2) \<le> 2 ^ black_height t"
    by simp
  also have "\<dots> \<le> Suc (length (inorder t))"
    using rb_size [of t] assms by (simp add: rb_tree_def)
  finally show ?thesis .
qed

end
