(* ===== verification/TC_BST.thy ===== *)
theory TC_BST
  imports TC_Tree_Base
begin

text \<open>
  Unbalanced search trees, \<^verbatim>\<open>plibsys-master/src/ptree-bst.c\<close>: insertion and removal without
  balancing, and without a mark on the nodes.
\<close>

definition p_tree_bst_insert ::
    "bool \<Rightarrow> ('k \<Rightarrow> 'k \<Rightarrow> int) \<Rightarrow> bool \<Rightarrow> bool \<Rightarrow> 'k \<Rightarrow> 'v \<Rightarrow> ('k, 'v, unit) tree_node \<Rightarrow> ('k, 'v, unit) tree_result outcome" where
  "p_tree_bst_insert = insert_with () (\<lambda>t p. Inr (plug t p))"

definition p_tree_bst_remove ::
    "('k \<Rightarrow> 'k \<Rightarrow> int) \<Rightarrow> bool \<Rightarrow> bool \<Rightarrow> 'k \<Rightarrow> ('k, 'v, unit) tree_node \<Rightarrow> ('k, 'v, unit) tree_result outcome" where
  "p_tree_bst_remove = remove_with (\<lambda>cur p. Inr (plug (only_child cur) p))"

context key_order
begin

lemma bst_insert_ok:
  fixes t :: "('k, 'v, unit) tree_node"
  assumes "in_order (inorder t)"
  shows "\<exists>res. p_tree_bst_insert True cmp kd vd key val t = Inr res \<and> True
    \<and> inorder (res_root res) = lower key (inorder t) @ (key, val) # higher key (inorder t)
    \<and> (res_ok res \<longleftrightarrow> equals key (inorder t) = [])
    \<and> res_keys res = (if kd then map fst (equals key (inorder t)) else [])
    \<and> res_values res = (if vd then map snd (equals key (inorder t)) else [])"
  unfolding p_tree_bst_insert_def
  by (rule insert_with_ok [where I = "\<lambda>_. True", OF assms]) (simp_all add: inorder_plug)

lemma bst_remove_ok:
  fixes t :: "('k, 'v, unit) tree_node"
  assumes "in_order (inorder t)"
  shows "\<exists>res. p_tree_bst_remove cmp kd vd key t = Inr res \<and> True
    \<and> inorder (res_root res) = lower key (inorder t) @ higher key (inorder t)
    \<and> (res_ok res \<longleftrightarrow> equals key (inorder t) \<noteq> [])"
  unfolding p_tree_bst_remove_def
  by (rule remove_with_ok [where I = "\<lambda>_. True", OF assms]) (simp_all add: inorder_plug)

end

end
