(* ===== verification/TC_MD5.thy ===== *)
theory TC_MD5
  imports TC_Utils
begin

text \<open>
  The MD5 of plibsys, \<^verbatim>\<open>plibsys-master/src/pcryptohash-md5.c\<close>, with which the server checks a
  player's key: the context with its buffer of 64 bytes, the 64 rounds over a block, and the
  streaming interface \<^verbatim>\<open>reset\<close>, \<^verbatim>\<open>update\<close>, \<^verbatim>\<open>finish\<close> and \<^verbatim>\<open>digest\<close>. The functions run on a
  little-endian machine, where \<^verbatim>\<open>pp_crypto_hash_md5_swap_bytes\<close> does nothing and the union of bytes
  and words reads a word from its lowest byte on.

  The specification is RFC 1321: padding, then the compression of one block after the other with
  the round functions, the order of the words and the rotations of the RFC. The theorems show that
  the streaming code computes it, whatever the pieces the message comes in.
\<close>

section \<open>The context\<close>

record PHashMD5 =
  md5_buf :: "pchar list"
  md5_hash :: "puint32 list"
  len_high :: puint32
  len_low :: puint32

definition pp_crypto_hash_md5_pad :: "pchar list" where
  "pp_crypto_hash_md5_pad = 0x80 # replicate 63 0"

text \<open>The bytes of a word in memory, the word of four bytes, and \<^verbatim>\<open>buf_w\<close> of the union.\<close>

definition word_bytes :: "puint32 \<Rightarrow> pchar list" where
  "word_bytes w = map (\<lambda>i. ucast (drop_bit (8 * i) w)) [0..<4]"

fun buf_w :: "pchar list \<Rightarrow> puint32 list" where
  "buf_w (a # b # c # d # bs) =
     (ucast a OR push_bit 8 (ucast b) OR push_bit 16 (ucast c) OR push_bit 24 (ucast d)) # buf_w bs"
| "buf_w _ = []"

definition memcpy_at :: "pchar list \<Rightarrow> nat \<Rightarrow> pchar list \<Rightarrow> pchar list outcome" where
  "memcpy_at buf at data =
     (if at + length data \<le> length buf then Inr (take at buf @ data @ drop (at + length data) buf)
      else Inl OutOfBounds)"

section \<open>A block\<close>

definition P_MD5_ROTL :: "puint32 \<Rightarrow> nat \<Rightarrow> puint32" where
  "P_MD5_ROTL val shift = push_bit shift val OR drop_bit (32 - shift) val"

definition P_MD5_F :: "puint32 \<Rightarrow> puint32 \<Rightarrow> puint32 \<Rightarrow> puint32" where
  "P_MD5_F x y z = z XOR (x AND (y XOR z))"

definition P_MD5_G :: "puint32 \<Rightarrow> puint32 \<Rightarrow> puint32 \<Rightarrow> puint32" where
  "P_MD5_G x y z = P_MD5_F z x y"

definition P_MD5_H :: "puint32 \<Rightarrow> puint32 \<Rightarrow> puint32 \<Rightarrow> puint32" where
  "P_MD5_H x y z = x XOR y XOR z"

definition P_MD5_I :: "puint32 \<Rightarrow> puint32 \<Rightarrow> puint32 \<Rightarrow> puint32" where
  "P_MD5_I x y z = y XOR (x OR NOT z)"

text \<open>
  The 64 uses of the macros \<^verbatim>\<open>P_MD5_ROUND_0\<close> to \<^verbatim>\<open>P_MD5_ROUND_3\<close>, in their order: the number of the
  macro, its four registers, the word of the block, the constant and the rotation.
\<close>

datatype md5_register = RA | RB | RC | RD

datatype md5_round = Round nat md5_register md5_register md5_register md5_register nat puint32 nat

type_synonym md5_state = "puint32 \<times> puint32 \<times> puint32 \<times> puint32"

fun md5_get :: "md5_register \<Rightarrow> md5_state \<Rightarrow> puint32" where
  "md5_get RA (A, B, C, D) = A"
| "md5_get RB (A, B, C, D) = B"
| "md5_get RC (A, B, C, D) = C"
| "md5_get RD (A, B, C, D) = D"

fun md5_set :: "md5_register \<Rightarrow> puint32 \<Rightarrow> md5_state \<Rightarrow> md5_state" where
  "md5_set RA v (A, B, C, D) = (v, B, C, D)"
| "md5_set RB v (A, B, C, D) = (A, v, C, D)"
| "md5_set RC v (A, B, C, D) = (A, B, v, D)"
| "md5_set RD v (A, B, C, D) = (A, B, C, v)"

definition md5_round_function :: "nat \<Rightarrow> puint32 \<Rightarrow> puint32 \<Rightarrow> puint32 \<Rightarrow> puint32" where
  "md5_round_function r =
     (if r = 0 then P_MD5_F else if r = 1 then P_MD5_G else if r = 2 then P_MD5_H else P_MD5_I)"

fun P_MD5_ROUND :: "puint32 list \<Rightarrow> md5_state \<Rightarrow> md5_round \<Rightarrow> md5_state" where
  "P_MD5_ROUND data st (Round r ra rb rc rd k i s) =
     (let a = md5_get ra st; b = md5_get rb st; c = md5_get rc st; d = md5_get rd st;
          a = a + (md5_round_function r b c d + data ! k + i)
      in md5_set ra (P_MD5_ROTL a s + b) st)"

definition md5_rounds :: "md5_round list" where
  "md5_rounds =
     [Round 0 RA RB RC RD 0 0xD76AA478 7, Round 0 RD RA RB RC 1 0xE8C7B756 12,
      Round 0 RC RD RA RB 2 0x242070DB 17, Round 0 RB RC RD RA 3 0xC1BDCEEE 22,
      Round 0 RA RB RC RD 4 0xF57C0FAF 7, Round 0 RD RA RB RC 5 0x4787C62A 12,
      Round 0 RC RD RA RB 6 0xA8304613 17, Round 0 RB RC RD RA 7 0xFD469501 22,
      Round 0 RA RB RC RD 8 0x698098D8 7, Round 0 RD RA RB RC 9 0x8B44F7AF 12,
      Round 0 RC RD RA RB 10 0xFFFF5BB1 17, Round 0 RB RC RD RA 11 0x895CD7BE 22,
      Round 0 RA RB RC RD 12 0x6B901122 7, Round 0 RD RA RB RC 13 0xFD987193 12,
      Round 0 RC RD RA RB 14 0xA679438E 17, Round 0 RB RC RD RA 15 0x49B40821 22,
      Round 1 RA RB RC RD 1 0xF61E2562 5, Round 1 RD RA RB RC 6 0xC040B340 9,
      Round 1 RC RD RA RB 11 0x265E5A51 14, Round 1 RB RC RD RA 0 0xE9B6C7AA 20,
      Round 1 RA RB RC RD 5 0xD62F105D 5, Round 1 RD RA RB RC 10 0x02441453 9,
      Round 1 RC RD RA RB 15 0xD8A1E681 14, Round 1 RB RC RD RA 4 0xE7D3FBC8 20,
      Round 1 RA RB RC RD 9 0x21E1CDE6 5, Round 1 RD RA RB RC 14 0xC33707D6 9,
      Round 1 RC RD RA RB 3 0xF4D50D87 14, Round 1 RB RC RD RA 8 0x455A14ED 20,
      Round 1 RA RB RC RD 13 0xA9E3E905 5, Round 1 RD RA RB RC 2 0xFCEFA3F8 9,
      Round 1 RC RD RA RB 7 0x676F02D9 14, Round 1 RB RC RD RA 12 0x8D2A4C8A 20,
      Round 2 RA RB RC RD 5 0xFFFA3942 4, Round 2 RD RA RB RC 8 0x8771F681 11,
      Round 2 RC RD RA RB 11 0x6D9D6122 16, Round 2 RB RC RD RA 14 0xFDE5380C 23,
      Round 2 RA RB RC RD 1 0xA4BEEA44 4, Round 2 RD RA RB RC 4 0x4BDECFA9 11,
      Round 2 RC RD RA RB 7 0xF6BB4B60 16, Round 2 RB RC RD RA 10 0xBEBFBC70 23,
      Round 2 RA RB RC RD 13 0x289B7EC6 4, Round 2 RD RA RB RC 0 0xEAA127FA 11,
      Round 2 RC RD RA RB 3 0xD4EF3085 16, Round 2 RB RC RD RA 6 0x04881D05 23,
      Round 2 RA RB RC RD 9 0xD9D4D039 4, Round 2 RD RA RB RC 12 0xE6DB99E5 11,
      Round 2 RC RD RA RB 15 0x1FA27CF8 16, Round 2 RB RC RD RA 2 0xC4AC5665 23,
      Round 3 RA RB RC RD 0 0xF4292244 6, Round 3 RD RA RB RC 7 0x432AFF97 10,
      Round 3 RC RD RA RB 14 0xAB9423A7 15, Round 3 RB RC RD RA 5 0xFC93A039 21,
      Round 3 RA RB RC RD 12 0x655B59C3 6, Round 3 RD RA RB RC 3 0x8F0CCC92 10,
      Round 3 RC RD RA RB 10 0xFFEFF47D 15, Round 3 RB RC RD RA 1 0x85845DD1 21,
      Round 3 RA RB RC RD 8 0x6FA87E4F 6, Round 3 RD RA RB RC 15 0xFE2CE6E0 10,
      Round 3 RC RD RA RB 6 0xA3014314 15, Round 3 RB RC RD RA 13 0x4E0811A1 21,
      Round 3 RA RB RC RD 4 0xF7537E82 6, Round 3 RD RA RB RC 11 0xBD3AF235 10,
      Round 3 RC RD RA RB 2 0x2AD7D2BB 15, Round 3 RB RC RD RA 9 0xEB86D391 21]"

definition pp_crypto_hash_md5_process :: "puint32 list \<Rightarrow> PHashMD5 \<Rightarrow> PHashMD5" where
  "pp_crypto_hash_md5_process data ctx =
     (let hash = md5_hash ctx;
          (A, B, C, D) = foldl (P_MD5_ROUND data) (hash ! 0, hash ! 1, hash ! 2, hash ! 3) md5_rounds
      in ctx\<lparr>md5_hash := [hash ! 0 + A, hash ! 1 + B, hash ! 2 + C, hash ! 3 + D]\<rparr>)"

section \<open>The streaming interface\<close>

definition p_crypto_hash_md5_reset :: "PHashMD5 \<Rightarrow> PHashMD5" where
  "p_crypto_hash_md5_reset ctx =
     ctx\<lparr>md5_buf := replicate 64 0, len_low := 0, len_high := 0,
         md5_hash := [0x67452301, 0xEFCDAB89, 0x98BADCFE, 0x10325476]\<rparr>"

definition p_crypto_hash_md5_new :: "bool \<Rightarrow> PHashMD5 option" where
  "p_crypto_hash_md5_new malloc_ok =
     (if malloc_ok
      then Some (p_crypto_hash_md5_reset
                   \<lparr>md5_buf = replicate 64 0, md5_hash = replicate 4 0, len_high = 0, len_low = 0\<rparr>)
      else None)"

text \<open>The loop \<^verbatim>\<open>while (len >= 64)\<close>, with the context and the data that is left.\<close>

function md5_update_blocks :: "PHashMD5 \<Rightarrow> pchar list \<Rightarrow> (PHashMD5 \<times> pchar list) outcome" where
  "md5_update_blocks ctx data =
     (if 64 \<le> length data
      then case memcpy_at (md5_buf ctx) 0 (take 64 data) of
             Inl f \<Rightarrow> Inl f
           | Inr buf \<Rightarrow> md5_update_blocks
               (pp_crypto_hash_md5_process (buf_w buf) (ctx\<lparr>md5_buf := buf\<rparr>)) (drop 64 data)
      else Inr (ctx, data))"
  by pat_completeness auto

termination
  by (relation "measure (length \<circ> snd)") auto

declare md5_update_blocks.simps [simp del]

text \<open>That loop, and the copy of what is left to the buffer.\<close>

definition md5_update_rest :: "PHashMD5 \<Rightarrow> pchar list \<Rightarrow> puint32 \<Rightarrow> PHashMD5 outcome" where
  "md5_update_rest ctx data left =
     (case md5_update_blocks ctx data of
        Inl f \<Rightarrow> Inl f
      | Inr (ctx, data) \<Rightarrow>
          if data \<noteq> []
          then (case memcpy_at (md5_buf ctx) (unat left) data of
                  Inl f \<Rightarrow> Inl f
                | Inr buf \<Rightarrow> Inr (ctx\<lparr>md5_buf := buf\<rparr>))
          else Inr ctx)"

text \<open>\<open>data\<close> is the bytes at the pointer, as many as \<^verbatim>\<open>len\<close> says; \<open>of_nat\<close> is the cast to 32 bits.\<close>

definition p_crypto_hash_md5_update :: "PHashMD5 \<Rightarrow> pchar list \<Rightarrow> PHashMD5 outcome" where
  "p_crypto_hash_md5_update ctx data =
     (let left = len_low ctx AND 0x3F;
          to_fill = 64 - left;
          len = of_nat (length data) :: puint32;
          ctx = ctx\<lparr>len_low := len_low ctx + len\<rparr>;
          ctx = (if len_low ctx < len then ctx\<lparr>len_high := len_high ctx + 1\<rparr> else ctx)
      in if left \<noteq> 0 \<and> to_fill \<le> len
         then (case memcpy_at (md5_buf ctx) (unat left) (take (unat to_fill) data) of
                 Inl f \<Rightarrow> Inl f
               | Inr buf \<Rightarrow> md5_update_rest (pp_crypto_hash_md5_process (buf_w buf) (ctx\<lparr>md5_buf := buf\<rparr>))
                             (drop (unat to_fill) data) 0)
         else md5_update_rest ctx data left)"

definition p_crypto_hash_md5_finish :: "PHashMD5 \<Rightarrow> PHashMD5 outcome" where
  "p_crypto_hash_md5_finish ctx =
     (let left = unat (len_low ctx AND 0x3F);
          last = (if left < 56 then 56 - left else 120 - left);
          low = push_bit 3 (len_low ctx);
          high = push_bit 3 (len_high ctx) OR drop_bit 29 (len_low ctx)
      in case (if 0 < last then p_crypto_hash_md5_update ctx (take last pp_crypto_hash_md5_pad) else Inr ctx) of
           Inl f \<Rightarrow> Inl f
         | Inr ctx \<Rightarrow>
             let buf = take 56 (md5_buf ctx) @ word_bytes low @ word_bytes high @ drop 64 (md5_buf ctx)
             in Inr (pp_crypto_hash_md5_process (buf_w buf) (ctx\<lparr>md5_buf := buf\<rparr>)))"

definition p_crypto_hash_md5_digest :: "PHashMD5 \<Rightarrow> pchar list" where
  "p_crypto_hash_md5_digest ctx = concat (map word_bytes (md5_hash ctx))"


section \<open>RFC 1321\<close>

definition rfc_F :: "puint32 \<Rightarrow> puint32 \<Rightarrow> puint32 \<Rightarrow> puint32" where
  "rfc_F x y z = (x AND y) OR (NOT x AND z)"

definition rfc_G :: "puint32 \<Rightarrow> puint32 \<Rightarrow> puint32 \<Rightarrow> puint32" where
  "rfc_G x y z = (x AND z) OR (y AND NOT z)"

definition rfc_H :: "puint32 \<Rightarrow> puint32 \<Rightarrow> puint32 \<Rightarrow> puint32" where
  "rfc_H x y z = x XOR y XOR z"

definition rfc_I :: "puint32 \<Rightarrow> puint32 \<Rightarrow> puint32 \<Rightarrow> puint32" where
  "rfc_I x y z = y XOR (x OR NOT z)"

text \<open>The operations of the RFC by their number from 0: word, rotation, constant and function.\<close>

definition rfc_word :: "nat \<Rightarrow> nat" where
  "rfc_word i = (if i < 16 then i else if i < 32 then (5 * i + 1) mod 16
                 else if i < 48 then (3 * i + 5) mod 16 else 7 * i mod 16)"

definition rfc_rotation :: "nat \<Rightarrow> nat" where
  "rfc_rotation i = [[7, 12, 17, 22], [5, 9, 14, 20], [4, 11, 16, 23], [6, 10, 15, 21]] ! (i div 16) ! (i mod 4)"

definition rfc_T :: "puint32 list" where
  "rfc_T =
     [0xD76AA478, 0xE8C7B756, 0x242070DB, 0xC1BDCEEE, 0xF57C0FAF, 0x4787C62A, 0xA8304613, 0xFD469501,
      0x698098D8, 0x8B44F7AF, 0xFFFF5BB1, 0x895CD7BE, 0x6B901122, 0xFD987193, 0xA679438E, 0x49B40821,
      0xF61E2562, 0xC040B340, 0x265E5A51, 0xE9B6C7AA, 0xD62F105D, 0x02441453, 0xD8A1E681, 0xE7D3FBC8,
      0x21E1CDE6, 0xC33707D6, 0xF4D50D87, 0x455A14ED, 0xA9E3E905, 0xFCEFA3F8, 0x676F02D9, 0x8D2A4C8A,
      0xFFFA3942, 0x8771F681, 0x6D9D6122, 0xFDE5380C, 0xA4BEEA44, 0x4BDECFA9, 0xF6BB4B60, 0xBEBFBC70,
      0x289B7EC6, 0xEAA127FA, 0xD4EF3085, 0x04881D05, 0xD9D4D039, 0xE6DB99E5, 0x1FA27CF8, 0xC4AC5665,
      0xF4292244, 0x432AFF97, 0xAB9423A7, 0xFC93A039, 0x655B59C3, 0x8F0CCC92, 0xFFEFF47D, 0x85845DD1,
      0x6FA87E4F, 0xFE2CE6E0, 0xA3014314, 0x4E0811A1, 0xF7537E82, 0xBD3AF235, 0x2AD7D2BB, 0xEB86D391]"

definition rfc_function :: "nat \<Rightarrow> puint32 \<Rightarrow> puint32 \<Rightarrow> puint32 \<Rightarrow> puint32" where
  "rfc_function i = [rfc_F, rfc_G, rfc_H, rfc_I] ! (i div 16)"

fun rfc_operation :: "puint32 list \<Rightarrow> md5_state \<Rightarrow> nat \<Rightarrow> md5_state" where
  "rfc_operation X (a, b, c, d) i =
     (d, b + word_rotl (rfc_rotation i) (a + rfc_function i b c d + X ! rfc_word i + rfc_T ! i), b, c)"

fun add_states :: "md5_state \<Rightarrow> md5_state \<Rightarrow> md5_state" where
  "add_states (a, b, c, d) (a', b', c', d') = (a + a', b + b', c + c', d + d')"

definition rfc_compress :: "md5_state \<Rightarrow> pchar list \<Rightarrow> md5_state" where
  "rfc_compress st block = add_states st (foldl (rfc_operation (buf_w block)) st [0..<64])"

function rfc_blocks :: "md5_state \<Rightarrow> pchar list \<Rightarrow> md5_state" where
  "rfc_blocks st msg = (if 64 \<le> length msg then rfc_blocks (rfc_compress st (take 64 msg)) (drop 64 msg) else st)"
  by pat_completeness auto

termination
  by (relation "measure (length \<circ> snd)") auto

declare rfc_blocks.simps [simp del]

definition rfc_initial :: md5_state where
  "rfc_initial = (0x67452301, 0xEFCDAB89, 0x98BADCFE, 0x10325476)"

definition rfc_length :: "pchar list \<Rightarrow> pchar list" where
  "rfc_length msg = map (\<lambda>i. ucast (drop_bit (8 * i) (of_nat (8 * length msg) :: 64 word))) [0..<8]"

definition rfc_pad :: "pchar list \<Rightarrow> pchar list" where
  "rfc_pad msg = msg @ [0x80] @ replicate ((119 - length msg mod 64) mod 64) 0 @ rfc_length msg"

fun state_words :: "md5_state \<Rightarrow> puint32 list" where
  "state_words (a, b, c, d) = [a, b, c, d]"

definition rfc_md5 :: "pchar list \<Rightarrow> pchar list" where
  "rfc_md5 msg = concat (map word_bytes (state_words (rfc_blocks rfc_initial (rfc_pad msg))))"

section \<open>The rounds are those of the RFC\<close>

lemma round_functions:
  "P_MD5_F = rfc_F" "P_MD5_G = rfc_G" "P_MD5_H = rfc_H" "P_MD5_I = rfc_I"
  by (intro ext bit_word_eqI,
      auto simp: P_MD5_F_def rfc_F_def P_MD5_G_def rfc_G_def P_MD5_H_def rfc_H_def P_MD5_I_def rfc_I_def bit_simps)+

lemma P_MD5_ROTL_rotl:
  assumes "0 < s" "s < 32"
  shows "P_MD5_ROTL v s = word_rotl s v"
proof (rule bit_word_eqI)
  fix n assume n: "n < LENGTH(32)"
  show "bit (P_MD5_ROTL v s) n = bit (word_rotl s v) n"
  proof (cases "s \<le> n")
    case True
    then have "(n + (32 - s)) mod 32 = n - s"
      using n assms by (simp add: nat_mod_eq_iff mod_if)
    moreover have "\<not> bit v (32 - s + n)"
      using True by (intro bit_beyond) simp
    ultimately show ?thesis
      using True n assms by (simp add: P_MD5_ROTL_def bit_simps)
  next
    case False
    then have "(n + (32 - s)) mod 32 = 32 - s + n"
      using assms by simp
    then show ?thesis
      using False n assms by (simp add: P_MD5_ROTL_def bit_simps)
  qed
qed

text \<open>Four rounds in a row bring the registers back to their places.\<close>

lemma P_MD5_ROUND_rotl:
  assumes "0 < s" "s < 32"
  shows "P_MD5_ROUND X st (Round r ra rb rc rd k i s) =
    md5_set ra (md5_get rb st + word_rotl s (md5_get ra st
      + md5_round_function r (md5_get rb st) (md5_get rc st) (md5_get rd st) + X ! k + i)) st"
  using assms by (simp add: Let_def P_MD5_ROTL_rotl add_ac)

text \<open>
  Each use of a macro names the registers in the next of four rotations, so seen through the
  registers it names, a round is an operation of the RFC.
\<close>

type_synonym md5_registers = "md5_register \<times> md5_register \<times> md5_register \<times> md5_register"

fun registers_view :: "md5_registers \<Rightarrow> md5_state \<Rightarrow> md5_state" where
  "registers_view (ra, rb, rc, rd) st = (md5_get ra st, md5_get rb st, md5_get rc st, md5_get rd st)"

fun rounds_match :: "md5_registers \<Rightarrow> nat \<Rightarrow> md5_round list \<Rightarrow> bool" where
  "rounds_match regs n [] = (regs = (RA, RB, RC, RD))"
| "rounds_match (ra, rb, rc, rd) n (Round r a b c d k i s # rs) =
     ((a, b, c, d) = (ra, rb, rc, rd) \<and> r = n div 16 \<and> n < 64 \<and> k = rfc_word n \<and> i = rfc_T ! n
      \<and> s = rfc_rotation n \<and> 0 < s \<and> s < 32 \<and> rounds_match (rd, ra, rb, rc) (Suc n) rs)"

lemma md5_get_set: "md5_get r (md5_set q v st) = (if r = q then v else md5_get r st)"
  by (cases st; cases r; cases q) simp_all

lemma md5_round_function_rfc: "n < 64 \<Longrightarrow> md5_round_function (n div 16) = rfc_function n"
  using less_4_cases [of "n div 16"]
  by (auto simp: md5_round_function_def rfc_function_def round_functions)

lemma round_is_operation:
  assumes "distinct [ra, rb, rc, rd]" "n < 64" "0 < rfc_rotation n" "rfc_rotation n < 32"
  shows "registers_view (rd, ra, rb, rc)
           (P_MD5_ROUND X st (Round (n div 16) ra rb rc rd (rfc_word n) (rfc_T ! n) (rfc_rotation n)))
         = rfc_operation X (registers_view (ra, rb, rc, rd) st) n"
  using assms by (auto simp: P_MD5_ROUND_rotl md5_get_set md5_round_function_rfc simp del: P_MD5_ROUND.simps)

lemma rounds_match_rfc:
  "rounds_match regs n rs \<Longrightarrow> (case regs of (ra, rb, rc, rd) \<Rightarrow> distinct [ra, rb, rc, rd])
   \<Longrightarrow> foldl (P_MD5_ROUND X) st rs = foldl (rfc_operation X) (registers_view regs st) [n..<n + length rs]"
proof (induction regs n rs arbitrary: st rule: rounds_match.induct)
  case (1 regs n)
  then show ?case
    by (cases st) simp
next
  case (2 ra rb rc rd n r a b c d k i s rs)
  let ?st = "P_MD5_ROUND X st (Round r a b c d k i s)"
  have "foldl (P_MD5_ROUND X) ?st rs
    = foldl (rfc_operation X) (registers_view (rd, ra, rb, rc) ?st) [Suc n..<Suc n + length rs]"
    by (rule 2) (use 2 in auto)
  also have "registers_view (rd, ra, rb, rc) ?st = rfc_operation X (registers_view (ra, rb, rc, rd) st) n"
    using 2(2,3) round_is_operation [of ra rb rc rd n X st] by (auto simp del: P_MD5_ROUND.simps)
  finally show ?case
    by (simp add: upt_conv_Cons del: P_MD5_ROUND.simps registers_view.simps upt_Suc)
qed

lemma rounds_rfc:
  "foldl (P_MD5_ROUND X) st md5_rounds = foldl (rfc_operation X) st [0..<64]"
proof -
  have "rounds_match (RA, RB, RC, RD) 0 md5_rounds" "length md5_rounds = 64"
    by code_simp+
  then show ?thesis
    using rounds_match_rfc [of "(RA, RB, RC, RD)" 0 md5_rounds X st] by (cases st) simp
qed

lemma md5_process_rfc:
  assumes "md5_hash ctx = state_words h"
  shows "pp_crypto_hash_md5_process (buf_w block) ctx = ctx\<lparr>md5_hash := state_words (rfc_compress h block)\<rparr>"
proof (cases h)
  case (fields a b c d)
  then show ?thesis
    using assms
    by (cases "foldl (rfc_operation (buf_w block)) (a, b, c, d) [0..<64]")
       (simp add: pp_crypto_hash_md5_process_def rounds_rfc rfc_compress_def)
qed

section \<open>The streaming code computes the RFC\<close>

text \<open>The blocks of a message and what is left over after the last full block.\<close>

definition leftover :: "pchar list \<Rightarrow> pchar list" where
  "leftover msg = drop (64 * (length msg div 64)) msg"

lemma length_leftover [simp]: "length (leftover msg) = length msg mod 64"
  by (simp add: leftover_def minus_mult_div_eq_mod)

lemma leftover_short: "length msg < 64 \<Longrightarrow> leftover msg = msg"
  by (simp add: leftover_def)

lemma leftover_step: "64 \<le> length msg \<Longrightarrow> leftover (drop 64 msg) = leftover msg"
proof -
  assume "64 \<le> length msg"
  then have "64 * (length msg div 64) = 64 * ((length msg - 64) div 64) + 64"
    by (simp add: div_if [of "length msg" 64])
  then show ?thesis
    by (simp add: leftover_def add.commute)
qed

lemma rfc_blocks_short: "length msg < 64 \<Longrightarrow> rfc_blocks st msg = st"
  by (subst rfc_blocks.simps) simp

lemma rfc_blocks_append:
  "64 dvd length xs \<Longrightarrow> rfc_blocks st (xs @ ys) = rfc_blocks (rfc_blocks st xs) ys"
proof (induction st xs rule: rfc_blocks.induct)
  case (1 st xs)
  show ?case
  proof (cases "64 \<le> length xs")
    case True
    then have "rfc_blocks (rfc_compress st (take 64 xs)) (drop 64 xs @ ys)
      = rfc_blocks (rfc_blocks (rfc_compress st (take 64 xs)) (drop 64 xs)) ys"
      using 1 by (simp add: dvd_diff_nat)
    then show ?thesis
      using True by (simp add: rfc_blocks.simps [of st "xs @ ys"] rfc_blocks.simps [of st xs])
  next
    case False
    then have "xs = []"
      using 1(2) by (auto dest: dvd_imp_le)
    then show ?thesis
      by (simp add: rfc_blocks_short)
  qed
qed

lemma message_split:
  obtains full where "msg = full @ leftover msg" "64 dvd length full"
    "rfc_blocks st msg = rfc_blocks st full"
proof
  let ?full = "take (64 * (length msg div 64)) msg"
  show "msg = ?full @ leftover msg"
    by (simp add: leftover_def)
  show len: "64 dvd length ?full"
    by (simp add: min_absorb2)
  have "rfc_blocks st (?full @ leftover msg) = rfc_blocks st ?full"
    by (subst rfc_blocks_append [OF len]) (simp add: rfc_blocks_short)
  then show "rfc_blocks st msg = rfc_blocks st ?full"
    by (simp add: leftover_def)
qed

lemma leftover_append:
  assumes "64 dvd length full"
  shows "leftover (full @ xs) = leftover xs"
proof -
  obtain k where "length full = 64 * k"
    using assms by (auto simp: dvd_def)
  then show ?thesis
    by (simp add: leftover_def)
qed

text \<open>The context holds the state after the full blocks, and in its buffer what is left over.\<close>

definition md5_holds :: "PHashMD5 \<Rightarrow> md5_state \<Rightarrow> pchar list \<Rightarrow> bool" where
  "md5_holds ctx h tail \<longleftrightarrow>
     length (md5_buf ctx) = 64 \<and> md5_hash ctx = state_words h \<and> take (length tail) (md5_buf ctx) = tail"

definition same_length :: "PHashMD5 \<Rightarrow> PHashMD5 \<Rightarrow> bool" where
  "same_length ctx ctx' \<longleftrightarrow> len_low ctx' = len_low ctx \<and> len_high ctx' = len_high ctx"

lemma memcpy_at_fits:
  "at + length data \<le> length buf
   \<Longrightarrow> memcpy_at buf at data = Inr (take at buf @ data @ drop (at + length data) buf)"
  by (simp add: memcpy_at_def)

lemma md5_update_blocks_holds:
  "md5_holds ctx h [] \<Longrightarrow>
   \<exists>ctx'. md5_update_blocks ctx data = Inr (ctx', leftover data)
     \<and> md5_holds ctx' (rfc_blocks h data) [] \<and> same_length ctx ctx'"
proof (induction h data arbitrary: ctx rule: rfc_blocks.induct)
  case (1 h data)
  show ?case
  proof (cases "64 \<le> length data")
    case True
    let ?ctx = "ctx\<lparr>md5_buf := take 64 data, md5_hash := state_words (rfc_compress h (take 64 data))\<rparr>"
    have "md5_update_blocks ctx data = md5_update_blocks ?ctx (drop 64 data)"
      using True 1(2) by (simp add: md5_update_blocks.simps [of ctx] md5_holds_def memcpy_at_fits md5_process_rfc)
    moreover have "md5_holds ?ctx (rfc_compress h (take 64 data)) []" "same_length ctx ?ctx"
      using True by (simp_all add: md5_holds_def same_length_def)
    ultimately show ?thesis
      using 1(1) [OF True, of ?ctx] True
      by (auto simp: leftover_step rfc_blocks.simps [of h data] same_length_def)
  next
    case False
    then show ?thesis
      using 1(2) by (simp add: md5_update_blocks.simps [of ctx] leftover_short rfc_blocks_short same_length_def)
  qed
qed

lemma md5_update_rest_empty:
  assumes "md5_holds ctx h []"
  shows "\<exists>ctx'. md5_update_rest ctx data 0 = Inr ctx'
    \<and> md5_holds ctx' (rfc_blocks h data) (leftover data) \<and> same_length ctx ctx'"
proof -
  obtain c where c: "md5_update_blocks ctx data = Inr (c, leftover data)"
      "md5_holds c (rfc_blocks h data) []" "same_length ctx c"
    using md5_update_blocks_holds [OF assms] by blast
  moreover have "length (leftover data) \<le> length (md5_buf c)"
    using c(2) by (simp add: md5_holds_def order.strict_implies_order)
  ultimately show ?thesis
    by (auto simp: md5_update_rest_def memcpy_at_fits md5_holds_def same_length_def simp del: length_leftover)
qed

lemma md5_update_blocks_short: "length data < 64 \<Longrightarrow> md5_update_blocks ctx data = Inr (ctx, data)"
  by (subst md5_update_blocks.simps) simp

lemma md5_update_rest_short:
  assumes "md5_holds ctx h tail" "length tail + length data < 64" "unat left = length tail"
  shows "\<exists>ctx'. md5_update_rest ctx data left = Inr ctx'
    \<and> md5_holds ctx' h (tail @ data) \<and> same_length ctx ctx'"
  using assms
  by (cases "data = []")
     (auto simp: md5_update_rest_def md5_update_blocks_short memcpy_at_fits md5_holds_def
        same_length_def min_absorb2)

lemma md5_fill_block:
  assumes "md5_holds ctx h tail" "unat left = length tail" "length tail < 64" "unat to_fill = 64 - length tail"
    "64 \<le> length tail + length data"
  shows "\<exists>ctx'. (case memcpy_at (md5_buf ctx) (unat left) (take (unat to_fill) data) of
                 Inl f \<Rightarrow> Inl f
               | Inr buf \<Rightarrow> md5_update_rest (pp_crypto_hash_md5_process (buf_w buf) (ctx\<lparr>md5_buf := buf\<rparr>))
                             (drop (unat to_fill) data) 0) = Inr ctx'
    \<and> md5_holds ctx' (rfc_blocks h (tail @ data)) (leftover (tail @ data)) \<and> same_length ctx ctx'"
proof -
  let ?blk = "take 64 (tail @ data)"
  let ?ctx = "ctx\<lparr>md5_buf := ?blk, md5_hash := state_words (rfc_compress h ?blk)\<rparr>"
  have rest: "drop (unat to_fill) data = drop 64 (tail @ data)"
    using assms by simp
  have "memcpy_at (md5_buf ctx) (unat left) (take (unat to_fill) data) = Inr ?blk"
    using assms by (simp add: memcpy_at_fits md5_holds_def)
  then have "(case memcpy_at (md5_buf ctx) (unat left) (take (unat to_fill) data) of
                 Inl f \<Rightarrow> Inl f
               | Inr buf \<Rightarrow> md5_update_rest (pp_crypto_hash_md5_process (buf_w buf) (ctx\<lparr>md5_buf := buf\<rparr>))
                             (drop (unat to_fill) data) 0) = md5_update_rest ?ctx (drop 64 (tail @ data)) 0"
    unfolding rest using assms(1) by (simp add: md5_process_rfc md5_holds_def del: take_append drop_append)
  moreover have "md5_holds ?ctx (rfc_compress h ?blk) []" "same_length ctx ?ctx"
    using assms by (simp_all add: md5_holds_def same_length_def)
  moreover have "rfc_blocks h (tail @ data) = rfc_blocks (rfc_compress h ?blk) (drop 64 (tail @ data))"
    using assms by (subst rfc_blocks.simps) simp
  moreover have "leftover (drop 64 (tail @ data)) = leftover (tail @ data)"
    using assms by (intro leftover_step) simp
  ultimately show ?thesis
    using md5_update_rest_empty [of ?ctx "rfc_compress h ?blk" "drop 64 (tail @ data)"]
    by (auto simp: same_length_def simp del: take_append drop_append)
qed

text \<open>The length counts bytes modulo 2 to the 64, in two words.\<close>

definition md5_counts :: "PHashMD5 \<Rightarrow> nat \<Rightarrow> bool" where
  "md5_counts ctx n \<longleftrightarrow> unat (len_low ctx) = n mod 2 ^ 32 \<and> unat (len_high ctx) = n div 2 ^ 32 mod 2 ^ 32"

definition md5_represents :: "PHashMD5 \<Rightarrow> pchar list \<Rightarrow> bool" where
  "md5_represents ctx msg \<longleftrightarrow>
     md5_holds ctx (rfc_blocks rfc_initial msg) (leftover msg) \<and> md5_counts ctx (length msg)"

lemma md5_left:
  assumes "md5_counts ctx n"
  shows "unat (len_low ctx AND 0x3F) = n mod 64"
proof -
  have "len_low ctx AND 0x3F = take_bit 6 (len_low ctx)"
    by (simp add: take_bit_eq_mask mask_numeral)
  then have "unat (len_low ctx AND 0x3F) = n mod 2 ^ 32 mod 2 ^ 6"
    using assms by (simp add: md5_counts_def take_bit_eq_mod unat_mod)
  then show ?thesis
    by (simp add: mod_mod_cancel)
qed

lemma counts_carry:
  fixes l n :: nat
  assumes "n < 2 ^ 32"
  shows "(l mod 2 ^ 32 + n) mod 2 ^ 32 < n \<longleftrightarrow> (l + n) div 2 ^ 32 \<noteq> l div 2 ^ 32"
    and "(l + n) div 2 ^ 32 \<noteq> l div 2 ^ 32 \<Longrightarrow> (l + n) div 2 ^ 32 = l div 2 ^ 32 + 1"
proof -
  have b: "l mod 2 ^ 32 < 2 ^ 32"
    by simp
  have d: "(l + n) div 2 ^ 32 = l div 2 ^ 32 + (l mod 2 ^ 32 + n) div 2 ^ 32"
    using assms by (subst div_add1_eq) simp
  have "(l mod 2 ^ 32 + n) mod 2 ^ 32 < n \<longleftrightarrow> (l mod 2 ^ 32 + n) div 2 ^ 32 \<noteq> 0"
    "(l mod 2 ^ 32 + n) div 2 ^ 32 \<le> 1"
    using assms b by (cases "l mod 2 ^ 32 + n < 2 ^ 32"; simp add: le_mod_geq le_div_geq)+
  then show "(l mod 2 ^ 32 + n) mod 2 ^ 32 < n \<longleftrightarrow> (l + n) div 2 ^ 32 \<noteq> l div 2 ^ 32"
    and "(l + n) div 2 ^ 32 \<noteq> l div 2 ^ 32 \<Longrightarrow> (l + n) div 2 ^ 32 = l div 2 ^ 32 + 1"
    unfolding d by linarith+
qed

lemma md5_count_update:
  assumes "md5_counts ctx l" "n < 2 ^ 32" "len = of_nat n"
  shows "md5_counts (if len_low ctx + len < len then ctx\<lparr>len_low := len_low ctx + len, len_high := len_high ctx + 1\<rparr>
                     else ctx\<lparr>len_low := len_low ctx + len\<rparr>) (l + n)"
proof -
  have low: "unat (len_low ctx + len) = (l mod 2 ^ 32 + n) mod 2 ^ 32" and len: "unat len = n"
    using assms by (simp_all add: md5_counts_def unat_word_ariths unat_of_nat mod_simps)
  have "unat (len_high ctx + 1) = (l div 2 ^ 32 + 1) mod 2 ^ 32"
    using assms(1) by (simp add: md5_counts_def unat_word_ariths mod_simps)
  then show ?thesis
    using counts_carry [OF assms(2), of l] assms(1) low len
    by (auto simp: md5_counts_def word_less_nat_alt mod_simps)
qed


lemma md5_update_holds:
  assumes holds: "md5_holds c h tail" and left: "unat left = length tail" "length tail < 64"
    and len: "unat len = length data"
  shows "\<exists>ctx'. (if left \<noteq> 0 \<and> 64 - left \<le> len
       then (case memcpy_at (md5_buf c) (unat left) (take (unat (64 - left)) data) of
               Inl f \<Rightarrow> Inl f
             | Inr buf \<Rightarrow> md5_update_rest (pp_crypto_hash_md5_process (buf_w buf) (c\<lparr>md5_buf := buf\<rparr>))
                           (drop (unat (64 - left)) data) 0)
       else md5_update_rest c data left) = Inr ctx'
    \<and> md5_holds ctx' (rfc_blocks h (tail @ data)) (leftover (tail @ data)) \<and> same_length c ctx'"
proof -
  have fill: "unat (64 - left) = 64 - length tail"
    using left by (subst unat_sub) (simp_all add: word_le_nat_alt)
  consider "left \<noteq> 0 \<and> 64 - left \<le> len" | "left = 0" | "left \<noteq> 0" "\<not> 64 - left \<le> len"
    by blast
  then show ?thesis
  proof cases
    case 1
    then have "64 \<le> length tail + length data"
      using len left(2) by (auto simp: word_le_nat_alt fill)
    then show ?thesis
      unfolding if_P [OF 1] by (rule md5_fill_block [OF holds left fill])
  next
    case 2
    then have "tail = []"
      using left(1) by simp
    then show ?thesis
      using md5_update_rest_empty [of c h data] holds 2 by simp
  next
    case 3
    then have "length tail + length data < 64"
      using left(2) fill len by (simp add: word_le_nat_alt)
    then show ?thesis
      using md5_update_rest_short [OF holds _ left(1), of data] 3
      by (simp add: leftover_short rfc_blocks_short)
  qed
qed

theorem md5_update_represents:
  assumes "md5_represents ctx msg" "length data < 2 ^ 32"
  shows "\<exists>ctx'. p_crypto_hash_md5_update ctx data = Inr ctx' \<and> md5_represents ctx' (msg @ data)"
proof -
  obtain full where full: "msg = full @ leftover msg" "64 dvd length full"
      "rfc_blocks rfc_initial msg = rfc_blocks rfc_initial full"
    using message_split by blast
  define h where "h = rfc_blocks rfc_initial full"
  have goal: "rfc_blocks rfc_initial (msg @ data) = rfc_blocks h (leftover msg @ data)"
      "leftover (msg @ data) = leftover (leftover msg @ data)"
    by (subst full(1), simp add: h_def rfc_blocks_append leftover_append full(2))+
  define left where "left = len_low ctx AND 0x3F"
  define len where "len = (of_nat (length data) :: puint32)"
  define c where "c = (if len_low ctx + len < len then ctx\<lparr>len_low := len_low ctx + len, len_high := len_high ctx + 1\<rparr>
                     else ctx\<lparr>len_low := len_low ctx + len\<rparr>)"
  have left: "unat left = length (leftover msg)" "length (leftover msg) < 64"
    using assms(1) by (simp_all add: left_def md5_represents_def md5_left)
  have len: "unat len = length data"
    using assms(2) by (simp add: len_def unat_of_nat)
  have holds: "md5_holds c h (leftover msg)" and counts: "md5_counts c (length (msg @ data))"
    using assms full(3) md5_count_update [of ctx "length msg" "length data" len]
    by (auto simp: c_def h_def md5_represents_def md5_holds_def len_def)
  have "p_crypto_hash_md5_update ctx data =
      (if left \<noteq> 0 \<and> 64 - left \<le> len
       then (case memcpy_at (md5_buf c) (unat left) (take (unat (64 - left)) data) of
               Inl f \<Rightarrow> Inl f
             | Inr buf \<Rightarrow> md5_update_rest (pp_crypto_hash_md5_process (buf_w buf) (c\<lparr>md5_buf := buf\<rparr>))
                           (drop (unat (64 - left)) data) 0)
       else md5_update_rest c data left)"
    unfolding p_crypto_hash_md5_update_def Let_def c_def len_def left_def by (simp split: sum.split)
  then show ?thesis
    using md5_update_holds [OF holds left len] counts
    by (auto simp: md5_represents_def goal same_length_def md5_counts_def)
qed

text \<open>The two words that \<^verbatim>\<open>finish\<close> stores are the length in bits.\<close>

lemma md5_counts_word:
  assumes "md5_counts ctx n"
  shows "len_low ctx = ucast (of_nat n :: 64 word)" "len_high ctx = ucast (drop_bit 32 (of_nat n :: 64 word))"
proof -
  have "n mod 2 ^ 64 mod 2 ^ 32 = n mod 2 ^ 32"
    by (rule mod_mod_cancel) (simp add: le_imp_power_dvd)
  then show "len_low ctx = ucast (of_nat n :: 64 word)"
    using assms by (simp add: word_unat_eq_iff md5_counts_def unsigned_ucast_eq take_bit_eq_mod unat_of_nat)
  have "n mod 2 ^ 64 div 2 ^ 32 = n div 2 ^ 32 mod 2 ^ 32"
    using mod_mult2_eq [of n "2 ^ 32" "2 ^ 32"] by simp
  then show "len_high ctx = ucast (drop_bit 32 (of_nat n :: 64 word))"
    using assms by (simp add: word_unat_eq_iff md5_counts_def unsigned_ucast_eq take_bit_eq_mod unat_of_nat drop_bit_eq_div unat_div)
qed

lemma md5_length_words:
  assumes "md5_counts ctx (length msg)"
  shows "word_bytes (push_bit 3 (len_low ctx)) @ word_bytes (push_bit 3 (len_high ctx) OR drop_bit 29 (len_low ctx))
    = rfc_length msg"
proof -
  define N where "N = (of_nat (length msg) :: 64 word)"
  have W: "of_nat (8 * length msg) = push_bit 3 N"
    by (simp add: N_def push_bit_eq_mult)
  have low: "push_bit 3 (len_low ctx) = ucast (push_bit 3 N)"
    using md5_counts_word(1) [OF assms] by (intro bit_word_eqI) (auto simp: N_def bit_simps)
  have high: "push_bit 3 (len_high ctx) OR drop_bit 29 (len_low ctx) = ucast (drop_bit 32 (push_bit 3 N))"
    using md5_counts_word [OF assms] by (intro bit_word_eqI) (auto simp: N_def bit_simps)
  have "ucast (drop_bit k (ucast x :: puint32)) = (ucast (drop_bit k x) :: pchar)"
    if "k \<le> 24" for k and x :: "64 word"
    using that by (intro bit_word_eqI) (auto simp: bit_simps add_ac)
  moreover have "ucast (ucast x :: puint32) = (ucast x :: pchar)" for x :: "64 word"
    by (intro bit_word_eqI) (auto simp: bit_simps)
  ultimately show ?thesis
    unfolding rfc_length_def W low high word_bytes_def by (simp add: upt_rec)
qed

text \<open>The padding that \<^verbatim>\<open>finish\<close> feeds to \<^verbatim>\<open>update\<close> leaves room for the length in the last block.\<close>

definition md5_last :: "nat \<Rightarrow> nat" where
  "md5_last left = (if left < 56 then 56 - left else 120 - left)"

lemma md5_last_bounds:
  assumes "left < 64"
  shows "0 < md5_last left" "md5_last left \<le> 64" "md5_last left - 1 = (119 - left) mod 64"
    "(left + md5_last left) mod 64 = 56"
  using assms by (cases "left < 56"; simp add: md5_last_def le_mod_geq)+

lemma rfc_pad_last:
  fixes msg :: "pchar list"
  defines "final \<equiv> take (md5_last (length msg mod 64)) pp_crypto_hash_md5_pad"
  shows "rfc_pad msg = (msg @ final) @ rfc_length msg" "length (msg @ final) mod 64 = 56"
    "length final < 2 ^ 32"
proof -
  note last = md5_last_bounds [of "length msg mod 64"]
  have "final = 0x80 # replicate ((119 - length msg mod 64) mod 64) 0"
    using last unfolding final_def
    by (cases "md5_last (length msg mod 64)") (simp_all add: pp_crypto_hash_md5_pad_def)
  then show "rfc_pad msg = (msg @ final) @ rfc_length msg"
    by (simp add: rfc_pad_def)
  have "length final = md5_last (length msg mod 64)"
    using last by (simp add: final_def pp_crypto_hash_md5_pad_def)
  moreover have "(length msg + md5_last (length msg mod 64)) mod 64 = 56"
    using last(4) by (simp add: mod_simps)
  ultimately show "length (msg @ final) mod 64 = 56" "length final < 2 ^ 32"
    using last(2) by simp_all
qed

lemma rfc_blocks_last:
  assumes "length xs mod 64 = 56" "length ys = 8"
  shows "rfc_blocks st (xs @ ys) = rfc_compress (rfc_blocks st xs) (leftover xs @ ys)"
proof -
  obtain full where full: "xs = full @ leftover xs" "64 dvd length full" "rfc_blocks st xs = rfc_blocks st full"
    using message_split by blast
  have "rfc_blocks st (xs @ ys) = rfc_blocks (rfc_blocks st xs) (leftover xs @ ys)"
    by (subst full(1)) (simp add: rfc_blocks_append full(2,3))
  also have "\<dots> = rfc_compress (rfc_blocks st xs) (leftover xs @ ys)"
    using assms by (subst rfc_blocks.simps) (simp add: rfc_blocks_short)
  finally show ?thesis .
qed

theorem md5_finish_digest:
  assumes "md5_represents ctx msg"
  shows "\<exists>ctx'. p_crypto_hash_md5_finish ctx = Inr ctx' \<and> p_crypto_hash_md5_digest ctx' = rfc_md5 msg"
proof -
  let ?final = "take (md5_last (length msg mod 64)) pp_crypto_hash_md5_pad"
  let ?blk = "leftover (msg @ ?final) @ rfc_length msg"
  obtain c where c: "p_crypto_hash_md5_update ctx ?final = Inr c" "md5_represents c (msg @ ?final)"
    using md5_update_represents [OF assms rfc_pad_last(3)] by blast
  then have tail: "take 56 (md5_buf c) = leftover (msg @ ?final)" "length (md5_buf c) = 64"
    and h: "md5_hash c = state_words (rfc_blocks rfc_initial (msg @ ?final))"
    using rfc_pad_last(2) [of msg] by (simp_all add: md5_represents_def md5_holds_def)
  have result: "rfc_blocks rfc_initial (rfc_pad msg) = rfc_compress (rfc_blocks rfc_initial (msg @ ?final)) ?blk"
    unfolding rfc_pad_last(1) by (rule rfc_blocks_last [OF rfc_pad_last(2)]) (simp add: rfc_length_def)
  have left: "unat (len_low ctx AND 0x3F) = length msg mod 64" "length msg mod 64 < 64"
    using assms by (simp_all add: md5_represents_def md5_left)
  have buf: "take 56 (md5_buf c) @ word_bytes (push_bit 3 (len_low ctx))
      @ word_bytes (push_bit 3 (len_high ctx) OR drop_bit 29 (len_low ctx)) @ drop 64 (md5_buf c) = ?blk"
    using tail md5_length_words [of ctx msg] assms by (simp add: md5_represents_def)
  have "p_crypto_hash_md5_finish ctx = Inr (pp_crypto_hash_md5_process (buf_w ?blk) (c\<lparr>md5_buf := ?blk\<rparr>))"
    unfolding p_crypto_hash_md5_finish_def Let_def left(1) md5_last_def [symmetric]
    using c(1) md5_last_bounds(1) [OF left(2)] by (simp add: buf)
  then show ?thesis
    using h by (simp add: md5_process_rfc p_crypto_hash_md5_digest_def rfc_md5_def result)
qed

lemma md5_reset_represents: "md5_represents (p_crypto_hash_md5_reset ctx) []"
  by (simp add: p_crypto_hash_md5_reset_def md5_represents_def md5_holds_def md5_counts_def leftover_def
      rfc_blocks_short rfc_initial_def)

lemma length_rfc_md5: "length (rfc_md5 msg) = 16"
  by (cases "rfc_blocks rfc_initial (rfc_pad msg)") (simp add: rfc_md5_def word_bytes_def)

text \<open>
  A single call with 4 GiB of data leaves the count of the length as it was, since \<^verbatim>\<open>(puint32) len\<close>
  drops the upper half of the length: that is why \<open>md5_update_represents\<close> bounds the pieces.
\<close>

lemma md5_update_huge_not_counted:
  assumes "length data = 2 ^ 32" "p_crypto_hash_md5_update ctx data = Inr ctx'" "md5_holds ctx h []"
    "len_low ctx AND 0x3F = 0"
  shows "same_length ctx ctx'"
proof -
  have "(of_nat (length data) :: puint32) = 0"
    unfolding assms(1) by (simp add: word_unat_eq_iff unat_of_nat)
  then have "md5_update_rest ctx data 0 = Inr ctx'"
    using assms(2,4) by (simp add: p_crypto_hash_md5_update_def)
  then show ?thesis
    using md5_update_rest_empty [OF assms(3), of data] by auto
qed

end
