(* ===== verification/TC_Crypto_Hash.thy ===== *)
theory TC_Crypto_Hash
  imports TC_MD5 TC_Heartbeat
begin

text \<open>
  The hash interface of plibsys, \<^verbatim>\<open>plibsys-master/src/pcryptohash.c\<close>: an object that dispatches to
  the functions of one hash through pointers, is closed by the first request for the result, and
  prints it in hexadecimal. The locale \<open>stream_hash\<close> states what a hash behind it promises; MD5 is
  an instance, and the authentication of the server its client.

  A NULL pointer is \<open>None\<close>. The functions of the other ten hashes are a parameter of
  \<^verbatim>\<open>p_crypto_hash_new\<close>, and whether an allocation succeeds is an argument.
\<close>

section \<open>The hash object\<close>

record 'c hash_funcs =
  fn_create :: "bool \<Rightarrow> 'c option"
  fn_update :: "'c \<Rightarrow> pchar list \<Rightarrow> 'c outcome"
  fn_finish :: "'c \<Rightarrow> 'c outcome"
  fn_digest :: "'c \<Rightarrow> pchar list option"
  fn_reset :: "'c \<Rightarrow> 'c"

record 'c PCryptoHash =
  hash_type :: int
  hash_context :: 'c
  hash_len :: nat
  hash_closed :: bool
  hash_fns :: "'c hash_funcs"

definition P_CRYPTO_HASH_TYPE_MD5 :: int where "P_CRYPTO_HASH_TYPE_MD5 = 0"
definition P_CRYPTO_HASH_TYPE_GOST :: int where "P_CRYPTO_HASH_TYPE_GOST = 10"

definition pp_crypto_hash_hex_str :: cstring where
  "pp_crypto_hash_hex_str = bytes_of ''0123456789abcdef''"

definition pp_crypto_hash_digest_to_hex :: "pchar list \<Rightarrow> nat \<Rightarrow> cstring" where
  "pp_crypto_hash_digest_to_hex digest len =
     concat (map (\<lambda>i. [pp_crypto_hash_hex_str ! unat (drop_bit 4 (digest ! i) AND 0x0F),
                       pp_crypto_hash_hex_str ! unat (digest ! i AND 0x0F)]) [0..<len])"

text \<open>The lengths that the \<^verbatim>\<open>switch\<close> sets, by the number of the type.\<close>

definition hash_type_len :: "int \<Rightarrow> nat" where
  "hash_type_len type = [16, 20, 28, 32, 48, 64, 28, 32, 48, 64, 32] ! nat type"

definition p_crypto_hash_new ::
    "(int \<Rightarrow> 'c hash_funcs) \<Rightarrow> bool \<Rightarrow> bool \<Rightarrow> int \<Rightarrow> 'c PCryptoHash option" where
  "p_crypto_hash_new funcs malloc_ok context_ok type =
     (if \<not> (P_CRYPTO_HASH_TYPE_MD5 \<le> type \<and> type \<le> P_CRYPTO_HASH_TYPE_GOST) then None
      else if \<not> malloc_ok then None
      else case fn_create (funcs type) context_ok of
             None \<Rightarrow> None
           | Some ctx \<Rightarrow> Some \<lparr>hash_type = type, hash_context = ctx, hash_len = hash_type_len type,
                             hash_closed = False, hash_fns = funcs type\<rparr>)"

definition p_crypto_hash_update ::
    "'c PCryptoHash option \<Rightarrow> pchar list option \<Rightarrow> 'c PCryptoHash option outcome" where
  "p_crypto_hash_update hash data =
     (case (hash, data) of
        (Some h, Some d) \<Rightarrow>
          if d = [] then Inr hash
          else if hash_closed h then Inr hash
          else (case fn_update (hash_fns h) (hash_context h) d of
                  Inl f \<Rightarrow> Inl f
                | Inr ctx \<Rightarrow> Inr (Some (h\<lparr>hash_context := ctx\<rparr>)))
      | _ \<Rightarrow> Inr hash)"

definition p_crypto_hash_reset :: "'c PCryptoHash option \<Rightarrow> 'c PCryptoHash option" where
  "p_crypto_hash_reset hash =
     (case hash of
        None \<Rightarrow> None
      | Some h \<Rightarrow> Some (h\<lparr>hash_context := fn_reset (hash_fns h) (hash_context h), hash_closed := False\<rparr>))"

text \<open>\<^verbatim>\<open>if (!hash->closed) { finish; closed = TRUE; }\<close>, which both requests for the result begin with.\<close>

definition hash_close :: "'c PCryptoHash \<Rightarrow> 'c PCryptoHash outcome" where
  "hash_close h =
     (if hash_closed h then Inr h
      else case fn_finish (hash_fns h) (hash_context h) of
             Inl f \<Rightarrow> Inl f
           | Inr ctx \<Rightarrow> Inr (h\<lparr>hash_context := ctx, hash_closed := True\<rparr>))"

definition p_crypto_hash_get_string ::
    "bool \<Rightarrow> 'c PCryptoHash option \<Rightarrow> (cstring option \<times> 'c PCryptoHash option) outcome" where
  "p_crypto_hash_get_string malloc_ok hash =
     (case hash of
        None \<Rightarrow> Inr (None, None)
      | Some h \<Rightarrow>
          (case hash_close h of
             Inl f \<Rightarrow> Inl f
           | Inr h \<Rightarrow>
               (case fn_digest (hash_fns h) (hash_context h) of
                  None \<Rightarrow> Inr (None, Some h)
                | Some digest \<Rightarrow>
                    if \<not> malloc_ok then Inr (None, Some h)
                    else if length digest < hash_len h then Inl OutOfBounds
                    else Inr (Some (pp_crypto_hash_digest_to_hex digest (hash_len h)), Some h))))"

text \<open>
  \<^verbatim>\<open>p_crypto_hash_get_digest\<close> with the content of the caller's buffer (\<open>None\<close> for NULL) and \<^verbatim>\<open>*len\<close>
  (\<open>None\<close> when \<^verbatim>\<open>len\<close> is NULL); the result has both as they are afterwards.
\<close>

definition p_crypto_hash_get_digest ::
    "'c PCryptoHash option \<Rightarrow> pchar list option \<Rightarrow> nat option
     \<Rightarrow> (pchar list option \<times> nat option \<times> 'c PCryptoHash option) outcome" where
  "p_crypto_hash_get_digest hash buf len =
     (case len of
        None \<Rightarrow> Inr (buf, None, hash)
      | Some n \<Rightarrow>
          (case (hash, buf) of
             (Some h, Some b) \<Rightarrow>
               if n < hash_len h then Inr (buf, Some 0, hash)
               else (case hash_close h of
                       Inl f \<Rightarrow> Inl f
                     | Inr h \<Rightarrow>
                         (case fn_digest (hash_fns h) (hash_context h) of
                            None \<Rightarrow> Inr (buf, Some 0, Some h)
                          | Some digest \<Rightarrow>
                              if length digest < hash_len h then Inl OutOfBounds
                              else (case memcpy_at b 0 (take (hash_len h) digest) of
                                      Inl f \<Rightarrow> Inl f
                                    | Inr b \<Rightarrow> Inr (Some b, Some (hash_len h), Some h))))
           | _ \<Rightarrow> Inr (buf, Some 0, hash)))"

definition p_crypto_hash_get_length :: "'c PCryptoHash option \<Rightarrow> nat" where
  "p_crypto_hash_get_length hash = (case hash of None \<Rightarrow> 0 | Some h \<Rightarrow> hash_len h)"

definition p_crypto_hash_get_type :: "'c PCryptoHash option \<Rightarrow> int" where
  "p_crypto_hash_get_type hash = (case hash of None \<Rightarrow> - 1 | Some h \<Rightarrow> hash_type h)"

section \<open>Sequences of calls\<close>

datatype hash_call = Hash_Update "pchar list" | Hash_String | Hash_Digest | Hash_Reset

text \<open>
  The calls of a program on one object, with all allocations succeeding and a buffer large enough
  for \<open>Hash_Digest\<close>, and what they return.
\<close>

datatype hash_reply = Done | A_String cstring | A_Digest "pchar list" | No_Reply

fun do_call :: "hash_call \<Rightarrow> 'c PCryptoHash option \<Rightarrow> (hash_reply \<times> 'c PCryptoHash option) outcome" where
  "do_call (Hash_Update d) h = (case p_crypto_hash_update h (Some d) of Inl f \<Rightarrow> Inl f | Inr h \<Rightarrow> Inr (Done, h))"
| "do_call Hash_Reset h = Inr (Done, p_crypto_hash_reset h)"
| "do_call Hash_String h =
     (case p_crypto_hash_get_string True h of
        Inl f \<Rightarrow> Inl f
      | Inr (s, h) \<Rightarrow> Inr (case s of None \<Rightarrow> No_Reply | Some s \<Rightarrow> A_String s, h))"
| "do_call Hash_Digest h =
     (let n = p_crypto_hash_get_length h
      in case p_crypto_hash_get_digest h (Some (replicate n 0)) (Some n) of
           Inl f \<Rightarrow> Inl f
         | Inr (b, m, h) \<Rightarrow> Inr (case (b, m) of (Some b, Some m) \<Rightarrow> A_Digest (take m b) | _ \<Rightarrow> No_Reply, h))"

fun hash_calls ::
    "hash_call list \<Rightarrow> 'c PCryptoHash option \<Rightarrow> (hash_reply list \<times> 'c PCryptoHash option) outcome" where
  "hash_calls [] h = Inr ([], h)"
| "hash_calls (c # cs) h =
     (case do_call c h of
        Inl f \<Rightarrow> Inl f
      | Inr (r, h) \<Rightarrow> (case hash_calls cs h of Inl f \<Rightarrow> Inl f | Inr (rs, h) \<Rightarrow> Inr (r # rs, h)))"

text \<open>
  The specification: the object is the message so far and whether it is closed. Data that comes
  after the first request for the result is ignored until the next reset.
\<close>

fun spec_call :: "(pchar list \<Rightarrow> pchar list) \<Rightarrow> hash_call \<Rightarrow> pchar list \<times> bool \<Rightarrow> hash_reply \<times> pchar list \<times> bool" where
  "spec_call H (Hash_Update d) (msg, closed) = (Done, if closed then msg else msg @ d, closed)"
| "spec_call H Hash_Reset (msg, closed) = (Done, [], False)"
| "spec_call H Hash_String (msg, closed) = (A_String (pp_crypto_hash_digest_to_hex (H msg) (length (H msg))), msg, True)"
| "spec_call H Hash_Digest (msg, closed) = (A_Digest (H msg), msg, True)"

fun spec_calls :: "(pchar list \<Rightarrow> pchar list) \<Rightarrow> hash_call list \<Rightarrow> pchar list \<times> bool \<Rightarrow> hash_reply list" where
  "spec_calls H [] s = []"
| "spec_calls H (c # cs) s = fst (spec_call H c s) # spec_calls H cs (snd (spec_call H c s))"

definition small_call :: "hash_call \<Rightarrow> bool" where
  "small_call c = (case c of Hash_Update d \<Rightarrow> length d < 2 ^ 32 | _ \<Rightarrow> True)"

section \<open>What a hash promises, and what the object then does\<close>

locale stream_hash =
  fixes funcs :: "'c hash_funcs"
    and represents :: "'c \<Rightarrow> pchar list \<Rightarrow> bool"
    and H :: "pchar list \<Rightarrow> pchar list"
    and len :: nat
  assumes create_represents: "fn_create funcs True = Some c \<Longrightarrow> represents c []"
    and create_some: "fn_create funcs True \<noteq> None"
    and reset_represents: "represents (fn_reset funcs c) []"
    and update_represents: "represents c msg \<Longrightarrow> length d < 2 ^ 32
      \<Longrightarrow> \<exists>c'. fn_update funcs c d = Inr c' \<and> represents c' (msg @ d)"
    and finish_digest: "represents c msg \<Longrightarrow> \<exists>c'. fn_finish funcs c = Inr c' \<and> fn_digest funcs c' = Some (H msg)"
    and length_digest: "length (H msg) = len"
begin

definition hashing :: "'c PCryptoHash option \<Rightarrow> pchar list \<times> bool \<Rightarrow> bool" where
  "hashing hash s \<longleftrightarrow>
     (\<exists>h. hash = Some h \<and> hash_fns h = funcs \<and> hash_len h = len \<and> hash_closed h = snd s
        \<and> (if snd s then fn_digest funcs (hash_context h) = Some (H (fst s)) else represents (hash_context h) (fst s)))"

lemma new_hashing:
  assumes "0 \<le> type" "type \<le> 10" "fs type = funcs" "hash_type_len type = len"
  shows "hashing (p_crypto_hash_new fs True True type) ([], False)"
  using assms create_some create_represents
  by (auto simp: hashing_def p_crypto_hash_new_def P_CRYPTO_HASH_TYPE_MD5_def P_CRYPTO_HASH_TYPE_GOST_def
      split: option.split)

lemma reset_hashing: "hashing h s \<Longrightarrow> hashing (p_crypto_hash_reset h) ([], False)"
  using reset_represents by (clarsimp simp: hashing_def p_crypto_hash_reset_def)

lemma update_hashing:
  assumes "hashing h (msg, closed)" "length d < 2 ^ 32"
  shows "\<exists>h'. p_crypto_hash_update h (Some d) = Inr h' \<and> hashing h' (if closed then msg else msg @ d, closed)"
proof (cases "d = [] \<or> closed")
  case True
  then show ?thesis
    using assms(1) by (auto simp: hashing_def p_crypto_hash_update_def)
next
  case False
  then obtain g where g: "h = Some g" "hash_fns g = funcs" "hash_len g = len" "\<not> hash_closed g"
      "represents (hash_context g) msg"
    using assms(1) by (auto simp: hashing_def)
  obtain c where "fn_update funcs (hash_context g) d = Inr c" "represents c (msg @ d)"
    using update_represents [OF g(5) assms(2)] by blast
  then show ?thesis
    using False g by (simp add: hashing_def p_crypto_hash_update_def)
qed

lemma close_hashing:
  assumes "hashing (Some h) (msg, closed)"
  shows "\<exists>h'. hash_close h = Inr h' \<and> hashing (Some h') (msg, True)"
  using assms finish_digest [of "hash_context h" msg]
  by (cases closed) (auto simp: hashing_def hash_close_def)

lemma get_string_hashing:
  assumes "hashing h (msg, closed)"
  shows "\<exists>h'. p_crypto_hash_get_string True h = Inr (Some (pp_crypto_hash_digest_to_hex (H msg) len), h')
    \<and> hashing h' (msg, True)"
proof -
  obtain g g' where "h = Some g" "hash_close g = Inr g'" "hashing (Some g') (msg, True)"
    using assms close_hashing [of _ msg closed] by (metis hashing_def)
  then show ?thesis
    by (auto simp: hashing_def p_crypto_hash_get_string_def length_digest)
qed

lemma get_digest_hashing:
  assumes "hashing h (msg, closed)" "len \<le> length b"
  shows "\<exists>h'. p_crypto_hash_get_digest h (Some b) (Some (length b)) = Inr (Some (H msg @ drop len b), Some len, h')
    \<and> hashing h' (msg, True)"
proof -
  obtain g g' where "h = Some g" "hash_len g = len" "hash_close g = Inr g'" "hashing (Some g') (msg, True)"
    using assms(1) close_hashing [of _ msg closed] by (metis hashing_def option.sel)
  then show ?thesis
    using assms(2) by (auto simp: hashing_def p_crypto_hash_get_digest_def length_digest memcpy_at_fits)
qed

lemma call_refines:
  assumes "hashing h s" "small_call c"
  shows "\<exists>h'. do_call c h = Inr (fst (spec_call H c s), h') \<and> hashing h' (snd (spec_call H c s))"
proof (cases c)
  case (Hash_Update d)
  then show ?thesis
    using assms update_hashing [of h "fst s" "snd s" d] by (cases s) (auto simp: small_call_def)
next
  case Hash_String
  then show ?thesis
    using assms get_string_hashing [of h "fst s" "snd s"] by (cases s) (auto simp: length_digest)
next
  case Hash_Digest
  have "p_crypto_hash_get_length h = len"
    using assms(1) by (auto simp: hashing_def p_crypto_hash_get_length_def)
  then show ?thesis
    using assms get_digest_hashing [of h "fst s" "snd s" "replicate len 0"] Hash_Digest
    by (cases s) (auto simp: length_digest)
next
  case Hash_Reset
  then show ?thesis
    using assms reset_hashing [of h s] by (cases s) simp
qed

theorem calls_refine:
  assumes "hashing h s" "list_all small_call cs"
  shows "\<exists>h'. hash_calls cs h = Inr (spec_calls H cs s, h')"
  using assms
proof (induction cs arbitrary: h s)
  case (Cons c cs)
  obtain h' where h': "do_call c h = Inr (fst (spec_call H c s), h')" "hashing h' (snd (spec_call H c s))"
    using call_refines [OF Cons.prems(1)] Cons.prems(2) by auto
  then show ?case
    using Cons.IH [OF h'(2)] Cons.prems(2) by auto
qed simp

end

section \<open>MD5 behind the interface\<close>

definition md5_funcs :: "PHashMD5 hash_funcs" where
  "md5_funcs = \<lparr>fn_create = p_crypto_hash_md5_new, fn_update = p_crypto_hash_md5_update,
     fn_finish = p_crypto_hash_md5_finish, fn_digest = Some \<circ> p_crypto_hash_md5_digest,
     fn_reset = p_crypto_hash_md5_reset\<rparr>"

interpretation md5: stream_hash md5_funcs md5_represents rfc_md5 16
proof
  show "\<And>c msg. md5_represents c msg
    \<Longrightarrow> \<exists>c'. fn_finish md5_funcs c = Inr c' \<and> fn_digest md5_funcs c' = Some (rfc_md5 msg)"
    using md5_finish_digest by (simp add: md5_funcs_def)
qed (auto simp: md5_funcs_def p_crypto_hash_md5_new_def md5_reset_represents md5_update_represents length_rfc_md5)

text \<open>The hexadecimal form has two digits for each byte, and no NUL.\<close>

lemma hex_digits:
  "length (pp_crypto_hash_digest_to_hex digest n) = 2 * n" "0 \<notin> set (pp_crypto_hash_digest_to_hex digest n)"
proof -
  show "length (pp_crypto_hash_digest_to_hex digest n) = 2 * n"
    by (simp add: pp_crypto_hash_digest_to_hex_def length_concat comp_def sum_list_triv)
  have mask: "unat (w AND 0x0F) < 16" for w :: pchar
    using word_and_le1 [of w "0x0F"] by (simp add: word_le_nat_alt)
  have "\<forall>k < 16. pp_crypto_hash_hex_str ! k \<noteq> 0"
    unfolding pp_crypto_hash_hex_str_def by code_simp
  then show "0 \<notin> set (pp_crypto_hash_digest_to_hex digest n)"
    using mask by (fastforce simp: pp_crypto_hash_digest_to_hex_def)
qed

definition md5_string :: "pchar list \<Rightarrow> cstring" where
  "md5_string msg = pp_crypto_hash_digest_to_hex (rfc_md5 msg) 16"

section \<open>The hash of a player's key\<close>

text \<open>
  The calls with which \<^verbatim>\<open>tc_heartbeat_manager_validate\<close> hashes the salt of a service and the
  username: \<open>None\<close> when the object or the string cannot be allocated.
\<close>

definition heartbeat_key_hash ::
    "(int \<Rightarrow> 'c hash_funcs) \<Rightarrow> bool \<Rightarrow> bool \<Rightarrow> bool \<Rightarrow> cstring \<Rightarrow> cstring \<Rightarrow> cstring option outcome" where
  "heartbeat_key_hash fs malloc_ok context_ok string_ok salt name =
     (case p_crypto_hash_new fs malloc_ok context_ok P_CRYPTO_HASH_TYPE_MD5 of
        None \<Rightarrow> Inr None
      | Some md5 \<Rightarrow>
          (case p_crypto_hash_update (Some md5) (Some salt) of
             Inl f \<Rightarrow> Inl f
           | Inr md5 \<Rightarrow>
               (case p_crypto_hash_update md5 (Some name) of
                  Inl f \<Rightarrow> Inl f
                | Inr md5 \<Rightarrow> map_sum id fst (p_crypto_hash_get_string string_ok md5))))"

definition plibsys_md5 :: "(cstring \<Rightarrow> bool) \<Rightarrow> cstring \<Rightarrow> cstring option" where
  "plibsys_md5 memory msg = (if memory msg then Some (md5_string msg) else None)"

lemma plibsys_md5_hex: "md5_hex (plibsys_md5 memory)"
  by (simp add: md5_hex_def plibsys_md5_def md5_string_def hex_digits)

lemma get_string_no_memory:
  "md5.hashing h s \<Longrightarrow> map_sum id fst (p_crypto_hash_get_string False h) = Inr None"
  using md5.close_hashing [of _ "fst s" "snd s"]
  by (fastforce simp: md5.hashing_def p_crypto_hash_get_string_def md5_funcs_def split: option.split)

lemma new_no_memory:
  assumes "fs 0 = md5_funcs" "\<not> (malloc_ok \<and> context_ok)"
  shows "p_crypto_hash_new fs malloc_ok context_ok P_CRYPTO_HASH_TYPE_MD5 = None"
  using assms by (auto simp: p_crypto_hash_new_def P_CRYPTO_HASH_TYPE_MD5_def P_CRYPTO_HASH_TYPE_GOST_def
      md5_funcs_def p_crypto_hash_md5_new_def)

lemma heartbeat_key_hash_md5:
  assumes "fs 0 = md5_funcs" "length salt < 2 ^ 32" "length name < 2 ^ 32"
  shows "heartbeat_key_hash fs malloc_ok context_ok string_ok salt name
    = Inr (plibsys_md5 (\<lambda>_. malloc_ok \<and> context_ok \<and> string_ok) (salt @ name))"
proof (cases "malloc_ok \<and> context_ok")
  case True
  obtain h where h: "p_crypto_hash_new fs True True P_CRYPTO_HASH_TYPE_MD5 = Some h"
      "md5.hashing (Some h) ([], False)"
    using md5.new_hashing [of 0 fs] assms(1)
    by (auto simp: md5.hashing_def P_CRYPTO_HASH_TYPE_MD5_def hash_type_len_def)
  obtain h1 where h1: "p_crypto_hash_update (Some h) (Some salt) = Inr h1" "md5.hashing h1 (salt, False)"
    using md5.update_hashing [OF h(2) assms(2)] by auto
  obtain h2 where h2: "p_crypto_hash_update h1 (Some name) = Inr h2" "md5.hashing h2 (salt @ name, False)"
    using md5.update_hashing [OF h1(2) assms(3)] by auto
  show ?thesis
    using True h(1) h1(1) h2 md5.get_string_hashing [OF h2(2)] get_string_no_memory [OF h2(2)]
    by (cases string_ok) (auto simp: heartbeat_key_hash_def plibsys_md5_def md5_string_def)
next
  case False
  then show ?thesis
    using new_no_memory [where fs = fs] assms(1) by (auto simp: heartbeat_key_hash_def plibsys_md5_def)
qed

section \<open>Properties\<close>

text \<open>
  [C35] The MD5 object of plibsys is MD5: for every sequence of calls on a new object, data in pieces
  of any length below 4 GiB, requests for the result in between and resets, the code runs without an
  access outside its buffers and every call returns what the specification says, where the
  result is the MD5 of RFC 1321 of the data since the last reset and up to the first request.
\<close>

theorem md5_object_refines:
  assumes "fs P_CRYPTO_HASH_TYPE_MD5 = md5_funcs" and "list_all small_call cs"
  shows "\<exists>h. hash_calls cs (p_crypto_hash_new fs True True P_CRYPTO_HASH_TYPE_MD5)
    = Inr (spec_calls rfc_md5 cs ([], False), h)"
  using md5.calls_refine [OF md5.new_hashing assms(2), of P_CRYPTO_HASH_TYPE_MD5 fs] assms(1)
  by (auto simp: P_CRYPTO_HASH_TYPE_MD5_def hash_type_len_def)

definition sample_calls :: "hash_call list" where
  "sample_calls = [Hash_Update (bytes_of ''a''), Hash_Update (bytes_of ''bc''), Hash_String,
     Hash_Update (bytes_of ''abc''), Hash_String]"

text \<open>The test vector of plibsys, by running the code in the kernel.\<close>

definition md5_compute :: "pchar list \<Rightarrow> pchar list outcome" where
  "md5_compute msg =
     (case p_crypto_hash_md5_update (the (p_crypto_hash_md5_new True)) msg of
        Inl f \<Rightarrow> Inl f
      | Inr ctx \<Rightarrow> map_sum id p_crypto_hash_md5_digest (p_crypto_hash_md5_finish ctx))"

lemma md5_compute_rfc: "length msg < 2 ^ 32 \<Longrightarrow> md5_compute msg = Inr (rfc_md5 msg)"
proof -
  assume "length msg < 2 ^ 32"
  then obtain c where c: "p_crypto_hash_md5_update (the (p_crypto_hash_md5_new True)) msg = Inr c" "md5_represents c msg"
    using md5_update_represents [OF md5_reset_represents, of msg] by (auto simp: p_crypto_hash_md5_new_def)
  then show ?thesis
    using md5_finish_digest [OF c(2)] by (auto simp: md5_compute_def)
qed

lemma rfc_md5_abc: "rfc_md5 (bytes_of ''abc'') = [144, 1, 80, 152, 60, 210, 79, 176, 214, 150, 63, 125, 40, 225, 127, 114]"
proof -
  have "md5_compute (bytes_of ''abc'') = Inr [144, 1, 80, 152, 60, 210, 79, 176, 214, 150, 63, 125, 40, 225, 127, 114]"
    by code_simp
  then show ?thesis
    by (simp add: md5_compute_rfc)
qed

lemma sample_calls_spec:
  "spec_calls rfc_md5 sample_calls ([], False) =
     [Done, Done, A_String (bytes_of ''900150983cd24fb0d6963f7d28e17f72''),
      Done, A_String (bytes_of ''900150983cd24fb0d6963f7d28e17f72'')]"
proof -
  have "bytes_of ''a'' @ bytes_of ''bc'' = bytes_of ''abc''"
    by (simp add: bytes_of_def)
  moreover have "pp_crypto_hash_digest_to_hex (rfc_md5 (bytes_of ''abc'')) 16 = bytes_of ''900150983cd24fb0d6963f7d28e17f72''"
    unfolding rfc_md5_abc by code_simp
  ultimately show ?thesis
    by (simp add: sample_calls_def length_rfc_md5)
qed

theorem md5_object_refines_witness:
  "\<exists>h. hash_calls sample_calls (p_crypto_hash_new (\<lambda>_. md5_funcs) True True P_CRYPTO_HASH_TYPE_MD5) =
     Inr ([Done, Done, A_String (bytes_of ''900150983cd24fb0d6963f7d28e17f72''),
           Done, A_String (bytes_of ''900150983cd24fb0d6963f7d28e17f72'')], h)"
  using md5_object_refines [of "\<lambda>_. md5_funcs" sample_calls]
  unfolding sample_calls_spec by (simp add: sample_calls_def small_call_def)

text \<open>
  A player is let in only with the MD5 that plibsys computes: when validation accepts a key
  for a service that is not the dummy, the first 32 characters of the key are the string that the
  calls of \<open>p_crypto_hash_new\<close>, \<open>p_crypto_hash_update\<close> and \<open>p_crypto_hash_get_string\<close> return for
  the salt of that service and the username, and that is the MD5 of RFC 1321 in hexadecimal.
\<close>

theorem authentication_is_md5:
  assumes "tc_heartbeat_manager_validate (plibsys_md5 memory) m (Some username) (Some key) = (Some i, m')"
    and "\<not> dummy_service (services m ! i)" and "length (current_salt (services m ! i)) < 2 ^ 32"
    and "fs 0 = md5_funcs"
  shows "heartbeat_key_hash fs True True True (current_salt (services m ! i)) (take 64 (c_str username))
      = Inr (Some (take 32 (c_str key)))
    \<and> take 32 (c_str key) = md5_string (current_salt (services m ! i) @ take 64 (c_str username))"
proof -
  let ?msg = "current_salt (services m ! i) @ take 64 (c_str username)"
  have "take 32 (c_str key) = md5_string ?msg"
    using validate_accepted [OF assms(1) plibsys_md5_hex] assms(2)
    by (auto simp: plibsys_md5_def hash_input_def md5_string_def hex_digits split: if_splits)
  then show ?thesis
    using heartbeat_key_hash_md5 [where fs = fs, OF assms(4,3), of "take 64 (c_str username)" True True True]
    by (simp add: plibsys_md5_def)
qed

definition sample_md5_key :: cstring where
  "sample_md5_key = bytes_of ''c8e511a2466dfd541c79639fe1c989e9'' @ replicate 32 0"

lemma sample_md5_string: "md5_string (current_salt sample_service @ bytes_of ''bob'') = take 32 sample_md5_key"
proof -
  have "md5_compute (current_salt sample_service @ bytes_of ''bob'') = Inr [200, 229, 17, 162, 70, 109, 253, 84, 28, 121, 99, 159, 225, 201, 137, 233]"
    by code_simp
  then have "rfc_md5 (current_salt sample_service @ bytes_of ''bob'') = [200, 229, 17, 162, 70, 109, 253, 84, 28, 121, 99, 159, 225, 201, 137, 233]"
    by (simp add: md5_compute_rfc sample_service_def)
  moreover have "pp_crypto_hash_digest_to_hex [200, 229, 17, 162, 70, 109, 253, 84, 28, 121, 99, 159, 225, 201, 137, 233] 16 = take 32 sample_md5_key"
    by code_simp
  ultimately show ?thesis
    by (simp add: md5_string_def)
qed

lemma sample_md5_accepted:
  "tc_heartbeat_manager_validate (plibsys_md5 (\<lambda>_. True)) sample_manager (Some (bytes_of ''bob'')) (Some sample_md5_key)
   = (Some 0, sample_manager\<lparr>auth_tree := [(take 32 sample_md5_key, 0)]\<rparr>)"
proof -
  have "take TC_PROTOCOL_MAX_STR_LEN (c_str (bytes_of ''bob'')) = bytes_of ''bob''"
    "strncmp (c_str sample_md5_key) (take 32 sample_md5_key) (length (take 32 sample_md5_key)) = 0"
    by code_simp+
  then show ?thesis
    using sample_md5_string
    by (simp add: tc_heartbeat_manager_validate_def sample_manager_def heartbeat_manager_init_def tree_lookup_def
        tree_insert_def plibsys_md5_def sample_service_def)
qed

theorem authentication_is_md5_witness:
  "heartbeat_key_hash (\<lambda>_. md5_funcs) True True True (current_salt (services sample_manager ! 0))
     (take 64 (c_str (bytes_of ''bob''))) = Inr (Some (take 32 (c_str sample_md5_key)))"
proof -
  have "\<not> dummy_service (services sample_manager ! 0)" "length (current_salt (services sample_manager ! 0)) < 2 ^ 32"
    by (simp_all add: sample_manager_def heartbeat_manager_init_def sample_service_def)
  then show ?thesis
    using authentication_is_md5 [OF sample_md5_accepted, of "\<lambda>_. md5_funcs"] by simp
qed

end
