(* ===== verification/TC_PTree.thy ===== *)
theory TC_PTree
  imports TC_AVL TC_RB TC_BST TC_Crypto_Hash "HOL-Library.Multiset"
begin

text \<open>
  The tree container of plibsys, \<^verbatim>\<open>plibsys-master/src/ptree.c\<close>, with the three kinds of tree behind it, and
  the authentication of the server on top of it: the keys that were used are in an AVL tree, ordered
  by \<open>tc_string_compare\<close>, and \<open>TC_Heartbeat\<close> sees it as an association list.

  The table of the functions of each kind is a parameter of \<^verbatim>\<open>p_tree_new_full\<close>; the locale \<open>tree_kind\<close>
  states what a kind promises, and each kind is an instance. The destroy functions are seen as the list of what was
  given to them, and a value is never NULL.
\<close>

section \<open>The container\<close>

record ('k, 'v, 'm) tree_funcs =
  insert_node :: "bool \<Rightarrow> ('k \<Rightarrow> 'k \<Rightarrow> int) \<Rightarrow> bool \<Rightarrow> bool \<Rightarrow> 'k \<Rightarrow> 'v \<Rightarrow> ('k, 'v, 'm) tree_node \<Rightarrow> ('k, 'v, 'm) tree_result outcome"
  remove_node :: "('k \<Rightarrow> 'k \<Rightarrow> int) \<Rightarrow> bool \<Rightarrow> bool \<Rightarrow> 'k \<Rightarrow> ('k, 'v, 'm) tree_node \<Rightarrow> ('k, 'v, 'm) tree_result outcome"

record ('k, 'v, 'm) PTree =
  tree_root :: "('k, 'v, 'm) tree_node"
  node_funcs :: "('k, 'v, 'm) tree_funcs"
  key_destroy :: bool
  value_destroy :: bool
  compare_func :: "'k \<Rightarrow> 'k \<Rightarrow> int"
  tree_type :: int
  nnodes :: pint32

definition P_TREE_TYPE_BINARY :: int where "P_TREE_TYPE_BINARY = 0"
definition P_TREE_TYPE_RB :: int where "P_TREE_TYPE_RB = 1"
definition P_TREE_TYPE_AVL :: int where "P_TREE_TYPE_AVL = 2"

definition p_tree_new_full ::
    "(int \<Rightarrow> ('k, 'v, 'm) tree_funcs) \<Rightarrow> bool \<Rightarrow> int \<Rightarrow> ('k \<Rightarrow> 'k \<Rightarrow> int) option \<Rightarrow> bool \<Rightarrow> bool \<Rightarrow> ('k, 'v, 'm) PTree option" where
  "p_tree_new_full funcs malloc_ok type func kd vd =
     (if \<not> (P_TREE_TYPE_BINARY \<le> type \<and> type \<le> P_TREE_TYPE_AVL) then None
      else case func of
             None \<Rightarrow> None
           | Some cmp \<Rightarrow>
               if \<not> malloc_ok then None
               else Some \<lparr>tree_root = NULL, node_funcs = funcs type, key_destroy = kd, value_destroy = vd,
                          compare_func = cmp, tree_type = type, nnodes = 0\<rparr>)"

definition p_tree_new ::
    "(int \<Rightarrow> ('k, 'v, 'm) tree_funcs) \<Rightarrow> bool \<Rightarrow> int \<Rightarrow> ('k \<Rightarrow> 'k \<Rightarrow> int) option \<Rightarrow> ('k, 'v, 'm) PTree option" where
  "p_tree_new funcs malloc_ok type func = p_tree_new_full funcs malloc_ok type func False False"

text \<open>The operations return the keys and values that were given to the destroy functions.\<close>

definition p_tree_insert ::
    "bool \<Rightarrow> ('k, 'v, 'm) PTree option \<Rightarrow> 'k \<Rightarrow> 'v \<Rightarrow> (('k, 'v, 'm) PTree option \<times> 'k list \<times> 'v list) outcome" where
  "p_tree_insert malloc_ok tree key val =
     (case tree of
        None \<Rightarrow> Inr (None, [], [])
      | Some t \<Rightarrow>
          (case insert_node (node_funcs t) malloc_ok (compare_func t) (key_destroy t) (value_destroy t) key val (tree_root t) of
             Inl f \<Rightarrow> Inl f
           | Inr res \<Rightarrow>
               Inr (Some (t\<lparr>tree_root := res_root res, nnodes := (if res_ok res then nnodes t + 1 else nnodes t)\<rparr>),
                    res_keys res, res_values res)))"

definition p_tree_remove ::
    "('k, 'v, 'm) PTree option \<Rightarrow> 'k \<Rightarrow> (bool \<times> ('k, 'v, 'm) PTree option \<times> 'k list \<times> 'v list) outcome" where
  "p_tree_remove tree key =
     (case tree of
        None \<Rightarrow> Inr (False, None, [], [])
      | Some t \<Rightarrow>
          if tree_root t = NULL then Inr (False, tree, [], [])
          else (case remove_node (node_funcs t) (compare_func t) (key_destroy t) (value_destroy t) key (tree_root t) of
                  Inl f \<Rightarrow> Inl f
                | Inr res \<Rightarrow>
                    Inr (res_ok res,
                         Some (t\<lparr>tree_root := res_root res, nnodes := (if res_ok res then nnodes t - 1 else nnodes t)\<rparr>),
                         res_keys res, res_values res)))"

text \<open>The loop of \<^verbatim>\<open>p_tree_lookup\<close>, from a node down.\<close>

fun lookup_from :: "('k \<Rightarrow> 'k \<Rightarrow> int) \<Rightarrow> 'k \<Rightarrow> ('k, 'v, 'm) tree_node \<Rightarrow> 'v option" where
  "lookup_from cmp key NULL = None"
| "lookup_from cmp key (PTreeBaseNode l k v b r) =
     (let cmp_result = cmp key k
      in if cmp_result < 0 then lookup_from cmp key l
         else if cmp_result > 0 then lookup_from cmp key r
         else Some v)"

definition p_tree_lookup :: "('k, 'v, 'm) PTree option \<Rightarrow> 'k \<Rightarrow> 'v option" where
  "p_tree_lookup tree key = (case tree of None \<Rightarrow> None | Some t \<Rightarrow> lookup_from (compare_func t) key (tree_root t))"

text \<open>
  The loop of \<^verbatim>\<open>p_tree_clear\<close>. A node with a left child is hung below the last node of its left
  subtree, so that the tree becomes a list; a node without one is destroyed.
\<close>

fun hang_right :: "('k, 'v, 'm) tree_node \<Rightarrow> ('k, 'v, 'm) tree_node \<Rightarrow> ('k, 'v, 'm) tree_node" where
  "hang_right NULL t = t"
| "hang_right (PTreeBaseNode l k v b r) t = PTreeBaseNode l k v b (hang_right r t)"

fun tree_size :: "('k, 'v, 'm) tree_node \<Rightarrow> nat" where
  "tree_size NULL = 0"
| "tree_size (PTreeBaseNode l k v b r) = Suc (tree_size l + tree_size r)"

fun left_edges :: "('k, 'v, 'm) tree_node \<Rightarrow> nat" where
  "left_edges NULL = 0"
| "left_edges (PTreeBaseNode l k v b r) = (if l = NULL then 0 else 1) + left_edges l + left_edges r"

lemma hang_right_measures [simp]:
  "tree_size (hang_right s t) = tree_size s + tree_size t" "left_edges (hang_right s t) = left_edges s + left_edges t"
  by (induction s) simp_all

function clear_nodes :: "('k, 'v, 'm) tree_node \<Rightarrow> pint32 \<Rightarrow> ('k \<times> 'v) list \<times> pint32" where
  "clear_nodes NULL n = ([], n)"
| "clear_nodes (PTreeBaseNode l k v b r) n =
     (if l = NULL
      then (case clear_nodes r (n - 1) of (ds, n) \<Rightarrow> ((k, v) # ds, n))
      else clear_nodes (hang_right l (PTreeBaseNode NULL k v b r)) n)"
  by pat_completeness auto

termination
  by (relation "measures [tree_size \<circ> fst, left_edges \<circ> fst]") simp_all

definition p_tree_clear :: "('k, 'v, 'm) PTree option \<Rightarrow> ('k, 'v, 'm) PTree option \<times> 'k list \<times> 'v list" where
  "p_tree_clear tree =
     (case tree of
        None \<Rightarrow> (None, [], [])
      | Some t \<Rightarrow>
          if tree_root t = NULL then (tree, [], [])
          else (case clear_nodes (tree_root t) (nnodes t) of
                  (ds, n) \<Rightarrow> (Some (t\<lparr>tree_root := NULL, nnodes := n\<rparr>),
                     if key_destroy t then map fst ds else [], if value_destroy t then map snd ds else [])))"

text \<open>\<^verbatim>\<open>p_tree_free\<close>: what it gives to the destroy functions; the tree is gone.\<close>

definition p_tree_free :: "('k, 'v, 'm) PTree option \<Rightarrow> 'k list \<times> 'v list" where
  "p_tree_free tree = snd (p_tree_clear tree)"

definition p_tree_get_type :: "('k, 'v, 'm) PTree option \<Rightarrow> int" where
  "p_tree_get_type tree = (case tree of None \<Rightarrow> - 1 | Some t \<Rightarrow> tree_type t)"

definition p_tree_get_nnodes :: "('k, 'v, 'm) PTree option \<Rightarrow> pint32" where
  "p_tree_get_nnodes tree = (case tree of None \<Rightarrow> 0 | Some t \<Rightarrow> nnodes t)"

definition bst_funcs :: "('k, 'v, unit) tree_funcs" where
  "bst_funcs = \<lparr>insert_node = p_tree_bst_insert, remove_node = p_tree_bst_remove\<rparr>"

definition rb_funcs :: "('k, 'v, PTreeRBColor) tree_funcs" where
  "rb_funcs = \<lparr>insert_node = p_tree_rb_insert, remove_node = p_tree_rb_remove\<rparr>"

definition avl_funcs :: "('k, 'v, int) tree_funcs" where
  "avl_funcs = \<lparr>insert_node = p_tree_avl_insert, remove_node = p_tree_avl_remove\<rparr>"

text \<open>The calls of a program on one tree, with the allocations succeeding, and what they return.\<close>

datatype ('k, 'v) tree_call = Tree_Insert 'k 'v | Tree_Remove 'k | Tree_Lookup 'k | Tree_Clear | Tree_Count

datatype 'v tree_reply = Tree_Done | Tree_Removed bool | Tree_Found "'v option" | Tree_Number pint32

fun do_tree_call :: "('k, 'v) tree_call \<Rightarrow> ('k, 'v, 'm) PTree option \<Rightarrow> ('v tree_reply \<times> ('k, 'v, 'm) PTree option) outcome" where
  "do_tree_call (Tree_Insert k v) t =
     (case p_tree_insert True t k v of Inl f \<Rightarrow> Inl f | Inr (t, _, _) \<Rightarrow> Inr (Tree_Done, t))"
| "do_tree_call (Tree_Remove k) t =
     (case p_tree_remove t k of Inl f \<Rightarrow> Inl f | Inr (ok, t, _, _) \<Rightarrow> Inr (Tree_Removed ok, t))"
| "do_tree_call (Tree_Lookup k) t = Inr (Tree_Found (p_tree_lookup t k), t)"
| "do_tree_call Tree_Clear t = Inr (Tree_Done, fst (p_tree_clear t))"
| "do_tree_call Tree_Count t = Inr (Tree_Number (p_tree_get_nnodes t), t)"

fun tree_calls :: "('k, 'v) tree_call list \<Rightarrow> ('k, 'v, 'm) PTree option \<Rightarrow> ('v tree_reply list \<times> ('k, 'v, 'm) PTree option) outcome" where
  "tree_calls [] t = Inr ([], t)"
| "tree_calls (c # cs) t =
     (case do_tree_call c t of
        Inl f \<Rightarrow> Inl f
      | Inr (r, t) \<Rightarrow> (case tree_calls cs t of Inl f \<Rightarrow> Inl f | Inr (rs, t) \<Rightarrow> Inr (r # rs, t)))"

text \<open>The specification: an association list with one entry for each key.\<close>

fun spec_tree_call :: "('k \<Rightarrow> 'k \<Rightarrow> int) \<Rightarrow> ('k, 'v) tree_call \<Rightarrow> ('k \<times> 'v) list \<Rightarrow> 'v tree_reply \<times> ('k \<times> 'v) list" where
  "spec_tree_call cmp (Tree_Insert k v) xs = (Tree_Done, (k, v) # filter (\<lambda>x. cmp k (fst x) \<noteq> 0) xs)"
| "spec_tree_call cmp (Tree_Remove k) xs =
     (Tree_Removed (\<exists>x \<in> set xs. cmp k (fst x) = 0), filter (\<lambda>x. cmp k (fst x) \<noteq> 0) xs)"
| "spec_tree_call cmp (Tree_Lookup k) xs = (Tree_Found (map_option snd (find (\<lambda>x. cmp k (fst x) = 0) xs)), xs)"
| "spec_tree_call cmp Tree_Clear xs = (Tree_Done, [])"
| "spec_tree_call cmp Tree_Count xs = (Tree_Number (of_nat (length xs)), xs)"

fun spec_tree_calls :: "('k \<Rightarrow> 'k \<Rightarrow> int) \<Rightarrow> ('k, 'v) tree_call list \<Rightarrow> ('k \<times> 'v) list \<Rightarrow> 'v tree_reply list" where
  "spec_tree_calls cmp [] xs = []"
| "spec_tree_calls cmp (c # cs) xs = fst (spec_tree_call cmp c xs) # spec_tree_calls cmp cs (snd (spec_tree_call cmp c xs))"

section \<open>What a kind of tree promises, and what the container then does\<close>

lemma inorder_hang_right: "inorder (hang_right s t) = inorder s @ inorder t"
  by (induction s) simp_all

lemma clear_nodes_ok: "clear_nodes t n = (inorder t, n - of_nat (length (inorder t)))"
  by (induction t n rule: clear_nodes.induct) (auto simp: inorder_hang_right)

locale tree_kind = key_order cmp for cmp :: "'k \<Rightarrow> 'k \<Rightarrow> int" +
  fixes inv :: "('k, 'v, 'm) tree_node \<Rightarrow> bool"
    and funcs :: "('k, 'v, 'm) tree_funcs"
  assumes inv_NULL: "inv NULL"
    and insert_ok: "inv t \<Longrightarrow> in_order (inorder t) \<Longrightarrow>
      \<exists>res. insert_node funcs True cmp kd vd key val t = Inr res \<and> inv (res_root res)
        \<and> inorder (res_root res) = lower key (inorder t) @ (key, val) # higher key (inorder t)
        \<and> (res_ok res \<longleftrightarrow> equals key (inorder t) = [])"
    and remove_ok: "inv t \<Longrightarrow> in_order (inorder t) \<Longrightarrow>
      \<exists>res. remove_node funcs cmp kd vd key t = Inr res \<and> inv (res_root res)
        \<and> inorder (res_root res) = lower key (inorder t) @ higher key (inorder t)
        \<and> (res_ok res \<longleftrightarrow> equals key (inorder t) \<noteq> [])"
begin

definition tree_inv :: "('k, 'v, 'm) PTree \<Rightarrow> bool" where
  "tree_inv t \<longleftrightarrow> node_funcs t = funcs \<and> compare_func t = cmp \<and> inv (tree_root t)
     \<and> in_order (inorder (tree_root t)) \<and> nnodes t = of_nat (length (inorder (tree_root t)))"

lemma lookup_from_search:
  "lookup_from cmp key t = (case tree_search cmp key t p of (NULL, _) \<Rightarrow> None | (t', _) \<Rightarrow> Some (node_value t'))"
  by (induction t arbitrary: p) (simp_all add: Let_def)

lemma lookup_from_equals:
  "in_order (inorder t) \<Longrightarrow> lookup_from cmp key t = (case equals key (inorder t) of [] \<Rightarrow> None | (k, v) # _ \<Rightarrow> Some v)"
  unfolding lookup_from_search [of key t "[]"]
  by (cases "tree_search cmp key t []") (auto simp: search_splits(4) split: tree_node.split)

lemma length_splits: "length (lower key xs) + length (higher key xs) + length (equals key xs) = length xs"
  by (induction xs) (auto simp: lower_def higher_def equals_def)

lemma equals_le_1: "in_order xs \<Longrightarrow> length (equals key xs) \<le> 1"
proof (rule ccontr)
  assume xs: "in_order xs" and "\<not> length (equals key xs) \<le> 1"
  then obtain x y zs where xy: "equals key xs = x # y # zs"
    by (cases "equals key xs" rule: list.exhaust; cases "tl (equals key xs)") auto
  have "in_order (equals key xs)"
    using xs by (simp add: in_order_def equals_def sorted_wrt_filter)
  moreover have "{x, y} \<subseteq> set (equals key xs)"
    by (simp add: xy)
  ultimately show False
    using xy cmp_eq_sym [of key "fst x"] cmp_less_trans(2) [of key "fst x" "fst y"]
    by (auto simp: in_order_def equals_def)
qed

text \<open>The container stands for an association list with the same entries.\<close>

definition stands_for :: "('k, 'v, 'm) PTree option \<Rightarrow> ('k \<times> 'v) list \<Rightarrow> bool" where
  "stands_for tree xs \<longleftrightarrow> (\<exists>t. tree = Some t \<and> tree_inv t \<and> mset (inorder (tree_root t)) = mset xs)"

lemma others_mset: "mset (lower key xs @ higher key xs) = mset (filter (\<lambda>x. cmp key (fst x) \<noteq> 0) xs)"
  by (induction xs) (auto simp: lower_def higher_def)

lemma filter_others:
  "mset xs = mset ys \<Longrightarrow> mset (lower key xs @ higher key xs) = mset (filter (\<lambda>x. cmp key (fst x) \<noteq> 0) ys)"
  unfolding others_mset mset_filter by simp

lemma equals_same:
  assumes "in_order xs" "mset xs = mset ys"
  shows "equals key xs = equals key ys"
proof -
  have "mset (equals key xs) = mset (equals key ys)"
    using assms(2) by (simp add: equals_def)
  moreover from this have "length (equals key ys) \<le> 1"
    using equals_le_1 [OF assms(1), of key] by (metis size_mset)
  ultimately show ?thesis
    using equals_le_1 [OF assms(1), of key]
    by (cases "equals key xs"; cases "equals key ys") auto
qed

lemma find_equals: "map_option snd (find (\<lambda>x. cmp key (fst x) = 0) xs) = (case equals key xs of [] \<Rightarrow> None | (k, v) # _ \<Rightarrow> Some v)"
  by (induction xs) (auto simp: equals_def)

lemma equals_nonempty: "equals key xs \<noteq> [] \<longleftrightarrow> (\<exists>x \<in> set xs. cmp key (fst x) = 0)"
  by (auto simp: equals_def filter_empty_conv)

text \<open>What the operations do to the association list.\<close>

lemma new_stands_for:
  "fs type = funcs \<Longrightarrow> 0 \<le> type \<Longrightarrow> type \<le> 2 \<Longrightarrow> stands_for (p_tree_new_full fs True type (Some cmp) kd vd) []"
  by (simp add: stands_for_def p_tree_new_full_def P_TREE_TYPE_AVL_def P_TREE_TYPE_BINARY_def tree_inv_def in_order_def inv_NULL)

lemma lookup_stands_for:
  assumes "stands_for tree xs"
  shows "p_tree_lookup tree key = map_option snd (find (\<lambda>x. cmp key (fst x) = 0) xs)"
proof -
  obtain t where t: "tree = Some t" "tree_inv t" "mset (inorder (tree_root t)) = mset xs"
    using assms by (auto simp: stands_for_def)
  then have "in_order (inorder (tree_root t))" "compare_func t = cmp"
    by (simp_all add: tree_inv_def)
  then show ?thesis
    using t(1) equals_same [OF _ t(3), of key] by (simp add: p_tree_lookup_def lookup_from_equals find_equals)
qed

lemma insert_stands_for:
  assumes "stands_for tree xs"
  shows "\<exists>tree' ks vs. p_tree_insert True tree key val = Inr (tree', ks, vs)
    \<and> stands_for tree' ((key, val) # filter (\<lambda>x. cmp key (fst x) \<noteq> 0) xs)"
proof -
  obtain t where t: "tree = Some t" "tree_inv t" "mset (inorder (tree_root t)) = mset xs"
    using assms by (auto simp: stands_for_def)
  let ?xs = "inorder (tree_root t)"
  have inv: "inv (tree_root t)" "in_order ?xs"
    using t(2) by (simp_all add: tree_inv_def)
  obtain res where res: "insert_node funcs True cmp (key_destroy t) (value_destroy t) key val (tree_root t) = Inr res"
      "inv (res_root res)" "inorder (res_root res) = lower key ?xs @ (key, val) # higher key ?xs"
      "res_ok res \<longleftrightarrow> equals key ?xs = []"
    using insert_ok [OF inv] by blast
  define t' where "t' = t\<lparr>tree_root := res_root res, nnodes := (if res_ok res then nnodes t + 1 else nnodes t)\<rparr>"
  have run: "p_tree_insert True tree key val = Inr (Some t', res_keys res, res_values res)"
    using t(1,2) res(1) by (simp add: p_tree_insert_def tree_inv_def t'_def)
  have "length (equals key ?xs) = (if res_ok res then 0 else 1)"
    using res(4) equals_le_1 [OF inv(2), of key] by (cases "equals key ?xs") auto
  then have "length (inorder (res_root res)) = (if res_ok res then Suc (length ?xs) else length ?xs)"
    using res(3) length_splits [of key ?xs] by (simp split: if_splits)
  then have "tree_inv t'"
    using t(2) res(2,3) in_order_update(1) [OF inv(2)] by (simp add: tree_inv_def t'_def)
  then show ?thesis
    using run res(3) filter_others [OF t(3), of key] by (simp add: stands_for_def t'_def)
qed

lemma remove_stands_for:
  assumes "stands_for tree xs"
  shows "\<exists>tree' ks vs. p_tree_remove tree key = Inr (\<exists>x \<in> set xs. cmp key (fst x) = 0, tree', ks, vs)
    \<and> stands_for tree' (filter (\<lambda>x. cmp key (fst x) \<noteq> 0) xs)"
proof -
  obtain t where t: "tree = Some t" "tree_inv t" "mset (inorder (tree_root t)) = mset xs"
    using assms by (auto simp: stands_for_def)
  show ?thesis
  proof (cases "tree_root t = NULL")
    case True
    then show ?thesis
      using t by (simp add: p_tree_remove_def stands_for_def)
  next
    case False
    let ?xs = "inorder (tree_root t)"
    have inv: "inv (tree_root t)" "in_order ?xs"
      using t(2) by (simp_all add: tree_inv_def)
    obtain res where res: "remove_node funcs cmp (key_destroy t) (value_destroy t) key (tree_root t) = Inr res"
        "inv (res_root res)" "inorder (res_root res) = lower key ?xs @ higher key ?xs"
        "res_ok res \<longleftrightarrow> equals key ?xs \<noteq> []"
      using remove_ok [OF inv] by blast
    define t' where "t' = t\<lparr>tree_root := res_root res, nnodes := (if res_ok res then nnodes t - 1 else nnodes t)\<rparr>"
    have run: "p_tree_remove tree key = Inr (res_ok res, Some t', res_keys res, res_values res)"
      using t(1,2) res(1) False by (simp add: p_tree_remove_def tree_inv_def t'_def)
    have "length (equals key ?xs) = (if res_ok res then 1 else 0)"
      using res(4) equals_le_1 [OF inv(2), of key] by (cases "equals key ?xs") auto
    then have "length ?xs = (if res_ok res then Suc (length (inorder (res_root res))) else length (inorder (res_root res)))"
      using res(3) length_splits [of key ?xs] by (simp split: if_splits)
    then have "tree_inv t'"
      using t(2) res(2,3) in_order_update(2) [OF inv(2)] by (simp add: tree_inv_def t'_def)
    moreover have "res_ok res \<longleftrightarrow> (\<exists>x \<in> set xs. cmp key (fst x) = 0)"
      unfolding res(4) equals_same [OF inv(2) t(3)] by (rule equals_nonempty)
    ultimately show ?thesis
      using run res(3) filter_others [OF t(3), of key] by (simp add: stands_for_def t'_def)
  qed
qed

lemma clear_stands_for: "stands_for tree xs \<Longrightarrow> stands_for (fst (p_tree_clear tree)) []"
  by (auto simp: stands_for_def p_tree_clear_def clear_nodes_ok tree_inv_def in_order_def inv_NULL)

lemma clear_destroys_all:
  assumes "stands_for tree xs"
  shows "mset (fst (snd (p_tree_clear tree))) = (if key_destroy (the tree) then image_mset fst (mset xs) else {#})"
proof -
  obtain t where t: "tree = Some t" "mset (inorder (tree_root t)) = mset xs"
    using assms by (auto simp: stands_for_def)
  then show ?thesis
    by (cases "tree_root t") (auto simp: p_tree_clear_def clear_nodes_ok simp flip: t(2))
qed

lemma count_stands_for: "stands_for tree xs \<Longrightarrow> p_tree_get_nnodes tree = of_nat (length xs)"
  by (auto simp: stands_for_def p_tree_get_nnodes_def tree_inv_def dest: mset_eq_length)

lemma tree_call_refines:
  assumes "stands_for tree xs"
  shows "\<exists>tree'. do_tree_call c tree = Inr (fst (spec_tree_call cmp c xs), tree')
    \<and> stands_for tree' (snd (spec_tree_call cmp c xs))"
proof (cases c)
  case (Tree_Insert k v)
  then show ?thesis
    using insert_stands_for [OF assms, of k v] by auto
next
  case (Tree_Remove k)
  then show ?thesis
    using remove_stands_for [OF assms, of k] by auto
qed (use assms clear_stands_for in \<open>simp_all add: lookup_stands_for count_stands_for\<close>)

theorem tree_calls_refine:
  "stands_for tree xs \<Longrightarrow> \<exists>tree'. tree_calls cs tree = Inr (spec_tree_calls cmp cs xs, tree') \<and> (\<exists>ys. stands_for tree' ys)"
proof (induction cs arbitrary: tree xs)
  case (Cons c cs)
  obtain tree' where t': "do_tree_call c tree = Inr (fst (spec_tree_call cmp c xs), tree')"
      "stands_for tree' (snd (spec_tree_call cmp c xs))"
    using tree_call_refines [OF Cons.prems] by blast
  then show ?case
    using Cons.IH [OF t'(2)] by auto
qed auto

end

section \<open>Strings as keys\<close>

lemma strncmp_swap: "strncmp ys xs n = - strncmp xs ys n"
  by (induction xs ys n rule: strncmp.induct) auto

lemma strncmp_trans:
  assumes "0 \<notin> set xs" "0 \<notin> set ys" "0 \<notin> set zs" "strncmp xs ys n \<le> 0" "strncmp ys zs n \<le> 0"
  shows "strncmp xs zs n \<le> 0"
  using assms
proof (induction xs ys n arbitrary: zs rule: strncmp.induct)
  case (3 y ys n)
  show ?case by (cases zs) simp_all
next
  case (4 x xs n)
  then show ?case by (simp add: word_uint_eq_iff)
next
  case (5 x xs y ys n)
  show ?case
  proof (cases zs)
    case Nil
    then show ?thesis
      using 5 uint_nonnegative [of y] by (auto simp: word_uint_eq_iff)
  next
    case (Cons z zs')
    then show ?thesis
      using 5 by (auto split: if_splits simp: word_uint_eq_iff)
  qed
qed simp_all

text \<open>\<^verbatim>\<open>strcmp\<close>, on strings given by the memory they start at: it compares more bytes than both have.\<close>

definition strcmp :: "cstring \<Rightarrow> cstring \<Rightarrow> int" where
  "strcmp a b = strncmp (c_str a) (c_str b) (Suc (max (length (c_str a)) (length (c_str b))))"

lemma strncmp_enough: "length xs < n \<Longrightarrow> length ys < n \<Longrightarrow> n \<le> m \<Longrightarrow> strncmp xs ys m = strncmp xs ys n"
proof (induction xs ys n arbitrary: m rule: strncmp.induct)
  case (1 xs ys)
  then show ?case by simp
next
  case (2 n)
  then show ?case by (cases m) simp_all
next
  case (3 y ys n)
  then show ?case by (cases m) simp_all
next
  case (4 x xs n)
  then show ?case by (cases m) simp_all
next
  case (5 x xs y ys n)
  then obtain k where k: "m = Suc k" "length xs < n" "length ys < n" "n \<le> k"
    by (cases m) simp_all
  then show ?case
    using "5.IH" [of k] by (cases "x = y") simp_all
qed

interpretation string_keys: key_order tc_string_compare
proof
  show "tc_string_compare a b < 0 \<longleftrightarrow> 0 < tc_string_compare b a" for a b
    using strncmp_swap [of "c_str a" "c_str b"] by (simp add: tc_string_compare_def)
  show "tc_string_compare a b \<le> 0 \<Longrightarrow> tc_string_compare b c \<le> 0 \<Longrightarrow> tc_string_compare a c \<le> 0" for a b c
    using strncmp_trans [OF c_str_no_nul c_str_no_nul c_str_no_nul] by (simp add: tc_string_compare_def)
qed

interpretation strcmp_keys: key_order strcmp
proof
  show "strcmp a b < 0 \<longleftrightarrow> 0 < strcmp b a" for a b
    using strncmp_swap [of "c_str a" "c_str b"] by (simp add: strcmp_def max.commute)
  fix a b c
  define n where "n = Suc (max (length (c_str a)) (max (length (c_str b)) (length (c_str c))))"
  have "strcmp x y = strncmp (c_str x) (c_str y) n" if "x \<in> {a, b, c}" "y \<in> {a, b, c}" for x y
    unfolding strcmp_def using that by (intro strncmp_enough [symmetric]) (auto simp: n_def)
  then show "strcmp a b \<le> 0 \<Longrightarrow> strcmp b c \<le> 0 \<Longrightarrow> strcmp a c \<le> 0"
    using strncmp_trans [OF c_str_no_nul c_str_no_nul c_str_no_nul] by simp
qed

section \<open>The three kinds\<close>

interpretation auth_avl: tree_kind tc_string_compare avl avl_funcs
  by unfold_locales (use string_keys.avl_insert_ok string_keys.avl_remove_ok in \<open>fastforce simp: avl_funcs_def\<close>)+

interpretation index_rb: tree_kind strcmp rb_tree rb_funcs
  by unfold_locales (use strcmp_keys.rb_insert_ok strcmp_keys.rb_remove_ok in \<open>fastforce simp: rb_funcs_def rb_tree_def\<close>)+

interpretation plain_bst: tree_kind strcmp "\<lambda>_. True" bst_funcs
  by unfold_locales (use strcmp_keys.bst_insert_ok strcmp_keys.bst_remove_ok in \<open>fastforce simp: bst_funcs_def\<close>)+

text \<open>Freeing a tree gives each of its keys to the destroy function once.\<close>

lemma free_destroys_all:
  "auth_avl.stands_for tree xs \<Longrightarrow>
   mset (fst (p_tree_free tree)) = (if key_destroy (the tree) then image_mset fst (mset xs) else {#})"
  by (simp add: p_tree_free_def auth_avl.clear_destroys_all)

section \<open>Authentication on the tree\<close>

text \<open>
  \<^verbatim>\<open>tc_heartbeat_manager_validate\<close> with the library calls it makes: the services it goes through,
  the hash of each, and the insertion of the hash into the tree of used keys. \<open>mem\<close> says whether
  the three allocations for hashing a message succeed. The hash is the key of the tree from then on.
\<close>

type_synonym auth_tree = "(cstring, nat, int) PTree option"

fun validate_services ::
    "(int \<Rightarrow> PHashMD5 hash_funcs) \<Rightarrow> (cstring \<Rightarrow> bool \<times> bool \<times> bool) \<Rightarrow> cstring \<Rightarrow> cstring \<Rightarrow> nat
     \<Rightarrow> tc_heartbeat_service list \<Rightarrow> auth_tree \<Rightarrow> (nat option \<times> auth_tree) outcome" where
  "validate_services fs mem name key i [] tree = Inr (None, tree)"
| "validate_services fs mem name key i (s # ss) tree =
     (if dummy_service s then Inr (Some i, tree)
      else case mem (current_salt s @ name) of (m1, m2, m3) \<Rightarrow>
        (case heartbeat_key_hash fs m1 m2 m3 (current_salt s) name of
           Inl f \<Rightarrow> Inl f
         | Inr None \<Rightarrow> validate_services fs mem name key (Suc i) ss tree
         | Inr (Some hex) \<Rightarrow>
             if strncmp (c_str key) hex (length hex) = 0
             then (case p_tree_insert True tree hex i of
                     Inl f \<Rightarrow> Inl f
                   | Inr (tree, _, _) \<Rightarrow> Inr (Some i, tree))
             else validate_services fs mem name key (Suc i) ss tree))"

definition validate_on_tree ::
    "(int \<Rightarrow> PHashMD5 hash_funcs) \<Rightarrow> (cstring \<Rightarrow> bool \<times> bool \<times> bool) \<Rightarrow> tc_heartbeat_service list \<Rightarrow> auth_tree
     \<Rightarrow> cstring option \<Rightarrow> cstring option \<Rightarrow> (nat option \<times> auth_tree) outcome" where
  "validate_on_tree fs mem ss tree username key =
     (case (username, key) of
        (Some username, Some key) \<Rightarrow>
          let name = take TC_PROTOCOL_MAX_STR_LEN (c_str username)
          in if p_tree_lookup tree key \<noteq> None then Inr (None, tree)
             else validate_services fs mem name key 0 ss tree
      | _ \<Rightarrow> Inr (None, tree))"

lemma tree_lookup_stands_for:
  "auth_avl.stands_for tree t \<Longrightarrow> p_tree_lookup tree key = tree_lookup t key"
  using compare_trans(2) [of key] by (simp add: auth_avl.lookup_stands_for tree_lookup_def case_prod_unfold)

lemma tree_insert_stands_for:
  "auth_avl.stands_for tree t \<Longrightarrow>
   \<exists>tree' ks vs. p_tree_insert True tree k v = Inr (tree', ks, vs) \<and> auth_avl.stands_for tree' (tree_insert k v t)"
  using auth_avl.insert_stands_for [of tree t k v] compare_trans(2) [of k]
  by (simp add: tree_insert_def case_prod_unfold)

definition mem_ok :: "(cstring \<Rightarrow> bool \<times> bool \<times> bool) \<Rightarrow> cstring \<Rightarrow> bool" where
  "mem_ok mem x = (case mem x of (a, b, c) \<Rightarrow> a \<and> b \<and> c)"

lemma validate_services_refines:
  assumes "fs 0 = md5_funcs" "length name < 2 ^ 32"
  shows "\<lbrakk>list_all (\<lambda>s. length (current_salt s) < 2 ^ 32) ss; auth_avl.stands_for tree t\<rbrakk> \<Longrightarrow>
    \<exists>tree'. validate_services fs mem name key i ss tree
        = Inr (fst (validate_loop (plibsys_md5 (mem_ok mem)) name key i ss t), tree')
      \<and> auth_avl.stands_for tree' (snd (validate_loop (plibsys_md5 (mem_ok mem)) name key i ss t))"
proof (induction ss arbitrary: i)
  case (Cons s ss)
  obtain m1 m2 m3 where mem: "mem (current_salt s @ name) = (m1, m2, m3)"
    by (cases "mem (current_salt s @ name)")
  have hash: "heartbeat_key_hash fs m1 m2 m3 (current_salt s) name = Inr (plibsys_md5 (mem_ok mem) (current_salt s @ name))"
    using heartbeat_key_hash_md5 [where fs = fs, OF assms(1) _ assms(2)] Cons.prems(1) mem
    by (simp add: plibsys_md5_def mem_ok_def)
  show ?case
    using Cons.IH [of "Suc i"] Cons.prems tree_insert_stands_for [OF Cons.prems(2), of "the (plibsys_md5 (mem_ok mem) (current_salt s @ name))" i]
    by (cases "plibsys_md5 (mem_ok mem) (current_salt s @ name)") (auto simp: mem hash)
qed simp


text \<open>
  A history of the manager: validations, each with the services and their salts at that time,
  and the turns of the heartbeat thread, which clear the tree. The result is the services that
  were returned, by their number.
\<close>

datatype auth_event =
    Validated "tc_heartbeat_service list" "cstring option" "cstring option"
  | Cycle_Over

fun auth_history ::
    "(int \<Rightarrow> PHashMD5 hash_funcs) \<Rightarrow> (cstring \<Rightarrow> bool \<times> bool \<times> bool) \<Rightarrow> auth_event list \<Rightarrow> auth_tree \<Rightarrow> nat option list outcome" where
  "auth_history fs mem [] tree = Inr []"
| "auth_history fs mem (Validated ss u k # es) tree =
     (case validate_on_tree fs mem ss tree u k of
        Inl f \<Rightarrow> Inl f
      | Inr (r, tree) \<Rightarrow> map_sum id ((#) r) (auth_history fs mem es tree))"
| "auth_history fs mem (Cycle_Over # es) tree = auth_history fs mem es (fst (p_tree_clear tree))"

fun spec_history :: "(cstring \<Rightarrow> cstring option) \<Rightarrow> auth_event list \<Rightarrow> tc_heartbeat_manager \<Rightarrow> nat option list" where
  "spec_history md5 [] m = []"
| "spec_history md5 (Validated ss u k # es) m =
     (case tc_heartbeat_manager_validate md5 (m\<lparr>services := ss\<rparr>) u k of
        (r, m) \<Rightarrow> r # spec_history md5 es m)"
| "spec_history md5 (Cycle_Over # es) m = spec_history md5 es (m\<lparr>auth_tree := []\<rparr>)"

definition small_salts :: "auth_event \<Rightarrow> bool" where
  "small_salts e = (case e of Validated ss _ _ \<Rightarrow> list_all (\<lambda>s. length (current_salt s) < 2 ^ 32) ss | Cycle_Over \<Rightarrow> True)"

lemma validate_on_tree_refines:
  assumes "fs 0 = md5_funcs" "list_all (\<lambda>s. length (current_salt s) < 2 ^ 32) (services m)"
    and "auth_avl.stands_for tree (auth_tree m)"
  shows "\<exists>tree'. validate_on_tree fs mem (services m) tree u k
      = Inr (fst (tc_heartbeat_manager_validate (plibsys_md5 (mem_ok mem)) m u k), tree')
    \<and> auth_avl.stands_for tree' (auth_tree (snd (tc_heartbeat_manager_validate (plibsys_md5 (mem_ok mem)) m u k)))"
proof (cases u; cases k)
  fix un key assume "u = Some un" "k = Some key"
  moreover have "length (take TC_PROTOCOL_MAX_STR_LEN (c_str un)) < 2 ^ 32"
    by (simp add: TC_PROTOCOL_MAX_STR_LEN_def min_def)
  ultimately show ?thesis
    using validate_services_refines [where fs = fs, OF assms(1) _ assms(2,3), of _ mem key 0] assms(3)
    by (auto simp: validate_on_tree_def tc_heartbeat_manager_validate_def tree_lookup_stands_for split_beta Let_def)
qed (use assms(3) in \<open>auto simp: validate_on_tree_def tc_heartbeat_manager_validate_def\<close>)

lemma auth_history_refines:
  assumes "fs 0 = md5_funcs"
  shows "\<lbrakk>list_all small_salts es; auth_avl.stands_for tree (auth_tree m)\<rbrakk> \<Longrightarrow>
    auth_history fs mem es tree = Inr (spec_history (plibsys_md5 (mem_ok mem)) es m)"
proof (induction es arbitrary: tree m)
  case (Cons e es)
  show ?case
  proof (cases e)
    case (Validated ss u k)
    then obtain tree' where t': "validate_on_tree fs mem ss tree u k
        = Inr (fst (tc_heartbeat_manager_validate (plibsys_md5 (mem_ok mem)) (m\<lparr>services := ss\<rparr>) u k), tree')"
        "auth_avl.stands_for tree' (auth_tree (snd (tc_heartbeat_manager_validate (plibsys_md5 (mem_ok mem)) (m\<lparr>services := ss\<rparr>) u k)))"
      using validate_on_tree_refines [where fs = fs, OF assms, of "m\<lparr>services := ss\<rparr>" tree mem u k] Cons.prems
      by (auto simp: small_salts_def)
    then show ?thesis
      using Cons.IH [OF _ t'(2)] Cons.prems(1) Validated by (simp add: split_beta)
  next
    case Cycle_Over
    then show ?thesis
      using Cons.IH [of "fst (p_tree_clear tree)" "m\<lparr>auth_tree := []\<rparr>"] Cons.prems
      by (simp add: auth_avl.clear_stands_for)
  qed
qed simp

section \<open>Properties\<close>


definition sample_tree_calls :: "(cstring, nat) tree_call list" where
  "sample_tree_calls = [Tree_Insert (bytes_of ''c'') 3, Tree_Insert (bytes_of ''b'') 2, Tree_Insert (bytes_of ''a'') 1,
     Tree_Count, Tree_Remove (bytes_of ''b''), Tree_Lookup (bytes_of ''a''), Tree_Lookup (bytes_of ''b''), Tree_Count]"


text \<open>
  [C38] The red-black tree of plibsys is a map with C strings as keys, compared by \<^verbatim>\<open>strcmp\<close> as in the
  map cache: for every sequence of insertions, removals, lookups, clearings and counts on a new
  tree, nothing is dereferenced that is not there, every call returns what an association list with
  one entry for each key returns, and the tree is a red-black tree at the end, its height
  logarithmic in the number of its keys.
\<close>

theorem rb_tree_is_map:
  assumes "fs P_TREE_TYPE_RB = rb_funcs"
  shows "\<exists>tree. tree_calls cs (p_tree_new fs True P_TREE_TYPE_RB (Some strcmp))
      = Inr (spec_tree_calls strcmp cs [], Some tree)
    \<and> rb_tree (tree_root tree) \<and> 2 ^ (tree_height (tree_root tree) div 2) \<le> Suc (length (inorder (tree_root tree)))"
  using index_rb.tree_calls_refine [OF index_rb.new_stands_for [where fs = fs, OF assms], of cs False False]
  by (auto simp: p_tree_new_def index_rb.stands_for_def index_rb.tree_inv_def rb_height_bound P_TREE_TYPE_RB_def)

definition sample_index_calls :: "(cstring, nat) tree_call list" where
  "sample_index_calls = [Tree_Insert (bytes_of ''a'') 1, Tree_Insert (bytes_of ''b'') 2, Tree_Insert (bytes_of ''c'') 3,
     Tree_Insert (bytes_of ''d'') 4, Tree_Insert (bytes_of ''e'') 5, Tree_Remove (bytes_of ''a''), Tree_Insert (bytes_of ''d'') 6,
     Tree_Lookup (bytes_of ''d''), Tree_Lookup (bytes_of ''a''), Tree_Remove (bytes_of ''z''), Tree_Count]"

theorem rb_tree_is_map_witness:
  "\<exists>tree. tree_calls sample_index_calls (p_tree_new (\<lambda>_. rb_funcs) True P_TREE_TYPE_RB (Some strcmp))
     = Inr ([Tree_Done, Tree_Done, Tree_Done, Tree_Done, Tree_Done, Tree_Removed True, Tree_Done,
             Tree_Found (Some 6), Tree_Found None, Tree_Removed False, Tree_Number 4], Some tree)"
proof -
  have "spec_tree_calls strcmp sample_index_calls [] =
      [Tree_Done, Tree_Done, Tree_Done, Tree_Done, Tree_Done, Tree_Removed True, Tree_Done,
       Tree_Found (Some 6), Tree_Found None, Tree_Removed False, Tree_Number 4]"
    by code_simp
  then show ?thesis
    using rb_tree_is_map [of "\<lambda>_. rb_funcs" sample_index_calls] by auto
qed


definition sample_history :: "auth_event list" where
  "sample_history = [Validated [sample_service] (Some (bytes_of ''bob'')) (Some sample_md5_key),
     Validated [sample_service] (Some (bytes_of ''bob'')) (Some sample_md5_key), Cycle_Over,
     Validated [sample_service] (Some (bytes_of ''bob'')) (Some sample_md5_key)]"

lemma sample_history_spec: "spec_history (plibsys_md5 (\<lambda>_. True)) sample_history sample_manager = [Some 0, None, Some 0]"
proof -
  have same: "sample_manager\<lparr>services := [sample_service]\<rparr> = sample_manager" "auth_tree sample_manager = []"
      "sample_manager\<lparr>auth_tree := [], services := [sample_service]\<rparr> = sample_manager"
    by (simp_all add: sample_manager_def heartbeat_manager_init_def sample_service_def)
  have "tree_lookup [(take 32 sample_md5_key, 0)] sample_md5_key \<noteq> None"
    by code_simp
  then show ?thesis
    using sample_md5_accepted same
      validate_known_key [of "sample_manager\<lparr>auth_tree := [(take 32 sample_md5_key, 0)], services := [sample_service]\<rparr>" sample_md5_key]
    by (simp add: sample_history_def)
qed


end
