(* ===== verification/TC_Tree_Foreach.thy ===== *)
theory TC_Tree_Foreach
  imports TC_Tree_Base
begin

text \<open>
  \<^verbatim>\<open>p_tree_foreach\<close> of \<^verbatim>\<open>plibsys-master/src/ptree.c\<close>: the traversal that needs neither a stack nor parent
  pointers, because it writes a thread into the right pointer of the last node of each left subtree
  and takes it out again. While it runs the nodes do not form a tree, so they are in a heap here;
  reading a node that is not there is a fault, and a loop that does not end is \<open>None\<close>. The function
  that is called works on a state of its own and says whether to stop.
\<close>

section \<open>The traversal\<close>

record ('k, 'v) base_node =
  link_left :: "nat option"
  link_right :: "nat option"
  link_key :: 'k
  link_value :: 'v

type_synonym ('k, 'v) node_heap = "nat \<rightharpoonup> ('k, 'v) base_node"

text \<open>\<^verbatim>\<open>while (prev_node->right != NULL && prev_node->right != cur_node) prev_node = prev_node->right;\<close>\<close>

partial_function (option) find_prev :: "('k, 'v) node_heap \<Rightarrow> nat \<Rightarrow> nat \<Rightarrow> (nat \<times> ('k, 'v) base_node) outcome option" where
  "find_prev h cur_node prev_node =
     (case h prev_node of
        None \<Rightarrow> Some (Inl UseAfterFree)
      | Some n \<Rightarrow>
          (case link_right n of
             None \<Rightarrow> Some (Inr (prev_node, n))
           | Some next \<Rightarrow> if next = cur_node then Some (Inr (prev_node, n)) else find_prev h cur_node next))"

text \<open>\<^verbatim>\<open>if (need_stop == FALSE) need_stop = traverse_func (key, value, user_data);\<close>\<close>

fun visit :: "('k \<Rightarrow> 'v \<Rightarrow> 's \<Rightarrow> bool \<times> 's) \<Rightarrow> 'k \<times> 'v \<Rightarrow> bool \<times> 's \<Rightarrow> bool \<times> 's" where
  "visit f (k, v) (need_stop, s) = (if need_stop then (need_stop, s) else f k v s)"

partial_function (option) foreach_nodes ::
    "('k \<Rightarrow> 'v \<Rightarrow> 's \<Rightarrow> bool \<times> 's) \<Rightarrow> nat option \<Rightarrow> pint32 \<Rightarrow> bool \<times> 's \<Rightarrow> ('k, 'v) node_heap
     \<Rightarrow> (('k, 'v) node_heap \<times> 's) outcome option" where
  "foreach_nodes f cur mod_counter st h =
     (case cur of
        None \<Rightarrow> Some (Inr (h, snd st))
      | Some cur_node \<Rightarrow>
          (case h cur_node of
             None \<Rightarrow> Some (Inl UseAfterFree)
           | Some n \<Rightarrow>
               (case link_left n of
                  None \<Rightarrow> foreach_nodes f (link_right n) mod_counter (visit f (link_key n, link_value n) st) h
                | Some l \<Rightarrow>
                    (case find_prev h cur_node l of
                       None \<Rightarrow> None
                     | Some (Inl e) \<Rightarrow> Some (Inl e)
                     | Some (Inr (prev_node, pn)) \<Rightarrow>
                         if link_right pn = None
                         then foreach_nodes f (link_left n) (mod_counter + 1) st (h(prev_node \<mapsto> pn\<lparr>link_right := Some cur_node\<rparr>))
                         else let st = visit f (link_key n, link_value n) st;
                                  h = h(prev_node \<mapsto> pn\<lparr>link_right := None\<rparr>);
                                  mod_counter = mod_counter - 1
                              in if fst st \<and> mod_counter = 0 then Some (Inr (h, snd st))
                                 else foreach_nodes f (link_right n) mod_counter st h))))"

definition p_tree_foreach ::
    "nat option option \<Rightarrow> ('k \<Rightarrow> 'v \<Rightarrow> 's \<Rightarrow> bool \<times> 's) option \<Rightarrow> ('k, 'v) node_heap \<Rightarrow> 's
     \<Rightarrow> (('k, 'v) node_heap \<times> 's) outcome option" where
  "p_tree_foreach tree traverse_func h s =
     (case (tree, traverse_func) of
        (Some (Some root), Some f) \<Rightarrow> foreach_nodes f (Some root) 0 (False, s) h
      | _ \<Rightarrow> Some (Inr (h, s)))"

section \<open>A tree in the heap\<close>

text \<open>
  \<open>holds_tree h p t x\<close>: from \<open>p\<close> there is the tree \<open>t\<close>, whose marks are the addresses of its nodes, and
  the right pointer of its last node is \<open>x\<close>: NULL in a tree, and a thread to the next node while the
  traversal is below it.
\<close>

fun holds_tree :: "('k, 'v) node_heap \<Rightarrow> nat option \<Rightarrow> ('k, 'v, nat) tree_node \<Rightarrow> nat option \<Rightarrow> bool" where
  "holds_tree h p NULL x \<longleftrightarrow> p = x"
| "holds_tree h p (PTreeBaseNode l k v a r) x \<longleftrightarrow>
     p = Some a \<and> (\<exists>n. h a = Some n \<and> link_key n = k \<and> link_value n = v \<and> holds_tree h (link_left n) l None \<and> holds_tree h (link_right n) r x)"

fun addresses :: "('k, 'v, nat) tree_node \<Rightarrow> nat list" where
  "addresses NULL = []"
| "addresses (PTreeBaseNode l k v a r) = addresses l @ a # addresses r"

lemma addresses_empty [simp]: "addresses t = [] \<longleftrightarrow> t = NULL"
  by (cases t) simp_all

lemma addresses_length: "length (addresses t) = length (inorder t)"
  by (induction t) simp_all

lemma holds_tree_upd [simp]: "a \<notin> set (addresses t) \<Longrightarrow> holds_tree (h(a := n)) p t x = holds_tree h p t x"
  by (induction t arbitrary: p x) auto

lemmas holds_tree_upd_lambda [simp] = holds_tree_upd [unfolded fun_upd_def]

lemma holds_tree_pointer: "holds_tree h p t x \<Longrightarrow> t \<noteq> NULL \<Longrightarrow> \<exists>a. p = Some a \<and> a \<in> set (addresses t)"
  by (cases t) auto

text \<open>The last node of a tree and its right pointer.\<close>

lemma holds_tree_last:
  assumes "holds_tree h p t x" "t \<noteq> NULL"
  shows "\<exists>n. h (last (addresses t)) = Some n \<and> link_right n = x"
  using assms by (induction t arbitrary: p) auto

lemma holds_tree_thread:
  assumes "holds_tree h p t x" "t \<noteq> NULL" "distinct (addresses t)" "h (last (addresses t)) = Some n"
  shows "holds_tree (h(last (addresses t) \<mapsto> n\<lparr>link_right := y\<rparr>)) p t y"
  using assms
proof (induction t arbitrary: p)
  case (PTreeBaseNode l k v a r)
  show ?case
  proof (cases "r = NULL")
    case True
    then show ?thesis
      using PTreeBaseNode.prems by auto
  next
    case False
    then have "last (addresses r) \<in> set (addresses r)"
      by simp
    then have "last (addresses r) \<noteq> a" "last (addresses r) \<notin> set (addresses l)"
      using PTreeBaseNode.prems(3) by auto
    then show ?thesis
      using PTreeBaseNode.prems PTreeBaseNode.IH(2) False by auto
  qed
qed simp

text \<open>The search for the last node of the left subtree stops at it, with and without the thread.\<close>

lemma find_prev_last:
  assumes "holds_tree h p t x" "t \<noteq> NULL" "x = None \<or> x = Some cur" "cur \<notin> set (addresses t)" "p = Some a"
  shows "\<exists>n. h (last (addresses t)) = Some n \<and> link_right n = x \<and> find_prev h cur a = Some (Inr (last (addresses t), n))"
  using assms
proof (induction t arbitrary: p a)
  case (PTreeBaseNode l k v b r)
  then obtain n where n: "a = b" "h b = Some n" "holds_tree h (link_right n) r x"
    by auto
  show ?case
  proof (cases "r = NULL")
    case True
    then show ?thesis
      using n PTreeBaseNode.prems(3) by (subst find_prev.simps) (auto split: option.split)
  next
    case False
    then obtain c where c: "link_right n = Some c" "c \<in> set (addresses r)"
      using holds_tree_pointer [OF n(3)] by auto
    moreover have "c \<noteq> cur"
      using c(2) PTreeBaseNode.prems(4) by auto
    ultimately show ?thesis
      using PTreeBaseNode.IH(2) [OF n(3) False _ _ c(1)] PTreeBaseNode.prems(3,4) n(1,2) False
      by (subst find_prev.simps) simp
  qed
qed simp

text \<open>
  One left subtree: the thread is written, the subtree traversed, and at the node the thread is
  found again and taken out. \<open>below\<close> is the induction hypothesis for the subtree.
\<close>

lemma foreach_left:
  assumes at: "h a = Some n" and sub: "holds_tree h (link_left n) l None" "l \<noteq> NULL" "a \<notin> set (addresses l)" "distinct (addresses l)"
    and below: "\<And>h'. holds_tree h' (link_left n) l (Some a) \<Longrightarrow>
      foreach_nodes f (link_left n) (m + 1) st h' = foreach_nodes f (Some a) (m + 1) st' h'"
  shows "foreach_nodes f (Some a) m st h =
    (let st = visit f (link_key n, link_value n) st'
     in if fst st \<and> m = 0 then Some (Inr (h, snd st)) else foreach_nodes f (link_right n) m st h)"
proof -
  let ?b = "last (addresses l)"
  obtain p where p: "link_left n = Some p"
    using holds_tree_pointer [OF sub(1,2)] by blast
  have "?b \<noteq> a"
    using sub(2,3) by (metis addresses_empty last_in_set)
  obtain pn where pn: "h ?b = Some pn" "link_right pn = None" "find_prev h a p = Some (Inr (?b, pn))"
    using find_prev_last [OF sub(1,2) _ sub(3) p] by auto
  define h' where "h' = h(?b \<mapsto> pn\<lparr>link_right := Some a\<rparr>)"
  have thread: "holds_tree h' (link_left n) l (Some a)"
    unfolding h'_def by (rule holds_tree_thread [OF sub(1,2,4) pn(1)])
  obtain qn where qn: "h' ?b = Some qn" "link_right qn = Some a" "find_prev h' a p = Some (Inr (?b, qn))"
    using find_prev_last [OF thread sub(2) _ sub(3) p] by auto
  have "h'(?b \<mapsto> qn\<lparr>link_right := None\<rparr>) = h" and "h' a = Some n"
    using qn(1) pn(1,2) at \<open>?b \<noteq> a\<close> by (auto simp: h'_def fun_eq_iff)
  then have "foreach_nodes f (Some a) (m + 1) st' h' =
    (let st = visit f (link_key n, link_value n) st'
     in if fst st \<and> m = 0 then Some (Inr (h, snd st)) else foreach_nodes f (link_right n) m st h)"
    using p qn by (subst foreach_nodes.simps) (simp add: Let_def)
  moreover have "foreach_nodes f (Some a) m st h = foreach_nodes f (link_left n) (m + 1) st h'"
    using at p pn by (subst foreach_nodes.simps) (simp add: h'_def)
  ultimately show ?thesis
    using below [OF thread] by simp
qed

lemma visit_stopped [simp]: "fst st \<Longrightarrow> visit f kv st = st"
  by (cases st; cases kv) simp

lemma visits_stopped: "fst st \<Longrightarrow> fold (visit f) xs st = st"
  by (induction xs) simp_all

text \<open>
  Below a thread the traversal does not return; it goes through the subtree and comes out at the
  thread, with the counter and the heap as they were.
\<close>

lemma foreach_below_thread:
  assumes "holds_tree h p t x" "distinct (addresses t)" "0 < m" "m + length (addresses t) < 2 ^ 32"
  shows "foreach_nodes f p (of_nat m) st h = foreach_nodes f x (of_nat m) (fold (visit f) (inorder t) st) h"
  using assms
proof (induction t arbitrary: p x m st h)
  case (PTreeBaseNode l k v a r)
  then obtain n where n: "p = Some a" "h a = Some n" "link_key n = k" "link_value n = v"
      "holds_tree h (link_left n) l None" "holds_tree h (link_right n) r x"
    by auto
  have rest: "foreach_nodes f (link_right n) (of_nat m) st h
      = foreach_nodes f x (of_nat m) (fold (visit f) (inorder r) st) h" for st
    using PTreeBaseNode.IH(2) [OF n(6)] PTreeBaseNode.prems(2,3,4) by simp
  show ?case
  proof (cases "l = NULL")
    case True
    then show ?thesis
      using n by (subst foreach_nodes.simps) (simp add: rest)
  next
    case False
    have "foreach_nodes f (link_left n) (of_nat m + 1) st h'
        = foreach_nodes f (Some a) (of_nat m + 1) (fold (visit f) (inorder l) st) h'"
      if "holds_tree h' (link_left n) l (Some a)" for h'
      using PTreeBaseNode.IH(1) [OF that, of "Suc m"] PTreeBaseNode.prems(2,3,4) by (simp add: add.commute)
    moreover have "(of_nat m :: pint32) \<noteq> 0"
      using PTreeBaseNode.prems(3,4) by (simp add: word_of_nat_eq_0_iff nat_dvd_not_less)
    ultimately show ?thesis
      using foreach_left [where f = f and m = "of_nat m", OF n(2,5) False] PTreeBaseNode.prems(2) n
      by (simp add: rest Let_def)
  qed
qed simp

lemma foreach_whole:
  assumes "holds_tree h p t None" "distinct (addresses t)" "length (addresses t) < 2 ^ 32"
  shows "foreach_nodes f p 0 st h = Some (Inr (h, snd (fold (visit f) (inorder t) st)))"
  using assms
proof (induction t arbitrary: p st)
  case NULL
  then show ?case by (subst foreach_nodes.simps) simp
next
  case (PTreeBaseNode l k v a r)
  then obtain n where n: "p = Some a" "h a = Some n" "link_key n = k" "link_value n = v"
      "holds_tree h (link_left n) l None" "holds_tree h (link_right n) r None"
    by auto
  have rest: "foreach_nodes f (link_right n) 0 st h = Some (Inr (h, snd (fold (visit f) (inorder r) st)))" for st
    using PTreeBaseNode.IH(2) [OF n(6)] PTreeBaseNode.prems(2,3) by simp
  show ?case
  proof (cases "l = NULL")
    case True
    then show ?thesis
      using n by (subst foreach_nodes.simps) (simp add: rest)
  next
    case False
    have "foreach_nodes f (link_left n) (0 + 1) st h'
        = foreach_nodes f (Some a) (0 + 1) (fold (visit f) (inorder l) st) h'"
      if "holds_tree h' (link_left n) l (Some a)" for h'
      using foreach_below_thread [OF that, of 1] PTreeBaseNode.prems(2,3) by simp
    then show ?thesis
      using foreach_left [where f = f and m = 0, OF n(2,5) False] PTreeBaseNode.prems(2) n
      by (simp add: rest Let_def visits_stopped)
  qed
qed

section \<open>Property\<close>

text \<open>What a caller expects: the function is called on each entry in turn, until it says stop.\<close>

fun call_until :: "('k \<Rightarrow> 'v \<Rightarrow> 's \<Rightarrow> bool \<times> 's) \<Rightarrow> ('k \<times> 'v) list \<Rightarrow> 's \<Rightarrow> 's" where
  "call_until f [] s = s"
| "call_until f ((k, v) # xs) s = (case f k v s of (stop, s) \<Rightarrow> if stop then s else call_until f xs s)"

lemma visits_call_until: "snd (fold (visit f) xs (False, s)) = call_until f xs s"
proof (induction f xs s rule: call_until.induct)
  case (2 f k v xs s)
  then show ?case
    by (cases "f k v s") (auto simp: visits_stopped)
qed simp

text \<open>
  [C39] The traversal of a tree: on a tree of fewer than 2^31 nodes the threaded loop ends, calls the
  function on the entries in the order of the tree until the function says stop, never follows a
  pointer to a node that is not there, and leaves every pointer of every node as it found it, also
  when it returns early.
\<close>

theorem foreach_in_order:
  assumes "holds_tree h p t None" "distinct (addresses t)" "length (inorder t) < 2 ^ 31"
  shows "p_tree_foreach (Some p) (Some f) h s = Some (Inr (h, call_until f (inorder t) s))"
proof (cases p)
  case None
  then show ?thesis
    using assms(1) by (cases t) (simp_all add: p_tree_foreach_def)
next
  case (Some root)
  then show ?thesis
    using foreach_whole [where f = f and st = "(False, s)", OF assms(1,2)] assms(3)
    by (simp add: p_tree_foreach_def addresses_length visits_call_until)
qed

definition sample_nodes :: "(nat, nat) node_heap" where
  "sample_nodes = [10 \<mapsto> \<lparr>link_left = Some 20, link_right = Some 30, link_key = 3, link_value = 0\<rparr>,
     20 \<mapsto> \<lparr>link_left = None, link_right = Some 40, link_key = 1, link_value = 0\<rparr>,
     40 \<mapsto> \<lparr>link_left = None, link_right = None, link_key = 2, link_value = 1\<rparr>,
     30 \<mapsto> \<lparr>link_left = None, link_right = None, link_key = 4, link_value = 0\<rparr>]"

definition sample_nodes_tree :: "(nat, nat, nat) tree_node" where
  "sample_nodes_tree = PTreeBaseNode (PTreeBaseNode NULL 1 0 20 (PTreeBaseNode NULL 2 1 40 NULL)) 3 0 10 (PTreeBaseNode NULL 4 0 30 NULL)"

theorem foreach_in_order_witness:
  "p_tree_foreach (Some (Some 10)) (Some (\<lambda>k v s. (v = 1, s @ [k]))) sample_nodes [] = Some (Inr (sample_nodes, [1, 2]))"
proof -
  have "holds_tree sample_nodes (Some 10) sample_nodes_tree None" "distinct (addresses sample_nodes_tree)"
      "length (inorder sample_nodes_tree) < 2 ^ 31"
    by (simp_all add: sample_nodes_def sample_nodes_tree_def)
  from foreach_in_order [OF this, of "\<lambda>k v s. (v = 1, s @ [k])" "[]"] show ?thesis
    by (simp add: sample_nodes_tree_def)
qed

end
