(* ===== verification/TC_PList.thy ===== *)
theory TC_PList
  imports TC_Prelude
begin

text \<open>
  The singly linked lists of plibsys, \<^verbatim>\<open>plibsys-master/src/plist.c\<close>, in which the router keeps its
  joinables and a map its block definitions.

  The nodes are in a heap, a map from addresses to the data and the next pointer; following a
  pointer to a freed node is a fault. A loop along the next pointers need not end, so it is a
  \<open>partial_function\<close> whose value is \<open>None\<close> when it does not. An allocation returns a given address,
  or NULL.
\<close>

section \<open>Nodes and loops\<close>

type_synonym plist = "nat option"

record 'd plist_node =
  list_data :: 'd
  list_next :: plist

type_synonym 'd plist_heap = "nat \<rightharpoonup> 'd plist_node"

text \<open>\<^verbatim>\<open>for (cur = list; cur->next != NULL; cur = cur->next) ;\<close>\<close>

partial_function (option) last_from :: "'d plist_heap \<Rightarrow> nat \<Rightarrow> nat outcome option" where
  "last_from h cur =
     (case h cur of
        None \<Rightarrow> Some (Inl UseAfterFree)
      | Some n \<Rightarrow> (case list_next n of None \<Rightarrow> Some (Inr cur) | Some next \<Rightarrow> last_from h next))"

definition p_list_append ::
    "nat option \<Rightarrow> plist \<Rightarrow> 'd \<Rightarrow> 'd plist_heap \<Rightarrow> (plist \<times> 'd plist_heap) outcome option" where
  "p_list_append new list data h =
     (case new of
        None \<Rightarrow> Some (Inr (list, h))
      | Some item \<Rightarrow>
          let h = h(item \<mapsto> \<lparr>list_data = data, list_next = None\<rparr>)
          in (case list of
                None \<Rightarrow> Some (Inr (Some item, h))
              | Some l \<Rightarrow>
                  (case last_from h l of
                     None \<Rightarrow> None
                   | Some (Inl f) \<Rightarrow> Some (Inl f)
                   | Some (Inr cur) \<Rightarrow>
                       Some (Inr (list, h(cur \<mapsto> the (h cur)\<lparr>list_next := Some item\<rparr>))))))"

text \<open>The loop of \<^verbatim>\<open>p_list_remove\<close>, which returns the head.\<close>

partial_function (option) remove_loop ::
    "'d \<Rightarrow> plist \<Rightarrow> plist \<Rightarrow> plist \<Rightarrow> 'd plist_heap \<Rightarrow> (plist \<times> 'd plist_heap) outcome option" where
  "remove_loop data head prev cur h =
     (case cur of
        None \<Rightarrow> Some (Inr (head, h))
      | Some c \<Rightarrow>
          (case h c of
             None \<Rightarrow> Some (Inl UseAfterFree)
           | Some n \<Rightarrow>
               if list_data n = data
               then (case prev of
                       None \<Rightarrow> Some (Inr (list_next n, h(c := None)))
                     | Some p \<Rightarrow>
                         (case h p of
                            None \<Rightarrow> Some (Inl UseAfterFree)
                          | Some pn \<Rightarrow> Some (Inr (head, h(p \<mapsto> pn\<lparr>list_next := list_next n\<rparr>, c := None)))))
               else remove_loop data head cur (list_next n) h))"

definition p_list_remove :: "plist \<Rightarrow> 'd \<Rightarrow> 'd plist_heap \<Rightarrow> (plist \<times> 'd plist_heap) outcome option" where
  "p_list_remove list data h =
     (case list of None \<Rightarrow> Some (Inr (None, h)) | Some _ \<Rightarrow> remove_loop data list None list h)"

text \<open>The function given to \<^verbatim>\<open>p_list_foreach\<close> works on a state of its own.\<close>

partial_function (option) foreach_loop :: "('d \<Rightarrow> 's \<Rightarrow> 's) \<Rightarrow> plist \<Rightarrow> 'd plist_heap \<Rightarrow> 's \<Rightarrow> 's outcome option" where
  "foreach_loop func cur h s =
     (case cur of
        None \<Rightarrow> Some (Inr s)
      | Some c \<Rightarrow>
          (case h c of
             None \<Rightarrow> Some (Inl UseAfterFree)
           | Some n \<Rightarrow> foreach_loop func (list_next n) h (func (list_data n) s)))"

definition p_list_foreach :: "plist \<Rightarrow> ('d \<Rightarrow> 's \<Rightarrow> 's) option \<Rightarrow> 'd plist_heap \<Rightarrow> 's \<Rightarrow> 's outcome option" where
  "p_list_foreach list func h s =
     (case (list, func) of (Some _, Some f) \<Rightarrow> foreach_loop f list h s | _ \<Rightarrow> Some (Inr s))"

partial_function (option) free_loop :: "plist \<Rightarrow> 'd plist_heap \<Rightarrow> 'd plist_heap outcome option" where
  "free_loop cur h =
     (case cur of
        None \<Rightarrow> Some (Inr h)
      | Some c \<Rightarrow>
          (case h c of
             None \<Rightarrow> Some (Inl UseAfterFree)
           | Some n \<Rightarrow> free_loop (list_next n) (h(c := None))))"

definition p_list_free :: "plist \<Rightarrow> 'd plist_heap \<Rightarrow> 'd plist_heap outcome option" where
  "p_list_free list h = (case list of None \<Rightarrow> Some (Inr h) | Some _ \<Rightarrow> free_loop list h)"

definition p_list_last :: "plist \<Rightarrow> 'd plist_heap \<Rightarrow> plist outcome option" where
  "p_list_last list h =
     (case list of None \<Rightarrow> Some (Inr None) | Some l \<Rightarrow> map_option (map_sum id Some) (last_from h l))"

partial_function (option) length_loop :: "'d plist_heap \<Rightarrow> nat \<Rightarrow> psize \<Rightarrow> psize outcome option" where
  "length_loop h cur ret =
     (case h cur of
        None \<Rightarrow> Some (Inl UseAfterFree)
      | Some n \<Rightarrow> (case list_next n of None \<Rightarrow> Some (Inr ret) | Some next \<Rightarrow> length_loop h next (ret + 1)))"

definition p_list_length :: "plist \<Rightarrow> 'd plist_heap \<Rightarrow> psize outcome option" where
  "p_list_length list h = (case list of None \<Rightarrow> Some (Inr 0) | Some l \<Rightarrow> length_loop h l 1)"

definition p_list_prepend :: "nat option \<Rightarrow> plist \<Rightarrow> 'd \<Rightarrow> 'd plist_heap \<Rightarrow> plist \<times> 'd plist_heap" where
  "p_list_prepend new list data h =
     (case new of
        None \<Rightarrow> (list, h)
      | Some item \<Rightarrow>
          let h = h(item \<mapsto> \<lparr>list_data = data, list_next = None\<rparr>)
          in (case list of
                None \<Rightarrow> (Some item, h)
              | Some _ \<Rightarrow> (Some item, h(item \<mapsto> \<lparr>list_data = data, list_next = list\<rparr>))))"

partial_function (option) reverse_loop ::
    "nat \<Rightarrow> plist \<Rightarrow> 'd plist_heap \<Rightarrow> (plist \<times> 'd plist_heap) outcome option" where
  "reverse_loop prev cur h =
     (case cur of
        None \<Rightarrow> Some (Inr (Some prev, h))
      | Some c \<Rightarrow>
          (case h c of
             None \<Rightarrow> Some (Inl UseAfterFree)
           | Some n \<Rightarrow> reverse_loop c (list_next n) (h(c \<mapsto> n\<lparr>list_next := Some prev\<rparr>))))"

definition p_list_reverse :: "plist \<Rightarrow> 'd plist_heap \<Rightarrow> (plist \<times> 'd plist_heap) outcome option" where
  "p_list_reverse list h =
     (case list of
        None \<Rightarrow> Some (Inr (None, h))
      | Some l \<Rightarrow>
          (case h l of
             None \<Rightarrow> Some (Inl UseAfterFree)
           | Some n \<Rightarrow> reverse_loop l (list_next n) (h(l \<mapsto> n\<lparr>list_next := None\<rparr>))))"

section \<open>Linked nodes as lists\<close>

text \<open>The nodes from \<open>p\<close> on are at the addresses \<open>as\<close> and hold the data \<open>ds\<close>.\<close>

fun node_chain :: "'d plist_heap \<Rightarrow> plist \<Rightarrow> nat list \<Rightarrow> 'd list \<Rightarrow> bool" where
  "node_chain h p [] [] \<longleftrightarrow> p = None"
| "node_chain h p (a # as) (d # ds) \<longleftrightarrow> p = Some a \<and> a \<notin> set as \<and>
     (\<exists>n. h a = Some n \<and> list_data n = d \<and> node_chain h (list_next n) as ds)"
| "node_chain h p _ _ \<longleftrightarrow> False"

lemma node_chain_length: "node_chain h p as ds \<Longrightarrow> length ds = length as"
  by (induction h p as ds rule: node_chain.induct) auto

lemma node_chain_None [simp]: "node_chain h None as ds \<longleftrightarrow> as = [] \<and> ds = []"
  by (cases as; cases ds) auto

lemma node_chain_Some: "node_chain h (Some a) as ds \<longleftrightarrow> (\<exists>as' n ds'. as = a # as' \<and> a \<notin> set as' \<and> h a = Some n
    \<and> ds = list_data n # ds' \<and> node_chain h (list_next n) as' ds')"
  by (cases as; cases ds) auto

text \<open>A chain does not depend on the memory outside of it.\<close>

lemma node_chain_frame: "(\<And>a. a \<in> set as \<Longrightarrow> h' a = h a) \<Longrightarrow> node_chain h p as ds \<Longrightarrow> node_chain h' p as ds"
  by (induction h p as ds rule: node_chain.induct) auto

lemma node_chain_upd [simp]: "a \<notin> set as \<Longrightarrow> node_chain (h(a := x)) p as ds = node_chain h p as ds"
  by (auto intro: node_chain_frame [rotated])

lemmas node_chain_upd_lambda [simp] = node_chain_upd [unfolded fun_upd_def]

lemma node_chain_allocated: "node_chain h p as ds \<Longrightarrow> a \<in> set as \<Longrightarrow> h a \<noteq> None"
  by (induction h p as ds rule: node_chain.induct) auto

section \<open>The operations on chains\<close>

text \<open>Nothing but the nodes of the list and a new one is written.\<close>

definition only_at :: "nat set \<Rightarrow> 'd plist_heap \<Rightarrow> 'd plist_heap \<Rightarrow> bool" where
  "only_at A h h' \<longleftrightarrow> (\<forall>a. a \<notin> A \<longrightarrow> h' a = h a)"

lemma last_from_chain:
  "node_chain h (Some l) as ds \<Longrightarrow> last_from h l = Some (Inr (last as))"
proof (induction as arbitrary: l ds)
  case (Cons a as)
  then obtain n ds' where n: "l = a" "h a = Some n" "node_chain h (list_next n) as ds'"
    by (auto simp: node_chain_Some)
  show ?case
  proof (cases "list_next n")
    case None
    then show ?thesis
      using n by (subst last_from.simps) simp
  next
    case (Some b)
    then have "last_from h b = Some (Inr (last as))" "as \<noteq> []"
      using n(3) Cons.IH by (auto simp: node_chain_Some)
    then show ?thesis
      using n(1,2) Some by (subst last_from.simps) simp
  qed
qed (simp add: node_chain_Some)

lemma node_chain_snoc:
  assumes "node_chain h p as ds" "as \<noteq> []" "item \<notin> set as" "h (last as) = Some n"
    and "h item = Some \<lparr>list_data = data, list_next = None\<rparr>"
  shows "node_chain (h(last as \<mapsto> n\<lparr>list_next := Some item\<rparr>)) p (as @ [item]) (ds @ [data])"
  using assms
proof (induction h p as ds rule: node_chain.induct)
  case (2 h p a as d ds)
  then show ?case
    by (cases "as = []") (auto simp: node_chain_length node_chain_Some dest: node_chain_length)
qed auto

lemma p_list_append_chain:
  assumes "node_chain h list as ds" "item \<notin> set as" "h item = None"
  shows "\<exists>list' h'. p_list_append (Some item) list data h = Some (Inr (list', h'))
    \<and> node_chain h' list' (as @ [item]) (ds @ [data]) \<and> only_at (set (as @ [item])) h h'"
proof (cases list)
  case None
  then show ?thesis
    using assms by (auto simp: p_list_append_def only_at_def)
next
  case (Some l)
  let ?h = "h(item \<mapsto> \<lparr>list_data = data, list_next = None\<rparr>)"
  have c: "node_chain ?h list as ds" "as \<noteq> []"
    using assms Some by (auto simp: node_chain_Some)
  then obtain n where "?h (last as) = Some n"
    using node_chain_allocated [OF c(1), of "last as"] by auto
  then show ?thesis
    using last_from_chain [of ?h l as ds] node_chain_snoc [OF c assms(2)] Some c
    by (auto simp: p_list_append_def Let_def only_at_def)
qed

lemma p_list_prepend_chain:
  assumes "node_chain h list as ds" "item \<notin> set as" "h item = None"
  shows "\<exists>list' h'. p_list_prepend (Some item) list data h = (list', h')
    \<and> node_chain h' list' (item # as) (data # ds) \<and> only_at (set (item # as)) h h'"
  using assms by (cases list) (auto simp: p_list_prepend_def only_at_def)

lemma reverse_loop_chain:
  "\<lbrakk>node_chain h cur as ds; node_chain h (Some prev) bs es; set as \<inter> set bs = {}\<rbrakk> \<Longrightarrow>
   \<exists>list' h'. reverse_loop prev cur h = Some (Inr (list', h')) \<and> node_chain h' list' (rev as @ bs) (rev ds @ es)
     \<and> only_at (set as) h h'"
proof (induction as arbitrary: cur ds prev bs es h)
  case Nil
  then show ?case
    by (cases ds) (auto simp: reverse_loop.simps only_at_def)
next
  case (Cons a as)
  then obtain n ds' where n: "cur = Some a" "ds = list_data n # ds'" "h a = Some n" "a \<notin> set as"
      "node_chain h (list_next n) as ds'"
    by (cases ds) auto
  let ?h = "h(a \<mapsto> n\<lparr>list_next := Some prev\<rparr>)"
  have c: "node_chain ?h (list_next n) as ds'" "node_chain ?h (Some a) (a # bs) (list_data n # es)"
    using n Cons.prems(2,3) by simp_all
  have "\<exists>list' h'. reverse_loop a (list_next n) ?h = Some (Inr (list', h'))
      \<and> node_chain h' list' (rev as @ a # bs) (rev ds' @ list_data n # es) \<and> only_at (set as) ?h h'"
    by (rule Cons.IH [OF c]) (use Cons.prems(3) n(4) in auto)
  moreover have "reverse_loop prev cur h = reverse_loop a (list_next n) ?h"
    using n by (subst reverse_loop.simps) simp
  ultimately show ?case
    using n(2) by (auto simp: only_at_def)
qed

lemma p_list_reverse_chain:
  assumes "node_chain h list as ds"
  shows "\<exists>list' h'. p_list_reverse list h = Some (Inr (list', h')) \<and> node_chain h' list' (rev as) (rev ds)
    \<and> only_at (set as) h h'"
proof (cases list)
  case None
  then show ?thesis
    using assms by (auto simp: p_list_reverse_def only_at_def)
next
  case (Some l)
  then obtain as' n ds' where n: "as = l # as'" "l \<notin> set as'" "h l = Some n" "ds = list_data n # ds'"
      "node_chain h (list_next n) as' ds'"
    using assms by (auto simp: node_chain_Some)
  let ?h = "h(l \<mapsto> n\<lparr>list_next := None\<rparr>)"
  show ?thesis
    using reverse_loop_chain [of ?h "list_next n" as' ds' l "[l]" "[list_data n]"] n Some
    by (auto simp: p_list_reverse_def only_at_def)
qed

lemma length_loop_chain:
  "node_chain h (Some l) as ds \<Longrightarrow> length_loop h l ret = Some (Inr (ret + of_nat (length ds) - 1))"
proof (induction as arbitrary: l ds ret)
  case (Cons a as)
  then obtain n ds' where n: "l = a" "h a = Some n" "ds = list_data n # ds'" "node_chain h (list_next n) as ds'"
    by (auto simp: node_chain_Some)
  show ?case
    using n Cons.IH [of _ ds' "ret + 1"]
    by (subst length_loop.simps) (auto split: option.split)
qed (simp add: node_chain_Some)

lemma p_list_length_chain: "node_chain h list as ds \<Longrightarrow> p_list_length list h = Some (Inr (of_nat (length ds)))"
  by (cases list) (auto simp: p_list_length_def length_loop_chain)

lemma foreach_loop_chain: "node_chain h cur as ds \<Longrightarrow> foreach_loop func cur h s = Some (Inr (fold func ds s))"
proof (induction as arbitrary: cur ds s)
  case Nil
  then show ?case by (cases ds) (auto simp: foreach_loop.simps)
next
  case (Cons a as)
  then show ?case by (cases ds) (auto simp: foreach_loop.simps [of func "Some a"])
qed

lemma p_list_foreach_chain:
  "node_chain h list as ds \<Longrightarrow> p_list_foreach list (Some func) h s = Some (Inr (fold func ds s))"
  by (cases list) (auto simp: p_list_foreach_def foreach_loop_chain)

lemma free_loop_chain: "node_chain h cur as ds \<Longrightarrow> free_loop cur h = Some (Inr (h |` (- set as)))"
proof (induction as arbitrary: cur ds h)
  case Nil
  then show ?case by (cases ds) (auto simp: free_loop.simps)
next
  case (Cons a as)
  then obtain n ds' where n: "cur = Some a" "h a = Some n" "a \<notin> set as" "node_chain h (list_next n) as ds'"
    by (cases ds) auto
  have "free_loop cur h = free_loop (list_next n) (h(a := None))"
    using n by (subst free_loop.simps) simp
  also have "\<dots> = Some (Inr (h(a := None) |` (- set as)))"
    using n(3,4) by (intro Cons.IH [of "h(a := None)" "list_next n" ds']) (rule node_chain_upd [THEN iffD2])
  also have "h(a := None) |` (- set as) = h |` (- set (a # as))"
    by (auto simp: restrict_map_def)
  finally show ?case .
qed

lemma p_list_free_chain: "node_chain h list as ds \<Longrightarrow> p_list_free list h = Some (Inr (h |` (- set as)))"
  by (cases list) (auto simp: p_list_free_def free_loop_chain)

text \<open>Removing a node in the middle of a chain: the node before it is linked to the one after it.\<close>

lemma node_chain_middle:
  "node_chain h p (bs @ c # cs) es \<Longrightarrow> \<exists>n es1 ds. es = es1 @ list_data n # ds \<and> length es1 = length bs \<and> h c = Some n
     \<and> c \<notin> set bs \<and> c \<notin> set cs \<and> node_chain h (list_next n) cs ds"
proof (induction bs arbitrary: p es)
  case (Cons b bs)
  then obtain n ds where n: "es = list_data n # ds" "h b = Some n" "b \<notin> set (bs @ c # cs)"
      "node_chain h (list_next n) (bs @ c # cs) ds"
    by (cases es) auto
  then show ?case
    using Cons.IH [OF n(4)] by (metis Cons_eq_appendI in_set_conv_decomp length_Cons set_ConsD)
next
  case Nil
  then show ?case by (cases es) auto
qed

lemma node_chain_unlink:
  assumes "node_chain h p (bs @ c # cs) (es @ d # ds)" "length es = length bs" "bs \<noteq> []" "h c = Some n" "h (last bs) = Some m"
  shows "node_chain (h(last bs \<mapsto> m\<lparr>list_next := list_next n\<rparr>)) p (bs @ cs) (es @ ds)"
  using assms
proof (induction bs arbitrary: p es)
  case (Cons b bs)
  then obtain e es' k where e: "es = e # es'" "p = Some b" "h b = Some k" "list_data k = e" "b \<notin> set (bs @ c # cs)"
      "node_chain h (list_next k) (bs @ c # cs) (es' @ d # ds)"
    by (cases es) auto
  show ?case
  proof (cases "bs = []")
    case True
    then show ?thesis
      using Cons.prems e by (auto simp: node_chain_Some)
  next
    case False
    then have "last bs \<noteq> b" "last bs \<in> set bs"
      using e(5) by auto
    then show ?thesis
      using Cons.IH [OF e(6)] Cons.prems e False by auto
  qed
qed simp

lemma remove_loop_chain:
  assumes "node_chain h head (bs @ cs) (es @ ds)" "length es = length bs" "cur = (if cs = [] then None else Some (hd cs))"
    and "prev = (if bs = [] then None else Some (last bs))"
  shows "\<exists>list' h' as'. remove_loop data head prev cur h = Some (Inr (list', h'))
    \<and> node_chain h' list' as' (es @ remove1 data ds) \<and> set as' \<subseteq> set (bs @ cs)
    \<and> (\<forall>a. a \<notin> set as' \<longrightarrow> h' a = (if a \<in> set (bs @ cs) then None else h a))"
  using assms
proof (induction cs arbitrary: bs es ds prev cur)
  case Nil
  then show ?case
    using node_chain_length [OF Nil.prems(1)] by (intro exI [of _ head] exI [of _ h] exI [of _ bs]) (auto simp: remove_loop.simps)
next
  case (Cons c cs)
  obtain n ds' where n: "ds = list_data n # ds'" "h c = Some n" "c \<notin> set bs" "c \<notin> set cs" "node_chain h (list_next n) cs ds'"
    using node_chain_middle [of h head bs c cs "es @ ds"] Cons.prems(1,2) by auto
  show ?case
  proof (cases "list_data n = data")
    case False
    have "remove_loop data head prev cur h = remove_loop data head (Some c) (list_next n) h"
      using False n Cons.prems(3) by (subst remove_loop.simps) simp
    moreover have "list_next n = (if cs = [] then None else Some (hd cs))"
      using n(5) by (cases cs; cases ds') auto
    ultimately show ?thesis
      using Cons.IH [of "bs @ [c]" "es @ [list_data n]" ds'] Cons.prems(1,2) n(1) False by auto
  next
    case True
    show ?thesis
    proof (cases "bs = []")
      case nil: True
      then have "remove_loop data head prev cur h = Some (Inr (list_next n, h(c := None)))"
        using True n Cons.prems(3,4) by (subst remove_loop.simps) simp
      moreover have "node_chain (h(c := None)) (list_next n) cs ds'"
        using n(4,5) by simp
      ultimately show ?thesis
        using nil n(1) True Cons.prems(2) by auto
    next
      case False
      then obtain m where m: "h (last bs) = Some m"
        using node_chain_allocated [OF Cons.prems(1), of "last bs"] by auto
      let ?h = "h(last bs \<mapsto> m\<lparr>list_next := list_next n\<rparr>, c := None)"
      have c: "node_chain ?h head (bs @ cs) (es @ remove1 data ds)"
        using node_chain_unlink [OF Cons.prems(1) [unfolded n(1)] Cons.prems(2) False n(2) m] n(1,3,4) True by simp
      have run: "remove_loop data head prev cur h = Some (Inr (head, ?h))"
        using True False n m Cons.prems(3,4) by (subst remove_loop.simps) simp
      have frame: "\<forall>a. a \<notin> set (bs @ cs) \<longrightarrow> ?h a = (if a \<in> set (bs @ c # cs) then None else h a)"
        using False by auto
      show ?thesis
        by (intro exI [of _ head] exI [of _ ?h] exI [of _ "bs @ cs"] conjI run c frame) auto
    qed
  qed
qed

lemma p_list_remove_chain:
  assumes "node_chain h list as ds"
  shows "\<exists>list' h' as'. p_list_remove list data h = Some (Inr (list', h')) \<and> node_chain h' list' as' (remove1 data ds)
    \<and> set as' \<subseteq> set as \<and> (\<forall>a. a \<notin> set as' \<longrightarrow> h' a = (if a \<in> set as then None else h a))"
proof (cases list)
  case None
  then show ?thesis
    using assms by (auto simp: p_list_remove_def)
next
  case (Some l)
  have "\<exists>list' h' as'. remove_loop data list None list h = Some (Inr (list', h'))
    \<and> node_chain h' list' as' ([] @ remove1 data ds) \<and> set as' \<subseteq> set ([] @ as)
    \<and> (\<forall>a. a \<notin> set as' \<longrightarrow> h' a = (if a \<in> set ([] @ as) then None else h a))"
    using assms Some by (intro remove_loop_chain) (auto simp: node_chain_Some)
  then show ?thesis
    using Some by (simp add: p_list_remove_def)
qed

section \<open>Sequences of calls\<close>

text \<open>
  A program with one list variable. \<open>malloc\<close> chooses the address of a new node; the flag of a call
  says whether the allocation succeeds.
\<close>

datatype 'd list_call =
    List_Append bool 'd | List_Prepend bool 'd | List_Remove 'd | List_Reverse | List_Length | List_Visit

datatype 'd list_reply = List_Done | List_Number psize | List_Visited "'d list"

definition alloc :: "('d plist_heap \<Rightarrow> nat) \<Rightarrow> bool \<Rightarrow> 'd plist_heap \<Rightarrow> nat option" where
  "alloc malloc ok h = (if ok then Some (malloc h) else None)"

definition fresh_malloc :: "('d plist_heap \<Rightarrow> nat) \<Rightarrow> bool" where
  "fresh_malloc malloc \<longleftrightarrow> (\<forall>h. finite (dom h) \<longrightarrow> h (malloc h) = None)"

definition with_reply :: "'r \<Rightarrow> 's outcome option \<Rightarrow> ('r \<times> 's) outcome option" where
  "with_reply r = map_option (map_sum id (Pair r))"

fun do_list_call :: "('d plist_heap \<Rightarrow> nat) \<Rightarrow> 'd list_call \<Rightarrow> plist \<Rightarrow> 'd plist_heap
    \<Rightarrow> ('d list_reply \<times> plist \<times> 'd plist_heap) outcome option" where
  "do_list_call malloc (List_Append ok d) list h = with_reply List_Done (p_list_append (alloc malloc ok h) list d h)"
| "do_list_call malloc (List_Prepend ok d) list h =
     Some (Inr (List_Done, p_list_prepend (alloc malloc ok h) list d h))"
| "do_list_call malloc (List_Remove d) list h = with_reply List_Done (p_list_remove list d h)"
| "do_list_call malloc List_Reverse list h = with_reply List_Done (p_list_reverse list h)"
| "do_list_call malloc List_Length list h = map_option (map_sum id (\<lambda>n. (List_Number n, list, h))) (p_list_length list h)"
| "do_list_call malloc List_Visit list h =
     map_option (map_sum id (\<lambda>ds. (List_Visited (rev ds), list, h))) (p_list_foreach list (Some (#)) h [])"

fun list_calls :: "('d plist_heap \<Rightarrow> nat) \<Rightarrow> 'd list_call list \<Rightarrow> plist \<Rightarrow> 'd plist_heap
    \<Rightarrow> ('d list_reply list \<times> plist \<times> 'd plist_heap) outcome option" where
  "list_calls malloc [] list h = Some (Inr ([], list, h))"
| "list_calls malloc (c # cs) list h =
     (case do_list_call malloc c list h of
        None \<Rightarrow> None
      | Some (Inl f) \<Rightarrow> Some (Inl f)
      | Some (Inr (r, list, h)) \<Rightarrow> map_option (map_sum id (apfst ((#) r))) (list_calls malloc cs list h))"

fun spec_list_call :: "'d list_call \<Rightarrow> 'd list \<Rightarrow> 'd list_reply \<times> 'd list" where
  "spec_list_call (List_Append ok d) ds = (List_Done, if ok then ds @ [d] else ds)"
| "spec_list_call (List_Prepend ok d) ds = (List_Done, if ok then d # ds else ds)"
| "spec_list_call (List_Remove d) ds = (List_Done, remove1 d ds)"
| "spec_list_call List_Reverse ds = (List_Done, rev ds)"
| "spec_list_call List_Length ds = (List_Number (of_nat (length ds)), ds)"
| "spec_list_call List_Visit ds = (List_Visited ds, ds)"

fun spec_list_calls :: "'d list_call list \<Rightarrow> 'd list \<Rightarrow> 'd list_reply list \<times> 'd list" where
  "spec_list_calls [] ds = ([], ds)"
| "spec_list_calls (c # cs) ds = (case spec_list_call c ds of (r, ds) \<Rightarrow> apfst ((#) r) (spec_list_calls cs ds))"

text \<open>The list owns nodes that were free in the heap \<open>h0\<close>, and the rest of the heap is as it was.\<close>

definition owns :: "'d plist_heap \<Rightarrow> 'd plist_heap \<Rightarrow> plist \<Rightarrow> 'd list \<Rightarrow> bool" where
  "owns h0 h list ds \<longleftrightarrow> finite (dom h) \<and>
     (\<exists>as. node_chain h list as ds \<and> (\<forall>a \<in> set as. h0 a = None) \<and> (\<forall>a. a \<notin> set as \<longrightarrow> h a = h0 a))"

lemma ownsI:
  assumes "node_chain h list as ds" "\<forall>a \<in> set as. h0 a = None" "\<forall>a. a \<notin> set as \<longrightarrow> h a = h0 a" "finite (dom h0)"
  shows "owns h0 h list ds"
proof -
  have "dom h \<subseteq> dom h0 \<union> set as"
    using assms(3) by (auto simp: dom_def)
  then show ?thesis
    using assms finite_subset [of "dom h" "dom h0 \<union> set as"] by (auto simp: owns_def)
qed

lemma owns_base: "owns h0 h list ds \<Longrightarrow> finite (dom h0)"
proof -
  assume "owns h0 h list ds"
  then obtain as where as: "finite (dom h)" "node_chain h list as ds" "\<forall>a \<in> set as. h0 a = None" "\<forall>a. a \<notin> set as \<longrightarrow> h a = h0 a"
    by (auto simp: owns_def)
  then have "dom h0 \<subseteq> dom h"
    by (metis domIff subsetI)
  then show ?thesis
    using as(1) finite_subset by blast
qed

lemma list_call_refines:
  assumes "owns h0 h list ds" "fresh_malloc malloc"
  shows "\<exists>list' h'. do_list_call malloc c list h = Some (Inr (fst (spec_list_call c ds), list', h'))
    \<and> owns h0 h' list' (snd (spec_list_call c ds))"
proof -
  obtain as where as: "node_chain h list as ds" "\<forall>a \<in> set as. h0 a = None" "\<forall>a. a \<notin> set as \<longrightarrow> h a = h0 a" "finite (dom h)"
    using assms(1) by (auto simp: owns_def)
  note fin = owns_base [OF assms(1)]
  have new: "h (malloc h) = None" "malloc h \<notin> set as" "h0 (malloc h) = None"
    using assms(2) as node_chain_allocated [OF as(1), of "malloc h"] by (metis fresh_malloc_def)+
  show ?thesis
  proof (cases c)
    case (List_Append ok d)
    obtain list' h' where app: "p_list_append (Some (malloc h)) list d h = Some (Inr (list', h'))"
        "node_chain h' list' (as @ [malloc h]) (ds @ [d])" "only_at (set (as @ [malloc h])) h h'"
      using p_list_append_chain [OF as(1) new(2,1), of d] by blast
    then have "owns h0 h' list' (ds @ [d])"
      using as(2,3) new(3) fin by (intro ownsI [OF app(2)]) (auto simp: only_at_def)
    then show ?thesis
      using List_Append app(1) assms(1) by (cases ok) (simp_all add: alloc_def with_reply_def p_list_append_def)
  next
    case (List_Prepend ok d)
    obtain list' h' where pre: "p_list_prepend (Some (malloc h)) list d h = (list', h')"
        "node_chain h' list' (malloc h # as) (d # ds)" "only_at (set (malloc h # as)) h h'"
      using p_list_prepend_chain [OF as(1) new(2,1), of d] by blast
    then have "owns h0 h' list' (d # ds)"
      using as(2,3) new(3) fin by (intro ownsI [OF pre(2)]) (auto simp: only_at_def)
    then show ?thesis
      using List_Prepend pre(1) assms(1) by (cases ok) (simp_all add: alloc_def p_list_prepend_def)
  next
    case (List_Remove d)
    obtain list' h' as' where rm: "p_list_remove list d h = Some (Inr (list', h'))"
        "node_chain h' list' as' (remove1 d ds)" "set as' \<subseteq> set as"
        "\<forall>a. a \<notin> set as' \<longrightarrow> h' a = (if a \<in> set as then None else h a)"
      using p_list_remove_chain [OF as(1), of d] by blast
    then have "owns h0 h' list' (remove1 d ds)"
      using as(2,3) fin by (intro ownsI [OF rm(2)]) auto
    then show ?thesis
      using List_Remove rm(1) by (simp add: with_reply_def)
  next
    case List_Reverse
    then show ?thesis
      using p_list_reverse_chain [OF as(1)] as fin
      by (auto simp: with_reply_def only_at_def intro!: ownsI)
  next
    case List_Length
    then show ?thesis
      using p_list_length_chain [OF as(1)] assms(1) by simp
  next
    case List_Visit
    then show ?thesis
      using p_list_foreach_chain [OF as(1), of "(#)" "[]"] assms(1) by (simp add: fold_Cons_rev)
  qed
qed

lemma list_calls_refine:
  "owns h0 h list ds \<Longrightarrow> fresh_malloc malloc \<Longrightarrow>
   \<exists>list' h'. list_calls malloc cs list h = Some (Inr (fst (spec_list_calls cs ds), list', h'))
     \<and> owns h0 h' list' (snd (spec_list_calls cs ds))"
proof (induction cs arbitrary: list h ds)
  case (Cons c cs)
  obtain list' h' where c: "do_list_call malloc c list h = Some (Inr (fst (spec_list_call c ds), list', h'))"
      "owns h0 h' list' (snd (spec_list_call c ds))"
    using list_call_refines [OF Cons.prems] by blast
  then show ?case
    using Cons.IH [OF c(2) Cons.prems(2)] by (auto simp: split_beta)
qed auto

lemma free_restores:
  assumes "owns h0 h list ds"
  shows "p_list_free list h = Some (Inr h0)"
proof -
  obtain as where as: "node_chain h list as ds" "\<forall>a \<in> set as. h0 a = None" "\<forall>a. a \<notin> set as \<longrightarrow> h a = h0 a"
    using assms by (auto simp: owns_def)
  then have "h |` (- set as) = h0"
    by (auto simp: restrict_map_def)
  then show ?thesis
    using p_list_free_chain [OF as(1)] by simp
qed

section \<open>Properties\<close>

text \<open>
  [C40] The linked lists of plibsys are lists: starting from NULL in any heap, every sequence of
  appends, prepends, removals, reversals, counts and visits ends, follows no freed pointer and
  returns what it returns on a list of HOL; freeing the list afterwards gives back exactly the heap there was
  before, so that no node leaks and no other memory is touched.
\<close>

theorem plist_is_list:
  assumes "fresh_malloc malloc" and "finite (dom h0)"
  shows "\<exists>list h. list_calls malloc cs None h0 = Some (Inr (fst (spec_list_calls cs []), list, h))
    \<and> p_list_foreach list (Some (#)) h [] = Some (Inr (rev (snd (spec_list_calls cs []))))
    \<and> p_list_free list h = Some (Inr h0)"
proof -
  have "owns h0 h0 None []"
    using assms(2) by (simp add: owns_def)
  then obtain list h where run: "list_calls malloc cs None h0 = Some (Inr (fst (spec_list_calls cs []), list, h))"
      "owns h0 h list (snd (spec_list_calls cs []))"
    using list_calls_refine [OF _ assms(1)] by blast
  moreover from run(2) have "p_list_foreach list (Some (#)) h [] = Some (Inr (rev (snd (spec_list_calls cs []))))"
    using p_list_foreach_chain [of h list _ _ "(#)" "[]"] by (auto simp: owns_def fold_Cons_rev)
  ultimately show ?thesis
    using free_restores [OF run(2)] by blast
qed

definition sample_malloc :: "'d plist_heap \<Rightarrow> nat" where
  "sample_malloc h = (LEAST a. h a = None)"

lemma sample_malloc_fresh: "fresh_malloc sample_malloc"
proof -
  have "h (sample_malloc h) = None" if fin: "finite (dom h)" for h :: "'a plist_heap"
  proof -
    obtain a where "a \<notin> dom h"
      using ex_new_if_finite [OF infinite_UNIV_nat fin] by blast
    then show ?thesis
      unfolding sample_malloc_def by (intro LeastI [of "\<lambda>a. h a = None"]) auto
  qed
  then show ?thesis by (simp add: fresh_malloc_def)
qed

theorem plist_is_list_witness:
  "\<exists>list h. list_calls sample_malloc
       [List_Prepend True CHR ''b'', List_Prepend True CHR ''a'', List_Append True CHR ''c'', List_Reverse, List_Remove CHR ''b'', List_Length, List_Visit]
       None Map.empty
     = Some (Inr ([List_Done, List_Done, List_Done, List_Done, List_Done, List_Number 2, List_Visited ''ca''], list, h))"
proof -
  have "fst (spec_list_calls [List_Prepend True CHR ''b'', List_Prepend True CHR ''a'', List_Append True CHR ''c'', List_Reverse,
          List_Remove CHR ''b'', List_Length, List_Visit] [])
      = [List_Done, List_Done, List_Done, List_Done, List_Done, List_Number 2, List_Visited ''ca'']"
    by code_simp
  then show ?thesis
    using plist_is_list [OF sample_malloc_fresh, of Map.empty] by (metis dom_empty finite.emptyI)
qed

end
