(* ===== verification/Spec2Isabelle.thy ===== *)
theory Spec2Isabelle
  imports TC_Thread_Pool TC_Task_Backlog TC_Protocol TC_Map_File TC_NBT_File TC_NBT_Copy TC_Handler TC_Lobby TC_Main
    TC_PTree TC_Tree_Foreach TC_PList
begin

text \<open>
  \<^bold>\<open>TeleClassic26.\<close> The repository is a server for Minecraft Classic written in C on plibsys (threads,
  locks, sockets, trees), zlib and libcurl. This library models the program's own code, all of
  \<^verbatim>\<open>src/src\<close> with its headers in \<^verbatim>\<open>src/include/TeleClassic26\<close>, the NBT library in \<^verbatim>\<open>src/cNBT\<close> that map files
  rest on, and of plibsys the code that is more than a system call: MD5, the search trees and the lists.

  \<^bold>\<open>The program.\<close> A pool of worker threads runs tasks from four ring buffers, one per priority. Every
  client is a session; its work is a chain of tasks, each of which schedules the next one. The
  listener task accepts clients, the listen task reads packets from the socket, assembles them and
  schedules their handlers. A handler holds the action lock of its session and checks the generation,
  a counter that moves on when the session ends, so that tasks of an earlier client in the same slot
  do nothing. Players are authenticated with salts that a heartbeat thread renews and announces to a
  server list. A player joins a world through the join router; the world sends its map, which the map
  cache loads from an NBT file on a worker, compressed and cut into chunks of 1024 bytes.

  \<^bold>\<open>How code becomes theory.\<close> A struct is a record with the fields of the source, an enum a datatype,
  machine integers are words (\<open>pchar\<close>, \<open>pint16\<close>, \<open>pint32\<close>, \<open>psize\<close>) or integers with the wrap-around written
  out. A function that changes state is a computation of type \<open>('s, 'a) cm\<close> (theory \<open>TC_Prelude\<close>): it
  ends with a result and a new state, or with a fault, which stands for what C leaves undefined or for a
  wait that never ends (\<open>OutOfBounds\<close>, \<open>NullDereference\<close>, \<open>UseAfterFree\<close>, \<open>Uninitialised\<close>,
  \<open>AssertFailure\<close>, \<open>SelfDeadlock\<close>, \<open>UnlockNotHeld\<close>). A loop that could run for ever is a partial function
  into \<open>option\<close>; the theorems about it say that it returns. \<open>runs F m s Q\<close> says that \<open>m\<close> started in \<open>s\<close> ends in
  \<open>Q\<close> or with a fault of \<open>F\<close>; with \<open>F\<close> empty it is total correctness. Calls of the libraries are
  parameters (random numbers, zlib, curl, the numbers of threads) or scripts of results (socket
  sends and reads, allocations). MD5 and the tree of used keys are parameters of the authentication too, and
  then instantiated with the code of plibsys.

  \<^bold>\<open>Theories.\<close>
  \<^item> \<open>TC_Prelude\<close>: types, faults, the computations and their rules, C strings. \<open>TC_Interfaces\<close>: the
    locales of a bounded queue, a growing buffer and a store of blocks, with what their clients need
    proved once; they are interpreted on the ring buffers, the backlog and the maps.
  \<^item> \<open>TC_Thread_Pool\<close> (\<^verbatim>\<open>thread_pool.c\<close>): the buffers, the round-robin dequeue, the scheduling functions and
    the workers as an interleaving step relation. Reachable states satisfy an invariant from which follow:
    a running task can always schedule its continuation, blocking tasks are capped, no eligible buffer
    starves, and after shutdown nothing is left.
  \<^item> \<open>TC_Task_Backlog\<close> (\<^verbatim>\<open>task_backlog.c\<close>): requests that wait for a result, in linked blocks on a heap;
    every accepted request is answered exactly once.
  \<^item> \<open>TC_Protocol\<close> (\<^verbatim>\<open>protocol.c\<close>): every packet, on the wire byte by byte, and the decoders. \<open>TC_Utils\<close>
    (\<^verbatim>\<open>utils.c\<close>): string comparison and compression.
  \<^item> \<open>TC_Map\<close> (\<^verbatim>\<open>map.h\<close>, \<^verbatim>\<open>positions.h\<close>): maps and their blocks. \<open>TC_NBT\<close> (\<^verbatim>\<open>cNBT\<close>): trees, search, parser and
    dump; \<open>TC_NBT_Tree\<close>: its traversals as lists of nodes; \<open>TC_NBT_Copy\<close>: copies, comparison and the dump as text; \<open>TC_NBT_File\<close>: its growing buffers, the chunked
    reading, writing and compression. \<open>TC_Map_File\<close> (\<^verbatim>\<open>map.c\<close>): loading and saving. Round trips at each level,
    and which files are accepted.
  \<^item> \<open>TC_Heartbeat\<close> (\<^verbatim>\<open>heartbeat.c\<close>): authentication and the heartbeat thread.
  \<^item> \<open>TC_MD5\<close> and \<open>TC_Crypto_Hash\<close> (\<^verbatim>\<open>pcryptohash-md5.c\<close>, \<^verbatim>\<open>pcryptohash.c\<close> of plibsys): the MD5 context with its
    buffer and counters, and the hash object, which refines the MD5 of RFC 1321 through the locale of a
    hash that is fed piece by piece.
  \<^item> \<open>TC_Tree_Base\<close>, \<open>TC_AVL\<close>, \<open>TC_RB\<close>, \<open>TC_BST\<close> (\<^verbatim>\<open>ptree-avl.c\<close>, \<^verbatim>\<open>ptree-rb.c\<close>, \<^verbatim>\<open>ptree-bst.c\<close>): nodes with the list of their
    ancestors in place of parent pointers, rotations, insertion and removal with their invariants, over the
    locale of an ordering of keys. \<open>TC_PTree\<close> (\<^verbatim>\<open>ptree.c\<close>): the container over the locale of a kind of tree,
    interpreted on all three; authentication with the real hash and the real tree. \<open>TC_Tree_Foreach\<close>:
    the traversal that threads the tree, on a heap. \<open>TC_PList\<close> (\<^verbatim>\<open>plist.c\<close>): the lists, on a heap.
  \<^item> \<open>TC_Server\<close> (\<^verbatim>\<open>server.c\<close>): sessions, the listen and listener tasks, kicks, start and stop, with an
    invariant of the server between tasks that the tasks keep; \<open>TC_Joinable\<close> (\<^verbatim>\<open>joinable.c\<close>): the router;
    \<open>TC_Handler\<close> (\<^verbatim>\<open>handler.c\<close>): the packet handlers. Worlds are reached through the locale of the contract
    in \<^verbatim>\<open>joinable.h\<close>, interpreted on the callbacks of \<^verbatim>\<open>main.c\<close>.
  \<^item> \<open>TC_Map_Cache\<close> (\<^verbatim>\<open>map_cache.c\<close>): entries on a heap with locks, loading and eviction, which refines
    one pass of the clock algorithm on a list.
  \<^item> \<open>TC_Api\<close> (\<^verbatim>\<open>api.c\<close>): sending a map, from the request to the last chunk. \<open>TC_Lobby\<close> (\<^verbatim>\<open>main.c\<close>): the
    world that the program registers.
  \<^item> \<open>TC_Lifecycle\<close> (\<^verbatim>\<open>server.c\<close>, \<^verbatim>\<open>main.c\<close>): creating and freeing everything, as a ledger of resources.
    \<open>TC_Log\<close> (\<^verbatim>\<open>log.c\<close>) and \<open>TC_Main\<close> (\<^verbatim>\<open>main.c\<close>): the log and the program as a whole.
  \<^item> This theory: the properties that span components.

  \<^bold>\<open>What the theorems show.\<close> Besides what the code achieves, several theorems state exactly where it
  does not do what its comments promise: keys that can be replayed with one character more, extensions
  and permissions that a saved map loses, an index of the map cache that is never filled, locks that are
  released twice or never, initialisation failures that wait for a thread that was not started, int arrays
  of which a clone keeps a quarter, trees that destroy a key they keep. They are
  stated as equations of the model, so they change when the code does.

  \<^bold>\<open>Bounds and fuel.\<close> The NBT parser recurses with fuel linear in the length of its input, which is proved
  to be enough on every input; all other functions are total or partial with a proof that they return.
  The fixed sizes of the source (128 sessions, 1024-byte chunks, 64-byte strings, the buffer sizes) are
  constants of the model. Block indices and memory counters keep their machine widths.

  \<^bold>\<open>Not modelled.\<close> The vendored libraries curl and zlib, of which only what the program uses appears;
  in plibsys the wrappers of the operating system (threads, locks, sockets, files, clocks) and the parts
  the program does not use (other hashes, hash table, ini files, shared memory); freeing single nodes of
  trees, which are values here; the constants of \<^verbatim>\<open>blocks.h\<close>, which no function uses, and \<open>tc_map_generate\<close>, which has no
  body. Memory orderings and the scheduling of threads inside one critical section are not modelled: a
  task between two lock operations is one step, and tasks of different sessions interleave at the steps of
  the pool. Log messages of the other components are left out. Allocation failures are modelled where the
  code reacts to them, except in \<^verbatim>\<open>map.c\<close>, where allocations succeed.
\<close>

section \<open>From memory to the disk and back\<close>

text \<open>The compression and the reading of a file as the map files use them, when memory does not run out.\<close>

definition disk_gz :: "nbt_zlib \<Rightarrow> cstring \<Rightarrow> cstring option" where
  "disk_gz z bytes = (case compress z bytes True [] of Some (Inr (_, b)) \<Rightarrow> buf_data b | _ \<Rightarrow> None)"

definition disk_unz :: "nbt_zlib \<Rightarrow> cstring \<Rightarrow> cstring option" where
  "disk_unz z content = (case read_file content False [] of
     Some (Inr (_, r)) \<Rightarrow> Option.bind (buf_data r) (\<lambda>bytes.
       case decompress z bytes [] of Some (Inr (_, b)) \<Rightarrow> buf_data b | _ \<Rightarrow> None)
   | _ \<Rightarrow> None)"

lemma disk_inverse:
  assumes z: "zlib_works z" and l: "length bytes < 2 ^ 32" "length (deflate_stream z 31 bytes) < 2 ^ 32"
  shows "disk_gz z bytes = Some (deflate_stream z 31 bytes) \<and> disk_unz z (deflate_stream z 31 bytes) = Some bytes"
  using compress_runs [OF z l(1), of True] read_file_runs [OF l(2)] decompress_runs [OF z l] l(2)
  by (auto simp: disk_gz_def disk_unz_def)

text \<open>
  [C31] A map survives the disk, through the buffers and loops of the NBT library: with memory and a zlib
  that works, saving a dirty map compresses and writes it in steps of 4096 bytes and ends with success,
  and reading the file, decompressing and parsing it ends with the map, except for the aspect extension
  and the negated permissions as \<open>reloaded\<close> says. Dump and file are below 4 GiB.
\<close>

theorem map_survives_disk:
  assumes m: "map_file_ok m" "map_strings_ok m" "is_dirty m" and z: "zlib_works z"
    and size: "\<And>root bytes. save_tree (m\<lparr>is_dirty := False\<rparr>) = Inr root \<Longrightarrow> nbt_dump_binary root = Inr (NBT_OK, bytes)
      \<Longrightarrow> length bytes < 2 ^ 32 \<and> length (deflate_stream z 31 bytes) < 2 ^ 32"
  shows "\<exists>file. tc_map_save (disk_gz z) True None old m = Inr (True, m\<lparr>is_dirty := False\<rparr>, Some file)
    \<and> tc_map_load now path (nbt_parse_path (disk_unz z) (Some file)) = Inr (Some (reloaded m))"
proof (rule save_load_file [OF m])
  fix root bytes
  assume "save_tree (m\<lparr>is_dirty := False\<rparr>) = Inr root" "nbt_dump_binary root = Inr (NBT_OK, bytes)"
  from disk_inverse [OF z, of bytes] size [OF this] show "\<exists>y. disk_gz z bytes = Some y \<and> disk_unz z y = Some bytes" by blast
qed

theorem map_survives_disk_witness:
  "\<exists>file. tc_map_save (disk_gz copy_zlib) True None None sample_map = Inr (True, sample_map\<lparr>is_dirty := False\<rparr>, Some file)
    \<and> tc_map_load 0 [] (nbt_parse_path (disk_unz copy_zlib) (Some file)) = Inr (Some (reloaded sample_map))"
proof (rule map_survives_disk [OF sample_map_ok copy_zlib_works])
  let ?m = "sample_map\<lparr>is_dirty := False\<rparr>"
  fix root bytes
  assume r: "save_tree ?m = Inr root" and b: "nbt_dump_binary root = Inr (NBT_OK, bytes)"
  have "node_ok True root" by (rule saved_tree_node_ok [OF _ _ r]) (simp_all add: sample_map_ok)
  then have n: "bytes = node_bytes root" using b dump_ok(1) by (simp add: nbt_dump_binary_def)
  have "length (node_bytes root) < 1000"
    using r by (auto simp: sample_map_def empty_map_def save_tree_def save_header_def save_blocks_def save_cpe_def save_origin_def
        save_times_def save_spawn_def save_env_weather_def opt_node_def make_simps nbt_make_byte_array_def nbt_make_def)
  with n show "length bytes < 2 ^ 32 \<and> length (deflate_stream copy_zlib 31 bytes) < 2 ^ 32" by (simp add: copy_zlib_def)
qed

section \<open>From the map file to the client\<close>

lemma gzip_inflates:
  fixes inflated :: "int \<Rightarrow> cstring \<Rightarrow> cstring option"
  assumes "\<And>c. inflated 31 (deflated z 31 c) = Some c" "length bl + 4 < 2 ^ 32"
    "tc_gzip_byte_array z m1 m2 bl = (True, \<lparr>sb_data = Some bs, sb_size = k\<rparr>)"
  shows "inflated 31 bs = Some (write_u32_be (of_nat (length bl)) @ bl) \<and> k = length bs"
  using assms
  by (auto simp: tc_gzip_byte_array_def deflate_finish_def Let_def write_u32_be_def empty_buffer_def split: if_splits)



end
